(* ===== verification/Prelude.thy ===== *)
theory Prelude
  imports Main "HOL-Library.Word" "HOL-Library.Sublist"
begin

unbundle bit_operations_syntax

text \<open>
  Shared vocabulary of the development: the machine integers of the Rust sources as words, byte
  strings, the string operations of the standard library the sources use (\<open>strip_prefix\<close>,
  \<open>split\<close>, \<open>trim_matches\<close>), saturating arithmetic, the tail of a byte stream, and two interfaces
  that several components implement: a consumer fed in chunks, and a state with an invariant that
  every event keeps.
\<close>

section \<open>Machine integers\<close>

type_synonym u8 = "8 word"
type_synonym u16 = "16 word"
type_synonym u32 = "32 word"
type_synonym u64 = "64 word"
type_synonym bytes = "8 word list"

named_theorems codes \<open>definitions of named constants, unfolded together\<close>
named_theorems framing \<open>rewrite rules of the byte-level codecs\<close>
named_theorems splits \<open>case analysis rules the component proofs share\<close>

text \<open>Rust's \<open>saturating_add\<close>, \<open>saturating_mul\<close> and \<open>saturating_sub\<close> on an unsigned word.\<close>

definition saturating_add :: "'a::len word \<Rightarrow> 'a word \<Rightarrow> 'a word" where
  "saturating_add a b =
     (if unat a + unat b < 2 ^ LENGTH('a) then a + b else - 1)"

definition saturating_mul :: "'a::len word \<Rightarrow> 'a word \<Rightarrow> 'a word" where
  "saturating_mul a b =
     (if unat a * unat b < 2 ^ LENGTH('a) then a * b else - 1)"

definition saturating_sub :: "'a::len word \<Rightarrow> 'a word \<Rightarrow> 'a word" where
  "saturating_sub a b = (if a < b then 0 else a - b)"

lemma unat_minus_one_max: "unat (- 1 :: 'a::len word) = 2 ^ LENGTH('a) - 1"
  by (simp add: unsigned_minus_1_eq_mask mask_eq_exp_minus_1)

lemma unat_saturating_add:
  "unat (saturating_add a b) = min (unat a + unat b) (2 ^ LENGTH('a) - 1)"
  for a b :: "'a::len word"
proof (cases "unat a + unat b < 2 ^ LENGTH('a)")
  case True
  then show ?thesis
    by (auto simp: saturating_add_def unat_word_ariths)
next
  case False
  then show ?thesis
    by (auto simp: saturating_add_def unat_minus_one_max)
qed

lemma unat_saturating_mul:
  "unat (saturating_mul a b) = min (unat a * unat b) (2 ^ LENGTH('a) - 1)"
  for a b :: "'a::len word"
proof (cases "unat a * unat b < 2 ^ LENGTH('a)")
  case True
  then show ?thesis
    by (auto simp: saturating_mul_def unat_word_ariths)
next
  case False
  then show ?thesis
    by (auto simp: saturating_mul_def unat_minus_one_max)
qed

lemma unat_saturating_sub: "unat (saturating_sub a b) = unat a - unat b"
  by (simp add: saturating_sub_def unat_sub_if' word_less_nat_alt)

lemma unat_ucast_u8: "unat (ucast (b :: u8) :: u32) = unat b"
proof -
  have "unat b < 2 ^ LENGTH(8)" by (rule unsigned_less)
  then show ?thesis by (simp add: unsigned_ucast_eq take_bit_nat_eq_self)
qed

section \<open>Lists and strings\<close>

text \<open>The last \<open>n\<close> elements, all of them when there are fewer.\<close>

definition last_n :: "nat \<Rightarrow> 'a list \<Rightarrow> 'a list" where
  "last_n n xs = drop (length xs - n) xs"

lemma length_last_n [simp]: "length (last_n n xs) = min n (length xs)"
  by (simp add: last_n_def)

lemma last_n_short: "length xs \<le> n \<Longrightarrow> last_n n xs = xs"
  by (simp add: last_n_def)

lemma last_n_last_n_append: "last_n n (last_n n xs @ ys) = last_n n (xs @ ys)"
proof (cases "length xs \<le> n")
  case True
  then show ?thesis by (simp add: last_n_short)
next
  case False
  then have "length (last_n n xs) = n" by simp
  with False show ?thesis
    by (auto simp: last_n_def add.commute)
qed

lemma suffix_last_n: "suffix (last_n n xs) xs"
  by (simp add: last_n_def suffix_drop)

text \<open>\<open>str::strip_prefix\<close>.\<close>

fun strip_prefix :: "'a list \<Rightarrow> 'a list \<Rightarrow> 'a list option" where
  "strip_prefix [] ys = Some ys"
| "strip_prefix (x # xs) [] = None"
| "strip_prefix (x # xs) (y # ys) = (if x = y then strip_prefix xs ys else None)"

lemma strip_prefix_append [simp]: "strip_prefix xs (xs @ ys) = Some ys"
  by (induction xs) simp_all

lemma strip_prefix_Some: "strip_prefix xs ys = Some zs \<longleftrightarrow> ys = xs @ zs"
  by (induction xs ys rule: strip_prefix.induct) auto

lemma strip_prefix_None: "strip_prefix xs ys = None \<longleftrightarrow> \<not> prefix xs ys"
  by (induction xs ys rule: strip_prefix.induct) auto

definition starts_with :: "'a list \<Rightarrow> 'a list \<Rightarrow> bool" where
  "starts_with ys xs = (strip_prefix xs ys \<noteq> None)"

lemma starts_with_iff: "starts_with ys xs \<longleftrightarrow> prefix xs ys"
  using strip_prefix_None [of xs ys] by (auto simp: starts_with_def)

text \<open>\<open>str::split(c)\<close>: the pieces between separators, at least one.\<close>

fun split_on :: "'a \<Rightarrow> 'a list \<Rightarrow> 'a list list" where
  "split_on c [] = [[]]"
| "split_on c (x # xs) =
     (if x = c then [] # split_on c xs
      else (case split_on c xs of [] \<Rightarrow> [[x]] | p # ps \<Rightarrow> (x # p) # ps))"

lemma split_on_not_Nil [simp]: "split_on c xs \<noteq> []"
  by (induction xs) (auto split: list.splits)

lemma split_on_no_sep: "c \<notin> set xs \<Longrightarrow> split_on c xs = [xs]"
  by (induction xs) auto

lemma split_on_append_sep:
  "split_on c (xs @ c # ys) = split_on c xs @ split_on c ys"
proof (induction xs)
  case (Cons x xs)
  then show ?case by (cases "split_on c xs") auto
qed simp

lemma split_on_pieces: "p \<in> set (split_on c xs) \<Longrightarrow> c \<notin> set p"
proof (induction xs arbitrary: p)
  case (Cons x xs)
  then show ?case by (cases "split_on c xs") (auto split: if_splits)
qed simp

text \<open>\<open>trim_start_matches\<close>, \<open>trim_end_matches\<close> and \<open>trim_matches\<close> for one character class.\<close>

definition trim_start :: "('a \<Rightarrow> bool) \<Rightarrow> 'a list \<Rightarrow> 'a list" where
  "trim_start p xs = dropWhile p xs"

definition trim_end :: "('a \<Rightarrow> bool) \<Rightarrow> 'a list \<Rightarrow> 'a list" where
  "trim_end p xs = rev (dropWhile p (rev xs))"

definition trim_both :: "('a \<Rightarrow> bool) \<Rightarrow> 'a list \<Rightarrow> 'a list" where
  "trim_both p xs = trim_end p (trim_start p xs)"

lemma trim_end_last: "trim_end p xs \<noteq> [] \<Longrightarrow> \<not> p (last (trim_end p xs))"
  by (metis hd_dropWhile hd_rev rev_is_Nil_conv rev_rev_ident trim_end_def)

lemma set_trim_end: "set (trim_end p xs) \<subseteq> set xs"
  unfolding trim_end_def by (metis set_dropWhileD set_rev subsetI)

lemma set_trim_both: "set (trim_both p xs) \<subseteq> set xs"
  using set_trim_end [of p "dropWhile p xs"] set_dropWhileD
  unfolding trim_both_def trim_start_def by fastforce

text \<open>
  \<open>str::trim().is_empty()\<close> on UTF-8 bytes: the text is a run of characters with the Unicode property
  \<open>White_Space\<close>. \<open>ws_len\<close> is the length in bytes of the white-space character a text begins with,
  zero when it begins with another.
\<close>

definition ws_len :: "string \<Rightarrow> nat" where
  "ws_len s =
     (let b = (\<lambda>i. if i < length s then of_char (s ! i) else (0 :: nat)) in
      if s = [] then 0
      else if (9 \<le> b 0 \<and> b 0 \<le> 13) \<or> b 0 = 32 then 1
      else if b 0 = 0xC2 \<and> (b 1 = 0x85 \<or> b 1 = 0xA0) then 2
      else if b 0 = 0xE1 \<and> b 1 = 0x9A \<and> b 2 = 0x80
           \<or> b 0 = 0xE2 \<and> b 1 = 0x80 \<and> (0x80 \<le> b 2 \<and> b 2 \<le> 0x8A \<or> b 2 = 0xA8 \<or> b 2 = 0xA9 \<or> b 2 = 0xAF)
           \<or> b 0 = 0xE2 \<and> b 1 = 0x81 \<and> b 2 = 0x9F
           \<or> b 0 = 0xE3 \<and> b 1 = 0x80 \<and> b 2 = 0x80 then 3
      else 0)"

function is_blank :: "string \<Rightarrow> bool" where
  "is_blank s =
     (if s = [] then True else if ws_len s = 0 then False else is_blank (drop (ws_len s) s))"
  by pat_completeness auto
termination
  by (relation "measure length") auto

declare is_blank.simps [simp del]

lemma is_blank_Nil [simp]: "is_blank []"
  by (subst is_blank.simps) simp

text \<open>\<open>slice::chunks(n)\<close>: pieces of \<open>n\<close> elements, the last one shorter. A piece length of zero
  panics in the source and is never asked for.\<close>

function chunk_list :: "nat \<Rightarrow> 'a list \<Rightarrow> 'a list list" where
  "chunk_list n xs =
     (if xs = [] \<or> n = 0 then [] else take n xs # chunk_list n (drop n xs))"
  by pat_completeness auto
termination
  by (relation "measure (\<lambda>(n, xs). length xs)") auto

declare chunk_list.simps [simp del]

lemma chunk_list_Nil [simp]: "chunk_list n [] = []"
  by (simp add: chunk_list.simps)

lemma concat_chunk_list [simp]: "0 < n \<Longrightarrow> concat (chunk_list n xs) = xs"
proof (induction n xs rule: chunk_list.induct)
  case (1 n xs)
  then show ?case by (subst chunk_list.simps) auto
qed

lemma chunk_list_pieces: "p \<in> set (chunk_list n xs) \<Longrightarrow> p \<noteq> [] \<and> length p \<le> n"
proof (induction n xs rule: chunk_list.induct)
  case (1 n xs)
  then show ?case by (subst (asm) (2) chunk_list.simps) (auto split: if_splits)
qed

text \<open>Decimal text of a number, as \<open>to_string\<close> and \<open>format!\<close> write it.\<close>

function nat_text :: "nat \<Rightarrow> string" where
  "nat_text n =
     (if n < 10 then [char_of (48 + n)] else nat_text (n div 10) @ [char_of (48 + n mod 10)])"
  by pat_completeness auto
termination
  by (relation "measure id") auto

declare nat_text.simps [simp del]

definition int_text :: "int \<Rightarrow> string" where
  "int_text i = (if i < 0 then ''-'' @ nat_text (nat (- i)) else nat_text (nat i))"

section \<open>A consumer fed in chunks\<close>

text \<open>
  Several components consume a stream that arrives in arbitrary pieces (reads of a socket, of the
  PTY). Their contract, on the states they can be in: feeding nothing changes nothing, and feeding
  two pieces in turn is feeding their concatenation. Then no way of cutting the stream matters.
\<close>

locale chunked =
  fixes feed :: "'s \<Rightarrow> 'a list \<Rightarrow> 's"
    and ok :: "'s \<Rightarrow> bool"
  assumes feed_ok: "ok s \<Longrightarrow> ok (feed s xs)"
    and feed_Nil: "ok s \<Longrightarrow> feed s [] = s"
    and feed_append: "ok s \<Longrightarrow> feed s (xs @ ys) = feed (feed s xs) ys"
begin

lemma foldl_feed: "ok s \<Longrightarrow> foldl feed s chunks = feed s (concat chunks)"
  by (induction chunks arbitrary: s) (simp_all add: feed_Nil feed_append feed_ok)

lemma same_stream:
  "ok s \<Longrightarrow> concat as = concat bs \<Longrightarrow> foldl feed s as = foldl feed s bs"
  by (simp add: foldl_feed)

end

section \<open>A state with an invariant every event keeps\<close>

locale invariant_fold =
  fixes step :: "'s \<Rightarrow> 'e \<Rightarrow> 's"
    and inv :: "'s \<Rightarrow> bool"
  assumes step_inv: "inv s \<Longrightarrow> inv (step s e)"
begin

lemma foldl_inv: "inv s \<Longrightarrow> inv (foldl step s es)"
  by (induction es arbitrary: s) (simp_all add: step_inv)

end

end
