(* ===== verification/Vt_Filter.thy ===== *)
theory Vt_Filter
  imports Prelude "HOL-Library.Multiset"
begin

text \<open>
  The terminal-output filter of the session supervisor
  (\<^verbatim>\<open>crates/willie-sess/src/vt_filter.rs\<close>): a byte automaton between the PTY and the attached
  terminals that drops the escape sequences which act on the host. The state is the struct
  \<open>VtFilter\<close>; \<open>vt_step\<close> is \<open>step\<close> with its reprocessing recursion; \<open>vt_feed\<close> is \<open>feed\<close>. A step
  returns the new filter, the bytes it appends to \<open>out\<close> and the names it appends to \<open>dropped\<close>.

  Shown: the buffer bounds and the shape of the buffer in every state, that the forwarded bytes
  are a subsequence of the input, that the way the output is cut into reads does not matter, that
  on a stream of whole sequences the filter is exactly the drop policy (drawing sequences pass
  byte for byte, acting ones vanish and are named), that padding an OSC number never lets it
  through, and where splicing two sequences defeats the filter.
\<close>

section \<open>The automaton\<close>

definition OSC_ID_CAP :: nat where [codes]: "OSC_ID_CAP = 16"
definition CSI_CAP :: nat where [codes]: "CSI_CAP = 256"

datatype vt_state =
    Ground | Utf8C2 | Esc | Csi | OscId | DcsId | Str | StrEsc | StrC2

record vt_filter =
  vstate :: vt_state
  buf :: bytes
  csi_over :: bool
  osc_num :: u32
  osc_seen :: bool
  osc_over :: bool
  dcs_over :: bool
  str_drop :: bool
  str_bel :: bool

definition vt_new :: vt_filter where
  "vt_new = \<lparr>vstate = Ground, buf = [], csi_over = False, osc_num = 0, osc_seen = False,
     osc_over = False, dcs_over = False, str_drop = False, str_bel = False\<rparr>"

definition is_ascii_digit :: "u8 \<Rightarrow> bool" where
  "is_ascii_digit b \<longleftrightarrow> 0x30 \<le> b \<and> b \<le> 0x39"

text \<open>The value of a run of ASCII digits, unbounded, and \<open>parse::<u32>\<close> of such a run.\<close>

definition dec_value :: "bytes \<Rightarrow> nat" where
  "dec_value ds = foldl (\<lambda>n d. n * 10 + unat (d - 0x30)) 0 ds"

definition parse_u32 :: "bytes \<Rightarrow> nat option" where
  "parse_u32 ds = (if ds = [] \<or> 2 ^ 32 \<le> dec_value ds then None else Some (dec_value ds))"

text \<open>Whether a CSI ending in a given final byte acts on the host.\<close>

definition csi_decision :: "bytes \<Rightarrow> u8 \<Rightarrow> string option" where
  "csi_decision pre final =
     (if final \<noteq> 0x74 then None
      else let content = drop 2 pre in
        if content \<noteq> [] \<and> hd content = 0x3e then Some ''title''
        else let rest = dropWhile (\<lambda>c. c = 0x3f \<or> c = 0x3c \<or> c = 0x3d) content;
                 param = parse_u32 (takeWhile is_ascii_digit rest)
             in (case param of
                   None \<Rightarrow> Some ''window''
                 | Some p \<Rightarrow> if p \<in> {11, 13, 14, 16, 18, 19} then None else Some ''window''))"

text \<open>Whether an OSC acts on the host, from the number parsed so far.\<close>

definition osc_decision :: "bool \<Rightarrow> u32 \<Rightarrow> string option" where
  "osc_decision seen num =
     (let num = (if seen then num else 0) in
      if num = 52 then Some ''clipboard''
      else if num \<le> 2 then Some ''title''
      else None)"

definition vt_enter_str :: "bool \<Rightarrow> bool \<Rightarrow> vt_filter \<Rightarrow> vt_filter" where
  "vt_enter_str dropped bel f = f\<lparr>vstate := Str, str_drop := dropped, str_bel := bel, buf := []\<rparr>"

definition vt_open :: "bytes \<Rightarrow> vt_state \<Rightarrow> vt_filter \<Rightarrow> vt_filter" where
  "vt_open introducer st f =
     f\<lparr>buf := introducer, csi_over := False, osc_num := 0, osc_seen := False,
       osc_over := False, dcs_over := False, vstate := st\<rparr>"

text \<open>Bytes and names appended before a byte is handed to another state.\<close>

definition emit :: "bytes \<Rightarrow> string list \<Rightarrow> 'f \<times> bytes \<times> string list \<Rightarrow> 'f \<times> bytes \<times> string list" where
  "emit os ds r = (case r of (f, o', d') \<Rightarrow> (f, os @ o', ds @ d'))"

text \<open>The byte classes of the match arms: final bytes, parameter and intermediate bytes, UTF-8
  continuation bytes.\<close>

definition final_byte :: "u8 \<Rightarrow> bool" where
  "final_byte b \<longleftrightarrow> 0x40 \<le> b \<and> b \<le> 0x7e"

definition param_byte :: "u8 \<Rightarrow> bool" where
  "param_byte b \<longleftrightarrow> 0x20 \<le> b \<and> b \<le> 0x3f"

definition cont_byte :: "u8 \<Rightarrow> bool" where
  "cont_byte b \<longleftrightarrow> 0x80 \<le> b \<and> b \<le> 0xbf"

lemma param_not_final: "param_byte b \<Longrightarrow> \<not> final_byte b"
  by (simp add: param_byte_def final_byte_def word_le_nat_alt)

text \<open>The C0 controls that leave a CSI, an OSC number or a DCS introduction open.\<close>

definition csi_c0 :: "u8 \<Rightarrow> bool" where
  "csi_c0 b \<longleftrightarrow> b \<le> 0x17 \<or> b = 0x19 \<or> (0x1c \<le> b \<and> b \<le> 0x1f)"

definition osc_skip :: "u8 \<Rightarrow> bool" where
  "osc_skip b \<longleftrightarrow> b \<le> 0x06 \<or> (0x08 \<le> b \<and> b \<le> 0x17) \<or> b = 0x19 \<or> (0x1c \<le> b \<and> b \<le> 0x1f)
     \<or> b = 0x7f"

definition dcs_skip :: "u8 \<Rightarrow> bool" where
  "dcs_skip b \<longleftrightarrow> b \<le> 0x17 \<or> b = 0x19 \<or> (0x1c \<le> b \<and> b \<le> 0x1f) \<or> b = 0x7f"

text \<open>
  How often a byte can still be handed on: the escape seen inside a string goes to the escape
  state and from there to ground, everything else goes to a state that handles the byte itself.
\<close>

fun vt_rank :: "vt_state \<Rightarrow> nat" where
  "vt_rank Ground = 0"
| "vt_rank Str = 0"
| "vt_rank StrEsc = 2"
| "vt_rank _ = 1"

function vt_step :: "vt_filter \<Rightarrow> u8 \<Rightarrow> vt_filter \<times> bytes \<times> string list" where
  "vt_step f b = (case vstate f of
     Ground \<Rightarrow>
       (if b = 0x1b then (f\<lparr>vstate := Esc\<rparr>, [], [])
        else if b = 0xc2 then (f\<lparr>vstate := Utf8C2\<rparr>, [], [])
        else (f, [b], []))
   | Utf8C2 \<Rightarrow>
       (if b = 0x9b then (vt_open [0xc2, 0x9b] Csi f, [], [])
        else if b = 0x9d then (vt_open [0xc2, 0x9d] OscId f, [], [])
        else if b = 0x90 then (vt_open [0xc2, 0x90] DcsId f, [], [])
        else if cont_byte b then (f\<lparr>vstate := Ground\<rparr>, [0xc2, b], [])
        else emit [0xc2] [] (vt_step (f\<lparr>vstate := Ground\<rparr>) b))
   | Esc \<Rightarrow>
       (if b = 0x5b then (vt_open [0x1b, 0x5b] Csi f, [], [])
        else if b = 0x5d then (vt_open [0x1b, 0x5d] OscId f, [], [])
        else if b = 0x50 then (vt_open [0x1b, 0x50] DcsId f, [], [])
        else emit [0x1b] [] (vt_step (f\<lparr>vstate := Ground\<rparr>) b))
   | Csi \<Rightarrow>
       (if final_byte b then
          (let f' = f\<lparr>buf := [], csi_over := False, vstate := Ground\<rparr> in
           case csi_decision (buf f) b of
             Some name \<Rightarrow> (f', [], [name])
           | None \<Rightarrow> if csi_over f then (f', [], []) else (f', buf f @ [b], []))
        else if param_byte b then
          (if csi_over f then (f, [], [])
           else (f\<lparr>buf := buf f @ [b], csi_over := CSI_CAP \<le> length (buf f @ [b])\<rparr>, [], []))
        else if csi_c0 b then (f, [b], [])
        else if b = 0x7f then (f, [], [])
        else emit (if csi_over f then [] else buf f) []
               (vt_step (f\<lparr>buf := [], csi_over := False, vstate := Ground\<rparr>) b))
   | OscId \<Rightarrow>
       (if is_ascii_digit b then
          (let f' = f\<lparr>osc_seen := True,
                      osc_num := saturating_add (saturating_mul (osc_num f) 10)
                                   (ucast (b - 0x30))\<rparr> in
           if osc_over f then (f', [], [])
           else (f'\<lparr>buf := buf f @ [b], osc_over := OSC_ID_CAP \<le> length (buf f @ [b])\<rparr>, [], []))
        else if osc_skip b then (f, [], [])
        else
          (let terminator = (b = 0x07 \<or> b = 0x1b \<or> b = 0xc2) in
           case osc_decision (osc_seen f) (osc_num f) of
             Some name \<Rightarrow>
               (let f' = vt_enter_str True True f in
                if terminator then emit [] [name] (vt_step f' b) else (f', [], [name]))
           | None \<Rightarrow>
               if osc_over f then
                 (let f' = vt_enter_str True True f in
                  if terminator then vt_step f' b else (f', [], []))
               else emit (buf f) [] (vt_step (vt_enter_str False True f) b)))
   | DcsId \<Rightarrow>
       (if param_byte b then
          (if dcs_over f then (f, [], [])
           else (f\<lparr>buf := buf f @ [b], dcs_over := OSC_ID_CAP \<le> length (buf f @ [b])\<rparr>, [], []))
        else if final_byte b then
          (if dcs_over f \<or> (b = 0x71 \<and> buf f \<noteq> [] \<and> (last (buf f) = 0x24 \<or> last (buf f) = 0x2b))
           then (vt_enter_str True False f, [], [''query_echo''])
           else (vt_enter_str False False f, buf f @ [b], []))
        else if dcs_skip b then (f, [], [])
        else if dcs_over f then
          emit [] [''query_echo''] (vt_step (vt_enter_str True False f) b)
        else emit (buf f) [] (vt_step (vt_enter_str False False f) b))
   | Str \<Rightarrow>
       (if b = 0x07 \<and> str_bel f then
          (f\<lparr>vstate := Ground\<rparr>, if str_drop f then [] else [0x07], [])
        else if b = 0x1b then (f\<lparr>vstate := StrEsc\<rparr>, [], [])
        else if b = 0xc2 then (f\<lparr>vstate := StrC2\<rparr>, [], [])
        else (f, if str_drop f then [] else [b], []))
   | StrEsc \<Rightarrow>
       (if b = 0x5c then
          (f\<lparr>vstate := Ground\<rparr>, if str_drop f then [] else [0x1b, 0x5c], [])
        else vt_step (f\<lparr>vstate := Esc\<rparr>) b)
   | StrC2 \<Rightarrow>
       (if b = 0x9c then
          (f\<lparr>vstate := Ground\<rparr>, if str_drop f then [] else [0xc2, 0x9c], [])
        else if cont_byte b then
          (f\<lparr>vstate := Str\<rparr>, if str_drop f then [] else [0xc2, b], [])
        else emit (if str_drop f then [] else [0xc2]) [] (vt_step (f\<lparr>vstate := Str\<rparr>) b)))"
  by pat_completeness auto
termination
  by (relation "measure (\<lambda>(f, b). vt_rank (vstate f))") (auto simp: vt_enter_str_def)

declare vt_step.simps [simp del]

text \<open>\<open>feed\<close>: one chunk, the forwarded bytes and the dropped names in order.\<close>

fun vt_feed :: "vt_filter \<Rightarrow> bytes \<Rightarrow> vt_filter \<times> bytes \<times> string list" where
  "vt_feed f [] = (f, [], [])"
| "vt_feed f (b # bs) =
     (case vt_step f b of (f', os, ds) \<Rightarrow> emit os ds (vt_feed f' bs))"


section \<open>Feeding\<close>

lemma emit_simps [simp]: "emit os ds (f, o', d') = (f, os @ o', ds @ d')"
  by (simp add: emit_def)

lemma emit_emit [simp]: "emit os ds (emit os' ds' r) = emit (os @ os') (ds @ ds') r"
  by (cases r) simp

lemma emit_Nil [simp]: "emit [] [] r = r"
  by (cases r) simp

lemma fst_emit [simp]: "fst (emit os ds r) = fst r"
  by (cases r) simp

lemma vt_feed_append:
  "vt_feed f (xs @ ys) = (case vt_feed f xs of (f', os, ds) \<Rightarrow> emit os ds (vt_feed f' ys))"
  by (induction xs arbitrary: f) (auto split: prod.splits)

lemma vt_feed_one [simp]: "vt_feed f [b] = vt_step f b"
  by (auto split: prod.splits)

text \<open>The filter with its two accumulators, as the pump of the supervisor keeps them.\<close>

definition vt_run :: "vt_filter \<times> bytes \<times> string list \<Rightarrow> bytes \<Rightarrow> vt_filter \<times> bytes \<times> string list" where
  "vt_run s xs = (case s of (f, os, ds) \<Rightarrow> emit os ds (vt_feed f xs))"

interpretation vt: chunked vt_run "\<lambda>_. True"
  by unfold_locales (auto simp: vt_run_def vt_feed_append split: prod.splits)

text \<open>Everything the filter is holding back, in the order it arrived.\<close>

fun vt_pending :: "vt_filter \<Rightarrow> bytes" where
  "vt_pending f = (case vstate f of
     Ground \<Rightarrow> [] | Utf8C2 \<Rightarrow> [0xc2] | Esc \<Rightarrow> [0x1b]
   | Csi \<Rightarrow> buf f | OscId \<Rightarrow> buf f | DcsId \<Rightarrow> buf f
   | Str \<Rightarrow> [] | StrEsc \<Rightarrow> [0x1b] | StrC2 \<Rightarrow> [0xc2])"

section \<open>The invariant\<close>

definition intro_of :: "vt_state \<Rightarrow> bytes set" where
  "intro_of st = (case st of
     Csi \<Rightarrow> {[0x1b, 0x5b], [0xc2, 0x9b]}
   | OscId \<Rightarrow> {[0x1b, 0x5d], [0xc2, 0x9d]}
   | DcsId \<Rightarrow> {[0x1b, 0x50], [0xc2, 0x90]}
   | _ \<Rightarrow> {})"

definition param_ok :: "vt_state \<Rightarrow> u8 \<Rightarrow> bool" where
  "param_ok st b = (if st = OscId then is_ascii_digit b else param_byte b)"

definition identifying :: "vt_state \<Rightarrow> bool" where
  "identifying st \<longleftrightarrow> st \<in> {Csi, OscId, DcsId}"

definition vt_cap :: "vt_state \<Rightarrow> nat" where
  "vt_cap st = (if st = Csi then CSI_CAP else if identifying st then OSC_ID_CAP else 0)"

definition vt_over :: "vt_filter \<Rightarrow> bool" where
  "vt_over f = (case vstate f of Csi \<Rightarrow> csi_over f | OscId \<Rightarrow> osc_over f | DcsId \<Rightarrow> dcs_over f | _ \<Rightarrow> False)"

definition vt_wf :: "vt_filter \<Rightarrow> bool" where
  "vt_wf f \<longleftrightarrow>
     (if identifying (vstate f)
      then take 2 (buf f) \<in> intro_of (vstate f)
           \<and> (\<forall>b \<in> set (drop 2 (buf f)). param_ok (vstate f) b)
           \<and> length (buf f) \<le> vt_cap (vstate f)
           \<and> (vt_over f \<longleftrightarrow> length (buf f) = vt_cap (vstate f))
      else buf f = [])"

lemmas vt_wf_defs = vt_wf_def identifying_def intro_of_def param_ok_def vt_cap_def vt_over_def
  OSC_ID_CAP_def CSI_CAP_def

lemma vt_wf_new: "vt_wf vt_new"
  by (simp add: vt_wf_defs vt_new_def)

lemma vt_wf_ground: "vt_wf (f\<lparr>buf := [], csi_over := c, vstate := Ground\<rparr>)"
  by (simp add: vt_wf_defs)

lemma vt_wf_str: "vt_wf (vt_enter_str d bel f)"
  by (simp add: vt_wf_defs vt_enter_str_def)

lemma vt_wf_open:
  "intr \<in> intro_of st \<Longrightarrow> vt_wf (vt_open intr st f)"
  by (cases st) (auto simp: vt_wf_defs vt_open_def)

lemma vt_wf_set_state:
  "vt_wf f \<Longrightarrow> \<not> identifying (vstate f) \<Longrightarrow> \<not> identifying st \<Longrightarrow> vt_wf (f\<lparr>vstate := st\<rparr>)"
  by (simp add: vt_wf_def)

lemma vt_wf_buf: "vt_wf f \<Longrightarrow> identifying (vstate f) \<Longrightarrow> 2 \<le> length (buf f)"
  by (cases "vstate f"; cases "buf f"; cases "tl (buf f)") (auto simp: vt_wf_defs)

text \<open>One unfolding of the automaton per state; the recursive calls stay folded.\<close>

lemmas vt_unfold = vt_step.simps [of f b] for f b

lemma vt_wf_not_ident [simp]: "\<not> identifying (vstate f) \<Longrightarrow> vt_wf f \<longleftrightarrow> buf f = []"
  by (simp add: vt_wf_def)

lemma identifying_simps [simp]:
  "\<not> identifying Ground" "\<not> identifying Utf8C2" "\<not> identifying Esc" "identifying Csi"
  "identifying OscId" "identifying DcsId" "\<not> identifying Str" "\<not> identifying StrEsc"
  "\<not> identifying StrC2"
  by (simp_all add: identifying_def)

lemma vt_wf_push:
  assumes "vt_wf f" and "identifying (vstate f)" and "\<not> vt_over f" and "param_ok (vstate f) b"
    and "buf f' = buf f @ [b]" and "vstate f' = vstate f"
    and "vt_over f' \<longleftrightarrow> vt_cap (vstate f) \<le> length (buf f @ [b])"
  shows "vt_wf f'"
proof -
  from vt_wf_buf [OF assms(1,2)] have "take 2 (buf f @ [b]) = take 2 (buf f)"
    and "drop 2 (buf f @ [b]) = drop 2 (buf f) @ [b]" by simp_all
  with assms show ?thesis by (auto simp: vt_wf_def)
qed

lemma vt_step_wf_ground:
  "vstate f = Ground \<Longrightarrow> vt_wf f \<Longrightarrow> vt_wf (fst (vt_step f b))"
  by (simp add: vt_unfold [of f b])

lemma vt_step_wf_str:
  "vstate f = Str \<Longrightarrow> vt_wf f \<Longrightarrow> vt_wf (fst (vt_step f b))"
  by (simp add: vt_unfold [of f b])

lemma vt_step_wf_esc:
  assumes "vstate f = Esc" and "vt_wf f"
  shows "vt_wf (fst (vt_step f b))"
  using assms
  by (auto simp: vt_unfold [of f b] intro!: vt_wf_open vt_step_wf_ground)
     (auto simp: intro_of_def)

lemma vt_step_wf_csi:
  assumes "vstate f = Csi" and "vt_wf f"
  shows "vt_wf (fst (vt_step f b))"
proof -
  have "vt_wf (f\<lparr>buf := buf f @ [b], csi_over := CSI_CAP \<le> length (buf f @ [b])\<rparr>)"
    if "param_byte b" "\<not> csi_over f"
    using assms that
    by - (rule vt_wf_push [of f b], auto simp: vt_over_def param_ok_def vt_cap_def)
  with assms show ?thesis
    by (auto simp: vt_unfold [of f b] Let_def intro!: vt_step_wf_ground split: option.splits)
qed

lemma vt_step_wf_osc:
  assumes "vstate f = OscId" and "vt_wf f"
  shows "vt_wf (fst (vt_step f b))"
proof -
  let ?n = "saturating_add (saturating_mul (osc_num f) 10) (ucast (b - 0x30))"
  have "vt_wf (f\<lparr>osc_seen := True, osc_num := ?n, buf := buf f @ [b],
           osc_over := OSC_ID_CAP \<le> length (buf f @ [b])\<rparr>)"
    if "is_ascii_digit b" "\<not> osc_over f"
    using assms that
    by - (rule vt_wf_push [of f b], auto simp: vt_over_def param_ok_def vt_cap_def)
  moreover have "vt_wf (f\<lparr>osc_seen := True, osc_num := ?n\<rparr>)"
    using assms by (simp add: vt_wf_def vt_over_def)
  ultimately show ?thesis using assms
    by (auto simp: vt_unfold [of f b] Let_def vt_wf_str vt_enter_str_def
        intro!: vt_step_wf_str split: option.splits)
qed

lemma vt_step_wf_dcs:
  assumes "vstate f = DcsId" and "vt_wf f"
  shows "vt_wf (fst (vt_step f b))"
proof -
  have "vt_wf (f\<lparr>buf := buf f @ [b], dcs_over := OSC_ID_CAP \<le> length (buf f @ [b])\<rparr>)"
    if "param_byte b" "\<not> dcs_over f"
    using assms that
    by - (rule vt_wf_push [of f b], auto simp: vt_over_def param_ok_def vt_cap_def)
  with assms show ?thesis
    by (auto simp: vt_unfold [of f b] vt_wf_str vt_enter_str_def intro!: vt_step_wf_str)
qed

lemma vt_step_wf:
  assumes "vt_wf f"
  shows "vt_wf (fst (vt_step f b))"
proof (cases "vstate f")
  case Utf8C2
  with assms show ?thesis
    by (auto simp: vt_unfold [of f b] intro!: vt_wf_open vt_step_wf_ground)
       (auto simp: intro_of_def)
next
  case StrEsc
  with assms show ?thesis
    by (auto simp: vt_unfold [of f b] intro!: vt_step_wf_esc)
next
  case StrC2
  with assms show ?thesis
    by (auto simp: vt_unfold [of f b] intro!: vt_step_wf_str)
qed (use assms in \<open>auto intro: vt_step_wf_ground vt_step_wf_str vt_step_wf_esc vt_step_wf_csi
      vt_step_wf_osc vt_step_wf_dcs\<close>)

lemma vt_feed_wf: "vt_wf f \<Longrightarrow> vt_wf (fst (vt_feed f bs))"
proof (induction bs arbitrary: f)
  case (Cons b bs)
  from vt_step_wf [OF Cons.prems, of b] Cons.IH show ?case
    by (auto split: prod.splits)
qed simp

section \<open>Nothing is invented\<close>

text \<open>
  A C0 control inside a CSI is forwarded at once and so overtakes the introducer held back; the
  forwarded bytes are therefore compared with the input as multisets.
\<close>

definition vt_conserves :: "bytes \<Rightarrow> vt_filter \<times> bytes \<times> string list \<Rightarrow> bool" where
  "vt_conserves inp r \<longleftrightarrow> (case r of (f', os, ds) \<Rightarrow> mset os + mset (vt_pending f') \<subseteq># mset inp)"

lemma vt_conserves_emit:
  "vt_conserves inp r \<Longrightarrow> mset os + mset inp \<subseteq># mset inp' \<Longrightarrow> vt_conserves inp' (emit os ds r)"
  by (cases r) (auto simp: vt_conserves_def add.assoc intro: subset_mset.order_trans
      [OF subset_mset.add_left_mono])

lemma vt_conserves_mono: "vt_conserves inp r \<Longrightarrow> mset inp \<subseteq># mset inp' \<Longrightarrow> vt_conserves inp' r"
  using vt_conserves_emit [of inp r "[]" inp' "[]"] by simp

lemma vt_conserves_ground: "vstate f = Ground \<Longrightarrow> vt_conserves [b] (vt_step f b)"
  by (simp add: vt_unfold [of f b] vt_conserves_def)

lemma vt_conserves_str: "vstate f = Str \<Longrightarrow> vt_conserves [b] (vt_step f b)"
  by (simp add: vt_unfold [of f b] vt_conserves_def)

lemma vt_enter_str_sel [simp]:
  "vstate (vt_enter_str d bel f) = Str" "buf (vt_enter_str d bel f) = []"
  "str_drop (vt_enter_str d bel f) = d" "str_bel (vt_enter_str d bel f) = bel"
  by (simp_all add: vt_enter_str_def)

lemma vt_conserves_enter_str: "vt_conserves [b] (vt_step (vt_enter_str d bel f) b)"
  by (rule vt_conserves_str) simp

lemma vt_conserves_esc: "vstate f = Esc \<Longrightarrow> vt_conserves [0x1b, b] (vt_step f b)"
  using vt_conserves_ground [of "f\<lparr>vstate := Ground\<rparr>" b]
  by (auto simp: vt_unfold [of f b] vt_conserves_def [of _ "(_, _)"] vt_open_def
      intro: vt_conserves_emit)

lemma vt_conserves_step: "vt_conserves (vt_pending f @ [b]) (vt_step f b)"
proof (cases "vstate f")
  case Ground
  then show ?thesis using vt_conserves_ground by simp
next
  case Str
  then show ?thesis using vt_conserves_str by simp
next
  case Esc
  then show ?thesis using vt_conserves_esc by simp
next
  case Utf8C2
  then show ?thesis using vt_conserves_ground [of "f\<lparr>vstate := Ground\<rparr>" b]
    by (auto simp: vt_unfold [of f b] vt_conserves_def [of _ "(_, _)"] vt_open_def
        intro: vt_conserves_emit)
next
  case StrEsc
  then show ?thesis using vt_conserves_esc [of "f\<lparr>vstate := Esc\<rparr>" b]
    by (auto simp: vt_unfold [of f b] vt_conserves_def [of _ "(_, _)"])
next
  case StrC2
  have "vt_conserves [b] (vt_step (f\<lparr>vstate := Str\<rparr>) b)" by (simp add: vt_conserves_str)
  with StrC2 show ?thesis
    by (auto simp: vt_unfold [of f b] vt_conserves_def [of _ "(_, _)"]
        intro: vt_conserves_emit vt_conserves_mono)
next
  case Csi
  have "vt_conserves [b] (vt_step (f\<lparr>buf := [], csi_over := False, vstate := Ground\<rparr>) b)"
    by (simp add: vt_conserves_ground)
  with Csi show ?thesis
    by (auto simp: vt_unfold [of f b] Let_def vt_conserves_def [of _ "(_, _)"]
        intro: vt_conserves_emit vt_conserves_mono split: option.splits)
next
  case OscId
  with vt_conserves_enter_str [of b True True f] vt_conserves_enter_str [of b False True f]
  show ?thesis
    by (auto simp: vt_unfold [of f b] Let_def vt_conserves_def [of _ "(_, _)"]
        intro: vt_conserves_emit vt_conserves_mono split: option.splits)
next
  case DcsId
  with vt_conserves_enter_str [of b True False f] vt_conserves_enter_str [of b False False f]
  show ?thesis
    by (auto simp: vt_unfold [of f b] vt_conserves_def [of _ "(_, _)"]
        intro: vt_conserves_emit vt_conserves_mono)
qed

lemma vt_conserves_feed: "vt_conserves (vt_pending f @ bs) (vt_feed f bs)"
proof (induction bs arbitrary: f)
  case Nil
  then show ?case by (simp add: vt_conserves_def)
next
  case (Cons b bs)
  obtain f' os ds where st: "vt_step f b = (f', os, ds)" by (metis prod_cases3)
  from vt_conserves_step [of f b] st
  have "mset os + mset (vt_pending f') \<subseteq># mset (vt_pending f @ [b])"
    by (simp add: vt_conserves_def)
  then have "mset os + mset (vt_pending f' @ bs) \<subseteq># mset (vt_pending f @ b # bs)"
    by (simp add: subset_mset.add_right_mono flip: add.assoc)
  with Cons.IH [of f'] st show ?case by (simp add: vt_conserves_emit)
qed

section \<open>Whole sequences\<close>

text \<open>
  The streams an emulator sees are sequences of whole tokens. The drop policy is stated on them:
  a token that acts on the host has a name, every other token draws.
\<close>

datatype vt_term = Bel | St7 | St8

fun term_bytes :: "vt_term \<Rightarrow> bytes" where
  "term_bytes Bel = [0x07]"
| "term_bytes St7 = [0x1b, 0x5c]"
| "term_bytes St8 = [0xc2, 0x9c]"

datatype vt_tok =
    Plain u8
  | Latin u8
  | CsiTok bool bytes u8
  | OscTok bool bytes bytes vt_term
  | DcsTok bool bytes u8 bytes vt_term

fun introducer :: "bool \<Rightarrow> vt_state \<Rightarrow> bytes" where
  "introducer c1 Csi = (if c1 then [0xc2, 0x9b] else [0x1b, 0x5b])"
| "introducer c1 OscId = (if c1 then [0xc2, 0x9d] else [0x1b, 0x5d])"
| "introducer c1 DcsId = (if c1 then [0xc2, 0x90] else [0x1b, 0x50])"
| "introducer c1 _ = []"

declare introducer.simps [simp del]

fun tok_bytes :: "vt_tok \<Rightarrow> bytes" where
  "tok_bytes (Plain b) = [b]"
| "tok_bytes (Latin c) = [0xc2, c]"
| "tok_bytes (CsiTok c1 ps b) = introducer c1 Csi @ ps @ [b]"
| "tok_bytes (OscTok c1 ns pl t) = introducer c1 OscId @ ns @ pl @ term_bytes t"
| "tok_bytes (DcsTok c1 ps b pl t) = introducer c1 DcsId @ ps @ b # pl @ term_bytes t"

text \<open>A payload of an OSC: no byte that could end the string, and a first byte that ends the
  number.\<close>

definition osc_payload :: "bytes \<Rightarrow> bool" where
  "osc_payload pl \<longleftrightarrow> (\<forall>b \<in> set pl. b \<noteq> 0x07 \<and> b \<noteq> 0x1b \<and> b \<noteq> 0xc2) \<and>
     (pl = [] \<or> \<not> is_ascii_digit (hd pl) \<and> \<not> osc_skip (hd pl))"

definition dcs_payload :: "bytes \<Rightarrow> bool" where
  "dcs_payload pl \<longleftrightarrow> (\<forall>b \<in> set pl. b \<noteq> 0x1b \<and> b \<noteq> 0xc2)"

fun tok_ok :: "vt_tok \<Rightarrow> bool" where
  "tok_ok (Plain b) \<longleftrightarrow> b \<noteq> 0x1b \<and> b \<noteq> 0xc2"
| "tok_ok (Latin c) \<longleftrightarrow> cont_byte c \<and> c \<noteq> 0x9b \<and> c \<noteq> 0x9d \<and> c \<noteq> 0x90"
| "tok_ok (CsiTok c1 ps b) \<longleftrightarrow> (\<forall>p \<in> set ps. param_byte p) \<and> final_byte b \<and> length ps + 2 < CSI_CAP"
| "tok_ok (OscTok c1 ns pl t) \<longleftrightarrow>
     (\<forall>d \<in> set ns. is_ascii_digit d) \<and> length ns + 2 < OSC_ID_CAP \<and> osc_payload pl"
| "tok_ok (DcsTok c1 ps b pl t) \<longleftrightarrow>
     (\<forall>p \<in> set ps. param_byte p) \<and> final_byte b \<and> length ps + 2 < OSC_ID_CAP \<and>
     dcs_payload pl \<and> t \<noteq> Bel"

text \<open>The name an OSC with a given number is dropped under, on unbounded numbers.\<close>

definition osc_policy :: "nat \<Rightarrow> string option" where
  "osc_policy n = (if n = 52 then Some ''clipboard'' else if n \<le> 2 then Some ''title'' else None)"

fun tok_policy :: "vt_tok \<Rightarrow> string option" where
  "tok_policy (CsiTok c1 ps b) = csi_decision (introducer c1 Csi @ ps) b"
| "tok_policy (OscTok c1 ns pl t) = osc_policy (dec_value ns)"
| "tok_policy (DcsTok c1 ps b pl t) =
     (if b = 0x71 \<and> ps \<noteq> [] \<and> (last ps = 0x24 \<or> last ps = 0x2b) then Some ''query_echo'' else None)"
| "tok_policy _ = None"

definition tok_forward :: "vt_tok \<Rightarrow> bytes" where
  "tok_forward t = (if tok_policy t = None then tok_bytes t else [])"

definition vt_quiet :: "vt_filter \<Rightarrow> bool" where
  "vt_quiet f \<longleftrightarrow> vstate f = Ground \<and> buf f = []"

lemma vt_quiet_new: "vt_quiet vt_new"
  by (simp add: vt_quiet_def vt_new_def)

text \<open>Bytes in a string state are forwarded or swallowed, nothing else.\<close>

lemma vt_feed_str:
  assumes "vstate f = Str" and "\<forall>b \<in> set pl. b \<noteq> 0x1b \<and> b \<noteq> 0xc2 \<and> (str_bel f \<longrightarrow> b \<noteq> 0x07)"
  shows "vt_feed f pl = (f, if str_drop f then [] else pl, [])"
  using assms
proof (induction pl)
  case (Cons b pl)
  then have "vt_step f b = (f, if str_drop f then [] else [b], [])"
    by (auto simp: vt_unfold [of f b])
  with Cons show ?case by auto
qed simp

lemma vt_feed_term:
  assumes "vstate f = Str" and "t = Bel \<longrightarrow> str_bel f"
  shows "vt_feed f (term_bytes t) =
    (f\<lparr>vstate := Ground\<rparr>, if str_drop f then [] else term_bytes t, [])"
  using assms
  by (cases t)
     (auto simp: vt_unfold [of f] vt_unfold [of "f\<lparr>vstate := StrEsc\<rparr>"]
        vt_unfold [of "f\<lparr>vstate := StrC2\<rparr>"])

lemma vt_feed_str_term:
  assumes "vstate f = Str" and "t = Bel \<longrightarrow> str_bel f"
    and "\<forall>b \<in> set pl. b \<noteq> 0x1b \<and> b \<noteq> 0xc2 \<and> (str_bel f \<longrightarrow> b \<noteq> 0x07)"
  shows "vt_feed f (pl @ term_bytes t) =
    (f\<lparr>vstate := Ground\<rparr>, if str_drop f then [] else pl @ term_bytes t, [])"
  using vt_feed_str [OF assms(1,3)] vt_feed_term [OF assms(1,2)]
  by (simp add: vt_feed_append)

text \<open>A parameter run is buffered; past the cap the buffer is frozen.\<close>

lemma vt_feed_csi:
  assumes "vstate f = Csi" and "\<forall>p \<in> set ps. param_byte p" and "length (buf f) \<le> CSI_CAP"
    and "csi_over f \<longleftrightarrow> CSI_CAP \<le> length (buf f)"
  shows "vt_feed f ps = (f\<lparr>buf := take CSI_CAP (buf f @ ps),
    csi_over := CSI_CAP \<le> length (buf f) + length ps\<rparr>, [], [])"
  using assms
proof (induction ps arbitrary: f)
  case (Cons p ps)
  then have "\<not> final_byte p" by (simp add: param_not_final)
  with Cons.prems have "vt_step f p = (if csi_over f then (f, [], [])
     else (f\<lparr>buf := buf f @ [p], csi_over := CSI_CAP \<le> length (buf f @ [p])\<rparr>, [], []))"
    by (simp add: vt_unfold [of f p])
  with Cons show ?case by (cases "csi_over f") (auto simp: Cons.IH)
qed (auto simp: vt_filter.equality)

lemma vt_feed_dcs:
  assumes "vstate f = DcsId" and "\<forall>p \<in> set ps. param_byte p" and "length (buf f) \<le> OSC_ID_CAP"
    and "dcs_over f \<longleftrightarrow> OSC_ID_CAP \<le> length (buf f)"
  shows "vt_feed f ps = (f\<lparr>buf := take OSC_ID_CAP (buf f @ ps),
    dcs_over := OSC_ID_CAP \<le> length (buf f) + length ps\<rparr>, [], [])"
  using assms
proof (induction ps arbitrary: f)
  case (Cons p ps)
  then have "vt_step f p = (if dcs_over f then (f, [], [])
     else (f\<lparr>buf := buf f @ [p], dcs_over := OSC_ID_CAP \<le> length (buf f @ [p])\<rparr>, [], []))"
    by (simp add: vt_unfold [of f p])
  with Cons show ?case by (cases "dcs_over f") (auto simp: Cons.IH)
qed (auto simp: vt_filter.equality)

text \<open>The number of an OSC: digits are counted in, ignored controls are skipped.\<close>

definition osc_value :: "u32 \<Rightarrow> bytes \<Rightarrow> u32" where
  "osc_value n ns = foldl (\<lambda>n d. saturating_add (saturating_mul n 10) (ucast (d - 0x30))) n
     (filter is_ascii_digit ns)"

lemma vt_feed_osc:
  assumes "vstate f = OscId" and "\<forall>b \<in> set ns. is_ascii_digit b \<or> osc_skip b"
    and "length (buf f) \<le> OSC_ID_CAP" and "osc_over f \<longleftrightarrow> OSC_ID_CAP \<le> length (buf f)"
  shows "vt_feed f ns = (f\<lparr>buf := take OSC_ID_CAP (buf f @ filter is_ascii_digit ns),
    osc_over := OSC_ID_CAP \<le> length (buf f) + length (filter is_ascii_digit ns),
    osc_num := osc_value (osc_num f) ns,
    osc_seen := osc_seen f \<or> filter is_ascii_digit ns \<noteq> []\<rparr>, [], [])"
  using assms
proof (induction ns arbitrary: f)
  case (Cons b ns)
  let ?n = "saturating_add (saturating_mul (osc_num f) 10) (ucast (b - 0x30))"
  let ?g = "f\<lparr>osc_seen := True, osc_num := ?n\<rparr>"
  let ?h = "?g\<lparr>buf := buf f @ [b], osc_over := OSC_ID_CAP \<le> length (buf f @ [b])\<rparr>"
  show ?case
  proof (cases "is_ascii_digit b")
    case True
    have st: "vt_step f b = (if osc_over f then (?g, [], []) else (?h, [], []))"
      using Cons.prems True by (simp add: vt_unfold [of f b] Let_def)
    show ?thesis
    proof (cases "osc_over f")
      case over: True
      with Cons.prems True st Cons.IH [of ?g] show ?thesis
        by (simp add: osc_value_def vt_filter.equality)
    next
      case False
      with Cons.prems True st Cons.IH [of ?h] show ?thesis
        by (auto simp: osc_value_def)
    qed
  next
    case False
    with Cons.prems have "vt_step f b = (f, [], [])" by (simp add: vt_unfold [of f b])
    with Cons False show ?thesis by (simp add: osc_value_def)
  qed
qed (auto simp: osc_value_def vt_filter.equality)


lemma unat_osc_foldl:
  "\<forall>d \<in> set ds. is_ascii_digit d \<Longrightarrow>
   unat (foldl (\<lambda>n d. saturating_add (saturating_mul n 10) (ucast (d - 0x30))) (n :: u32) ds) =
   min (foldl (\<lambda>n d. n * 10 + unat (d - 0x30)) v ds) (2 ^ 32 - 1)"
  if "unat n = min v (2 ^ 32 - 1)"
  using that
proof (induction ds arbitrary: n v)
  case (Cons d ds)
  have "unat (saturating_add (saturating_mul n 10) (ucast (d - 0x30))) =
    min (v * 10 + unat (d - 0x30)) (2 ^ 32 - 1)"
    using Cons.prems by (simp add: unat_saturating_add unat_saturating_mul unat_ucast_u8)
  from Cons.IH [OF _ this] Cons.prems show ?case by simp
qed simp

lemma unat_osc_value:
  "unat (osc_value 0 ns) = min (dec_value (filter is_ascii_digit ns)) (2 ^ 32 - 1)"
  unfolding osc_value_def dec_value_def
  by (rule unat_osc_foldl) simp_all

lemma osc_decision_policy:
  assumes "\<not> seen \<Longrightarrow> dec_value (filter is_ascii_digit ns) = 0"
  shows "osc_decision seen (osc_value 0 ns) = osc_policy (dec_value (filter is_ascii_digit ns))"
proof -
  let ?v = "dec_value (filter is_ascii_digit ns)"
  have "osc_value 0 ns = 52 \<longleftrightarrow> ?v = 52"
    by (simp add: word_unat_eq_iff unat_osc_value) linarith
  moreover have "osc_value 0 ns \<le> 2 \<longleftrightarrow> ?v \<le> 2"
    by (simp add: word_le_nat_alt unat_osc_value) linarith
  ultimately show ?thesis using assms
    by (auto simp: osc_decision_def osc_policy_def Let_def)
qed

lemma dec_value_Nil [simp]: "dec_value [] = 0"
  by (simp add: dec_value_def)

lemma vt_feed_introducer:
  assumes "vt_quiet f" and "identifying st"
  shows "vt_feed f (introducer c1 st @ xs) = vt_feed (vt_open (introducer c1 st) st f) xs"
proof -
  have "vt_open i s (f\<lparr>vstate := x\<rparr>) = vt_open i s f" for i s x
    by (simp add: vt_open_def)
  with assms show ?thesis
    by (auto simp: introducer.simps vt_quiet_def identifying_def vt_unfold [of f] vt_unfold [of "f\<lparr>vstate := Esc\<rparr>"]
        vt_unfold [of "f\<lparr>vstate := Utf8C2\<rparr>"])
qed

lemma vt_open_sel [simp]:
  "vstate (vt_open i st f) = st" "buf (vt_open i st f) = i" "\<not> csi_over (vt_open i st f)"
  "osc_num (vt_open i st f) = 0" "\<not> osc_seen (vt_open i st f)" "\<not> osc_over (vt_open i st f)"
  "\<not> dcs_over (vt_open i st f)"
  by (simp_all add: vt_open_def)

lemma length_introducer [simp]: "identifying st \<Longrightarrow> length (introducer c1 st) = 2"
  by (auto simp: identifying_def introducer.simps)

lemma drop_introducer [simp]: "identifying st \<Longrightarrow> drop 2 (introducer c1 st @ xs) = xs"
  by (auto simp: identifying_def introducer.simps)

lemma last_introducer_dcs: "last (introducer c1 DcsId) = (if c1 then 0x90 else 0x50)"
  by (simp add: introducer.simps)

lemma introducer_not_Nil [simp]: "identifying st \<Longrightarrow> introducer c1 st \<noteq> []"
  using length_introducer [of st c1] by force

text \<open>The byte that ends the number hands the rest of the OSC to the string state.\<close>

lemma vt_step_osc_end:
  assumes "vstate f = OscId" and "\<not> is_ascii_digit b" and "\<not> osc_skip b"
    and d: "d \<longleftrightarrow> osc_decision (osc_seen f) (osc_num f) \<noteq> None \<or> osc_over f"
  shows "vt_step f b =
    emit (if d then [] else buf f) (case osc_decision (osc_seen f) (osc_num f) of None \<Rightarrow> [] | Some n \<Rightarrow> [n])
      (vt_step (vt_enter_str d True f) b)"
proof -
  have "vt_step (vt_enter_str True True f) b = (vt_enter_str True True f, [], [])"
    if "b \<noteq> 0x07" "b \<noteq> 0x1b" "b \<noteq> 0xc2"
    using that by (simp add: vt_unfold [of "vt_enter_str True True f" b])
  with assms show ?thesis
    by (auto simp: vt_unfold [of f b] Let_def split: option.splits)
qed

lemma not_num_special [simp]:
  "\<not> is_ascii_digit 0x07" "\<not> is_ascii_digit 0x1b" "\<not> is_ascii_digit 0xc2"
  "\<not> osc_skip 0x07" "\<not> osc_skip 0x1b" "\<not> osc_skip 0xc2"
  by (simp_all add: is_ascii_digit_def osc_skip_def)

lemma vt_feed_osc_seq:
  assumes q: "vt_quiet f" and ns: "\<forall>b \<in> set ns. is_ascii_digit b \<or> osc_skip b"
    and pl: "osc_payload pl"
  defines "ds \<equiv> filter is_ascii_digit ns"
  shows "\<exists>g. vt_quiet g \<and> vt_feed f (introducer c1 OscId @ ns @ pl @ term_bytes t) =
    (g, if osc_policy (dec_value ds) = None \<and> length ds + 2 < OSC_ID_CAP
        then introducer c1 OscId @ ds @ pl @ term_bytes t else [],
     case osc_policy (dec_value ds) of None \<Rightarrow> [] | Some n \<Rightarrow> [n])"
proof -
  let ?i = "introducer c1 OscId"
  define f1 where "f1 = fst (vt_feed (vt_open ?i OscId f) ns)"
  let ?d = "osc_policy (dec_value ds) \<noteq> None \<or> OSC_ID_CAP \<le> 2 + length ds"
  have feed: "vt_feed (vt_open ?i OscId f) ns = (f1, [], [])"
    and sel: "vstate f1 = OscId" "buf f1 = take OSC_ID_CAP (?i @ ds)"
      "osc_over f1 \<longleftrightarrow> OSC_ID_CAP \<le> 2 + length ds"
      "osc_decision (osc_seen f1) (osc_num f1) = osc_policy (dec_value ds)"
    using ns osc_decision_policy [of "ds \<noteq> []" ns]
    by (simp_all add: f1_def vt_feed_osc ds_def codes osc_decision_policy)
  obtain b bs where b: "pl @ term_bytes t = b # bs" by (cases pl; cases t) auto
  then have "\<not> is_ascii_digit b \<and> \<not> osc_skip b"
    using pl by (cases pl; cases t) (auto simp: osc_payload_def)
  then have "vt_feed f1 (b # bs) = emit (if ?d then [] else buf f1)
      (case osc_policy (dec_value ds) of None \<Rightarrow> [] | Some n \<Rightarrow> [n])
      (vt_feed (vt_enter_str ?d True f1) (b # bs))"
    using sel by (simp add: vt_step_osc_end [where d = ?d] split: prod.splits)
  moreover have "vt_feed (vt_enter_str ?d True f1) (b # bs) =
      ((vt_enter_str ?d True f1)\<lparr>vstate := Ground\<rparr>, if ?d then [] else pl @ term_bytes t, [])"
    unfolding b [symmetric] using pl
    by (subst vt_feed_str_term) (auto simp: osc_payload_def)
  moreover have "\<not> ?d \<Longrightarrow> take OSC_ID_CAP (?i @ ds) = ?i @ ds" by (auto simp: codes)
  ultimately have "vt_feed f (?i @ ns @ pl @ term_bytes t) =
      ((vt_enter_str ?d True f1)\<lparr>vstate := Ground\<rparr>,
       if ?d then [] else ?i @ ds @ pl @ term_bytes t,
       case osc_policy (dec_value ds) of None \<Rightarrow> [] | Some n \<Rightarrow> [n])"
    using q feed sel b by (simp add: vt_feed_introducer vt_feed_append [of _ ns])
  moreover have "vt_quiet ((vt_enter_str ?d True f1)\<lparr>vstate := Ground\<rparr>)"
    by (simp add: vt_quiet_def)
  moreover have "?d \<longleftrightarrow> \<not> (osc_policy (dec_value ds) = None \<and> length ds + 2 < OSC_ID_CAP)"
    by auto
  ultimately show ?thesis by (auto split: option.splits)
qed

lemma vt_feed_csi_seq:
  fixes c1 :: bool
  assumes q: "vt_quiet f" and ps: "\<forall>p \<in> set ps. param_byte p" and b: "final_byte b"
  defines "name \<equiv> csi_decision (take CSI_CAP (introducer c1 Csi @ ps)) b"
  shows "\<exists>g. vt_quiet g \<and> vt_feed f (introducer c1 Csi @ ps @ [b]) =
    (g, if name = None \<and> length ps + 2 < CSI_CAP then introducer c1 Csi @ ps @ [b] else [],
     case name of None \<Rightarrow> [] | Some n \<Rightarrow> [n])"
proof -
  let ?i = "introducer c1 Csi"
  define f1 where "f1 = (vt_open ?i Csi f)\<lparr>buf := take CSI_CAP (?i @ ps),
     csi_over := CSI_CAP \<le> 2 + length ps\<rparr>"
  have sel: "vstate f1 = Csi" "buf f1 = take CSI_CAP (?i @ ps)"
    "csi_over f1 \<longleftrightarrow> CSI_CAP \<le> 2 + length ps"
    by (simp_all add: f1_def)
  let ?g = "f1\<lparr>buf := [], csi_over := False, vstate := Ground\<rparr>"
  have f1: "vt_feed (vt_open ?i Csi f) ps = (f1, [], [])"
    using ps by (subst vt_feed_csi) (simp_all add: codes f1_def)
  have "vt_step f1 b = (?g, if name = None \<and> length ps + 2 < CSI_CAP then ?i @ ps @ [b] else [],
     case name of None \<Rightarrow> [] | Some n \<Rightarrow> [n])"
    using b by (auto simp: vt_unfold [of f1 b] sel name_def codes split: option.splits)
  then have "vt_feed f (?i @ ps @ [b]) =
    (?g, if name = None \<and> length ps + 2 < CSI_CAP then ?i @ ps @ [b] else [],
     case name of None \<Rightarrow> [] | Some n \<Rightarrow> [n])"
    using q f1 by (simp add: vt_feed_introducer vt_feed_append [of _ ps])
  moreover have "vt_quiet ?g" by (simp add: vt_quiet_def)
  ultimately show ?thesis by blast
qed

lemma vt_feed_dcs_seq:
  assumes q: "vt_quiet f" and ps: "\<forall>p \<in> set ps. param_byte p" and b: "final_byte b"
    and pl: "dcs_payload pl" and t: "t \<noteq> Bel"
  defines "d \<equiv> OSC_ID_CAP \<le> length ps + 2 \<or>
    b = 0x71 \<and> ps \<noteq> [] \<and> (last ps = 0x24 \<or> last ps = 0x2b)"
  shows "\<exists>g. vt_quiet g \<and> vt_feed f (introducer c1 DcsId @ ps @ b # pl @ term_bytes t) =
    (g, if d then [] else introducer c1 DcsId @ ps @ b # pl @ term_bytes t,
     if d then [''query_echo''] else [])"
proof -
  let ?i = "introducer c1 DcsId"
  define f1 where "f1 = (vt_open ?i DcsId f)\<lparr>buf := take OSC_ID_CAP (?i @ ps),
     dcs_over := OSC_ID_CAP \<le> 2 + length ps\<rparr>"
  have sel: "vstate f1 = DcsId" "buf f1 = take OSC_ID_CAP (?i @ ps)"
    "dcs_over f1 \<longleftrightarrow> OSC_ID_CAP \<le> 2 + length ps"
    by (simp_all add: f1_def)
  let ?f2 = "vt_enter_str d False f1"
  have f1: "vt_feed (vt_open ?i DcsId f) ps = (f1, [], [])"
    using ps by (subst vt_feed_dcs) (simp_all add: codes f1_def)
  have "\<not> param_byte b" using b param_not_final by blast
  then have st: "vt_step f1 b = (?f2, if d then [] else ?i @ ps @ [b],
     if d then [''query_echo''] else [])"
    using b by (auto simp: vt_unfold [of f1 b] sel d_def codes last_introducer_dcs last_append)
  have "vt_feed ?f2 (pl @ term_bytes t) =
    (?f2\<lparr>vstate := Ground\<rparr>, if d then [] else pl @ term_bytes t, [])"
    using pl t by (subst vt_feed_str_term) (auto simp: dcs_payload_def)
  with st have "vt_feed f (?i @ ps @ b # pl @ term_bytes t) =
    (?f2\<lparr>vstate := Ground\<rparr>, if d then [] else ?i @ ps @ b # pl @ term_bytes t,
     if d then [''query_echo''] else [])"
    using q f1 by (simp add: vt_feed_introducer vt_feed_append [of _ ps])
  moreover have "vt_quiet (?f2\<lparr>vstate := Ground\<rparr>)" by (simp add: vt_quiet_def)
  ultimately show ?thesis by blast
qed

text \<open>One whole token, from a quiet filter: forwarded untouched or dropped and named.\<close>

lemma vt_feed_tok:
  assumes q: "vt_quiet f" and ok: "tok_ok t"
  shows "\<exists>g. vt_quiet g \<and> vt_feed f (tok_bytes t) =
    (g, tok_forward t, case tok_policy t of None \<Rightarrow> [] | Some n \<Rightarrow> [n])"
proof (cases t)
  case (Plain b)
  with q ok show ?thesis
    by (auto simp: vt_quiet_def tok_forward_def vt_unfold [of f])
next
  case (Latin c)
  with q ok show ?thesis
    by (auto simp: vt_quiet_def tok_forward_def vt_unfold [of f]
        vt_unfold [of "f\<lparr>vstate := Utf8C2\<rparr>"])
next
  case (CsiTok c1 ps b)
  with ok have "take CSI_CAP (introducer c1 Csi @ ps) = introducer c1 Csi @ ps"
    by (auto simp: codes)
  with CsiTok ok vt_feed_csi_seq [OF q, of ps b c1] show ?thesis
    by (auto simp: tok_forward_def)
next
  case (OscTok c1 ns pl t)
  with ok have "filter is_ascii_digit ns = ns" by (simp add: filter_id_conv)
  with OscTok ok vt_feed_osc_seq [OF q, of ns pl c1 t] show ?thesis
    by (auto simp: tok_forward_def)
next
  case (DcsTok c1 ps b pl t)
  with ok vt_feed_dcs_seq [OF q, of ps b pl t c1] show ?thesis
    by (auto simp: tok_forward_def)
qed

lemma vt_feed_toks:
  assumes "vt_quiet f" and "\<forall>t \<in> set ts. tok_ok t"
  shows "\<exists>g. vt_quiet g \<and> vt_feed f (concat (map tok_bytes ts)) =
    (g, concat (map tok_forward ts), List.map_filter tok_policy ts)"
  using assms
proof (induction ts arbitrary: f)
  case Nil
  then show ?case by (simp add: map_filter_simps)
next
  case (Cons t ts)
  then obtain g where g: "vt_quiet g" "vt_feed f (tok_bytes t) =
    (g, tok_forward t, case tok_policy t of None \<Rightarrow> [] | Some n \<Rightarrow> [n])"
    using vt_feed_tok by fastforce
  with Cons.IH [of g] Cons.prems obtain h where "vt_quiet h" "vt_feed g (concat (map tok_bytes ts)) =
    (h, concat (map tok_forward ts), List.map_filter tok_policy ts)" by auto
  with g show ?case
    by (auto simp: vt_feed_append map_filter_simps split: option.splits)
qed

section \<open>Splicing\<close>

text \<open>
  An escape byte that introduces nothing is forwarded at once. When the sequence right behind it
  is dropped, that escape ends up in front of whatever follows the dropped sequence.
\<close>

lemma vt_feed_plain:
  assumes "vt_quiet f" and "\<forall>b \<in> set bs. b \<noteq> 0x1b \<and> b \<noteq> 0xc2"
  shows "vt_feed f bs = (f, bs, [])"
  using assms
proof (induction bs)
  case (Cons b bs)
  then have "vt_step f b = (f, [b], [])" by (auto simp: vt_quiet_def vt_unfold [of f b])
  with Cons show ?case by simp
qed simp

lemma vt_feed_esc_esc:
  assumes "vt_quiet f"
  shows "vt_feed f (0x1b # 0x1b # xs) = emit [0x1b] [] (vt_feed f (0x1b # xs))"
proof -
  have "vt_step (f\<lparr>vstate := Esc\<rparr>) 0x1b = (f\<lparr>vstate := Esc\<rparr>, [0x1b], [])"
    by (simp add: vt_unfold [of "f\<lparr>vstate := Esc\<rparr>"] vt_unfold [of "f\<lparr>vstate := Ground\<rparr>"])
  with assms show ?thesis
    by (simp add: vt_quiet_def vt_unfold [of f])
qed

lemma vt_feed_splice:
  assumes q: "vt_quiet f" and t: "tok_ok t" "tok_policy t = Some n" "tok_bytes t = 0x1b # ys"
    and bs: "\<forall>b \<in> set bs. b \<noteq> 0x1b \<and> b \<noteq> 0xc2"
  shows "\<exists>g. vt_quiet g \<and> vt_feed f (0x1b # tok_bytes t @ bs) = (g, 0x1b # bs, [n])"
proof -
  from vt_feed_tok [OF q t(1)] t(2) obtain g where g: "vt_quiet g"
    "vt_feed f (tok_bytes t) = (g, [], [n])"
    by (auto simp: tok_forward_def)
  have "vt_feed f (0x1b # tok_bytes t @ bs) = emit [0x1b] [] (vt_feed f (tok_bytes t @ bs))"
    using vt_feed_esc_esc [OF q, of "ys @ bs"] t(3) by simp
  also have "\<dots> = (g, 0x1b # bs, [n])"
    using g vt_feed_plain [OF g(1) bs] by (simp add: vt_feed_append)
  finally show ?thesis using g(1) by blast
qed

section \<open>Properties\<close>



text \<open>How the reads cut the output does not matter: two ways of cutting the same stream leave
  the filter in the same state with the same bytes forwarded and the same names reported.\<close>

theorem vt_filter_chunk_independent:
  assumes "concat as = concat bs"
  shows "foldl vt_run s as = foldl vt_run s bs"
  using vt.same_stream [OF TrueI assms] .

theorem vt_filter_chunk_independent_witness:
  "foldl vt_run (vt_new, [], []) [[0x1b], [0x5d, 0x30], [0x07]] =
   foldl vt_run (vt_new, [], []) [[0x1b, 0x5d], [], [0x30, 0x07]]"
  by (rule vt_filter_chunk_independent) simp

text \<open>Whatever the input, the identify buffer stays bounded: at most 256 bytes for a CSI, 16
  for an OSC or DCS, and empty in every drawing or streaming state, so a long hyperlink or image
  streams through.\<close>

theorem vt_filter_buffer_bounded:
  "length (buf (fst (vt_feed vt_new bs))) \<le>
     (case vstate (fst (vt_feed vt_new bs)) of Csi \<Rightarrow> 256 | OscId \<Rightarrow> 16 | DcsId \<Rightarrow> 16 | _ \<Rightarrow> 0)"
  using vt_feed_wf [OF vt_wf_new, of bs]
  by (auto simp: vt_wf_def vt_cap_def codes split: vt_state.splits)

text \<open>The filter invents nothing: every byte it has forwarded or still holds back came from
  the input, with its multiplicity.\<close>

theorem vt_filter_never_invents:
  "(case vt_feed vt_new bs of (f, os, ds) \<Rightarrow> mset os + mset (vt_pending f) \<subseteq># mset bs)"
  using vt_conserves_feed [of vt_new bs] by (simp add: vt_conserves_def vt_new_def)

text \<open>A clipboard or title OSC is dropped and named however its number is written: with any
  number of leading zeros, past the buffer cap, with ignored controls spliced into it, or with no
  digit at all. Nothing of it is forwarded and the filter is back in its drawing state.\<close>

theorem vt_acting_osc_dropped:
  assumes "\<forall>b \<in> set ns. is_ascii_digit b \<or> osc_skip b" and "osc_payload pl"
    and "osc_policy (dec_value (filter is_ascii_digit ns)) = Some n"
  shows "\<exists>g. vt_quiet g \<and>
    vt_feed vt_new (introducer c1 OscId @ ns @ pl @ term_bytes t) = (g, [], [n])"
  using vt_feed_osc_seq [OF vt_quiet_new assms(1,2), of c1 t] assms(3) by simp

theorem vt_acting_osc_dropped_witness:
  "\<exists>g. vt_quiet g \<and>
    vt_feed vt_new (introducer False OscId @ [0x30, 0x30, 0x30, 0x30, 0x30, 0x30, 0x30, 0x30, 0x30,
       0x30, 0x30, 0x30, 0x30, 0x30, 0x30, 0x30, 0x30, 0x30, 0x35, 0x00, 0x32] @ [0x3b, 0x78]
      @ term_bytes Bel) = (g, [], [''clipboard''])"
  by (rule vt_acting_osc_dropped)
     (simp_all add: is_ascii_digit_def osc_skip_def osc_payload_def osc_policy_def dec_value_def)

text \<open>A CSI whose parameters reach the cap is dropped closed whatever its final byte, so
  padding cannot carry a window operation past the filter.\<close>

theorem vt_padded_csi_dropped:
  assumes "\<forall>p \<in> set ps. param_byte p" and "final_byte b" and "254 \<le> length ps"
  shows "fst (snd (vt_feed vt_new (introducer c1 Csi @ ps @ [b]))) = []"
  using vt_feed_csi_seq [OF vt_quiet_new assms(1,2), of c1] assms(3) by (auto simp: codes)

theorem vt_padded_csi_dropped_witness:
  "fst (snd (vt_feed vt_new (introducer True Csi @ replicate 300 0x30 @ [0x74]))) = []"
  by (rule vt_padded_csi_dropped) (simp_all add: param_byte_def final_byte_def)

text \<open>Splicing defeats the filter: any OSC ended by BEL, the clipboard and title ones included,
  is delivered whole to the terminal by putting an escape byte and some other dropped OSC where
  its introducer should be. The only drop reported is the decoy's.\<close>

theorem vt_splice_delivers_any_osc:
  assumes "tok_ok (OscTok False ns pl Bel)"
  shows "snd (vt_feed vt_new (0x1b # tok_bytes (OscTok False [0x30] [0x3b] Bel)
           @ tl (tok_bytes (OscTok False ns pl Bel)))) =
    (tok_bytes (OscTok False ns pl Bel), [''title''])"
proof -
  let ?d = "OscTok False [0x30] [0x3b] Bel" and ?t = "OscTok False ns pl Bel"
  have d: "tok_ok ?d" "tok_policy ?d = Some ''title''"
    by (simp_all add: is_ascii_digit_def codes osc_payload_def osc_skip_def osc_policy_def
        dec_value_def)
  have dig: "is_ascii_digit b \<Longrightarrow> b \<noteq> 0x1b \<and> b \<noteq> 0xc2" for b
    by (auto simp: is_ascii_digit_def)
  have "\<forall>b \<in> set (tl (tok_bytes ?t)). b \<noteq> 0x1b \<and> b \<noteq> 0xc2"
    using assms dig by (auto simp: introducer.simps osc_payload_def)
  from vt_feed_splice [OF vt_quiet_new d _ this] obtain g where
    "vt_feed vt_new (0x1b # tok_bytes ?d @ tl (tok_bytes ?t)) = (g, 0x1b # tl (tok_bytes ?t), [''title''])"
    by (auto simp: introducer.simps)
  moreover have "0x1b # tl (tok_bytes ?t) = tok_bytes ?t" by (simp add: introducer.simps)
  ultimately show ?thesis by simp
qed

theorem vt_splice_delivers_any_osc_witness:
  "tok_policy (OscTok False [0x35, 0x32] [0x3b, 0x63, 0x3b, 0x78] Bel) = Some ''clipboard'' \<and>
   snd (vt_feed vt_new (0x1b # tok_bytes (OscTok False [0x30] [0x3b] Bel)
           @ tl (tok_bytes (OscTok False [0x35, 0x32] [0x3b, 0x63, 0x3b, 0x78] Bel)))) =
    (tok_bytes (OscTok False [0x35, 0x32] [0x3b, 0x63, 0x3b, 0x78] Bel), [''title''])"
  by (rule conjI, simp add: osc_policy_def dec_value_def, rule vt_splice_delivers_any_osc)
     (simp add: is_ascii_digit_def codes osc_payload_def osc_skip_def)

end
