(* ===== verification/Wire.thy ===== *)
theory Wire
  imports Prelude
begin

text \<open>
  The framing between a session supervisor and its clients
  (\<^verbatim>\<open>crates/willie-linux/src/wire.rs\<close>): a type byte, a big-endian 16-bit length, the payload.
  \<open>wire_encode\<close>, \<open>wire_chunks\<close>, \<open>encode_resize\<close> and \<open>decode_resize\<close> are the encoders of the source;
  \<open>dec_push\<close> and \<open>dec_pop\<close> are the methods of \<open>Decoder\<close>, and \<open>dec_drain\<close> is the loop every
  reader runs (\<open>while let Some(frame) = decoder.pop()\<close>). The JSON encoders take the serialiser as a
  parameter.

  Shown: decoding inverts encoding however the stream is cut, a popped frame accounts for exactly
  the bytes removed, splitting output into frames loses nothing.
\<close>

section \<open>Frames\<close>

definition INPUT :: u8 where [codes]: "INPUT = 0"
definition RESIZE :: u8 where [codes]: "RESIZE = 1"
definition DETACH :: u8 where [codes]: "DETACH = 2"
definition HELLO :: u8 where [codes]: "HELLO = 3"
definition STOP :: u8 where [codes]: "STOP = 4"
definition STATUS_REQ :: u8 where [codes]: "STATUS_REQ = 5"
definition OUTPUT :: u8 where [codes]: "OUTPUT = 16"
definition STATUS :: u8 where [codes]: "STATUS = 17"
definition EVENT :: u8 where [codes]: "EVENT = 18"
definition CLOSED :: u8 where [codes]: "CLOSED = 19"

definition HEADER :: nat where [codes]: "HEADER = 3"
definition MAX_PAYLOAD :: nat where [codes]: "MAX_PAYLOAD = 65535"

record frame =
  kind :: u8
  payload :: bytes

text \<open>\<open>u16::to_be_bytes\<close> and \<open>u16::from_be_bytes\<close>.\<close>

definition to_be16 :: "u16 \<Rightarrow> bytes" where
  "to_be16 w = [ucast (drop_bit 8 w), ucast w]"

definition from_be16 :: "u8 \<Rightarrow> u8 \<Rightarrow> u16" where
  "from_be16 hi lo = push_bit 8 (ucast hi) OR ucast lo"

lemma from_be16_to_be16 [framing]: "from_be16 (ucast (drop_bit 8 w)) (ucast w) = w"
  unfolding from_be16_def
  by (rule bit_word_eqI) (auto simp: bit_simps)

lemma to_be16_from_be16 [framing]: "to_be16 (from_be16 hi lo) = [hi, lo]"
proof -
  have "\<not> bit b (8 + n)" for b :: u8 and n
    using bit_imp_le_length [of b "8 + n"] by auto
  then show ?thesis
    unfolding from_be16_def to_be16_def
    by (auto intro!: bit_word_eqI simp: bit_simps)
qed

definition wire_encode :: "u8 \<Rightarrow> bytes \<Rightarrow> bytes" where
  "wire_encode k p =
     (let p = take (min (length p) MAX_PAYLOAD) p;
          len = (if length p < 2 ^ 16 then of_nat (length p) else - 1)
      in k # to_be16 len @ p)"

definition encode_resize :: "u16 \<Rightarrow> u16 \<Rightarrow> bytes" where
  "encode_resize rows cols = wire_encode RESIZE (to_be16 rows @ to_be16 cols)"

definition decode_resize :: "bytes \<Rightarrow> (u16 \<times> u16) option" where
  "decode_resize p =
     (if length p \<noteq> 4 then None
      else Some (from_be16 (p ! 0) (p ! 1), from_be16 (p ! 2) (p ! 3)))"

definition encode_json :: "('v \<Rightarrow> 'e + bytes) \<Rightarrow> u8 \<Rightarrow> 'v \<Rightarrow> 'e + bytes" where
  "encode_json to_vec k v =
     (case to_vec v of Inl e \<Rightarrow> Inl e | Inr p \<Rightarrow> Inr (wire_encode k p))"

definition decode_json :: "(bytes \<Rightarrow> 'e + 'v) \<Rightarrow> bytes \<Rightarrow> 'e + 'v" where
  "decode_json from_slice p = from_slice p"

definition wire_chunks :: "u8 \<Rightarrow> bytes \<Rightarrow> bytes list" where
  "wire_chunks k bs =
     (if bs = [] then [wire_encode k []]
      else map (wire_encode k) (chunk_list MAX_PAYLOAD bs))"

section \<open>The decoder\<close>

record decoder =
  dbuf :: bytes

definition dec_new :: decoder where
  "dec_new = \<lparr>dbuf = []\<rparr>"

definition dec_push :: "decoder \<Rightarrow> bytes \<Rightarrow> decoder" where
  "dec_push d bs = d\<lparr>dbuf := dbuf d @ bs\<rparr>"

definition dec_pop :: "decoder \<Rightarrow> frame option \<times> decoder" where
  "dec_pop d =
     (if length (dbuf d) < HEADER then (None, d)
      else
        let k = dbuf d ! 0;
            len = unat (from_be16 (dbuf d ! 1) (dbuf d ! 2))
        in if length (dbuf d) < HEADER + len then (None, d)
           else (Some \<lparr>kind = k, payload = take len (drop HEADER (dbuf d))\<rparr>,
                 d\<lparr>dbuf := drop (HEADER + len) (dbuf d)\<rparr>))"

definition dec_pending :: "decoder \<Rightarrow> nat" where
  "dec_pending d = length (dbuf d)"

definition frame_bytes :: "frame \<Rightarrow> bytes" where
  "frame_bytes fr = wire_encode (kind fr) (payload fr)"

definition frame_ok :: "frame \<Rightarrow> bool" where
  "frame_ok fr \<longleftrightarrow> length (payload fr) \<le> MAX_PAYLOAD"

lemma wire_encode_short:
  "length p \<le> MAX_PAYLOAD \<Longrightarrow> wire_encode k p = k # to_be16 (of_nat (length p)) @ p"
  by (simp add: wire_encode_def codes)

lemma unat_of_nat_16: "n \<le> MAX_PAYLOAD \<Longrightarrow> unat (of_nat n :: u16) = n"
  by (simp add: codes unat_of_nat)

lemma drop_header [framing]: "drop (3 + n) (a # b # c # xs) = drop n xs"
  by (simp add: numeral_3_eq_3)

lemma dec_pop_encode:
  assumes "frame_ok fr"
  shows "dec_pop \<lparr>dbuf = frame_bytes fr @ bs\<rparr> = (Some fr, \<lparr>dbuf = bs\<rparr>)"
  using assms
  by (simp add: dec_pop_def frame_bytes_def frame_ok_def wire_encode_short to_be16_def
      framing unat_of_nat_16 HEADER_def Let_def)

text \<open>A popped frame and what is left are exactly the bytes that were there.\<close>

lemma dec_pop_Some:
  assumes "dec_pop d = (Some fr, d')"
  shows "dbuf d = frame_bytes fr @ dbuf d' \<and> frame_ok fr"
proof -
  define len where "len = unat (from_be16 (dbuf d ! 1) (dbuf d ! 2))"
  from assms have l: "\<not> length (dbuf d) < 3 + len"
    and fr: "fr = \<lparr>kind = dbuf d ! 0, payload = take len (drop 3 (dbuf d))\<rparr>"
    and d': "dbuf d' = drop (3 + len) (dbuf d)"
    by (auto simp: dec_pop_def len_def codes Let_def split: if_splits)
  from l obtain a b c rest where bs: "dbuf d = a # b # c # rest"
    by (metis (no_types) One_nat_def Suc_eq_plus1_left add_lessD1 append_eq_conv_conj
        length_0_conv length_Cons less_Suc0 list.exhaust not_less_eq numeral_3_eq_3 zero_less_Suc)
  have "len < 2 ^ LENGTH(16)" unfolding len_def by (rule unsigned_less)
  then have len: "len \<le> MAX_PAYLOAD" by (simp add: codes)
  have "length (take len rest) = len" using l bs by simp
  moreover have "of_nat len = from_be16 b c" by (simp add: len_def bs)
  ultimately have "frame_bytes fr = a # b # c # take len rest"
    using len by (simp add: frame_bytes_def fr bs wire_encode_short framing)
  with bs d' len fr \<open>length (take len rest) = len\<close> show ?thesis
    by (simp add: frame_ok_def framing)
qed

lemma dec_pop_None: "dec_pop d = (None, d') \<Longrightarrow> d' = d"
  by (auto simp: dec_pop_def Let_def split: if_splits)

lemma frame_bytes_length: "3 \<le> length (frame_bytes fr)"
  by (simp add: frame_bytes_def wire_encode_def to_be16_def Let_def)

lemma dec_pop_shrinks: "dec_pop d = (Some fr, d') \<Longrightarrow> length (dbuf d') < length (dbuf d)"
  using dec_pop_Some [of d fr d'] frame_bytes_length [of fr] by auto

text \<open>The reader's loop: pop until the buffer holds no whole frame.\<close>

function dec_drain :: "decoder \<Rightarrow> frame list \<times> decoder" where
  "dec_drain d =
     (case dec_pop d of
        (None, d') \<Rightarrow> ([], d')
      | (Some fr, d') \<Rightarrow> (case dec_drain d' of (frs, d'') \<Rightarrow> (fr # frs, d'')))"
  by pat_completeness auto
termination
  by (relation "measure (length \<circ> dbuf)") (auto dest: dec_pop_shrinks [OF sym])

declare dec_drain.simps [simp del]

lemma dec_drain_encode:
  "\<forall>fr \<in> set frs. frame_ok fr \<Longrightarrow> dec_pop \<lparr>dbuf = bs\<rparr> = (None, d) \<Longrightarrow>
   dec_drain \<lparr>dbuf = concat (map frame_bytes frs) @ bs\<rparr> = (frs, \<lparr>dbuf = bs\<rparr>)"
proof (induction frs)
  case Nil
  then show ?case by (subst dec_drain.simps) (auto dest: dec_pop_None)
next
  case (Cons fr frs)
  then show ?case by (subst dec_drain.simps) (simp add: dec_pop_encode)
qed

text \<open>What is drained: the buffer is the frames it held followed by the rest, which holds none.\<close>

lemma dec_drain_spec:
  "dec_drain d = (frs, d') \<Longrightarrow>
   dbuf d = concat (map frame_bytes frs) @ dbuf d' \<and> (\<forall>fr \<in> set frs. frame_ok fr) \<and>
   dec_pop d' = (None, d')"
proof (induction d arbitrary: frs d' rule: dec_drain.induct)
  case (1 d)
  obtain r e where pop: "dec_pop d = (r, e)" by (cases "dec_pop d")
  show ?case
  proof (cases r)
    case None
    with pop "1.prems" dec_pop_None [of d e] show ?thesis
      by (simp add: dec_drain.simps [of d])
  next
    case (Some fr)
    obtain frs' where "dec_drain e = (frs', d')" "frs = fr # frs'"
      using "1.prems" pop Some by (auto simp: dec_drain.simps [of d] split: prod.splits)
    with "1.IH" [OF pop [symmetric]] Some dec_pop_Some [of d fr e] pop show ?thesis
      by simp
  qed
qed

text \<open>A reader: push what the socket returned, drain, append the frames to what was received.\<close>

definition dec_recv :: "frame list \<times> decoder \<Rightarrow> bytes \<Rightarrow> frame list \<times> decoder" where
  "dec_recv s bs = (case s of (frs, d) \<Rightarrow>
     (case dec_drain (dec_push d bs) of (frs', d') \<Rightarrow> (frs @ frs', d')))"

definition drained :: "frame list \<times> decoder \<Rightarrow> bool" where
  "drained s \<longleftrightarrow> dec_pop (snd s) = (None, snd s)"

lemma dec_drain_drained: "drained (frs, d) \<Longrightarrow> dec_drain d = ([], d)"
  by (simp add: drained_def dec_drain.simps [of d])

lemma dec_recv_recv:
  assumes "drained s"
  shows "dec_recv s (xs @ ys) = dec_recv (dec_recv s xs) ys"
proof -
  obtain frs d where s: "s = (frs, d)" by (cases s)
  obtain as d1 where a: "dec_drain (dec_push d xs) = (as, d1)" by (cases "dec_drain (dec_push d xs)")
  obtain bs d2 where b: "dec_drain (dec_push d1 ys) = (bs, d2)" by (cases "dec_drain (dec_push d1 ys)")
  have "dec_push d (xs @ ys) = \<lparr>dbuf = concat (map frame_bytes (as @ bs)) @ dbuf d2\<rparr>"
  proof -
    have "dbuf d @ xs @ ys = concat (map frame_bytes (as @ bs)) @ dbuf d2"
      using dec_drain_spec [OF a] dec_drain_spec [OF b] by (simp add: dec_push_def) (metis append.assoc)
    then show ?thesis by (cases d) (simp add: dec_push_def)
  qed
  moreover have "dec_drain \<lparr>dbuf = concat (map frame_bytes (as @ bs)) @ dbuf d2\<rparr> = (as @ bs, d2)"
    using dec_drain_spec [OF a] dec_drain_spec [OF b]
    by (cases d2, subst dec_drain_encode [where d = d2]) auto
  ultimately show ?thesis using a b s by (simp add: dec_recv_def)
qed

interpretation wire: chunked dec_recv drained
proof
  show "drained (dec_recv s xs)" if "drained s" for s xs
    using that dec_drain_spec by (auto simp: dec_recv_def drained_def split: prod.splits)
  show "dec_recv s [] = s" if "drained s" for s
    using that dec_drain_drained by (cases s) (simp add: dec_recv_def dec_push_def)
  show "dec_recv s (xs @ ys) = dec_recv (dec_recv s xs) ys" if "drained s" for s xs ys
    using that by (rule dec_recv_recv)
qed

lemma drained_new: "drained ([], dec_new)"
  by (simp add: drained_def dec_new_def dec_pop_def codes)

lemma wire_chunks_frames:
  "wire_chunks k bs = map frame_bytes (if bs = [] then [\<lparr>kind = k, payload = []\<rparr>]
     else map (\<lambda>p. \<lparr>kind = k, payload = p\<rparr>) (chunk_list MAX_PAYLOAD bs))"
  by (simp add: wire_chunks_def frame_bytes_def)

lemma wire_delivers:
  assumes "\<forall>fr \<in> set frs. frame_ok fr" and "concat pieces = concat (map frame_bytes frs)"
  shows "foldl dec_recv ([], dec_new) pieces = (frs, dec_new)"
proof -
  have "foldl dec_recv ([], dec_new) pieces = dec_recv ([], dec_new) (concat (map frame_bytes frs))"
    using wire.foldl_feed [OF drained_new, of pieces] assms(2) by simp
  also have "\<dots> = (frs, dec_new)"
    using assms(1) dec_drain_encode [of frs "[]" dec_new]
    by (simp add: dec_recv_def dec_push_def dec_new_def dec_pop_def codes)
  finally show ?thesis .
qed

section \<open>Properties\<close>

text \<open>(C33) Whatever way the socket cuts the stream of encoded frames, a fresh decoder drained after
  every read delivers exactly those frames in order and holds nothing back at the end.\<close>

theorem wire_roundtrip:
  assumes "\<forall>fr \<in> set frs. frame_ok fr" and "concat pieces = concat (map frame_bytes frs)"
  shows "foldl dec_recv ([], dec_new) pieces = (frs, dec_new)"
  using assms by (rule wire_delivers)

theorem wire_roundtrip_witness:
  "foldl dec_recv ([], dec_new) [[0x10], [0x00, 0x02, 0x68], [0x69, 0x02, 0x00], [0x00]] =
    ([\<lparr>kind = OUTPUT, payload = [0x68, 0x69]\<rparr>, \<lparr>kind = DETACH, payload = []\<rparr>], dec_new)"
  by (rule wire_roundtrip)
     (simp_all add: frame_ok_def frame_bytes_def wire_encode_def to_be16_def codes)

text \<open>Splitting output of any length into frames loses nothing: what a decoder gets back from
  the concatenated frames is one or more \<open>OUTPUT\<close> frames, each within the 16-bit length, whose
  payloads concatenate to the output.\<close>

theorem wire_chunks_lossless:
  "\<exists>frs. foldl dec_recv ([], dec_new) (wire_chunks k bs) = (frs, dec_new) \<and>
     concat (map payload frs) = bs \<and>
     list_all (\<lambda>fr. kind fr = k \<and> length (payload fr) \<le> 65535) frs"
proof -
  let ?frs = "if bs = [] then [\<lparr>kind = k, payload = []\<rparr>]
     else map (\<lambda>p. \<lparr>kind = k, payload = p\<rparr>) (chunk_list MAX_PAYLOAD bs)"
  have ok: "\<forall>fr \<in> set ?frs. frame_ok fr"
    using chunk_list_pieces [of _ MAX_PAYLOAD bs] by (auto simp: frame_ok_def)
  have "concat (map payload ?frs) = bs"
    by (simp add: comp_def codes)
  moreover have "foldl dec_recv ([], dec_new) (wire_chunks k bs) = (?frs, dec_new)"
    using wire.foldl_feed [OF drained_new, of "wire_chunks k bs"]
      dec_drain_encode [OF ok, of "[]" dec_new]
    by (simp add: wire_chunks_frames dec_recv_def dec_push_def dec_new_def dec_pop_def codes)
  moreover have "list_all (\<lambda>fr. kind fr = k \<and> length (payload fr) \<le> 65535) ?frs"
    using ok by (auto simp: frame_ok_def codes list_all_iff)
  ultimately show ?thesis by blast
qed

text \<open>A window size survives the wire: encoding it, decoding the frame and reading the payload
  back gives the same rows and columns.\<close>

theorem resize_roundtrip:
  "\<exists>p. foldl dec_recv ([], dec_new) [encode_resize rows cols] =
     ([\<lparr>kind = RESIZE, payload = p\<rparr>], dec_new) \<and> decode_resize p = Some (rows, cols)"
proof -
  let ?p = "to_be16 rows @ to_be16 cols"
  have len: "length ?p = 4" by (simp add: to_be16_def)
  then have "frame_ok \<lparr>kind = RESIZE, payload = ?p\<rparr>" by (simp add: frame_ok_def codes)
  from dec_drain_encode [of "[\<lparr>kind = RESIZE, payload = ?p\<rparr>]" "[]" dec_new] this
  have "foldl dec_recv ([], dec_new) [encode_resize rows cols] =
     ([\<lparr>kind = RESIZE, payload = ?p\<rparr>], dec_new)"
    by (simp add: dec_recv_def dec_push_def dec_new_def dec_pop_def HEADER_def encode_resize_def
        frame_bytes_def)
  moreover have "decode_resize ?p = Some (rows, cols)"
    using len by (simp add: decode_resize_def to_be16_def framing)
  ultimately show ?thesis by blast
qed

end
