(* ===== verification/Screen.thy ===== *)
theory Screen
  imports Prelude
begin

text \<open>
  What a late terminal needs (\<^verbatim>\<open>crates/willie-sess/src/screen.rs\<close>): the tail of the session's
  output (\<open>Ring\<close>) and whether the program is on the alternate screen (\<open>AltScreen\<close>). The ring is a
  record of its deque and its capacity; the tracker keeps its flag and the last seven bytes, so that
  a switch sequence that straddles two reads is still seen.

  Shown: the ring holds exactly the last \<open>cap\<close> bytes of everything pushed; the tracker's flag is
  what scanning the whole output at once would give, however the output is cut into reads.
\<close>

section \<open>The ring\<close>

record ring =
  rbuf :: bytes
  cap :: nat

definition ring_new :: "nat \<Rightarrow> ring" where
  "ring_new n = \<lparr>rbuf = [], cap = n\<rparr>"

definition ring_push :: "ring \<Rightarrow> bytes \<Rightarrow> ring" where
  "ring_push r bs =
     (let b = rbuf r @ bs;
          excess = length b - cap r
      in r\<lparr>rbuf := (if excess > 0 then drop excess b else b)\<rparr>)"

definition ring_snapshot :: "ring \<Rightarrow> bytes" where
  "ring_snapshot r = rbuf r"

lemma ring_push_last_n: "ring_push r bs = r\<lparr>rbuf := last_n (cap r) (rbuf r @ bs)\<rparr>"
  by (simp add: ring_push_def last_n_def Let_def)

definition ring_ok :: "ring \<Rightarrow> bool" where
  "ring_ok r \<longleftrightarrow> length (rbuf r) \<le> cap r"

interpretation ring: chunked ring_push ring_ok
  by unfold_locales
     (auto simp: ring_push_last_n ring_ok_def last_n_short last_n_last_n_append
        simp flip: append_assoc)

section \<open>The alternate screen\<close>

record alt_screen =
  active :: bool
  tail :: bytes

definition alt_new :: alt_screen where
  "alt_new = \<lparr>active = False, tail = []\<rparr>"

definition MAX_SEQ :: nat where [codes]: "MAX_SEQ = 8"

text \<open>The loop of \<open>switch_at\<close> over the three codes.\<close>

fun switch_codes :: "bytes list \<Rightarrow> bytes \<Rightarrow> (nat \<times> bool) option" where
  "switch_codes [] bs = None"
| "switch_codes (code # codes) bs =
     (let len = 3 + length code + 1 in
      if len \<le> length bs \<and> bs ! 0 = 0x1b \<and> bs ! 1 = 0x5b \<and> bs ! 2 = 0x3f
         \<and> take (length code) (drop 3 bs) = code
      then (if bs ! (len - 1) = 0x68 then Some (len, True)
            else if bs ! (len - 1) = 0x6c then Some (len, False)
            else switch_codes codes bs)
      else switch_codes codes bs)"

definition switch_at :: "bytes \<Rightarrow> (nat \<times> bool) option" where
  "switch_at bs =
     switch_codes [[0x31, 0x30, 0x34, 0x39], [0x31, 0x30, 0x34, 0x37], [0x34, 0x37]] bs"

lemma switch_codes_len: "switch_codes cs bs = Some (len, on) \<Longrightarrow> 0 < len \<and> len \<le> length bs"
  by (induction cs) (auto simp: Let_def split: if_splits)

lemma switch_at_len: "switch_at bs = Some (len, on) \<Longrightarrow> 0 < len \<and> len \<le> length bs"
  unfolding switch_at_def by (rule switch_codes_len)

text \<open>The scanning loop of \<open>feed\<close>, from the current position to the end of the buffer.\<close>

function alt_scan :: "bool \<Rightarrow> bytes \<Rightarrow> bool" where
  "alt_scan on bs =
     (if bs = [] then on
      else (case switch_at bs of
              Some (len, on') \<Rightarrow> alt_scan on' (drop len bs)
            | None \<Rightarrow> alt_scan on (drop 1 bs)))"
  by pat_completeness auto
termination
  by (relation "measure (\<lambda>(on, bs). length bs)") (auto dest: switch_at_len)

declare alt_scan.simps [simp del]

definition alt_feed :: "alt_screen \<Rightarrow> bytes \<Rightarrow> alt_screen" where
  "alt_feed s bs =
     (let b = tail s @ bs;
          keep = min (length b) (MAX_SEQ - 1)
      in \<lparr>active = alt_scan (active s) b, tail = drop (length b - keep) b\<rparr>)"

subsection \<open>The switches as a table of words\<close>

definition switch_words :: "(bytes \<times> bool) list" where
  "switch_words = [([0x1b, 0x5b, 0x3f, 0x31, 0x30, 0x34, 0x39, 0x68], True),
     ([0x1b, 0x5b, 0x3f, 0x31, 0x30, 0x34, 0x39, 0x6c], False),
     ([0x1b, 0x5b, 0x3f, 0x31, 0x30, 0x34, 0x37, 0x68], True),
     ([0x1b, 0x5b, 0x3f, 0x31, 0x30, 0x34, 0x37, 0x6c], False),
     ([0x1b, 0x5b, 0x3f, 0x34, 0x37, 0x68], True),
     ([0x1b, 0x5b, 0x3f, 0x34, 0x37, 0x6c], False)]"

lemma switch_shape:
  "3 + length c + 1 \<le> length bs \<and> bs ! 0 = a \<and> bs ! 1 = b \<and> bs ! 2 = d \<and>
     take (length c) (drop 3 bs) = c \<and> bs ! (3 + length c) = x \<longleftrightarrow>
   prefix (a # b # d # c @ [x]) bs" (is "?l \<longleftrightarrow> ?r")
proof
  assume l: ?l
  then obtain p q r ys where bs: "bs = p # q # r # ys"
    by (cases bs; cases "tl bs"; cases "tl (tl bs)") auto
  with l have "take (length c) ys = c" "length c < length ys" "ys ! length c = x"
    by (auto simp: numeral_3_eq_3)
  then have "take (Suc (length c)) ys = c @ [x]" by (simp add: take_Suc_conv_app_nth)
  then have "prefix (c @ [x]) ys" by (metis take_is_prefix)
  with l bs show ?r by simp
next
  assume ?r
  then obtain ys where "bs = a # b # d # c @ x # ys" by (auto simp: prefix_def)
  then show ?l by (simp add: numeral_3_eq_3 nth_append)
qed

lemma switch_codes_prefix:
  "switch_codes (c # cs) bs =
     (if prefix (0x1b # 0x5b # 0x3f # c @ [0x68]) bs then Some (4 + length c, True)
      else if prefix (0x1b # 0x5b # 0x3f # c @ [0x6c]) bs then Some (4 + length c, False)
      else switch_codes cs bs)"
  unfolding switch_shape [symmetric] by (auto simp: Let_def)

lemma words_exclusive:
  assumes "(v, a) \<in> set switch_words" and "(w, b) \<in> set switch_words"
    and "prefix v bs" and "prefix w bs"
  shows "v = w \<and> a = b"
proof -
  from assms(3,4) have "prefix v w \<or> prefix w v" by (rule prefix_same_cases)
  with assms(1,2) show ?thesis by (auto simp: switch_words_def)
qed

lemma switch_at_find:
  "switch_at bs = map_option (\<lambda>(w, on). (length w, on)) (find (\<lambda>(w, on). prefix w bs) switch_words)"
  by (simp add: switch_at_def switch_words_def switch_codes_prefix del: switch_codes.simps(2))

lemma switch_at_Some:
  "switch_at bs = Some (len, on) \<Longrightarrow> \<exists>w. (w, on) \<in> set switch_words \<and> prefix w bs \<and> len = length w"
  unfolding switch_at_find by (auto simp: find_Some_iff dest!: nth_mem)

lemma switch_at_word:
  assumes "(w, on) \<in> set switch_words" and "prefix w bs"
  shows "switch_at bs = Some (length w, on)"
proof -
  from assms have "switch_at bs \<noteq> None"
    unfolding switch_at_find by (auto simp: find_None_iff)
  then obtain len on' where s: "switch_at bs = Some (len, on')" by auto
  with switch_at_Some obtain v where "(v, on') \<in> set switch_words" "prefix v bs" "len = length v"
    by blast
  with words_exclusive [OF assms(1) _ assms(2)] s show ?thesis by auto
qed

lemma word_shape:
  "(w, on) \<in> set switch_words \<Longrightarrow> hd w = 0x1b \<and> 0x1b \<notin> set (tl w) \<and> 0 < length w \<and> length w \<le> 8"
  by (auto simp: switch_words_def)

lemma switch_at_append: "switch_at bs = Some r \<Longrightarrow> switch_at (bs @ xs) = Some r"
  by (cases r) (auto dest!: switch_at_Some intro: switch_at_word)

lemma switch_at_long: "8 \<le> length bs \<Longrightarrow> switch_at (bs @ xs) = switch_at bs"
proof (cases "switch_at (bs @ xs)")
  case (Some r)
  assume "8 \<le> length bs"
  obtain len on where "r = (len, on)" by (cases r)
  with Some obtain w where w: "(w, on) \<in> set switch_words" "prefix w (bs @ xs)" "len = length w"
    using switch_at_Some by blast
  with word_shape [OF w(1)] \<open>8 \<le> length bs\<close> have "prefix w bs"
    by (metis le_trans prefix_length_prefix prefixI)
  with w Some \<open>r = (len, on)\<close> show ?thesis using switch_at_word by simp
next
  case None
  with switch_at_append [of bs _ xs] show ?thesis by (cases "switch_at bs") auto
qed

subsection \<open>Scanning every position\<close>

text \<open>No switch begins inside another, so the skip of the loop loses nothing: the flag is that of
  the last position where a switch begins.\<close>

fun alt_scan1 :: "bool \<Rightarrow> bytes \<Rightarrow> bool" where
  "alt_scan1 on [] = on"
| "alt_scan1 on (b # bs) =
     alt_scan1 (case switch_at (b # bs) of Some (_, on') \<Rightarrow> on' | None \<Rightarrow> on) bs"

lemma switch_at_hd: "switch_at (b # bs) \<noteq> None \<Longrightarrow> b = 0x1b"
proof -
  assume "switch_at (b # bs) \<noteq> None"
  then obtain len on where "switch_at (b # bs) = Some (len, on)" by auto
  then obtain w where "(w, on) \<in> set switch_words" "prefix w (b # bs)"
    using switch_at_Some by blast
  with word_shape [of w on] show ?thesis by (cases w) auto
qed

lemma alt_scan1_no_esc: "0x1b \<notin> set xs \<Longrightarrow> alt_scan1 on (xs @ ys) = alt_scan1 on ys"
proof (induction xs)
  case (Cons x xs)
  then have "switch_at ((x # xs) @ ys) = None"
    using switch_at_hd [of x "xs @ ys"] by (cases "switch_at ((x # xs) @ ys)") auto
  with Cons show ?case by simp
qed simp

lemma alt_scan_scan1: "alt_scan on bs = alt_scan1 on bs"
proof (induction on bs rule: alt_scan.induct)
  case (1 on bs)
  show ?case
  proof (cases bs)
    case Nil
    then show ?thesis by (simp add: alt_scan.simps)
  next
    case (Cons b cs)
    show ?thesis
    proof (cases "switch_at bs")
      case None
      with 1 Cons show ?thesis by (simp add: alt_scan.simps [of on "b # cs"])
    next
      case (Some r)
      obtain len on' where r: "r = (len, on')" by (cases r)
      with Some obtain w where w: "(w, on') \<in> set switch_words" "prefix w bs" "len = length w"
        using switch_at_Some by blast
      from w(2) obtain ys where ys: "bs = w @ ys" by (auto simp: prefix_def)
      with word_shape [OF w(1)] Cons obtain v where "w = b # v" "0x1b \<notin> set v" "cs = v @ ys"
        by (cases w) auto
      moreover have "alt_scan on' (drop len bs) = alt_scan1 on' (drop len bs)"
        using 1 Cons Some r by simp
      ultimately show ?thesis using Cons Some r w ys
        by (simp add: alt_scan.simps [of on "b # v @ ys"] alt_scan1_no_esc)
    qed
  qed
qed

text \<open>Once a switch is complete in a prefix, the flag before it no longer matters.\<close>

lemma alt_scan1_append_stable:
  "alt_scan1 (alt_scan1 on t) (t @ xs) = alt_scan1 on (t @ xs)"
proof (induction t arbitrary: on)
  case (Cons b t)
  show ?case
  proof (cases "switch_at (b # t)")
    case (Some r)
    then have "switch_at (b # t @ xs) = Some r" using switch_at_append [of "b # t" r xs] by simp
    then show ?thesis by (simp split: prod.splits)
  next
    case None
    have "alt_scan1 (alt_scan1 on t) (t @ xs) = alt_scan1 on (t @ xs)" by (rule Cons.IH)
    then show ?thesis using None by (auto split: option.splits)
  qed
qed simp

lemma alt_scan1_tail:
  "alt_scan1 (alt_scan1 on w) (last_n 7 w @ xs) = alt_scan1 on (w @ xs)"
proof (induction w arbitrary: on)
  case Nil
  then show ?case by (simp add: last_n_def)
next
  case (Cons b w)
  show ?case
  proof (cases "length (b # w) \<le> 7")
    case True
    then show ?thesis using alt_scan1_append_stable [of on "b # w" xs] by (simp add: last_n_short)
  next
    case False
    then have "last_n 7 (b # w) = last_n 7 w" by (simp add: last_n_def drop_Cons')
    moreover have "switch_at (b # w @ xs) = switch_at (b # w)"
      using False switch_at_long [of "b # w" xs] by simp
    ultimately show ?thesis using Cons.IH by simp
  qed
qed

text \<open>The states the tracker can be in: the flag and the tail of some output seen so far.\<close>

definition alt_ok :: "alt_screen \<Rightarrow> bool" where
  "alt_ok s \<longleftrightarrow> (\<exists>w. active s = alt_scan False w \<and> tail s = last_n 7 w)"

lemma alt_feed_eq:
  "alt_feed s bs = \<lparr>active = alt_scan1 (active s) (tail s @ bs), tail = last_n 7 (tail s @ bs)\<rparr>"
  by (simp add: alt_feed_def last_n_def codes alt_scan_scan1 Let_def min_def)

lemma alt_feed_history:
  assumes "active s = alt_scan1 False w" and "tail s = last_n 7 w"
  shows "alt_feed s bs = \<lparr>active = alt_scan1 False (w @ bs), tail = last_n 7 (w @ bs)\<rparr>"
  using assms by (simp add: alt_feed_eq alt_scan1_tail last_n_last_n_append)

interpretation alt: chunked alt_feed alt_ok
proof
  fix s xs ys
  assume "alt_ok s"
  then obtain w where w: "active s = alt_scan1 False w" "tail s = last_n 7 w"
    by (auto simp: alt_ok_def alt_scan_scan1)
  show "alt_ok (alt_feed s xs)"
    using alt_feed_history [OF w, of xs] by (auto simp: alt_ok_def alt_scan_scan1)
  show "alt_feed s [] = s"
    using alt_feed_history [OF w, of "[]"] w by simp
  show "alt_feed s (xs @ ys) = alt_feed (alt_feed s xs) ys"
    using alt_feed_history [OF w, of "xs @ ys"] alt_feed_history [OF w, of xs]
      alt_feed_history [of "alt_feed s xs" "w @ xs" ys] by simp
qed

lemma alt_ok_new: "alt_ok alt_new"
  by (auto simp: alt_ok_def alt_new_def last_n_def alt_scan.simps intro!: exI [of _ "[]"])

section \<open>Properties\<close>

text \<open>After any sequence of pushes the ring replays exactly the last \<open>cap\<close> bytes of the whole
  output, all of it when there was less.\<close>

theorem ring_holds_tail:
  "ring_snapshot (foldl ring_push (ring_new n) chunks) = last_n n (concat chunks)"
  using ring.foldl_feed [of "ring_new n" chunks]
  by (simp add: ring_ok_def ring_new_def ring_push_last_n ring_snapshot_def)

text \<open>The alternate-screen flag after any sequence of reads is what one scan of the whole
  output gives: a switch cut anywhere between two reads is still seen, and none is seen twice.\<close>

theorem alt_screen_sees_straddling_switch:
  "active (foldl alt_feed alt_new chunks) = alt_scan False (concat chunks)"
proof -
  have "foldl alt_feed alt_new chunks = alt_feed alt_new (concat chunks)"
    by (rule alt.foldl_feed [OF alt_ok_new])
  then show ?thesis
    by (simp add: alt_feed_eq alt_scan_scan1) (simp add: alt_new_def)
qed

end
