(* ===== verification/Tally.thy ===== *)
theory Tally
  imports Btree_Map
begin

text \<open>
  Coalescing what the sandbox refuses (\<^verbatim>\<open>crates/willie-sess/src/tally.rs\<close>). The rows of the tally
  are a \<open>BTreeMap\<close> from (class, name); the injected clock is the argument \<open>now\<close> of each call, an
  \<open>Instant\<close> as a number of time units (\<open>duration_since\<close> saturates at zero, as subtraction on \<open>nat\<close>
  does); a count that would overflow 64 bits is out of reach and counts are \<open>nat\<close>.

  Shown: no refusal is lost or counted twice between the calls and the reports, reports of one row
  are at least one window apart, and a flush leaves nothing folded.
\<close>

record row =
  pending :: nat
  reported_at :: nat

type_synonym denial = "string \<times> string"

record tally =
  window :: nat
  rows :: "(denial, row) btree"

type_synonym report = "denial \<times> nat"

definition tally_new :: "nat \<Rightarrow> tally" where
  "tally_new w = \<lparr>window = w, rows = []\<rparr>"

definition tally_record :: "tally \<Rightarrow> nat \<Rightarrow> denial \<Rightarrow> tally \<times> report option" where
  "tally_record t now k =
     (case bt_get (rows t) k of
        None \<Rightarrow> (t\<lparr>rows := bt_insert k \<lparr>pending = 0, reported_at = now\<rparr> (rows t)\<rparr>, Some (k, 1))
      | Some r \<Rightarrow>
          (let r' = r\<lparr>pending := pending r + 1\<rparr> in
           if now - reported_at r < window t
           then (t\<lparr>rows := bt_insert k r' (rows t)\<rparr>, None)
           else (t\<lparr>rows := bt_insert k \<lparr>pending = 0, reported_at = now\<rparr> (rows t)\<rparr>,
                 Some (k, pending r'))))"

definition tally_flush :: "tally \<Rightarrow> nat \<Rightarrow> tally \<times> report list" where
  "tally_flush t now =
     (t\<lparr>rows := map (\<lambda>(k, r). (k, if 0 < pending r then \<lparr>pending = 0, reported_at = now\<rparr> else r))
        (rows t)\<rparr>,
      map (\<lambda>(k, r). (k, pending r)) (filter (\<lambda>(k, r). 0 < pending r) (rows t)))"

section \<open>Runs\<close>

datatype tally_op = Rec nat denial | Flush nat

fun tally_step :: "tally \<times> report list \<Rightarrow> tally_op \<Rightarrow> tally \<times> report list" where
  "tally_step (t, out) (Rec now k) =
     (case tally_record t now k of
        (t', None) \<Rightarrow> (t', out)
      | (t', Some rep) \<Rightarrow> (t', out @ [rep]))"
| "tally_step (t, out) (Flush now) = (case tally_flush t now of (t', reps) \<Rightarrow> (t', out @ reps))"

definition reported :: "report list \<Rightarrow> denial \<Rightarrow> nat" where
  "reported out k = sum_list (map snd (filter (\<lambda>(k', n). k' = k) out))"

definition folded :: "tally \<Rightarrow> denial \<Rightarrow> nat" where
  "folded t k = (case bt_get (rows t) k of None \<Rightarrow> 0 | Some r \<Rightarrow> pending r)"

fun recorded :: "tally_op list \<Rightarrow> denial \<Rightarrow> nat" where
  "recorded [] k = 0"
| "recorded (Rec now k' # ops) k = (if k' = k then 1 else 0) + recorded ops k"
| "recorded (Flush now # ops) k = recorded ops k"

definition tally_ok :: "tally \<Rightarrow> bool" where
  "tally_ok t \<longleftrightarrow> bt_ok (rows t)"

lemma reported_append [simp]: "reported (xs @ ys) k = reported xs k + reported ys k"
  by (simp add: reported_def)

lemma reported_one [simp]: "reported [(k', n)] k = (if k' = k then n else 0)"
  by (simp add: reported_def)

lemma reported_Nil [simp]: "reported [] k = 0"
  by (simp add: reported_def)

lemma tally_ok_record: "tally_ok t \<Longrightarrow> tally_ok (fst (tally_record t now k))"
  by (auto simp: tally_ok_def tally_record_def Let_def bt.ok_put split: option.splits)

lemma tally_ok_flush: "tally_ok t \<Longrightarrow> tally_ok (fst (tally_flush t now))"
  by (simp add: tally_ok_def tally_flush_def bt_ok_def comp_def split_def)

lemma record_accounts:
  assumes "tally_ok t" and "tally_record t now k = (t', rep)"
  shows "reported (case rep of None \<Rightarrow> [] | Some r \<Rightarrow> [r]) k' + folded t' k' =
    folded t k' + (if k' = k then 1 else 0)"
  using assms
  by (auto simp: tally_ok_def tally_record_def folded_def Let_def bt.get_put split: option.splits if_splits)

text \<open>What a flush reports for a key is what was folded for it.\<close>

lemma reported_flush:
  "bt_ok m \<Longrightarrow> reported (map (\<lambda>(k, r). (k, pending r)) (filter (\<lambda>(k, r). 0 < pending r) m)) k =
    (case bt_get m k of None \<Rightarrow> 0 | Some r \<Rightarrow> pending r)"
proof (induction m)
  case (Cons e m)
  obtain k' r where e: "e = (k', r)" by (cases e)
  from Cons.prems e have m: "bt_ok m" and new: "k = k' \<Longrightarrow> bt_get m k = None"
    by (auto simp: bt_ok_def bt_get_def map_of_eq_None_iff)
  let ?out = "map (\<lambda>(k, r). (k, pending r)) (filter (\<lambda>(k, r). 0 < pending r) m)"
  have "reported ((k', pending r) # ?out) k = (if k' = k then pending r else 0) + reported ?out k"
    using reported_append [of "[(k', pending r)]" ?out k] by simp
  with Cons.IH [OF m] e new show ?case by (auto simp: bt_get_def)
qed simp

lemma bt_get_map: "bt_get (map (\<lambda>(k, r). (k, g r)) m) k = map_option g (bt_get m k)"
  by (induction m) (auto simp: bt_get_def)

lemma flush_folded: "folded (fst (tally_flush t now)) k = 0"
  using bt_get_map [of "\<lambda>r. if 0 < pending r then \<lparr>pending = 0, reported_at = now\<rparr> else r" "rows t" k]
  by (auto simp: folded_def tally_flush_def split: option.splits)

lemma flush_accounts:
  "tally_ok t \<Longrightarrow> tally_flush t now = (t', reps) \<Longrightarrow>
   reported reps k + folded t' k = folded t k"
  using flush_folded [of t now k] reported_flush [of "rows t" k]
  by (auto simp: tally_flush_def tally_ok_def folded_def)

lemma tally_step_accounts:
  assumes "tally_ok t" and "tally_step (t, out) op = (t', out')"
  shows "tally_ok t' \<and> reported out' k + folded t' k =
    reported out k + folded t k + recorded [op] k"
proof (cases op)
  case (Rec now k')
  with assms tally_ok_record [of t now k'] record_accounts [OF assms(1), of now k' _ _ k]
  show ?thesis by (auto split: prod.splits option.splits)
next
  case (Flush now)
  with assms tally_ok_flush [of t now] flush_accounts [OF assms(1), of now _ _ k]
  show ?thesis by (auto split: prod.splits)
qed

lemma recorded_Cons: "recorded (op # ops) k = recorded [op] k + recorded ops k"
  by (cases op) auto

lemma tally_run_accounts:
  assumes "tally_ok t" and "foldl tally_step (t, out) ops = (t', out')"
  shows "tally_ok t' \<and> reported out' k + folded t' k =
    reported out k + folded t k + recorded ops k"
  using assms
proof (induction ops arbitrary: t out)
  case (Cons op ops)
  obtain t1 out1 where st: "tally_step (t, out) op = (t1, out1)" by (cases "tally_step (t, out) op")
  with tally_step_accounts [OF Cons.prems(1) st, of k] Cons.IH [of t1 out1] Cons.prems(2)
    recorded_Cons [of op ops k]
  show ?case by auto
qed simp

section \<open>A row inside its window\<close>

definition quiet_row :: "tally \<Rightarrow> denial \<Rightarrow> nat \<Rightarrow> nat \<Rightarrow> bool" where
  "quiet_row t k now w \<longleftrightarrow>
     window t = w \<and> (\<exists>r. bt_get (rows t) k = Some r \<and> reported_at r = now)"

lemma quiet_row_record:
  assumes "tally_ok t" and "quiet_row t k now w" and "now \<le> n" and "n < now + w"
    and "tally_record t n k' = (t', rep)"
  shows "quiet_row t' k now w \<and> (\<forall>r. rep = Some r \<longrightarrow> fst r \<noteq> k)"
  using assms
  by (cases "k' = k")
     (auto simp: quiet_row_def tally_record_def tally_ok_def Let_def bt.get_put
        split: option.splits if_splits)

lemma quiet_row_run:
  assumes "tally_ok t" and "quiet_row t k now w"
    and "\<forall>op \<in> set ops. \<exists>n k'. op = Rec n k' \<and> now \<le> n \<and> n < now + w" and "k \<notin> fst ` set out"
  shows "k \<notin> fst ` set (snd (foldl tally_step (t, out) ops))"
  using assms
proof (induction ops arbitrary: t out)
  case (Cons op ops)
  then obtain n k' where op: "op = Rec n k'" "now \<le> n" "n < now + w" by auto
  obtain t' rep where rec: "tally_record t n k' = (t', rep)" by (cases "tally_record t n k'")
  have "tally_ok t'" using tally_ok_record [OF Cons.prems(1), of n k'] rec by simp
  moreover have "quiet_row t' k now w" "\<forall>r. rep = Some r \<longrightarrow> fst r \<noteq> k"
    using quiet_row_record [OF Cons.prems(1,2) op(2,3) rec] by simp_all
  moreover from this have "k \<notin> fst ` set (out @ (case rep of None \<Rightarrow> [] | Some r \<Rightarrow> [r]))"
    using Cons.prems(4) by (auto split: option.splits)
  ultimately have "k \<notin> fst ` set (snd (foldl tally_step
      (t', out @ (case rep of None \<Rightarrow> [] | Some r \<Rightarrow> [r])) ops))"
    using Cons.prems(3) by (intro Cons.IH) auto
  then show ?case using op rec by (cases rep) simp_all
qed simp

section \<open>Properties\<close>

text \<open>Nothing is lost and nothing is counted twice: after any sequence of refusals and flushes
  that ends with the flush before the exit, the counts reported for each (class, name) add up to
  the number of times it was refused.\<close>

theorem tally_conserves_denials:
  "(case foldl tally_step (tally_new w, []) (ops @ [Flush now]) of
      (t, out) \<Rightarrow> reported out k = recorded ops k \<and> folded t k = 0)"
proof -
  obtain t out where run: "foldl tally_step (tally_new w, []) ops = (t, out)"
    by (cases "foldl tally_step (tally_new w, []) ops")
  have "tally_ok t \<and> reported out k + folded t k = recorded ops k"
    using tally_run_accounts [OF _ run, of k] by (simp add: tally_ok_def tally_new_def folded_def)
  with run flush_accounts [of t now _ _ k] flush_folded [of t now k] show ?thesis
    by (auto split: prod.splits)
qed

text \<open>A program probing one denied call in a loop cannot flood the log: once a row has
  reported, no sequence of refusals within the window, of this or any other row, makes it report
  again (the clock does not run backwards).\<close>

theorem tally_one_report_per_window:
  assumes "tally_ok t" and "tally_record t now k = (t1, Some rep)"
    and "\<forall>op \<in> set ops. \<exists>n k'. op = Rec n k' \<and> now \<le> n \<and> n < now + window t"
  shows "k \<notin> fst ` set (snd (foldl tally_step (t1, []) ops))"
proof -
  have "tally_ok t1" "quiet_row t1 k now (window t)"
    using tally_ok_record [OF assms(1), of now k] assms(1,2)
    by (auto simp: tally_record_def quiet_row_def tally_ok_def Let_def bt.get_put
        split: option.splits if_splits)
  then show ?thesis using assms(3) quiet_row_run [of t1 k now "window t" ops "[]"] by simp
qed

theorem tally_one_report_per_window_witness:
  "(''syscall'', ''ptrace'') \<notin> fst ` set (snd (foldl tally_step
     (fst (tally_record (tally_new 5) 10 (''syscall'', ''ptrace'')), [])
     [Rec 11 (''syscall'', ''ptrace''), Rec 14 (''terminal'', ''title''), Rec 14 (''syscall'', ''ptrace'')]))"
  by (rule tally_one_report_per_window [of "tally_new 5" 10 _ _ "((''syscall'', ''ptrace''), 1)"])
     (simp_all add: tally_ok_def tally_new_def tally_record_def)

text \<open>A flush reports each row at most once, in (class, name) order and only with a positive
  count.\<close>

theorem tally_flush_ordered:
  assumes "tally_ok t"
  shows "sorted_wrt (<) (map fst (snd (tally_flush t now))) \<and>
    list_all (\<lambda>(k, n). 0 < n) (snd (tally_flush t now))"
proof -
  have "sorted_wrt (<) (map fst (map (\<lambda>(k, r). (k, pending r)) (filter P m)))"
    if "sorted_wrt (<) (map fst m)" for P and m :: "(denial, row) btree"
    using that by (induction m) (auto split: prod.splits)
  with assms show ?thesis by (auto simp: tally_flush_def tally_ok_def bt_ok_def list_all_iff)
qed

theorem tally_flush_ordered_witness:
  "sorted_wrt (<) (map fst (snd (tally_flush \<lparr>window = 5,
      rows = [((''syscall'', ''bpf''), \<lparr>pending = 2, reported_at = 1\<rparr>),
              ((''terminal'', ''title''), \<lparr>pending = 1, reported_at = 3\<rparr>)]\<rparr> 9))) \<and>
    list_all (\<lambda>(k, n). 0 < n) (snd (tally_flush \<lparr>window = 5,
      rows = [((''syscall'', ''bpf''), \<lparr>pending = 2, reported_at = 1\<rparr>),
              ((''terminal'', ''title''), \<lparr>pending = 1, reported_at = 3\<rparr>)]\<rparr> 9))"
  by (rule tally_flush_ordered) (simp add: tally_ok_def bt_ok_def less_char_def)

end
