(* ===== verification/Policy.thy ===== *)
theory Policy
  imports Prelude
begin

text \<open>
  The sandbox policy (\<^verbatim>\<open>crates/willie-core/src/sandbox.rs\<close>): the capabilities, the set a session
  runs with, the project's profile, the lexical guard on extra paths and the merge of the two
  layers. Paths are their bytes; \<open>split_on (CHR ''/'')\<close> is \<open>split('/')\<close>.

  Shown: the textual guard decides exactly what the policy means on path components (a location,
  what is under it, what is above it), whatever separators and dots the path is written with; the
  merge fails closed and never grants what this version cannot apply; \<open>explain\<close> tells the truth about
  the merge.
\<close>

section \<open>Capabilities\<close>

datatype capability =
    ProjectRw | AgentState | ToolsRo | CachesRw | GitIdentity | ExtraPaths
  | HomePersistent | Ssh | MntAll | WindowsInterop

definition CAPABILITY_ALL :: "capability list" where
  "CAPABILITY_ALL = [ProjectRw, AgentState, ToolsRo, CachesRw, GitIdentity, ExtraPaths,
     HomePersistent, Ssh, MntAll, WindowsInterop]"

fun display_name :: "capability \<Rightarrow> string" where
  "display_name ProjectRw = ''project.rw''"
| "display_name AgentState = ''agent.state''"
| "display_name ToolsRo = ''tools.ro''"
| "display_name CachesRw = ''caches.rw''"
| "display_name GitIdentity = ''git.identity''"
| "display_name ExtraPaths = ''extra.paths''"
| "display_name HomePersistent = ''home.persistent''"
| "display_name Ssh = ''ssh''"
| "display_name MntAll = ''mnt.all''"
| "display_name WindowsInterop = ''windows.interop''"

fun consequence :: "capability \<Rightarrow> string" where
  "consequence ProjectRw = ''the session edits the project, which is why it exists''"
| "consequence AgentState = ''anything the agent runs can use the harness's login''"
| "consequence ToolsRo = ''the agent runs the managed tools and cannot change them''"
| "consequence CachesRw = ''package downloads survive between this project's sessions''"
| "consequence GitIdentity = ''commits carry the user's name and address''"
| "consequence ExtraPaths =
     ''each entry reaches outside the project, and is recorded in the session''"
| "consequence HomePersistent =
     ''the home directory survives the session instead of being discarded with it''"
| "consequence Ssh = ''the agent can use the user's ssh keys and agent socket''"
| "consequence MntAll = ''the agent reaches every Windows drive''"
| "consequence WindowsInterop =
     ''the agent runs Windows programs: towards Windows this is the same as no sandbox''"

fun is_implemented :: "capability \<Rightarrow> bool" where
  "is_implemented ProjectRw = True"
| "is_implemented AgentState = True"
| "is_implemented ToolsRo = True"
| "is_implemented CachesRw = True"
| "is_implemented GitIdentity = True"
| "is_implemented ExtraPaths = True"
| "is_implemented _ = False"

datatype path_mode = Ro | Rw

record extra_path =
  xp_path :: string
  xp_mode :: path_mode

record capability_set =
  project_rw :: bool
  agent_state :: bool
  tools_ro :: bool
  caches_rw :: bool
  git_identity :: bool
  extra_paths :: "extra_path list"

fun cap_enabled :: "capability_set \<Rightarrow> capability \<Rightarrow> bool" where
  "cap_enabled s ProjectRw = project_rw s"
| "cap_enabled s AgentState = agent_state s"
| "cap_enabled s ToolsRo = tools_ro s"
| "cap_enabled s CachesRw = caches_rw s"
| "cap_enabled s GitIdentity = git_identity s"
| "cap_enabled s ExtraPaths = (extra_paths s \<noteq> [])"
| "cap_enabled s _ = False"

definition capability_set_default :: capability_set where
  "capability_set_default = \<lparr>project_rw = True, agent_state = False, tools_ro = False,
     caches_rw = False, git_identity = False, extra_paths = []\<rparr>"

record sandbox_profile =
  pr_project_rw :: "bool option"
  pr_agent_state :: "bool option"
  pr_tools_ro :: "bool option"
  pr_caches_rw :: "bool option"
  pr_git_identity :: "bool option"
  pr_extra_paths :: "extra_path list"
  pr_home_persistent :: "bool option"
  pr_ssh :: "bool option"
  pr_mnt_all :: "bool option"
  pr_windows_interop :: "bool option"

definition sandbox_profile_default :: sandbox_profile where
  "sandbox_profile_default = \<lparr>pr_project_rw = None, pr_agent_state = None, pr_tools_ro = None,
     pr_caches_rw = None, pr_git_identity = None, pr_extra_paths = [], pr_home_persistent = None,
     pr_ssh = None, pr_mnt_all = None, pr_windows_interop = None\<rparr>"

datatype capability_error =
    Unsupported capability
  | ExtraPathNotAbsolute string
  | ExtraPathGuarded string string

fun cap_error_code :: "capability_error \<Rightarrow> string" where
  "cap_error_code (Unsupported c) = ''sandbox_capability_unsupported''"
| "cap_error_code (ExtraPathNotAbsolute p) = ''sandbox_profile_invalid''"
| "cap_error_code (ExtraPathGuarded p r) = ''sandbox_profile_invalid''"

fun cap_error_remediation :: "capability_error \<Rightarrow> string" where
  "cap_error_remediation (Unsupported c) =
     ''remove `'' @ display_name c @ ''` from the project's sandbox settings; this version cannot apply it''"
| "cap_error_remediation (ExtraPathNotAbsolute p) =
     ''give an absolute path as it appears inside the distribution, starting with `/`''"
| "cap_error_remediation (ExtraPathGuarded p r) =
     ''name a narrower path outside it, or remove the entry''"

section \<open>The guard on extra paths\<close>

abbreviation slash :: char where
  "slash \<equiv> CHR ''/''"

definition has_dotdot_component :: "string \<Rightarrow> bool" where
  "has_dotdot_component path = list_ex (\<lambda>c. c = ''..'') (split_on slash path)"

definition normalize_lexical :: "string \<Rightarrow> string" where
  "normalize_lexical path =
     foldl (\<lambda>out part. (if 1 < length out then out @ ''/'' else out) @ part) ''/''
       (filter (\<lambda>p. p \<noteq> [] \<and> p \<noteq> ''.'') (split_on slash path))"

definition is_prefix_path :: "string \<Rightarrow> string \<Rightarrow> bool" where
  "is_prefix_path pre path \<longleftrightarrow>
     path = pre \<or>
     (case strip_prefix pre path of None \<Rightarrow> False | Some rest \<Rightarrow> starts_with rest ''/'')"

datatype flavor = Subtree | Exact

definition guarded_locations :: "string \<Rightarrow> (string \<times> flavor \<times> string) list" where
  "guarded_locations home =
     (let interop = ''the interop interpreter and its sockets are `windows.interop`, which this version does not apply'';
          kernel = ''kernel interfaces are not paths to grant'';
          system = ''the system stays as the base mounts it'';
          willie_state = ''Willie's own state stays as the base mounts it'';
          tools = ''managed tools are `tools.ro`, read-only; an extra path must not reopen them read-write'';
          caches = ''package caches are `caches.rw`, one per project; an extra path must not share them across projects''
      in
     [(''/init'', Subtree, interop),
      (''/run'', Subtree, interop),
      (''/proc'', Subtree, kernel),
      (''/sys'', Subtree, kernel),
      (''/dev'', Subtree, kernel),
      (''/etc'', Subtree, system),
      (''/usr'', Subtree, system),
      (''/bin'', Subtree, system),
      (''/sbin'', Subtree, system),
      (''/lib'', Subtree, system),
      (''/lib64'', Subtree, system),
      (''/opt/willie'', Subtree, willie_state),
      (''/var/lib/willie'', Subtree, willie_state),
      (''/tmp'', Exact,
       ''the temporary directory is private to the session; grant paths inside it one by one''),
      (home, Exact, ''the home is private; grant paths inside it one by one''),
      (home @ ''/projects'', Exact,
       ''every project lives under it; grant the one you mean, not all of them at once''),
      (home @ ''/.willie'', Subtree,
       ''Willie's per-user state holds the login and every project's caches''),
      (home @ ''/.ssh'', Subtree, ''keys are `ssh`, which this version does not apply''),
      (home @ ''/.claude'', Subtree, ''the login is `agent.state`''),
      (home @ ''/.local'', Subtree, tools),
      (home @ ''/.dotnet'', Subtree, tools),
      (home @ ''/.npm'', Subtree, caches),
      (home @ ''/.nuget'', Subtree, caches),
      (home @ ''/.cache'', Subtree, caches),
      (home @ ''/.claude.json'', Exact, ''the login is `agent.state`''),
      (home @ ''/.gitconfig'', Exact, ''the identity is `git.identity`'')])"

definition is_ascii_alpha :: "char \<Rightarrow> bool" where
  "is_ascii_alpha c \<longleftrightarrow>
     (let n = (of_char c :: nat) in (65 \<le> n \<and> n \<le> 90) \<or> (97 \<le> n \<and> n \<le> 122))"

definition guard_mnt :: "string \<Rightarrow> string option" where
  "guard_mnt path =
     (case strip_prefix ''/mnt'' path of
        None \<Rightarrow> None
      | Some rest \<Rightarrow>
          if rest = [] then
            Some ''every Windows drive is `mnt.all`, which this version does not apply''
          else (case strip_prefix ''/'' rest of
              None \<Rightarrow> None
            | Some inner \<Rightarrow>
                (let components = split_on slash inner;
                     drive = hd components;
                     is_drive_letter = (length drive = 1 \<and> is_ascii_alpha (hd drive))
                 in if \<not> is_drive_letter then
                      Some ''this reaches the Windows side; interop is `windows.interop`, which this version does not apply''
                    else if tl components = [] then
                      Some ''a whole Windows drive is `mnt.all`, which this version does not apply''
                    else None)))"

text \<open>One entry of the table against the path: both directions for a subtree, the ancestors and the
  location itself for an exact one.\<close>

definition guard_matches :: "string \<Rightarrow> string \<Rightarrow> flavor \<Rightarrow> bool" where
  "guard_matches path location fl =
     (case fl of
        Subtree \<Rightarrow> is_prefix_path location path \<or> is_prefix_path path location
      | Exact \<Rightarrow> is_prefix_path path location)"

definition guard_extra_path :: "string \<Rightarrow> string \<Rightarrow> string option" where
  "guard_extra_path path home =
     (if has_dotdot_component path then
        Some ''a `..` component is refused outright and never resolved; name the path directly''
      else
        let path = normalize_lexical path;
            home = normalize_lexical home
        in if path = ''/'' then Some ''the whole filesystem''
           else (case guard_mnt path of
                   Some reason \<Rightarrow> Some reason
                 | None \<Rightarrow>
                     map_option (\<lambda>(location, fl, reason). reason)
                       (find (\<lambda>(location, fl, reason). guard_matches path location fl)
                         (guarded_locations home))))"

section \<open>The merge\<close>

fun check_deferred :: "(bool option \<times> capability) list \<Rightarrow> capability_error option" where
  "check_deferred [] = None"
| "check_deferred ((asked, c) # rest) =
     (if asked = Some True then Some (Unsupported c) else check_deferred rest)"

fun check_extra_paths :: "extra_path list \<Rightarrow> string \<Rightarrow> capability_error option" where
  "check_extra_paths [] home = None"
| "check_extra_paths (x # xs) home =
     (if \<not> starts_with (xp_path x) ''/'' then Some (ExtraPathNotAbsolute (xp_path x))
      else (case guard_extra_path (xp_path x) home of
              Some reason \<Rightarrow> Some (ExtraPathGuarded (xp_path x) reason)
            | None \<Rightarrow> check_extra_paths xs home))"

definition unwrap_or :: "'a option \<Rightarrow> 'a \<Rightarrow> 'a" where
  "unwrap_or x d = (case x of None \<Rightarrow> d | Some v \<Rightarrow> v)"

definition resolve ::
  "capability_set \<Rightarrow> sandbox_profile \<Rightarrow> string \<Rightarrow> capability_error + capability_set" where
  "resolve defaults profile home =
     (case check_deferred [(pr_home_persistent profile, HomePersistent), (pr_ssh profile, Ssh),
             (pr_mnt_all profile, MntAll), (pr_windows_interop profile, WindowsInterop)] of
        Some e \<Rightarrow> Inl e
      | None \<Rightarrow>
          (case check_extra_paths (pr_extra_paths profile) home of
             Some e \<Rightarrow> Inl e
           | None \<Rightarrow> Inr
               \<lparr>project_rw = True,
                agent_state = unwrap_or (pr_agent_state profile) (agent_state defaults),
                tools_ro = unwrap_or (pr_tools_ro profile) (tools_ro defaults),
                caches_rw = unwrap_or (pr_caches_rw profile) (caches_rw defaults),
                git_identity = unwrap_or (pr_git_identity profile) (git_identity defaults),
                extra_paths = pr_extra_paths profile\<rparr>))"

datatype source = SrcDefault | SrcProfile | SrcUnavailable

record explained =
  ex_capability :: capability
  ex_enabled :: bool
  ex_source :: source

fun spoken :: "sandbox_profile \<Rightarrow> capability \<Rightarrow> bool" where
  "spoken p AgentState = (pr_agent_state p \<noteq> None)"
| "spoken p ToolsRo = (pr_tools_ro p \<noteq> None)"
| "spoken p CachesRw = (pr_caches_rw p \<noteq> None)"
| "spoken p GitIdentity = (pr_git_identity p \<noteq> None)"
| "spoken p ExtraPaths = (pr_extra_paths p \<noteq> [])"
| "spoken p _ = False"

definition explain_row :: "capability_set \<Rightarrow> sandbox_profile \<Rightarrow> capability \<Rightarrow> explained" where
  "explain_row resolved profile c =
     \<lparr>ex_capability = c, ex_enabled = cap_enabled resolved c,
      ex_source = (if is_implemented c
                   then (if spoken profile c then SrcProfile else SrcDefault)
                   else SrcUnavailable)\<rparr>"

definition explain ::
  "capability_set \<Rightarrow> sandbox_profile \<Rightarrow> string \<Rightarrow> capability_error + explained list" where
  "explain defaults profile home =
     (case resolve defaults profile home of
        Inl e \<Rightarrow> Inl e
      | Inr resolved \<Rightarrow> Inr (map (explain_row resolved profile) CAPABILITY_ALL))"

section \<open>Paths as components\<close>

text \<open>What a path names, whatever way it is written: its components without the empty ones and the
  dots.\<close>

definition path_comps :: "string \<Rightarrow> string list" where
  "path_comps p = filter (\<lambda>c. c \<noteq> [] \<and> c \<noteq> ''.'') (split_on slash p)"

definition render :: "string list \<Rightarrow> string" where
  "render cs = concat (map (\<lambda>c. slash # c) cs)"

definition component :: "string \<Rightarrow> bool" where
  "component c \<longleftrightarrow> slash \<notin> set c \<and> c \<noteq> []"

lemma render_simps [simp]:
  "render [] = []"
  "render (c # cs) = slash # c @ render cs"
  "render (cs @ ds) = render cs @ render ds"
  by (simp_all add: render_def)

lemma component_path_comps: "c \<in> set (path_comps p) \<Longrightarrow> component c"
  by (auto simp: path_comps_def component_def dest: split_on_pieces)

lemma dotdot_iff: "has_dotdot_component p \<longleftrightarrow> ''..'' \<in> set (path_comps p)"
  by (auto simp: has_dotdot_component_def path_comps_def list_ex_iff)

lemma foldl_join:
  "1 < length out \<Longrightarrow>
   foldl (\<lambda>out part. (if 1 < length out then out @ ''/'' else out) @ part) out cs = out @ render cs"
proof (induction cs arbitrary: out)
  case (Cons c cs)
  then have "1 < length (out @ slash # c)" by auto
  with Cons show ?case using Cons.IH [of "out @ slash # c"] by simp
qed simp

lemma normalize_lexical_render:
  "normalize_lexical p = (if path_comps p = [] then ''/'' else render (path_comps p))"
proof (cases "path_comps p")
  case Nil
  then show ?thesis by (simp add: normalize_lexical_def path_comps_def)
next
  case (Cons c cs)
  then have c: "component c" using component_path_comps [of c p] by simp
  then have "1 < length (slash # c)" by (cases c) (auto simp: component_def)
  with Cons show ?thesis
    using foldl_join [of "slash # c" cs]
    by (simp add: normalize_lexical_def path_comps_def)
qed

lemma split_render:
  "list_all component cs \<Longrightarrow> split_on slash (render cs) = [] # cs"
proof (induction cs)
  case (Cons c cs)
  show ?case
  proof (cases cs)
    case Nil
    with Cons show ?thesis by (simp add: component_def split_on_no_sep)
  next
    case (Cons d ds)
    with Cons.IH Cons.prems have "split_on slash (d @ render ds) = cs"
      by simp
    with Cons Cons.prems show ?thesis
      using split_on_append_sep [of slash c "d @ render ds"]
      by (simp add: component_def split_on_no_sep)
  qed
qed simp

lemma render_inject:
  "list_all component as \<Longrightarrow> list_all component bs \<Longrightarrow> render as = render bs \<longleftrightarrow> as = bs"
  using split_render [of as] split_render [of bs] by (metis list.inject)

lemma is_prefix_path_render:
  assumes "list_all component as" "list_all component bs"
  shows "is_prefix_path (render as) (render bs) \<longleftrightarrow> prefix as bs"
proof
  assume "is_prefix_path (render as) (render bs)"
  then consider "render bs = render as" | rest where "render bs = render as @ slash # rest"
    by (auto simp: is_prefix_path_def starts_with_iff strip_prefix_Some prefix_def split: option.splits)
  then show "prefix as bs"
  proof cases
    case 1
    with assms show ?thesis by (simp add: render_inject)
  next
    case 2
    then have "split_on slash (render bs) = split_on slash (render as) @ split_on slash rest"
      by (simp add: split_on_append_sep)
    with assms show ?thesis by (simp add: split_render)
  qed
next
  assume "prefix as bs"
  then obtain cs where bs: "bs = as @ cs" by (auto simp: prefix_def)
  show "is_prefix_path (render as) (render bs)"
    by (cases cs) (simp_all add: bs is_prefix_path_def starts_with_iff)
qed

section \<open>What the guard means\<close>

text \<open>The guarded places as component lists, the home's own relative to the home.\<close>

definition guarded_places :: "string list \<Rightarrow> (string list \<times> flavor) list" where
  "guarded_places hs =
     map (\<lambda>n. ([n], Subtree)) [''init'', ''run'', ''proc'', ''sys'', ''dev'', ''etc'', ''usr'', ''bin'',
       ''sbin'', ''lib'', ''lib64'']
     @ [([''opt'', ''willie''], Subtree), ([''var'', ''lib'', ''willie''], Subtree), ([''tmp''], Exact),
        (hs, Exact), (hs @ [''projects''], Exact)]
     @ map (\<lambda>n. (hs @ [n], Subtree)) [''.willie'', ''.ssh'', ''.claude'', ''.local'', ''.dotnet'', ''.npm'',
         ''.nuget'', ''.cache'']
     @ [(hs @ [''.claude.json''], Exact), (hs @ [''.gitconfig''], Exact)]"

text \<open>Under \<open>/mnt\<close> only something strictly inside a lettered drive.\<close>

definition mnt_ok :: "string list \<Rightarrow> bool" where
  "mnt_ok cs \<longleftrightarrow>
     (case cs of
        c # rest \<Rightarrow> c = ''mnt'' \<longrightarrow>
          (case rest of
             [l] # inner \<Rightarrow> is_ascii_alpha l \<and> inner \<noteq> []
           | _ \<Rightarrow> False)
      | [] \<Rightarrow> True)"

definition outside_guard :: "string list \<Rightarrow> string list \<Rightarrow> bool" where
  "outside_guard cs hs \<longleftrightarrow>
     ''..'' \<notin> set cs \<and> cs \<noteq> [] \<and> mnt_ok cs
     \<and> list_all (\<lambda>(place, fl). \<not> prefix cs place \<and> (fl = Subtree \<longrightarrow> \<not> prefix place cs))
         (guarded_places hs)"

lemma guarded_locations_render:
  "map (\<lambda>(l, fl, r). (l, fl)) (guarded_locations (render hs))
   = map (\<lambda>(place, fl). (render place, fl)) (guarded_places hs)"
  by (simp add: guarded_locations_def guarded_places_def Let_def)

lemma guarded_places_components:
  "list_all component hs \<Longrightarrow> (place, fl) \<in> set (guarded_places hs) \<Longrightarrow> list_all component place"
  by (auto simp: guarded_places_def component_def)

lemma guard_matches_render:
  assumes "list_all component cs" "list_all component place"
  shows "guard_matches (render cs) (render place) fl
    \<longleftrightarrow> prefix cs place \<or> (fl = Subtree \<and> prefix place cs)"
  using assms by (cases fl) (auto simp: guard_matches_def is_prefix_path_render)

lemma guard_table_render:
  assumes "list_all component cs" "list_all component hs"
  shows "find (\<lambda>(l, fl, r). guard_matches (render cs) l fl) (guarded_locations (render hs)) = None
    \<longleftrightarrow> list_all (\<lambda>(place, fl). \<not> prefix cs place \<and> (fl = Subtree \<longrightarrow> \<not> prefix place cs))
         (guarded_places hs)"
proof -
  have "find (\<lambda>(l, fl, r). guard_matches (render cs) l fl) (guarded_locations (render hs)) = None
    \<longleftrightarrow> list_all (\<lambda>(l, fl). \<not> guard_matches (render cs) l fl)
          (map (\<lambda>(l, fl, r). (l, fl)) (guarded_locations (render hs)))"
    by (auto simp: find_None_iff list_all_iff)
  also have "\<dots> \<longleftrightarrow> list_all (\<lambda>(place, fl). \<not> guard_matches (render cs) (render place) fl)
      (guarded_places hs)"
    unfolding guarded_locations_render by (auto simp: list_all_iff)
  also have "\<dots> \<longleftrightarrow> list_all (\<lambda>(place, fl). \<not> prefix cs place \<and> (fl = Subtree \<longrightarrow> \<not> prefix place cs))
      (guarded_places hs)"
    using guarded_places_components [OF assms(2)] guard_matches_render [OF assms(1)]
    by (fastforce simp: list_all_iff)
  finally show ?thesis .
qed

lemma strip_mnt:
  assumes "component c" "list_all component rest"
  shows "strip_prefix ''mnt'' (c @ render rest) =
    (if prefix ''mnt'' c then Some (drop 3 c @ render rest) else None)"
proof (cases "prefix ''mnt'' c")
  case True
  then obtain d where "c = ''mnt'' @ d" by (auto simp: prefix_def)
  then show ?thesis by simp
next
  case False
  have "\<not> prefix ''mnt'' (c @ render rest)"
  proof
    assume "prefix ''mnt'' (c @ render rest)"
    with False obtain e where e: "''mnt'' = c @ e" "prefix e (render rest)" "e \<noteq> []"
      by (auto simp: prefix_append)
    then have "hd e = slash" by (cases rest) (auto simp: prefix_def neq_Nil_conv)
    with e have "slash \<in> set ''mnt''" by (metis Un_iff hd_in_set set_append)
    then show False by simp
  qed
  then show ?thesis using False by (simp add: strip_prefix_None)
qed

lemma guard_mnt_render:
  assumes "list_all component cs"
  shows "guard_mnt (render cs) = None \<longleftrightarrow> mnt_ok cs"
proof (cases cs)
  case Nil
  then show ?thesis by (simp add: guard_mnt_def mnt_ok_def)
next
  case cs: (Cons c rest)
  with assms have c: "component c" and rest: "list_all component rest" by simp_all
  show ?thesis
  proof (cases "prefix ''mnt'' c")
    case False
    then have "c \<noteq> ''mnt''" by auto
    with False cs strip_mnt [OF c rest] show ?thesis
      by (simp add: guard_mnt_def mnt_ok_def)
  next
    case True
    then obtain d where d: "c = ''mnt'' @ d" by (auto simp: prefix_def)
    show ?thesis
    proof (cases d)
      case Nil
      show ?thesis
      proof (cases rest)
        case Nil
        with \<open>d = []\<close> d cs show ?thesis by (simp add: guard_mnt_def mnt_ok_def)
      next
        case (Cons l inner)
        then have "split_on slash (l @ render inner) = rest"
          using split_render [OF rest] by simp
        with Cons \<open>d = []\<close> d cs rest show ?thesis
          by (cases l) (auto simp: guard_mnt_def mnt_ok_def component_def Let_def split: list.splits)
      qed
    next
      case (Cons x xs)
      with c d have "x \<noteq> slash" by (auto simp: component_def)
      with Cons d cs show ?thesis by (simp add: guard_mnt_def mnt_ok_def)
    qed
  qed
qed

lemma path_comps_components: "list_all component (path_comps p)"
  by (auto simp: list_all_iff component_path_comps)

lemma guard_iff:
  assumes "path_comps home \<noteq> []"
  shows "guard_extra_path path home = None \<longleftrightarrow> outside_guard (path_comps path) (path_comps home)"
proof (cases "''..'' \<in> set (path_comps path) \<or> path_comps path = []")
  case True
  then show ?thesis
    by (auto simp: guard_extra_path_def outside_guard_def dotdot_iff normalize_lexical_render Let_def)
next
  case False
  then obtain c cs where c: "path_comps path = c # cs" by (cases "path_comps path") auto
  then have "render (path_comps path) \<noteq> ''/''"
    using component_path_comps [of c path] by (auto simp: component_def)
  with False assms show ?thesis
    using guard_table_render [of "path_comps path" "path_comps home"]
      guard_mnt_render [OF path_comps_components, of path]
    by (auto simp: guard_extra_path_def outside_guard_def dotdot_iff normalize_lexical_render Let_def
        path_comps_components split: option.split)
qed

text \<open>(C13) The textual guard on an extra path decides exactly the policy on components: it lets a path
  through just when the path has no \<open>..\<close>, is not the root, is under \<open>/mnt\<close> only strictly inside a
  lettered drive, and is neither a guarded place, nor above one, nor (for a guarded subtree) inside
  one, whatever slashes and dots the path and the home are written with.\<close>
theorem guard_extra_path_exact:
  assumes "path_comps home \<noteq> []"
  shows "guard_extra_path path home = None \<longleftrightarrow> outside_guard (path_comps path) (path_comps home)"
  using assms by (rule guard_iff)

theorem guard_extra_path_exact_witness:
  "path_comps ''/home/willie'' = [''home'', ''willie'']
   \<and> outside_guard (path_comps ''/mnt/c//work/./data'') [''home'', ''willie'']
   \<and> guard_extra_path ''/mnt/c//work/./data'' ''/home/willie'' = None
   \<and> guard_extra_path ''/home//willie/./.ssh/keys'' ''/home/willie'' \<noteq> None"
proof -
  have h: "path_comps ''/home/willie'' = [''home'', ''willie'']"
    by (simp add: path_comps_def)
  have p: "path_comps ''/mnt/c//work/./data'' = [''mnt'', ''c'', ''work'', ''data'']"
    "path_comps ''/home//willie/./.ssh/keys'' = [''home'', ''willie'', ''.ssh'', ''keys'']"
    by (simp_all add: path_comps_def)
  have ok: "outside_guard (path_comps ''/mnt/c//work/./data'') [''home'', ''willie'']"
    unfolding p by code_simp
  have no: "\<not> outside_guard (path_comps ''/home//willie/./.ssh/keys'') [''home'', ''willie'']"
    unfolding p by code_simp
  show ?thesis
    using guard_extra_path_exact [of "''/home/willie''" "''/mnt/c//work/./data''"]
      guard_extra_path_exact [of "''/home/willie''" "''/home//willie/./.ssh/keys''"] ok no
    by (simp only: h list.distinct not_False_eq_True simp_thms)
qed

section \<open>The merge fails closed\<close>

lemma check_deferred_None:
  "check_deferred xs = None \<longleftrightarrow> list_all (\<lambda>(asked, c). asked \<noteq> Some True) xs"
  by (induction xs rule: check_deferred.induct) auto

lemma check_extra_paths_None:
  assumes "path_comps home \<noteq> []"
  shows "check_extra_paths xs home = None \<longleftrightarrow>
    list_all (\<lambda>x. starts_with (xp_path x) ''/''
      \<and> outside_guard (path_comps (xp_path x)) (path_comps home)) xs"
proof (induction xs)
  case (Cons x xs)
  then show ?case
    using guard_iff [OF assms, of "xp_path x"] by (auto split: option.splits)
qed simp

lemma resolved_extra_paths:
  "path_comps home \<noteq> [] \<Longrightarrow> resolve defaults profile home = Inr s \<Longrightarrow>
   list_all (\<lambda>x. starts_with (xp_path x) ''/''
      \<and> outside_guard (path_comps (xp_path x)) (path_comps home)) (extra_paths s)"
  by (auto simp: resolve_def check_extra_paths_None split: option.splits)

text \<open>The merge of the defaults and a project's profile succeeds just when the profile asks for no
  capability this version cannot apply and every extra path is absolute and outside the guard; then
  the project is writable, every switch the profile speaks on is the profile's and every other the
  default's, and the extra paths are the profile's, all of them.\<close>
theorem resolve_accepts_exactly:
  assumes "path_comps home \<noteq> []"
  shows "resolve defaults profile home = Inr s \<longleftrightarrow>
    (list_all (\<lambda>asked. asked \<noteq> Some True) [pr_home_persistent profile, pr_ssh profile,
       pr_mnt_all profile, pr_windows_interop profile]
     \<and> list_all (\<lambda>x. starts_with (xp_path x) ''/''
         \<and> outside_guard (path_comps (xp_path x)) (path_comps home)) (pr_extra_paths profile)
     \<and> project_rw s
     \<and> agent_state s = unwrap_or (pr_agent_state profile) (agent_state defaults)
     \<and> tools_ro s = unwrap_or (pr_tools_ro profile) (tools_ro defaults)
     \<and> caches_rw s = unwrap_or (pr_caches_rw profile) (caches_rw defaults)
     \<and> git_identity s = unwrap_or (pr_git_identity profile) (git_identity defaults)
     \<and> extra_paths s = pr_extra_paths profile)"
proof -
  define deferred where "deferred = [(pr_home_persistent profile, HomePersistent), (pr_ssh profile, Ssh),
      (pr_mnt_all profile, MntAll), (pr_windows_interop profile, WindowsInterop)]"
  have d: "check_deferred deferred = None \<longleftrightarrow>
      list_all (\<lambda>asked. asked \<noteq> Some True) [pr_home_persistent profile, pr_ssh profile,
         pr_mnt_all profile, pr_windows_interop profile]"
    by (simp only: check_deferred_None) (simp add: deferred_def)
  show ?thesis
    unfolding d [symmetric] check_extra_paths_None [OF assms, symmetric]
    unfolding resolve_def deferred_def [symmetric]
    by (auto split: option.splits)
qed

theorem resolve_accepts_exactly_witness:
  "resolve capability_set_default
     (sandbox_profile_default\<lparr>pr_tools_ro := Some True,
        pr_extra_paths := [\<lparr>xp_path = ''/srv/data'', xp_mode = Ro\<rparr>]\<rparr>) ''/home/willie''
   = Inr (capability_set_default\<lparr>tools_ro := True,
        extra_paths := [\<lparr>xp_path = ''/srv/data'', xp_mode = Ro\<rparr>]\<rparr>)"
proof -
  have h: "path_comps ''/home/willie'' = [''home'', ''willie'']"
    and p: "path_comps ''/srv/data'' = [''srv'', ''data'']"
    by (simp_all add: path_comps_def)
  have ok: "outside_guard [''srv'', ''data''] [''home'', ''willie'']" by code_simp
  show ?thesis
    by (subst resolve_accepts_exactly)
      (simp_all add: h p ok capability_set_default_def sandbox_profile_default_def unwrap_or_def
        starts_with_def)
qed

text \<open>\<open>explain\<close> tells the truth about the merge: it lists every capability once, in order; a
  capability this version cannot apply is shown unavailable and off; a row said to come from the
  profile would be the same under any defaults, and a row said to come from the defaults is what a
  project with no profile at all gets.\<close>
theorem explain_truthful:
  assumes "explain defaults profile home = Inr rows"
  shows "map ex_capability rows = CAPABILITY_ALL
    \<and> list_all (\<lambda>r.
        (ex_source r = SrcUnavailable \<longleftrightarrow> \<not> is_implemented (ex_capability r))
      \<and> (ex_source r = SrcUnavailable \<longrightarrow> \<not> ex_enabled r)
      \<and> (ex_source r = SrcProfile \<longrightarrow>
           (\<forall>other rows'. explain other profile home = Inr rows' \<longrightarrow> r \<in> set rows'))
      \<and> (ex_source r = SrcDefault \<longrightarrow>
           (\<exists>s. resolve defaults sandbox_profile_default home = Inr s
              \<and> ex_enabled r = cap_enabled s (ex_capability r)))) rows"
proof -
  from assms obtain s where s: "resolve defaults profile home = Inr s"
    and rows: "rows = map (explain_row s profile) CAPABILITY_ALL"
    by (auto simp: explain_def split: sum.splits)
  have same: "cap_enabled s c = cap_enabled s' c"
    if "resolve other profile home = Inr s'" "spoken profile c" for other s' c
    using s that by (cases c) (auto simp: resolve_def unwrap_or_def split: option.splits)
  have dflt: "\<exists>s0. resolve defaults sandbox_profile_default home = Inr s0
      \<and> cap_enabled s c = cap_enabled s0 c"
    if "\<not> spoken profile c" for c
    using s that
    by (cases c) (auto simp: resolve_def sandbox_profile_default_def unwrap_or_def split: option.splits)
  have off: "\<not> cap_enabled s c" if "\<not> is_implemented c" for c
    using that by (cases c) auto
  have ids: "map ex_capability rows = CAPABILITY_ALL"
    by (simp add: rows explain_row_def comp_def)
  have "c \<in> set CAPABILITY_ALL" for c
    by (cases c) (simp_all add: CAPABILITY_ALL_def)
  then have prof: "explain_row s profile c \<in> set rows'"
    if "explain other profile home = Inr rows'" "spoken profile c" for other rows' c
    using that same [of other _ c]
    by (fastforce simp: explain_def explain_row_def split: sum.splits)
  have row: "ex_capability (explain_row s profile c) = c"
    "ex_enabled (explain_row s profile c) = cap_enabled s c"
    "ex_source (explain_row s profile c) = SrcUnavailable \<longleftrightarrow> \<not> is_implemented c"
    "ex_source (explain_row s profile c) = SrcProfile \<longleftrightarrow> is_implemented c \<and> spoken profile c"
    "ex_source (explain_row s profile c) = SrcDefault \<longleftrightarrow> is_implemented c \<and> \<not> spoken profile c" for c
    by (simp_all add: explain_row_def)
  show ?thesis
    using ids off dflt prof by (simp add: rows list_all_iff row)
qed

theorem explain_truthful_witness:
  "\<exists>rows. explain capability_set_default (sandbox_profile_default\<lparr>pr_agent_state := Some True\<rparr>)
       ''/home/willie'' = Inr rows
     \<and> map ex_capability rows = CAPABILITY_ALL"
proof -
  obtain rows where rows: "explain capability_set_default
      (sandbox_profile_default\<lparr>pr_agent_state := Some True\<rparr>) ''/home/willie'' = Inr rows"
    by (simp add: explain_def resolve_def sandbox_profile_default_def)
  with explain_truthful [OF rows] show ?thesis by blast
qed

end
