(* ===== verification/Session.thy ===== *)
theory Session
  imports Btree_Map Policy
begin

text \<open>
  The session domain (\<^verbatim>\<open>crates/willie-core/src/session.rs\<close>): the session record, its states, the
  event log and the fold that turns a spec and a log into a session. Identifiers are the 128-bit
  values of their ULIDs, epoch seconds are the strings the code keeps, strings are their UTF-8
  bytes. \<open>apply_event\<close> is the fold's step, \<open>from_log\<close> the fold, \<open>remediation_for\<close> the table of hints.

  Shown: a log ends once, the fields of a session agree with its state after any log, denials merge
  by (class, name) with their counts added up, the states follow the life cycle, and every failure
  carries a hint.
\<close>

section \<open>Data\<close>

type_synonym session_id = "128 word"
type_synonym project_id = "128 word"

datatype session_state =
    Creating
  | Running
  | Stopping
  | Exited (exit_code: "32 word option") (exit_signal: "32 word option")
  | Failed (fail_code: string) (fail_message: string) (fail_remediation: string)

fun is_live :: "session_state \<Rightarrow> bool" where
  "is_live Running = True"
| "is_live Stopping = True"
| "is_live _ = False"

fun is_terminal :: "session_state \<Rightarrow> bool" where
  "is_terminal (Exited c s) = True"
| "is_terminal (Failed c m r) = True"
| "is_terminal _ = False"

datatype session_kind = Agent | Shell

definition SHELL_HARNESS :: string where [codes]: "SHELL_HARNESS = ''zsh''"

record denied =
  d_class :: string
  d_name :: string
  d_count :: u64
  first_at :: string
  last_at :: string

record sandbox_state =
  applied :: "string list"
  unavailable :: "string list"
  sb_denied :: "denied list"
  degraded :: "string list"

definition sandbox_state_default :: sandbox_state where
  "sandbox_state_default = \<lparr>applied = [], unavailable = [], sb_denied = [], degraded = []\<rparr>"

record session =
  s_id :: session_id
  s_project_id :: project_id
  s_harness :: string
  s_workspace :: string
  s_kind :: session_kind
  s_state :: session_state
  s_created_at :: string
  s_started_at :: "string option"
  s_finished_at :: "string option"
  s_pid :: "u32 option"
  s_clients :: u32
  s_resumed_from :: "session_id option"
  s_label :: "string option"
  s_title :: "string option"
  s_sandbox :: sandbox_state

record session_spec =
  sp_id :: session_id
  sp_project_id :: project_id
  sp_harness :: string
  sp_workspace :: string
  sp_socket :: string
  sp_argv :: "string list"
  sp_env :: "(string, string) btree"
  sp_created_at :: string
  sp_willie_version :: string
  sp_resumed_from :: "session_id option"
  sp_kind :: session_kind
  sp_capabilities :: capability_set

datatype session_event_kind =
    EvCreated
  | EvStarted u32
  | EvSandboxApplied "string list" "string list"
  | EvSandboxDenied string string u64
  | EvSandboxDegraded string string
  | EvRenamed "string option"
  | EvAttached u64
  | EvDetached u64
  | EvResized u16 u16
  | EvStopRequested string
  | EvExited "32 word option" "32 word option"
  | EvFailed string string

record session_event =
  ev_at :: string
  ev_kind :: session_event_kind

text \<open>The one table of session and tool remediations.\<close>

definition remediation_table :: "(string \<times> string) list" where
  "remediation_table = [
     (''project_not_ready'',
      ''wait for the project to be ready, or fix its failure first''),
     (''harness_cannot_resume'',
      ''open a fresh session instead; this harness cannot continue a conversation''),
     (''harness_not_installed'',
      ''click Install on the Dashboard''),
     (''git_identity_missing'',
      ''set `git config --global user.name` and `user.email` on Windows, then open the session again''),
     (''supervisor_spawn_failed'',
      ''run `willie doctor`; reinstall the distribution if the supervisor binary is missing''),
     (''supervisor_timeout'',
      ''open the session again; run `willie doctor` if it repeats''),
     (''harness_exec_failed'',
      ''reinstall Claude Code, or remove the project and add it again''),
     (''sandbox_backend_missing'',
      ''the image lacks the namespace helper: rebuild and reinstall the distribution (`just distro-build`, `just distro-install`)''),
     (''shell_unavailable'',
      ''rebuild and reinstall the distribution (just distro-build, just distro-install)''),
     (''sandbox_apply_failed'',
      ''the message names the path; the helper writes its own complaint to the session's terminal, so attach to see it, then run `willie doctor`''),
     (''sandbox_profile_invalid'',
      ''the message names the path and where it leads; correct it in the project's Sandbox settings''),
     (''sandbox_capability_unsupported'',
      ''the message names the capability; remove it from the project's Sandbox settings, this version cannot apply it''),
     (''session_not_found'',
      ''refresh the Sessions screen''),
     (''session_not_running'',
      ''nothing to stop; open a new session''),
     (''sessions_running'',
      ''stop the project's sessions first''),
     (''supervisor_lost'',
      ''open a new session''),
     (''harness_already_installed'',
      ''nothing to install''),
     (''tool_not_installed'',
      ''install it first, then update''),
     (''tool_busy'',
      ''wait for the running install to finish''),
     (''install_failed'',
      ''read the installer output, check the network, then try again'')]"

definition remediation_for :: "string \<Rightarrow> string" where
  "remediation_for code =
     (case map_of remediation_table code of
        Some hint \<Rightarrow> hint
      | None \<Rightarrow> ''open the session again; run `willie doctor` if it repeats'')"

section \<open>The fold\<close>

text \<open>The first row of a (class, name) accumulates, a new one is appended.\<close>

fun merge_denied :: "denied list \<Rightarrow> string \<Rightarrow> string \<Rightarrow> u64 \<Rightarrow> string \<Rightarrow> denied list" where
  "merge_denied [] c n cnt at =
     [\<lparr>d_class = c, d_name = n, d_count = cnt, first_at = at, last_at = at\<rparr>]"
| "merge_denied (d # ds) c n cnt at =
     (if d_class d = c \<and> d_name d = n
      then d\<lparr>d_count := d_count d + cnt, last_at := at\<rparr> # ds
      else d # merge_denied ds c n cnt at)"

definition apply_event :: "session \<Rightarrow> session_event \<Rightarrow> session" where
  "apply_event s ev =
     (if is_terminal (s_state s) then s
      else case ev_kind ev of
        EvCreated \<Rightarrow> s
      | EvResized r c \<Rightarrow> s
      | EvSandboxApplied ms un \<Rightarrow>
          s\<lparr>s_sandbox := (s_sandbox s)\<lparr>applied := ms, unavailable := un\<rparr>\<rparr>
      | EvSandboxDenied c n cnt \<Rightarrow>
          s\<lparr>s_sandbox := (s_sandbox s)
             \<lparr>sb_denied := merge_denied (sb_denied (s_sandbox s)) c n cnt (ev_at ev)\<rparr>\<rparr>
      | EvSandboxDegraded m msg \<Rightarrow>
          (if m \<in> set (degraded (s_sandbox s)) then s
           else s\<lparr>s_sandbox := (s_sandbox s)\<lparr>degraded := degraded (s_sandbox s) @ [m]\<rparr>\<rparr>)
      | EvStarted pid \<Rightarrow>
          s\<lparr>s_state := Running, s_pid := Some pid, s_started_at := Some (ev_at ev)\<rparr>
      | EvRenamed l \<Rightarrow>
          s\<lparr>s_label := (case l of None \<Rightarrow> None | Some x \<Rightarrow> if is_blank x then None else Some x)\<rparr>
      | EvAttached cl \<Rightarrow> s\<lparr>s_clients := s_clients s + 1\<rparr>
      | EvDetached cl \<Rightarrow> s\<lparr>s_clients := saturating_sub (s_clients s) 1\<rparr>
      | EvStopRequested by \<Rightarrow>
          (if is_live (s_state s) then s\<lparr>s_state := Stopping\<rparr> else s)
      | EvExited c sig \<Rightarrow>
          s\<lparr>s_state := Exited c sig, s_finished_at := Some (ev_at ev), s_pid := None,
            s_clients := 0\<rparr>
      | EvFailed c m \<Rightarrow>
          s\<lparr>s_state := Failed c m (remediation_for c), s_finished_at := Some (ev_at ev),
            s_pid := None, s_clients := 0\<rparr>)"

definition session_init :: "session_spec \<Rightarrow> session" where
  "session_init sp =
     \<lparr>s_id = sp_id sp, s_project_id = sp_project_id sp, s_harness = sp_harness sp,
      s_workspace = sp_workspace sp, s_kind = sp_kind sp, s_state = Creating,
      s_created_at = sp_created_at sp, s_started_at = None, s_finished_at = None, s_pid = None,
      s_clients = 0, s_resumed_from = sp_resumed_from sp, s_label = None, s_title = None,
      s_sandbox = sandbox_state_default\<rparr>"

definition from_log :: "session_spec \<Rightarrow> session_event list \<Rightarrow> session" where
  "from_log sp evs = foldl apply_event (session_init sp) evs"

section \<open>The invariant of a folded session\<close>

definition denial_key :: "denied \<Rightarrow> string \<times> string" where
  "denial_key d = (d_class d, d_name d)"

fun state_fields_ok :: "session \<Rightarrow> session_state \<Rightarrow> bool" where
  "state_fields_ok s Creating \<longleftrightarrow> s_pid s = None \<and> s_started_at s = None \<and> s_finished_at s = None"
| "state_fields_ok s Running \<longleftrightarrow> s_pid s \<noteq> None \<and> s_started_at s \<noteq> None \<and> s_finished_at s = None"
| "state_fields_ok s Stopping \<longleftrightarrow> s_pid s \<noteq> None \<and> s_started_at s \<noteq> None \<and> s_finished_at s = None"
| "state_fields_ok s (Exited c g) \<longleftrightarrow> s_pid s = None \<and> s_clients s = 0 \<and> s_finished_at s \<noteq> None"
| "state_fields_ok s (Failed c m r) \<longleftrightarrow>
     s_pid s = None \<and> s_clients s = 0 \<and> s_finished_at s \<noteq> None \<and> r = remediation_for c"

definition session_wf :: "session \<Rightarrow> bool" where
  "session_wf s \<longleftrightarrow>
     state_fields_ok s (s_state s) \<and>
     distinct (map denial_key (sb_denied (s_sandbox s))) \<and>
     distinct (degraded (s_sandbox s)) \<and>
     (case s_label s of None \<Rightarrow> True | Some l \<Rightarrow> \<not> is_blank l)"

lemma merge_denied_keys:
  "map denial_key (merge_denied ds c n cnt at) =
     (if (c, n) \<in> set (map denial_key ds) then map denial_key ds else map denial_key ds @ [(c, n)])"
  by (induction ds) (auto simp: denial_key_def)

lemma merge_denied_distinct:
  "distinct (map denial_key ds) \<Longrightarrow> distinct (map denial_key (merge_denied ds c n cnt at))"
  by (auto simp: merge_denied_keys simp del: set_map)

lemma session_wf_init: "session_wf (session_init sp)"
  by (simp add: session_wf_def session_init_def sandbox_state_default_def)

lemma apply_event_wf:
  assumes "session_wf s"
  shows "session_wf (apply_event s ev)"
proof (cases "is_terminal (s_state s)")
  case True
  with assms show ?thesis by (simp add: apply_event_def)
next
  case False
  with assms show ?thesis
    by (cases "ev_kind ev"; cases "s_state s")
       (simp_all add: apply_event_def session_wf_def merge_denied_distinct split: option.splits)
qed

interpretation session_fold: invariant_fold apply_event session_wf
  by unfold_locales (rule apply_event_wf)

section \<open>The life cycle\<close>

inductive session_next :: "session_state \<Rightarrow> session_state \<Rightarrow> bool" where
  started: "\<not> is_terminal st \<Longrightarrow> session_next st Running"
| stop_requested: "is_live st \<Longrightarrow> session_next st Stopping"
| exited: "\<not> is_terminal st \<Longrightarrow> session_next st (Exited c g)"
| failed: "\<not> is_terminal st \<Longrightarrow> session_next st (Failed c m (remediation_for c))"

inductive_cases session_next_terminalE: "session_next st st'"

lemma session_next_terminal: "is_terminal st \<Longrightarrow> \<not> session_next st st'"
  by (auto elim!: session_next_terminalE) (cases st; simp)

lemma apply_event_next:
  "s_state (apply_event s ev) = s_state s \<or> session_next (s_state s) (s_state (apply_event s ev))"
  by (cases "ev_kind ev") (auto simp: apply_event_def intro: session_next.intros)

lemma foldl_next: "session_next\<^sup>*\<^sup>* (s_state s) (s_state (foldl apply_event s evs))"
proof (induction evs arbitrary: s)
  case (Cons ev evs)
  have "session_next\<^sup>*\<^sup>* (s_state s) (s_state (apply_event s ev))"
    using apply_event_next [of s ev] by auto
  with Cons.IH [of "apply_event s ev"] show ?case by (simp add: rtranclp_trans)
qed simp

lemma foldl_terminal: "is_terminal (s_state s) \<Longrightarrow> foldl apply_event s evs = s"
  by (induction evs) (simp_all add: apply_event_def)

section \<open>Denials\<close>

text \<open>The denial events of one (class, name) in a log, as pairs of count and time.\<close>

fun denials_of :: "session_event list \<Rightarrow> string \<Rightarrow> string \<Rightarrow> (u64 \<times> string) list" where
  "denials_of [] c n = []"
| "denials_of (ev # evs) c n =
     (case ev_kind ev of
        EvSandboxDenied c' n' cnt \<Rightarrow>
          (if c' = c \<and> n' = n then (cnt, ev_at ev) # denials_of evs c n else denials_of evs c n)
      | _ \<Rightarrow> denials_of evs c n)"

definition ends_session :: "session_event \<Rightarrow> bool" where
  "ends_session ev = (case ev_kind ev of EvExited _ _ \<Rightarrow> True | EvFailed _ _ \<Rightarrow> True | _ \<Rightarrow> False)"

definition denied_row :: "session \<Rightarrow> string \<Rightarrow> string \<Rightarrow> denied option" where
  "denied_row s c n = find (\<lambda>d. d_class d = c \<and> d_name d = n) (sb_denied (s_sandbox s))"

definition row_of :: "string \<Rightarrow> string \<Rightarrow> (u64 \<times> string) list \<Rightarrow> denied option" where
  "row_of c n xs = (if xs = [] then None
     else Some \<lparr>d_class = c, d_name = n, d_count = sum_list (map fst xs),
       first_at = snd (hd xs), last_at = snd (last xs)\<rparr>)"

lemma find_merge_denied:
  "find (\<lambda>d. d_class d = c \<and> d_name d = n) (merge_denied ds c' n' cnt at) =
    (if c' = c \<and> n' = n
     then (case find (\<lambda>d. d_class d = c \<and> d_name d = n) ds of
             None \<Rightarrow> Some \<lparr>d_class = c, d_name = n, d_count = cnt, first_at = at, last_at = at\<rparr>
           | Some d \<Rightarrow> Some (d\<lparr>d_count := d_count d + cnt, last_at := at\<rparr>))
     else find (\<lambda>d. d_class d = c \<and> d_name d = n) ds)"
  by (induction ds) auto

lemma row_of_snoc:
  "row_of c n (xs @ [(cnt, at)]) =
    (case row_of c n xs of
       None \<Rightarrow> Some \<lparr>d_class = c, d_name = n, d_count = cnt, first_at = at, last_at = at\<rparr>
     | Some d \<Rightarrow> Some (d\<lparr>d_count := d_count d + cnt, last_at := at\<rparr>))"
  by (simp add: row_of_def)

lemma denials_of_snoc:
  "denials_of (evs @ [ev]) c n = denials_of evs c n @ denials_of [ev] c n"
  by (induction evs) (auto split: session_event_kind.splits)

lemma from_log_snoc: "from_log sp (evs @ [ev]) = apply_event (from_log sp evs) ev"
  by (simp add: from_log_def)

lemma not_terminal_apply:
  "\<not> is_terminal (s_state s) \<Longrightarrow> \<not> ends_session ev \<Longrightarrow> \<not> is_terminal (s_state (apply_event s ev))"
  by (cases "ev_kind ev") (simp_all add: apply_event_def ends_session_def)

lemma not_terminal_log:
  "\<forall>ev \<in> set evs. \<not> ends_session ev \<Longrightarrow> \<not> is_terminal (s_state (from_log sp evs))"
proof (induction evs rule: rev_induct)
  case (snoc ev evs)
  then show ?case by (simp add: from_log_snoc not_terminal_apply)
qed (simp add: from_log_def session_init_def)

lemma denied_row_apply:
  "\<not> is_terminal (s_state s) \<Longrightarrow> denied_row s c n = row_of c n xs \<Longrightarrow>
   denied_row (apply_event s ev) c n = row_of c n (xs @ denials_of [ev] c n)"
  by (cases "ev_kind ev")
     (auto simp: apply_event_def denied_row_def find_merge_denied row_of_snoc)

section \<open>Properties\<close>

text \<open>A log ends once: after the event that ends a session no further event of the log changes
  anything about it.\<close>

theorem from_log_ends_once:
  assumes "is_terminal (s_state (from_log sp evs))"
  shows "from_log sp (evs @ later) = from_log sp evs"
  using foldl_terminal [OF assms, of later] by (simp add: from_log_def)

definition demo_spec :: session_spec where
  "demo_spec = \<lparr>sp_id = 1, sp_project_id = 2, sp_harness = ''claude-code'', sp_workspace = ''/w'',
     sp_socket = ''/s'', sp_argv = [''claude''], sp_env = [], sp_created_at = ''1'',
     sp_willie_version = ''0'', sp_resumed_from = None, sp_kind = Agent,
     sp_capabilities = capability_set_default\<rparr>"

theorem from_log_ends_once_witness:
  "from_log demo_spec ([\<lparr>ev_at = ''2'', ev_kind = EvStarted 7\<rparr>, \<lparr>ev_at = ''3'', ev_kind = EvExited (Some 0) None\<rparr>]
     @ [\<lparr>ev_at = ''4'', ev_kind = EvAttached 1\<rparr>]) =
   from_log demo_spec [\<lparr>ev_at = ''2'', ev_kind = EvStarted 7\<rparr>, \<lparr>ev_at = ''3'', ev_kind = EvExited (Some 0) None\<rparr>]"
  by (rule from_log_ends_once) (simp add: from_log_def apply_event_def session_init_def)

text \<open>(C34) After any log the fields of a session agree with its state: a live session has a pid and a
  start time and no end time, a finished one has an end time, no pid and no clients and, when it
  failed, the hint of its code; denials have one row per (class, name), a degraded mechanism is
  named once, and a label is never blank.\<close>

theorem from_log_consistent: "session_wf (from_log sp evs)"
  unfolding from_log_def by (rule session_fold.foldl_inv [OF session_wf_init])


text \<open>While a session is not over, its row for a (class, name) is exactly the merge of the denial
  events of that name: none before the first, then their counts added up, the time of the first and
  the time of the latest.\<close>

theorem from_log_merges_denials:
  assumes "\<forall>ev \<in> set evs. \<not> ends_session ev"
  shows "denied_row (from_log sp evs) c n = row_of c n (denials_of evs c n)"
  using assms
proof (induction evs rule: rev_induct)
  case Nil
  then show ?case
    by (simp add: from_log_def session_init_def denied_row_def row_of_def sandbox_state_default_def)
next
  case (snoc ev evs)
  then have "\<not> is_terminal (s_state (from_log sp evs))" by (intro not_terminal_log) auto
  with snoc show ?case
    by (simp add: from_log_snoc denials_of_snoc denied_row_apply del: denials_of.simps(2))
qed

theorem from_log_merges_denials_witness:
  "denied_row (from_log demo_spec
     [\<lparr>ev_at = ''2'', ev_kind = EvSandboxDenied ''syscall'' ''bpf'' 1\<rparr>,
      \<lparr>ev_at = ''3'', ev_kind = EvSandboxDenied ''terminal'' ''title'' 5\<rparr>,
      \<lparr>ev_at = ''9'', ev_kind = EvSandboxDenied ''syscall'' ''bpf'' 41\<rparr>]) ''syscall'' ''bpf'' =
   Some \<lparr>d_class = ''syscall'', d_name = ''bpf'', d_count = 42, first_at = ''2'', last_at = ''9''\<rparr>"
  by (subst from_log_merges_denials) (simp_all add: ends_session_def row_of_def)

text \<open>Every failure code has a hint a person can act on: the table answers for every code, known
  or not, and the answer is never empty.\<close>

theorem remediation_never_empty: "remediation_for code \<noteq> []"
proof -
  have "list_all (\<lambda>(c, hint). hint \<noteq> []) remediation_table"
    by (simp add: remediation_table_def)
  then have "map_of remediation_table code = Some hint \<Longrightarrow> hint \<noteq> []" for hint
    by (auto simp: list_all_iff dest: map_of_SomeD)
  then show ?thesis by (auto simp: remediation_for_def split: option.split)
qed

end
