(* ===== verification/Ids.thy ===== *)
theory Ids
  imports Prelude
begin

text \<open>
  Prefixed identifiers (\<^verbatim>\<open>crates/willie-core/src/id.rs\<close>). The ULID crate is a parameter: its text form
  \<open>ulid_text\<close> and its parser \<open>ulid_parse\<close>. What is relied on of it, where it is, is that the parser
  reads back what the text form writes.
\<close>

datatype id_kind = KProject | KSession | KTool | KProfile | KJob

fun id_prefix :: "id_kind \<Rightarrow> string" where
  "id_prefix KProject = ''proj''"
| "id_prefix KSession = ''sess''"
| "id_prefix KTool = ''tool''"
| "id_prefix KProfile = ''prof''"
| "id_prefix KJob = ''job''"

definition id_nil :: "128 word" where
  "id_nil = 0"

definition id_display :: "('u \<Rightarrow> string) \<Rightarrow> id_kind \<Rightarrow> 'u \<Rightarrow> string" where
  "id_display ulid_text k u = id_prefix k @ ''_'' @ ulid_text u"

datatype parse_id_error =
    WrongPrefix string string
  | InvalidUlid string

definition id_from_str :: "(string \<Rightarrow> 'u option) \<Rightarrow> id_kind \<Rightarrow> string \<Rightarrow> parse_id_error + 'u" where
  "id_from_str ulid_parse k s =
     (case Option.bind (strip_prefix (id_prefix k) s) (strip_prefix ''_'') of
        None \<Rightarrow> Inl (WrongPrefix (id_prefix k) s)
      | Some rest \<Rightarrow>
          (case ulid_parse rest of
             None \<Rightarrow> Inl (InvalidUlid s)
           | Some u \<Rightarrow> Inr u))"

lemma strip_id_prefix:
  "Option.bind (strip_prefix (id_prefix k) (id_prefix k' @ ''_'' @ t)) (strip_prefix ''_'')
   = (if k = k' then Some t else None)"
  by (cases k; cases k') simp_all

text \<open>An identifier reads back from its own text as itself, and no other family of identifiers
  accepts that text: a session's id is never taken for a project's.\<close>
theorem id_roundtrip_typed:
  assumes "\<And>u. ulid_parse (ulid_text u) = Some u"
  shows "id_from_str ulid_parse k (id_display ulid_text k' u) =
    (if k = k' then Inr u else Inl (WrongPrefix (id_prefix k) (id_display ulid_text k' u)))"
  using strip_id_prefix [of k k' "ulid_text u"] assms
  by (simp add: id_from_str_def id_display_def)

theorem id_roundtrip_typed_witness:
  "id_from_str (\<lambda>s. Some s) KSession (id_display (\<lambda>s. s) KSession ''01J'') = Inr ''01J''
   \<and> id_from_str (\<lambda>s. Some s) KProject (id_display (\<lambda>s. s) KSession ''01J'')
       = Inl (WrongPrefix ''proj'' ''sess_01J'')"
  using id_roundtrip_typed [of Some "\<lambda>s. s" KSession KSession "''01J''"]
    id_roundtrip_typed [of Some "\<lambda>s. s" KProject KSession "''01J''"]
  by (simp add: id_display_def)

end
