(* ===== verification/Harness.thy ===== *)
theory Harness
  imports Btree_Map Policy
begin

text \<open>
  The harness layer (\<^verbatim>\<open>crates/willie-harness/src/lib.rs\<close>): the matrix of what an agent CLI can do, where
  it keeps its state, and how one session launches it. The trait is the record \<open>harness\<close>, its default
  methods are top-level functions and \<open>claude_code\<close> is the one implementation. Running
  \<open>binary --version\<close> and looking for files is left to its caller: \<open>detect_output\<close> takes what the
  process printed, \<open>locate\<close> the test whether a path is a file.
\<close>

section \<open>Data\<close>

datatype resume = ResumeNone | ResumeById | ResumeContinue

datatype launch_mode = Fresh | Continue

record harness_capabilities =
  interactive_tui :: bool
  hc_resume :: resume
  headless_stream :: bool

record installed =
  in_path :: string
  in_version :: string

record launch =
  la_argv :: "string list"
  la_env :: "(string, string) btree"

record link =
  link_target :: string
  link_path :: string

record agent_state =
  as_dir :: string
  as_links :: "link list"

record cache =
  cache_name :: string
  cache_path :: string

definition under_home :: "string \<Rightarrow> string \<Rightarrow> string" where
  "under_home home rel = home @ ''/'' @ rel"

definition tool_roots :: "string \<Rightarrow> string list" where
  "tool_roots home = [under_home home ''.local'', under_home home ''.dotnet'']"

definition cache_paths :: "string \<Rightarrow> cache list" where
  "cache_paths home =
     [\<lparr>cache_name = ''npm'', cache_path = under_home home ''.npm''\<rparr>,
      \<lparr>cache_name = ''nuget'', cache_path = under_home home ''.nuget''\<rparr>,
      \<lparr>cache_name = ''cache'', cache_path = under_home home ''.cache''\<rparr>]"

section \<open>The trait and its default methods\<close>

record harness =
  h_id :: string
  h_binary_name :: string
  h_capabilities :: harness_capabilities
  h_default_capabilities :: capability_set
  h_agent_state :: "string \<Rightarrow> agent_state option"
  h_session_logs_dir :: "string \<Rightarrow> string option"
  h_installer :: string

definition trait_default_capabilities :: capability_set where
  "trait_default_capabilities = \<lparr>project_rw = True, agent_state = False, tools_ro = True,
     caches_rw = True, git_identity = True, extra_paths = []\<rparr>"

definition escape_workspace :: "string \<Rightarrow> string" where
  "escape_workspace w = map (\<lambda>c. if c = slash then CHR ''-'' else c) w"

definition is_ascii_digit :: "char \<Rightarrow> bool" where
  "is_ascii_digit c \<longleftrightarrow> (let n = (of_char c :: nat) in 48 \<le> n \<and> n \<le> 57)"

text \<open>\<open>str::split_whitespace\<close> on UTF-8 bytes: \<open>cur\<close> is the token being read.\<close>

function split_ws :: "string \<Rightarrow> string \<Rightarrow> string list" where
  "split_ws cur s =
     (if s = [] then (if cur = [] then [] else [cur])
      else if ws_len s = 0 then split_ws (cur @ [hd s]) (tl s)
      else (if cur = [] then [] else [cur]) @ split_ws [] (drop (ws_len s) s))"
  by pat_completeness auto
termination
  by (relation "measure (\<lambda>(cur, s). length s)") auto

declare split_ws.simps [simp del]

definition is_version :: "string \<Rightarrow> bool" where
  "is_version t \<longleftrightarrow>
     (let parts = split_on (CHR ''.'') t
      in length parts = 3 \<and> list_all (\<lambda>p. p \<noteq> [] \<and> list_all is_ascii_digit p) parts)"

definition parse_version :: "string \<Rightarrow> string option" where
  "parse_version output =
     find is_version (map (trim_both (\<lambda>c. \<not> is_ascii_digit c)) (split_ws [] output))"

text \<open>What \<open>detect\<close> makes of a finished child: its exit status and what it printed. A child that could
  not be spawned or did not end before the deadline is no status.\<close>

definition detect_output :: "string \<Rightarrow> bool option \<Rightarrow> string \<Rightarrow> installed option" where
  "detect_output binary success out =
     (if success = Some True
      then map_option (\<lambda>v. \<lparr>in_path = binary, in_version = v\<rparr>) (parse_version out)
      else None)"

definition session_path :: "string \<Rightarrow> string list" where
  "session_path home = [home @ ''/.local/bin'', ''/usr/local/bin'', ''/usr/bin'', ''/bin'']"

fun join_with :: "string \<Rightarrow> string list \<Rightarrow> string" where
  "join_with sep [] = []"
| "join_with sep [x] = x"
| "join_with sep (x # y # xs) = x @ sep @ join_with sep (y # xs)"

text \<open>\<open>Path::file_name\<close>.\<close>

definition file_name :: "string \<Rightarrow> string option" where
  "file_name p =
     (let cs = path_comps p in if cs = [] \<or> last cs = ''..'' then None else Some (last cs))"

text \<open>\<open>launch\<close>; \<open>tz\<close> is the daemon's own \<open>TZ\<close> variable.\<close>

definition harness_launch :: "string option \<Rightarrow> string \<Rightarrow> string \<Rightarrow> string \<Rightarrow> launch_mode \<Rightarrow> launch" where
  "harness_launch tz binary workspace home mode =
     (let env = [];
          env = bt_insert ''PATH'' (join_with '':'' (session_path home)) env;
          env = bt_insert ''HOME'' home env;
          env = bt_insert ''USER'' (unwrap_or (file_name home) ''willie'') env;
          env = bt_insert ''TERM'' ''xterm-256color'' env;
          env = bt_insert ''COLORTERM'' ''truecolor'' env;
          env = bt_insert ''LANG'' ''C.UTF-8'' env;
          env = (case tz of
                   Some z \<Rightarrow> if z \<noteq> [] then bt_insert ''TZ'' z env else env
                 | None \<Rightarrow> env);
          env = bt_insert ''DISABLE_AUTOUPDATER'' ''1'' env;
          argv = [binary];
          argv = (if mode = Continue then argv @ [''--continue''] else argv)
      in \<lparr>la_argv = argv, la_env = env\<rparr>)"

text \<open>\<open>Path::join\<close>.\<close>

definition path_join :: "string \<Rightarrow> string \<Rightarrow> string" where
  "path_join d n =
     (if starts_with n ''/'' then n
      else if d = [] \<or> last d = slash then d @ n
      else d @ ''/'' @ n)"

definition locate :: "(string \<Rightarrow> bool) \<Rightarrow> harness \<Rightarrow> string list \<Rightarrow> string option" where
  "locate is_file h dirs = find is_file (map (\<lambda>d. path_join d (h_binary_name h)) dirs)"

section \<open>Claude Code\<close>

definition CLAUDE_STATE :: string where
  "CLAUDE_STATE = ''.willie/agent-state/claude''"

definition claude_agent_state :: "string \<Rightarrow> agent_state option" where
  "claude_agent_state home =
     Some \<lparr>as_dir = under_home home CLAUDE_STATE,
           as_links =
             [\<lparr>link_target = CLAUDE_STATE @ ''/dot-claude'', link_path = under_home home ''.claude''\<rparr>,
              \<lparr>link_target = CLAUDE_STATE @ ''/claude.json'',
               link_path = under_home home ''.claude.json''\<rparr>]\<rparr>"

definition claude_session_logs_dir :: "string \<Rightarrow> string option" where
  "claude_session_logs_dir home = Some (under_home home (CLAUDE_STATE @ ''/dot-claude/projects''))"

definition claude_default_capabilities :: capability_set where
  "claude_default_capabilities = \<lparr>project_rw = True, agent_state = True, tools_ro = True,
     caches_rw = True, git_identity = True, extra_paths = []\<rparr>"

definition claude_code :: harness where
  "claude_code =
     \<lparr>h_id = ''claude-code'', h_binary_name = ''claude'',
      h_capabilities = \<lparr>interactive_tui = True, hc_resume = ResumeById, headless_stream = True\<rparr>,
      h_default_capabilities = claude_default_capabilities,
      h_agent_state = claude_agent_state,
      h_session_logs_dir = claude_session_logs_dir,
      h_installer = ''curl -fsSL https://claude.ai/install.sh | bash''\<rparr>"

definition registry :: "harness list" where
  "registry = [claude_code]"

section \<open>The version\<close>

lemma split_ws_spaceless:
  "list_all (\<lambda>c. of_char c < (128 :: nat) \<and> (of_char c :: nat) \<notin> {9, 10, 11, 12, 13, 32}) t \<Longrightarrow>
   split_ws cur (t @ CHR '' '' # rest) =
     (if cur @ t = [] then [] else [cur @ t]) @ split_ws [] rest"
proof (induction t arbitrary: cur)
  case Nil
  have "ws_len (CHR '' '' # rest) = 1" by (simp add: ws_len_def)
  then show ?case by (subst split_ws.simps) simp
next
  case (Cons c t)
  then have "ws_len (c # t @ CHR '' '' # rest) = 0"
    by (auto simp: ws_len_def Let_def)
  then show ?case using Cons by (subst split_ws.simps) simp
qed

lemma find_Some_P: "find P xs = Some x \<Longrightarrow> P x \<and> x \<in> set xs"
  by (auto simp: find_Some_iff)

lemma trim_both_id: "list_all (\<lambda>c. \<not> p c) [hd t, last t] \<Longrightarrow> t \<noteq> [] \<Longrightarrow> trim_both p t = t"
proof -
  assume "list_all (\<lambda>c. \<not> p c) [hd t, last t]" "t \<noteq> []"
  then have "dropWhile p t = t" "dropWhile p (rev t) = rev t"
    using dropWhile_eq_self_iff [of p t] dropWhile_eq_self_iff [of p "rev t"] by (simp_all add: hd_rev)
  then show ?thesis by (simp add: trim_both_def trim_start_def trim_end_def)
qed

text \<open>A version is found where the installers print it: a token on its own, other words around it.\<close>

lemma parse_version_sound: "parse_version output = Some v \<Longrightarrow> is_version v"
  unfolding parse_version_def by (drule find_Some_P) simp

lemma parse_version_first_token:
  assumes "is_version v"
    and "list_all (\<lambda>c. of_char c < (128 :: nat) \<and> (of_char c :: nat) \<notin> {9, 10, 11, 12, 13, 32}) v"
    and "list_all is_ascii_digit [hd v, last v]"
  shows "parse_version (v @ CHR '' '' # rest) = Some v"
proof -
  have "v \<noteq> []" using assms(1) by (auto simp: is_version_def)
  with assms show ?thesis
    using trim_both_id [of "\<lambda>c. \<not> is_ascii_digit c" v]
    by (simp add: parse_version_def split_ws_spaceless)
qed

section \<open>The launch\<close>

text \<open>The environment of a launch is the allowlist and nothing of the daemon's own but its time zone.\<close>

lemma launch_env_keys:
  "map fst (la_env (harness_launch tz binary workspace home mode)) =
     [''COLORTERM'', ''DISABLE_AUTOUPDATER'', ''HOME'', ''LANG'', ''PATH'', ''TERM'']
     @ (if tz = None \<or> tz = Some [] then [] else [''TZ'']) @ [''USER'']"
  by (cases tz) (simp_all add: harness_launch_def less_char_def Let_def)

lemma launch_env_ok: "bt_ok (la_env (harness_launch tz binary workspace home mode))"
  unfolding bt_ok_def launch_env_keys by (simp add: less_char_def)

lemma launch_home: "bt_get (la_env (harness_launch tz binary workspace home mode)) ''HOME'' = Some home"
  by (simp add: harness_launch_def Let_def bt_get_def split: option.split)

end
