(* ===== verification/Seccomp.thy ===== *)
theory Seccomp
  imports Prelude
begin

text \<open>
  The syscall filter (\<^verbatim>\<open>crates/willie-linux/src/sandbox/seccomp.rs\<close>): the assembler, the program it
  builds and the classic-BPF machine that runs it, as the interpreter of the source's own tests runs
  it; and the supervisor's loop that answers the calls the filter intercepts
  (\<^verbatim>\<open>crates/willie-sess/src/sandbox/seccomp.rs\<close>). A system call is judged on the 64 bytes of
  \<open>seccomp_data\<close> the kernel hands the filter.

  Shown: the assembler's offsets land on the labels they name; the assembled program decides every
  call, on every architecture and for all arguments, as the policy table says; every call it
  intercepts has a name; and the answering loop records every call it receives, once and in order.
\<close>

section \<open>Instructions and constants\<close>

record insn =
  i_code :: u16
  i_jt :: u8
  i_jf :: u8
  i_k :: u32

definition AUDIT_ARCH_X86_64 :: u32 where [codes]: "AUDIT_ARCH_X86_64 = 0xC000003E"
definition X32_SYSCALL_BIT :: u32 where [codes]: "X32_SYSCALL_BIT = 0x40000000"
definition DATA_NR :: u32 where [codes]: "DATA_NR = 0"
definition DATA_ARCH :: u32 where [codes]: "DATA_ARCH = 4"
definition DATA_ARG0 :: u32 where [codes]: "DATA_ARG0 = 16"
definition DATA_ARG1 :: u32 where [codes]: "DATA_ARG1 = 24"
definition DATA_ARG2 :: u32 where [codes]: "DATA_ARG2 = 32"
definition LD_W_ABS :: u16 where [codes]: "LD_W_ABS = 0x20"
definition JEQ_K :: u16 where [codes]: "JEQ_K = 0x15"
definition JGE_K :: u16 where [codes]: "JGE_K = 0x35"
definition AND_K :: u16 where [codes]: "AND_K = 0x54"
definition RET_K :: u16 where [codes]: "RET_K = 0x06"
definition SECCOMP_RET_KILL_PROCESS :: u32 where [codes]: "SECCOMP_RET_KILL_PROCESS = 0x80000000"
definition SECCOMP_RET_USER_NOTIF :: u32 where [codes]: "SECCOMP_RET_USER_NOTIF = 0x7FC00000"
definition SECCOMP_RET_ALLOW :: u32 where [codes]: "SECCOMP_RET_ALLOW = 0x7FFF0000"
definition TIOCSTI :: u32 where [codes]: "TIOCSTI = 0x5412"
definition PR_SET_SECCOMP :: u32 where [codes]: "PR_SET_SECCOMP = 22"
definition AF_NETLINK :: u32 where [codes]: "AF_NETLINK = 16"
definition AF_PACKET :: u32 where [codes]: "AF_PACKET = 17"
definition SOCK_RAW :: u32 where [codes]: "SOCK_RAW = 3"
definition SOCK_PACKET :: u32 where [codes]: "SOCK_PACKET = 10"
definition SOCK_TYPE_MASK :: u32 where [codes]: "SOCK_TYPE_MASK = 0xFF"
definition NETLINK_ROUTE :: u32 where [codes]: "NETLINK_ROUTE = 0"
definition SYS_ioctl :: u32 where [codes]: "SYS_ioctl = 16"
definition SYS_socket :: u32 where [codes]: "SYS_socket = 41"
definition SYS_prctl :: u32 where [codes]: "SYS_prctl = 157"
definition SYS_ptrace :: u32 where [codes]: "SYS_ptrace = 101"
definition SYS_process_vm_readv :: u32 where [codes]: "SYS_process_vm_readv = 310"
definition SYS_process_vm_writev :: u32 where [codes]: "SYS_process_vm_writev = 311"
definition SYS_pidfd_getfd :: u32 where [codes]: "SYS_pidfd_getfd = 438"
definition SYS_bpf :: u32 where [codes]: "SYS_bpf = 321"
definition SYS_io_uring_setup :: u32 where [codes]: "SYS_io_uring_setup = 425"
definition SYS_io_uring_enter :: u32 where [codes]: "SYS_io_uring_enter = 426"
definition SYS_io_uring_register :: u32 where [codes]: "SYS_io_uring_register = 427"
definition SYS_perf_event_open :: u32 where [codes]: "SYS_perf_event_open = 298"
definition SYS_userfaultfd :: u32 where [codes]: "SYS_userfaultfd = 323"
definition SYS_seccomp :: u32 where [codes]: "SYS_seccomp = 317"
definition SYS_mount :: u32 where [codes]: "SYS_mount = 165"
definition SYS_umount2 :: u32 where [codes]: "SYS_umount2 = 166"
definition SYS_pivot_root :: u32 where [codes]: "SYS_pivot_root = 155"
definition SYS_mount_setattr :: u32 where [codes]: "SYS_mount_setattr = 442"
definition SYS_open_tree :: u32 where [codes]: "SYS_open_tree = 428"
definition SYS_move_mount :: u32 where [codes]: "SYS_move_mount = 429"
definition SYS_fsopen :: u32 where [codes]: "SYS_fsopen = 430"
definition SYS_fsconfig :: u32 where [codes]: "SYS_fsconfig = 431"
definition SYS_fsmount :: u32 where [codes]: "SYS_fsmount = 432"
definition SYS_fspick :: u32 where [codes]: "SYS_fspick = 433"
definition SYS_unshare :: u32 where [codes]: "SYS_unshare = 272"
definition SYS_setns :: u32 where [codes]: "SYS_setns = 308"
definition SYS_init_module :: u32 where [codes]: "SYS_init_module = 175"
definition SYS_finit_module :: u32 where [codes]: "SYS_finit_module = 313"
definition SYS_delete_module :: u32 where [codes]: "SYS_delete_module = 176"
definition SYS_kexec_load :: u32 where [codes]: "SYS_kexec_load = 246"
definition SYS_kexec_file_load :: u32 where [codes]: "SYS_kexec_file_load = 320"
definition SYS_add_key :: u32 where [codes]: "SYS_add_key = 248"
definition SYS_request_key :: u32 where [codes]: "SYS_request_key = 249"
definition SYS_keyctl :: u32 where [codes]: "SYS_keyctl = 250"

text \<open>The calls refused whatever their arguments, with the names the log gives them.\<close>

definition DENIED :: "(u32 \<times> string) list" where
  "DENIED = [
     (SYS_ptrace, ''ptrace''), (SYS_process_vm_readv, ''process_vm_readv''),
     (SYS_process_vm_writev, ''process_vm_writev''), (SYS_pidfd_getfd, ''pidfd_getfd''),
     (SYS_bpf, ''bpf''), (SYS_io_uring_setup, ''io_uring_setup''),
     (SYS_io_uring_enter, ''io_uring_enter''), (SYS_io_uring_register, ''io_uring_register''),
     (SYS_perf_event_open, ''perf_event_open''), (SYS_userfaultfd, ''userfaultfd''),
     (SYS_seccomp, ''seccomp''), (SYS_mount, ''mount''), (SYS_umount2, ''umount2''),
     (SYS_pivot_root, ''pivot_root''), (SYS_mount_setattr, ''mount_setattr''),
     (SYS_open_tree, ''open_tree''), (SYS_move_mount, ''move_mount''),
     (SYS_fsopen, ''fsopen''), (SYS_fsconfig, ''fsconfig''), (SYS_fsmount, ''fsmount''),
     (SYS_fspick, ''fspick''), (SYS_unshare, ''unshare''), (SYS_setns, ''setns''),
     (SYS_init_module, ''init_module''), (SYS_finit_module, ''finit_module''),
     (SYS_delete_module, ''delete_module''), (SYS_kexec_load, ''kexec_load''),
     (SYS_kexec_file_load, ''kexec_file_load''), (SYS_add_key, ''add_key''),
     (SYS_request_key, ''request_key''), (SYS_keyctl, ''keyctl'')]"

definition seccomp_name :: "u32 \<Rightarrow> string option" where
  "seccomp_name nr =
     (if nr = SYS_ioctl then Some ''ioctl''
      else if nr = SYS_socket then Some ''socket''
      else if nr = SYS_prctl then Some ''prctl''
      else map_option snd (find (\<lambda>(n, name). n = nr) DENIED))"

definition stmt :: "u16 \<Rightarrow> u32 \<Rightarrow> insn" where
  "stmt code k = \<lparr>i_code = code, i_jt = 0, i_jf = 0, i_k = k\<rparr>"

definition jump :: "u16 \<Rightarrow> u8 \<Rightarrow> u8 \<Rightarrow> u32 \<Rightarrow> insn" where
  "jump code jt jf k = \<lparr>i_code = code, i_jt = jt, i_jf = jf, i_k = k\<rparr>"

section \<open>The assembler\<close>

datatype jump_to = ToNext | ToAllow | ToNotify | ToKill | ToIoctl | ToSocket | ToSocketType | ToPrctl

datatype item = Stmt insn | Jump u16 u32 jump_to jump_to

record asm =
  asm_items :: "item list"
  asm_labels :: "(jump_to \<times> nat) list"

definition asm_default :: asm where
  "asm_default = \<lparr>asm_items = [], asm_labels = []\<rparr>"

definition asm_stmt :: "u16 \<Rightarrow> u32 \<Rightarrow> asm \<Rightarrow> asm" where
  "asm_stmt code k a = a\<lparr>asm_items := asm_items a @ [Stmt (stmt code k)]\<rparr>"

definition asm_jump :: "u16 \<Rightarrow> u32 \<Rightarrow> jump_to \<Rightarrow> jump_to \<Rightarrow> asm \<Rightarrow> asm" where
  "asm_jump code k jt jf a = a\<lparr>asm_items := asm_items a @ [Jump code k jt jf]\<rparr>"

definition asm_mark :: "jump_to \<Rightarrow> asm \<Rightarrow> asm" where
  "asm_mark l a = a\<lparr>asm_labels := asm_labels a @ [(l, length (asm_items a))]\<rparr>"

definition asm_offset :: "asm \<Rightarrow> nat \<Rightarrow> jump_to \<Rightarrow> u8" where
  "asm_offset a at l =
     (if l = ToNext then 0
      else (case find (\<lambda>(placed, _). placed = l) (asm_labels a) of
              None \<Rightarrow> 255
            | Some (_, target) \<Rightarrow>
                if at + 1 \<le> target \<and> target - (at + 1) \<le> 255
                then of_nat (target - (at + 1)) else 255))"

fun finish_item :: "asm \<Rightarrow> nat \<times> item \<Rightarrow> insn" where
  "finish_item a (at, Stmt i) = i"
| "finish_item a (at, Jump code k jt jf) = jump code (asm_offset a at jt) (asm_offset a at jf) k"

definition asm_finish :: "asm \<Rightarrow> insn list" where
  "asm_finish a = map (finish_item a) (List.enumerate 0 (asm_items a))"

definition program_asm :: asm where
  "program_asm =
     (let a = asm_default;
          a = asm_stmt LD_W_ABS DATA_ARCH a;
          a = asm_jump JEQ_K AUDIT_ARCH_X86_64 ToNext ToKill a;
          a = asm_stmt LD_W_ABS DATA_NR a;
          a = asm_jump JGE_K X32_SYSCALL_BIT ToKill ToNext a;
          a = foldl (\<lambda>a (nr, _). asm_jump JEQ_K nr ToNotify ToNext a) a DENIED;
          a = asm_jump JEQ_K SYS_ioctl ToIoctl ToNext a;
          a = asm_jump JEQ_K SYS_socket ToSocket ToNext a;
          a = asm_jump JEQ_K SYS_prctl ToPrctl ToNext a;
          a = asm_stmt RET_K SECCOMP_RET_ALLOW a;
          a = asm_mark ToIoctl a;
          a = asm_stmt LD_W_ABS DATA_ARG1 a;
          a = asm_jump JEQ_K TIOCSTI ToNotify ToAllow a;
          a = asm_mark ToSocket a;
          a = asm_stmt LD_W_ABS DATA_ARG0 a;
          a = asm_jump JEQ_K AF_PACKET ToNotify ToNext a;
          a = asm_jump JEQ_K AF_NETLINK ToNext ToSocketType a;
          a = asm_stmt LD_W_ABS DATA_ARG2 a;
          a = asm_jump JEQ_K NETLINK_ROUTE ToAllow ToNotify a;
          a = asm_mark ToSocketType a;
          a = asm_stmt LD_W_ABS DATA_ARG1 a;
          a = asm_stmt AND_K SOCK_TYPE_MASK a;
          a = asm_jump JEQ_K SOCK_RAW ToNotify ToNext a;
          a = asm_jump JEQ_K SOCK_PACKET ToNotify ToAllow a;
          a = asm_mark ToPrctl a;
          a = asm_stmt LD_W_ABS DATA_ARG0 a;
          a = asm_jump JEQ_K PR_SET_SECCOMP ToNotify ToAllow a;
          a = asm_mark ToAllow a;
          a = asm_stmt RET_K SECCOMP_RET_ALLOW a;
          a = asm_mark ToNotify a;
          a = asm_stmt RET_K SECCOMP_RET_USER_NOTIF a;
          a = asm_mark ToKill a;
          a = asm_stmt RET_K SECCOMP_RET_KILL_PROCESS a
      in a)"

definition program :: "insn list" where
  "program = asm_finish program_asm"

section \<open>The machine\<close>

definition to_le_bytes :: "nat \<Rightarrow> 'a::len word \<Rightarrow> bytes" where
  "to_le_bytes n w = map (\<lambda>i. ucast (drop_bit (8 * i) w)) [0..<n]"

fun from_le_bytes :: "bytes \<Rightarrow> u32" where
  "from_le_bytes [] = 0"
| "from_le_bytes (b # bs) = ucast b OR push_bit 8 (from_le_bytes bs)"

text \<open>\<open>seccomp_data\<close>: the number, the architecture, the instruction pointer and six arguments.\<close>

definition seccomp_data :: "u32 \<Rightarrow> u32 \<Rightarrow> u64 \<Rightarrow> (nat \<Rightarrow> u64) \<Rightarrow> bytes" where
  "seccomp_data arch nr ip args =
     to_le_bytes 4 nr @ to_le_bytes 4 arch @ to_le_bytes 8 ip
     @ concat (map (\<lambda>i. to_le_bytes 8 (args i)) [0..<6])"

definition load_word :: "bytes \<Rightarrow> nat \<Rightarrow> u32 option" where
  "load_word data at =
     (if at + 4 \<le> length data then Some (from_le_bytes (take 4 (drop at data))) else None)"

text \<open>One run from instruction \<open>pc\<close>: \<open>None\<close> is a load outside the data, a path off the end or an
  instruction the filter does not use.\<close>

function bpf_run :: "insn list \<Rightarrow> bytes \<Rightarrow> u32 \<Rightarrow> nat \<Rightarrow> u32 option" where
  "bpf_run prog data acc pc =
     (if length prog \<le> pc then None
      else let i = prog ! pc; code = i_code i; k = i_k i in
        if code = LD_W_ABS then
          (case load_word data (unat k) of
             None \<Rightarrow> None
           | Some w \<Rightarrow> bpf_run prog data w (pc + 1))
        else if code = JEQ_K then
          bpf_run prog data acc (pc + 1 + unat (if acc = k then i_jt i else i_jf i))
        else if code = JGE_K then
          bpf_run prog data acc (pc + 1 + unat (if k \<le> acc then i_jt i else i_jf i))
        else if code = AND_K then bpf_run prog data (acc AND k) (pc + 1)
        else if code = RET_K then Some k
        else None)"
  by pat_completeness auto
termination
  by (relation "measure (\<lambda>(prog, data, acc, pc). length prog - pc)") auto

declare bpf_run.simps [simp del]

definition filter_verdict :: "u32 \<Rightarrow> u32 \<Rightarrow> u64 \<Rightarrow> (nat \<Rightarrow> u64) \<Rightarrow> u32 option" where
  "filter_verdict arch nr ip args = bpf_run program (seccomp_data arch nr ip args) 0 0"

section \<open>Answering the intercepted calls\<close>

text \<open>The name a denied call is recorded under.\<close>

definition syscall_name :: "u32 \<Rightarrow> string" where
  "syscall_name nr =
     (case seccomp_name nr of Some n \<Rightarrow> n | None \<Rightarrow> ''syscall_'' @ nat_text (unat nr))"

text \<open>What the kernel answers in one turn of the loop: \<open>poll\<close>, then, when a call is pending, the two
  \<open>ioctl\<close>s. An operating-system error is its number.\<close>

datatype io_error = OsError nat | OtherError

record notif_turn =
  t_poll :: "io_error + u16"
  t_recv :: "io_error + (u64 \<times> u32)"
  t_send :: "io_error option"

text \<open>What the loop has done: the calls passed to \<open>on_deny\<close>, the answers sent (the request's id and
  the error), and the calls it complained about on stderr.\<close>

record notif_log =
  nl_denied :: "u32 list"
  nl_answers :: "(u64 \<times> int) list"
  nl_said :: "u32 list"

definition EPERM :: int where [codes]: "EPERM = 1"
definition ENOENT :: nat where [codes]: "ENOENT = 2"
definition EINTR :: nat where [codes]: "EINTR = 4"
definition POLLIN :: u16 where [codes]: "POLLIN = 0x01"
definition POLLERR :: u16 where [codes]: "POLLERR = 0x08"
definition POLLHUP :: u16 where [codes]: "POLLHUP = 0x10"
definition POLLNVAL :: u16 where [codes]: "POLLNVAL = 0x20"

definition answer_one :: "notif_turn \<Rightarrow> notif_log \<Rightarrow> (io_error + u32) \<times> notif_log" where
  "answer_one t l =
     (case t_recv t of
        Inl e \<Rightarrow> (Inl e, l)
      | Inr (rid, nr) \<Rightarrow>
          (let l = l\<lparr>nl_answers := nl_answers l @ [(rid, - EPERM)]\<rparr>
           in (Inr nr,
               case t_send t of
                 None \<Rightarrow> l
               | Some e \<Rightarrow> if e \<noteq> OsError ENOENT then l\<lparr>nl_said := nl_said l @ [nr]\<rparr> else l)))"

text \<open>The loop over the turns the kernel takes: no result is a loop still waiting.\<close>

fun serve_notifications ::
  "notif_turn list \<Rightarrow> notif_log \<Rightarrow> (io_error + unit) option \<times> notif_log" where
  "serve_notifications [] l = (None, l)"
| "serve_notifications (t # ts) l =
     (case t_poll t of
        Inl e \<Rightarrow> if e = OsError EINTR then serve_notifications ts l else (Some (Inl e), l)
      | Inr revents \<Rightarrow>
          if revents AND POLLIN \<noteq> 0 then
            (case answer_one t l of
               (Inr nr, l') \<Rightarrow> serve_notifications ts (l'\<lparr>nl_denied := nl_denied l' @ [nr]\<rparr>)
             | (Inl e, l') \<Rightarrow>
                 if e = OsError EINTR \<or> e = OsError ENOENT then serve_notifications ts l'
                 else (Some (Inl e), l'))
          else if revents AND POLLHUP \<noteq> 0 then (Some (Inr ()), l)
          else if revents AND (POLLERR OR POLLNVAL) \<noteq> 0 then (Some (Inl OtherError), l)
          else serve_notifications ts l)"

section \<open>Loads\<close>

lemma length_to_le_bytes [simp]: "length (to_le_bytes n w) = n"
  by (simp add: to_le_bytes_def)

lemma from_le_bytes_bit:
  "bit (from_le_bytes bs) n \<longleftrightarrow> n < 32 \<and> n div 8 < length bs \<and> bit (bs ! (n div 8)) (n mod 8)"
proof (induction bs arbitrary: n)
  case (Cons b bs)
  show ?case
  proof (cases "n < 8")
    case True
    then show ?thesis by (auto simp: bit_simps)
  next
    case False
    then have "n div 8 = Suc ((n - 8) div 8)" "n mod 8 = (n - 8) mod 8"
      by (simp_all add: div_if mod_if [of n])
    moreover have "\<not> bit b n" using False by (auto simp: bit_simps dest: bit_imp_le_length)
    ultimately show ?thesis using False by (auto simp: bit_simps Cons.IH)
  qed
qed simp

lemma from_to_le_bytes:
  "4 \<le> n \<Longrightarrow> from_le_bytes (take 4 (to_le_bytes n w)) = ucast w"
  by (rule bit_eqI) (auto simp: from_le_bytes_bit to_le_bytes_def bit_simps min_def take_map)

lemma from_to_le_bytes_exact: "from_le_bytes (to_le_bytes 4 (w :: u32)) = w"
  using from_to_le_bytes [of 4 w] by simp

lemma upt_6: "[0..<6] = [0, 1, 2, 3, 4, 5 :: nat]"
  by (simp add: upt_rec)

lemma load_seccomp_data:
  "load_word (seccomp_data arch nr ip args) 0 = Some nr"
  "load_word (seccomp_data arch nr ip args) 4 = Some arch"
  "load_word (seccomp_data arch nr ip args) 16 = Some (ucast (args 0))"
  "load_word (seccomp_data arch nr ip args) 24 = Some (ucast (args 1))"
  "load_word (seccomp_data arch nr ip args) 32 = Some (ucast (args 2))"
  by (simp_all add: load_word_def seccomp_data_def upt_6 from_to_le_bytes from_to_le_bytes_exact)


section \<open>What the filter decides\<close>

text \<open>The policy: only the native ABI, the refused calls by number, terminal injection, raw and packet
  sockets and netlink beyond the route protocol, and a filter of the session's own.\<close>

definition socket_refused :: "u32 \<Rightarrow> u32 \<Rightarrow> u32 \<Rightarrow> bool" where
  "socket_refused family ty proto \<longleftrightarrow>
     family = AF_PACKET
     \<or> (if family = AF_NETLINK then proto \<noteq> NETLINK_ROUTE
        else (ty AND SOCK_TYPE_MASK) \<in> {SOCK_RAW, SOCK_PACKET})"

definition call_refused :: "u32 \<Rightarrow> (nat \<Rightarrow> u64) \<Rightarrow> bool" where
  "call_refused nr args \<longleftrightarrow>
     nr \<in> set (map fst DENIED)
     \<or> (nr = SYS_ioctl \<and> (ucast (args 1) :: u32) = TIOCSTI)
     \<or> (nr = SYS_socket \<and> socket_refused (ucast (args 0)) (ucast (args 1)) (ucast (args 2)))
     \<or> (nr = SYS_prctl \<and> (ucast (args 0) :: u32) = PR_SET_SECCOMP)"

definition policy_verdict :: "u32 \<Rightarrow> u32 \<Rightarrow> (nat \<Rightarrow> u64) \<Rightarrow> u32" where
  "policy_verdict arch nr args =
     (if arch \<noteq> AUDIT_ARCH_X86_64 \<or> X32_SYSCALL_BIT \<le> nr then SECCOMP_RET_KILL_PROCESS
      else if call_refused nr args then SECCOMP_RET_USER_NOTIF
      else SECCOMP_RET_ALLOW)"


text \<open>One instruction at a time.\<close>

lemma bpf_ld:
  "pc < length prog \<Longrightarrow> prog ! pc = stmt LD_W_ABS k \<Longrightarrow> load_word data (unat k) = Some w \<Longrightarrow>
   bpf_run prog data acc pc = bpf_run prog data w (pc + 1)"
  by (subst bpf_run.simps) (simp add: stmt_def)

lemma bpf_jeq:
  "pc < length prog \<Longrightarrow> prog ! pc = jump JEQ_K jt jf k \<Longrightarrow>
   bpf_run prog data acc pc =
     (if acc = k then bpf_run prog data acc (pc + 1 + unat jt)
      else bpf_run prog data acc (pc + 1 + unat jf))"
  by (subst bpf_run.simps) (simp add: jump_def JEQ_K_def LD_W_ABS_def)

lemma bpf_jge:
  "pc < length prog \<Longrightarrow> prog ! pc = jump JGE_K jt jf k \<Longrightarrow>
   bpf_run prog data acc pc =
     (if k \<le> acc then bpf_run prog data acc (pc + 1 + unat jt)
      else bpf_run prog data acc (pc + 1 + unat jf))"
  by (subst bpf_run.simps) (simp add: jump_def JEQ_K_def LD_W_ABS_def JGE_K_def)

lemma bpf_and:
  "pc < length prog \<Longrightarrow> prog ! pc = stmt AND_K k \<Longrightarrow>
   bpf_run prog data acc pc = bpf_run prog data (acc AND k) (pc + 1)"
  by (subst bpf_run.simps) (simp add: stmt_def JEQ_K_def LD_W_ABS_def JGE_K_def AND_K_def)

lemma bpf_ret:
  "pc < length prog \<Longrightarrow> prog ! pc = stmt RET_K k \<Longrightarrow> bpf_run prog data acc pc = Some k"
  by (subst bpf_run.simps)
    (simp add: stmt_def JEQ_K_def LD_W_ABS_def JGE_K_def AND_K_def RET_K_def)

text \<open>The layout the assembler gives the program: the header, one comparison per refused call, the
  blocks judged by arguments and the three verdicts.\<close>

lemma program_layout:
  "program =
    [stmt LD_W_ABS DATA_ARCH,
     jump JEQ_K 0 52 AUDIT_ARCH_X86_64,
     stmt LD_W_ABS DATA_NR,
     jump JGE_K 50 0 X32_SYSCALL_BIT]
    @ map (\<lambda>i. jump JEQ_K (of_nat (48 - i)) 0 (fst (DENIED ! i))) [0..<31]
    @ [jump JEQ_K 3 0 SYS_ioctl,
     jump JEQ_K 4 0 SYS_socket,
     jump JEQ_K 12 0 SYS_prctl,
     stmt RET_K SECCOMP_RET_ALLOW,
     stmt LD_W_ABS DATA_ARG1,
     jump JEQ_K 12 11 TIOCSTI,
     stmt LD_W_ABS DATA_ARG0,
     jump JEQ_K 10 0 AF_PACKET,
     jump JEQ_K 0 2 AF_NETLINK,
     stmt LD_W_ABS DATA_ARG2,
     jump JEQ_K 6 7 NETLINK_ROUTE,
     stmt LD_W_ABS DATA_ARG1,
     stmt AND_K SOCK_TYPE_MASK,
     jump JEQ_K 4 0 SOCK_RAW,
     jump JEQ_K 3 2 SOCK_PACKET,
     stmt LD_W_ABS DATA_ARG0,
     jump JEQ_K 1 0 PR_SET_SECCOMP,
     stmt RET_K SECCOMP_RET_ALLOW,
     stmt RET_K SECCOMP_RET_USER_NOTIF,
     stmt RET_K SECCOMP_RET_KILL_PROCESS]"
  by code_simp

lemma program_length: "length program = 55"
  by (simp add: program_layout)

lemma program_head:
  "program ! 0 = stmt LD_W_ABS DATA_ARCH"
  "program ! 1 = jump JEQ_K 0 52 AUDIT_ARCH_X86_64"
  "program ! 2 = stmt LD_W_ABS DATA_NR"
  "program ! 3 = jump JGE_K 50 0 X32_SYSCALL_BIT"
  by (simp_all add: program_layout nth_append)

lemma program_denied:
  "list_all (\<lambda>i. program ! (4 + i) = jump JEQ_K (of_nat (48 - i)) 0 (fst (DENIED ! i))) [0..<31]"
  by (simp add: program_layout nth_append list_all_iff)

lemma program_dispatch:
  "program ! 35 = jump JEQ_K 3 0 SYS_ioctl"
  "program ! 36 = jump JEQ_K 4 0 SYS_socket"
  "program ! 37 = jump JEQ_K 12 0 SYS_prctl"
  "program ! 38 = stmt RET_K SECCOMP_RET_ALLOW"
  by (simp_all add: program_layout nth_append)

lemma program_blocks:
  "program ! 39 = stmt LD_W_ABS DATA_ARG1"
  "program ! 40 = jump JEQ_K 12 11 TIOCSTI"
  "program ! 41 = stmt LD_W_ABS DATA_ARG0"
  "program ! 42 = jump JEQ_K 10 0 AF_PACKET"
  "program ! 43 = jump JEQ_K 0 2 AF_NETLINK"
  "program ! 44 = stmt LD_W_ABS DATA_ARG2"
  "program ! 45 = jump JEQ_K 6 7 NETLINK_ROUTE"
  "program ! 46 = stmt LD_W_ABS DATA_ARG1"
  "program ! 47 = stmt AND_K SOCK_TYPE_MASK"
  "program ! 48 = jump JEQ_K 4 0 SOCK_RAW"
  "program ! 49 = jump JEQ_K 3 2 SOCK_PACKET"
  "program ! 50 = stmt LD_W_ABS DATA_ARG0"
  "program ! 51 = jump JEQ_K 1 0 PR_SET_SECCOMP"
  by (simp_all add: program_layout nth_append)

lemma program_verdicts:
  "program ! 52 = stmt RET_K SECCOMP_RET_ALLOW"
  "program ! 53 = stmt RET_K SECCOMP_RET_USER_NOTIF"
  "program ! 54 = stmt RET_K SECCOMP_RET_KILL_PROCESS"
  by (simp_all add: program_layout nth_append)

lemma denied_length: "length DENIED = 31"
  by (simp add: DENIED_def)

lemma run_verdicts:
  "bpf_run program data acc 52 = Some SECCOMP_RET_ALLOW"
  "bpf_run program data acc 53 = Some SECCOMP_RET_USER_NOTIF"
  "bpf_run program data acc 54 = Some SECCOMP_RET_KILL_PROCESS"
  "bpf_run program data acc 38 = Some SECCOMP_RET_ALLOW"
  by (simp_all add: bpf_ret program_length program_verdicts program_dispatch)

lemma run_denied:
  "i \<le> 31 \<Longrightarrow> bpf_run program data acc (4 + i) =
     (if acc \<in> set (map fst (drop i DENIED)) then Some SECCOMP_RET_USER_NOTIF
      else bpf_run program data acc 35)"
proof (induction rule: inc_induct)
  case base
  then show ?case by (simp add: denied_length)
next
  case (step i)
  then have at: "program ! (4 + i) = jump JEQ_K (of_nat (48 - i)) 0 (fst (DENIED ! i))"
    using program_denied by (simp add: list_all_iff)
  have u: "unat (of_nat (48 - i) :: u8) = 48 - i"
    using step.hyps by (simp add: unat_of_nat del: of_nat_diff)
  have d: "drop i DENIED = DENIED ! i # drop (Suc i) DENIED"
    using step.hyps by (simp add: Cons_nth_drop_Suc denied_length)
  have "4 + i + 1 + (48 - i) = 53" using step.hyps by simp
  then show ?case
    using step.IH step.hyps
    by (subst bpf_jeq [OF _ at]) (auto simp: program_length u d run_verdicts simp del: of_nat_diff)
qed

lemma run_ioctl:
  "bpf_run program (seccomp_data arch nr ip args) acc 39 =
     Some (if (ucast (args 1) :: u32) = TIOCSTI then SECCOMP_RET_USER_NOTIF else SECCOMP_RET_ALLOW)"
  by (simp add: bpf_ld bpf_jeq program_length program_blocks DATA_ARG1_def load_seccomp_data
      run_verdicts)

lemma run_prctl:
  "bpf_run program (seccomp_data arch nr ip args) acc 50 =
     Some (if (ucast (args 0) :: u32) = PR_SET_SECCOMP then SECCOMP_RET_USER_NOTIF
           else SECCOMP_RET_ALLOW)"
  by (simp add: bpf_ld bpf_jeq program_length program_blocks DATA_ARG0_def load_seccomp_data
      run_verdicts)

lemma run_socket:
  "bpf_run program (seccomp_data arch nr ip args) acc 41 =
     Some (if socket_refused (ucast (args 0)) (ucast (args 1)) (ucast (args 2))
           then SECCOMP_RET_USER_NOTIF else SECCOMP_RET_ALLOW)"
  by (simp add: bpf_ld bpf_jeq bpf_and program_length program_blocks DATA_ARG0_def DATA_ARG1_def
      DATA_ARG2_def load_seccomp_data run_verdicts socket_refused_def)

lemma run_dispatch:
  "bpf_run program (seccomp_data arch nr ip args) acc 35 =
     (if acc = SYS_ioctl then bpf_run program (seccomp_data arch nr ip args) acc 39
      else if acc = SYS_socket then bpf_run program (seccomp_data arch nr ip args) acc 41
      else if acc = SYS_prctl then bpf_run program (seccomp_data arch nr ip args) acc 50
      else Some SECCOMP_RET_ALLOW)"
  by (simp add: bpf_jeq program_length program_dispatch run_verdicts)

lemma run_head:
  "bpf_run program (seccomp_data arch nr ip args) 0 0 =
     (if arch \<noteq> AUDIT_ARCH_X86_64 \<or> X32_SYSCALL_BIT \<le> nr then Some SECCOMP_RET_KILL_PROCESS
      else bpf_run program (seccomp_data arch nr ip args) nr 4)"
proof -
  let ?d = "seccomp_data arch nr ip args"
  have "bpf_run program ?d 0 0 = bpf_run program ?d arch 1"
    using bpf_ld [OF _ program_head(1), of ?d arch]
    by (simp add: program_length DATA_ARCH_def load_seccomp_data)
  also have "\<dots> = (if arch = AUDIT_ARCH_X86_64 then bpf_run program ?d arch 2
      else Some SECCOMP_RET_KILL_PROCESS)"
    using bpf_jeq [OF _ program_head(2), of ?d arch]
    by (simp add: program_length run_verdicts numeral_2_eq_2 [symmetric])
  also have "bpf_run program ?d arch 2 = bpf_run program ?d nr 3"
    using bpf_ld [OF _ program_head(3), of ?d nr]
    by (simp add: program_length DATA_NR_def load_seccomp_data)
  also have "bpf_run program ?d nr 3 = (if X32_SYSCALL_BIT \<le> nr then Some SECCOMP_RET_KILL_PROCESS
      else bpf_run program ?d nr 4)"
    using bpf_jge [OF _ program_head(4), of ?d nr]
    by (simp add: program_length run_verdicts)
  finally show ?thesis by simp
qed

lemma judged_not_denied: "{SYS_ioctl, SYS_socket, SYS_prctl} \<inter> set (map fst DENIED) = {}"
  by (simp add: DENIED_def codes)

lemma judged_distinct: "SYS_ioctl \<noteq> SYS_socket" "SYS_ioctl \<noteq> SYS_prctl" "SYS_socket \<noteq> SYS_prctl"
  by (simp_all add: codes)

text \<open>(C2) On every system call, from any architecture and with any arguments, the assembled program
  runs to a verdict, and the verdict is the policy's: a foreign or x32 call is killed, a refused one
  is handed to the supervisor, every other passes.\<close>
theorem filter_is_policy: "filter_verdict arch nr ip args = Some (policy_verdict arch nr args)"
proof -
  have "bpf_run program (seccomp_data arch nr ip args) nr 4 =
      Some (if call_refused nr args then SECCOMP_RET_USER_NOTIF else SECCOMP_RET_ALLOW)"
    using run_denied [of 0 "seccomp_data arch nr ip args" nr] judged_not_denied judged_distinct
    by (auto simp: run_dispatch run_ioctl run_socket run_prctl call_refused_def)
  then show ?thesis
    by (auto simp: filter_verdict_def policy_verdict_def run_head)
qed


text \<open>What the kernel checks before it takes a program: not too long, only known instructions, loads
  inside the data and aligned, jumps that stay inside, a return at the end.\<close>

fun insn_ok :: "nat \<Rightarrow> nat \<times> insn \<Rightarrow> bool" where
  "insn_ok len (pc, i) =
     (if i_code i = LD_W_ABS then unat (i_k i) mod 4 = 0 \<and> unat (i_k i) < 64
      else if i_code i \<in> {JEQ_K, JGE_K} then
        pc + 1 + unat (i_jt i) < len \<and> pc + 1 + unat (i_jf i) < len
      else i_code i \<in> {AND_K, RET_K})"

lemma program_installs:
  "length program \<le> 4096 \<and> list_all (insn_ok (length program)) (List.enumerate 0 program)
   \<and> i_code (last program) = RET_K"
  by code_simp

lemma asm_offset_lands:
  assumes "find (\<lambda>(placed, _). placed = l) (asm_labels a) = Some (l, target)"
    and "l \<noteq> ToNext" "at < target" "target \<le> at + 256"
  shows "at + 1 + unat (asm_offset a at l) = target"
proof -
  have near: "target - (at + 1) \<le> 255" using assms by linarith
  then have "unat (of_nat (target - (at + 1)) :: u8) = target - (at + 1)"
    by (simp add: unat_of_nat del: of_nat_diff)
  with assms near show ?thesis by (simp add: asm_offset_def del: of_nat_diff)
qed

text \<open>A call the filter hands to the supervisor always has a name of the filter's own: the
  record of a denial never falls back on \<open>syscall_<nr>\<close>.\<close>
theorem notified_calls_are_named:
  assumes "filter_verdict arch nr ip args = Some SECCOMP_RET_USER_NOTIF"
  shows "seccomp_name nr = Some (syscall_name nr)"
proof -
  have refused: "call_refused nr args"
  proof (rule ccontr)
    assume "\<not> call_refused nr args"
    with assms show False
      using run_head [of arch nr ip args] run_denied [of 0 "seccomp_data arch nr ip args" nr]
        judged_not_denied judged_distinct
      by (auto simp: filter_verdict_def run_dispatch run_ioctl run_socket run_prctl call_refused_def
          codes split: if_splits)
  qed
  have "nr \<in> {SYS_ioctl, SYS_socket, SYS_prctl} \<or> find (\<lambda>(n, name). n = nr) DENIED \<noteq> None"
    using refused by (auto simp: find_None_iff call_refused_def)
  then have "seccomp_name nr \<noteq> None"
    by (auto simp: seccomp_name_def)
  then show ?thesis by (auto simp: syscall_name_def)
qed

theorem notified_calls_are_named_witness:
  "filter_verdict AUDIT_ARCH_X86_64 101 0 (\<lambda>_. 0) = Some SECCOMP_RET_USER_NOTIF
   \<and> seccomp_name 101 = Some (syscall_name 101)"
proof -
  have v: "filter_verdict AUDIT_ARCH_X86_64 101 0 (\<lambda>_. 0) = Some SECCOMP_RET_USER_NOTIF"
    using run_head [of AUDIT_ARCH_X86_64 101 0 "\<lambda>_. 0"]
      run_denied [of 0 "seccomp_data AUDIT_ARCH_X86_64 101 0 (\<lambda>_. 0)" 101]
    by (simp add: filter_verdict_def DENIED_def SYS_ptrace_def X32_SYSCALL_BIT_def)
  with notified_calls_are_named [OF v] show ?thesis by simp
qed

text \<open>The calls the kernel delivers in a turn.\<close>

definition turn_calls :: "notif_turn \<Rightarrow> (u64 \<times> u32) list" where
  "turn_calls t =
     (case (t_poll t, t_recv t) of
        (Inr revents, Inr call) \<Rightarrow> if revents AND POLLIN \<noteq> 0 then [call] else []
      | _ \<Rightarrow> [])"

definition hung_up :: "notif_turn \<Rightarrow> bool" where
  "hung_up t \<longleftrightarrow>
     (case t_poll t of
        Inl _ \<Rightarrow> False
      | Inr revents \<Rightarrow> revents AND POLLIN = 0 \<and> revents AND POLLHUP \<noteq> 0)"

lemma serve_shift:
  "\<exists>k \<le> length ts.
     nl_denied (snd (serve_notifications ts l))
       = nl_denied l @ map snd (concat (map turn_calls (take k ts)))
   \<and> nl_answers (snd (serve_notifications ts l))
       = nl_answers l @ map (\<lambda>c. (fst c, - EPERM)) (concat (map turn_calls (take k ts)))
   \<and> (fst (serve_notifications ts l) = None \<longrightarrow> k = length ts)
   \<and> (fst (serve_notifications ts l) = Some (Inr ()) \<longrightarrow> k < length ts \<and> hung_up (ts ! k))"
  (is "\<exists>k \<le> length ts. ?P ts l k")
proof (induction ts arbitrary: l)
  case (Cons t ts)
  have skip: "\<exists>k \<le> length (t # ts). ?P (t # ts) l k"
    if "serve_notifications (t # ts) l = serve_notifications ts l'"
      and "nl_denied l' = nl_denied l @ map snd (turn_calls t)"
      and "nl_answers l' = nl_answers l @ map (\<lambda>c. (fst c, - EPERM)) (turn_calls t)" for l'
  proof -
    obtain k where k: "k \<le> length ts \<and> ?P ts l' k"
      using Cons.IH [of l'] by (elim exE)
    show ?thesis
      by (intro exI [of _ "Suc k"]) (use k that in \<open>simp del: serve_notifications.simps\<close>)
  qed
  have stop: "\<exists>k \<le> length (t # ts). ?P (t # ts) l k"
    if "serve_notifications (t # ts) l = (Some r, l)" "r = Inr () \<longrightarrow> hung_up t" for r
    by (intro exI [of _ 0]) (use that in \<open>simp del: serve_notifications.simps\<close>)
  consider (eintr) "t_poll t = Inl (OsError EINTR)"
    | (poll_error) e where "t_poll t = Inl e" "e \<noteq> OsError EINTR"
    | (call) revents rid nr where "t_poll t = Inr revents" "revents AND POLLIN \<noteq> 0"
        "t_recv t = Inr (rid, nr)"
    | (recv_error) revents e where "t_poll t = Inr revents" "revents AND POLLIN \<noteq> 0"
        "t_recv t = Inl e"
    | (idle) revents where "t_poll t = Inr revents" "revents AND POLLIN = 0"
    by (metis (full_types) old.prod.exhaust sum.exhaust_sel)
  then show ?case
  proof cases
    case eintr
    then show ?thesis by - (rule skip [of l]; simp add: turn_calls_def)
  next
    case poll_error
    then show ?thesis by - (rule stop [of "Inl e"]; simp)
  next
    case call
    then show ?thesis
      by - (rule skip [of "(snd (answer_one t l))\<lparr>nl_denied := nl_denied l @ [nr]\<rparr>"];
        simp add: answer_one_def turn_calls_def Let_def split: option.splits)
  next
    case recv_error
    show ?thesis
    proof (cases "e = OsError EINTR \<or> e = OsError ENOENT")
      case True
      with recv_error show ?thesis
        by - (rule skip [of l]; auto simp: turn_calls_def answer_one_def)
    next
      case False
      with recv_error show ?thesis by - (rule stop [of "Inl e"]; simp add: answer_one_def)
    qed
  next
    case idle
    then consider "revents AND POLLHUP \<noteq> 0"
      | "revents AND POLLHUP = 0" "revents AND (POLLERR OR POLLNVAL) \<noteq> 0"
      | "revents AND POLLHUP = 0" "revents AND (POLLERR OR POLLNVAL) = 0" by blast
    then show ?thesis
    proof cases
      case 1
      with idle show ?thesis by - (rule stop [of "Inr ()"]; simp add: hung_up_def)
    next
      case 2
      with idle show ?thesis by - (rule stop [of "Inl OtherError"]; simp)
    next
      case 3
      with idle show ?thesis by - (rule skip [of l]; simp add: turn_calls_def split: sum.split)
    qed
  qed
qed simp

text \<open>The answering loop refuses and records every call the kernel delivers up to where it stops,
  each once and in order: a call that is answered is recorded and a recorded one was answered with
  \<open>EPERM\<close>, whatever errors come between. It stops in order only when the kernel hangs up with nothing
  pending.\<close>
theorem serve_records_every_call:
  "\<exists>k \<le> length ts.
     nl_denied (snd (serve_notifications ts l))
       = nl_denied l @ map snd (concat (map turn_calls (take k ts)))
   \<and> nl_answers (snd (serve_notifications ts l))
       = nl_answers l @ map (\<lambda>c. (fst c, - EPERM)) (concat (map turn_calls (take k ts)))
   \<and> (fst (serve_notifications ts l) = None \<longrightarrow> k = length ts)
   \<and> (fst (serve_notifications ts l) = Some (Inr ()) \<longrightarrow> k < length ts \<and> hung_up (ts ! k))"
  by (rule serve_shift)

definition demo_turns :: "notif_turn list" where
  "demo_turns =
     [\<lparr>t_poll = Inl (OsError 4), t_recv = Inl OtherError, t_send = None\<rparr>,
      \<lparr>t_poll = Inr 1, t_recv = Inr (7, 101), t_send = Some (OsError 2)\<rparr>,
      \<lparr>t_poll = Inr 0x11, t_recv = Inr (8, 165), t_send = None\<rparr>,
      \<lparr>t_poll = Inr 0x10, t_recv = Inl OtherError, t_send = None\<rparr>]"

theorem serve_records_every_call_witness:
  "fst (serve_notifications demo_turns \<lparr>nl_denied = [], nl_answers = [], nl_said = []\<rparr>) = Some (Inr ())
   \<and> (\<exists>k < length demo_turns. hung_up (demo_turns ! k)
      \<and> nl_denied (snd (serve_notifications demo_turns \<lparr>nl_denied = [], nl_answers = [], nl_said = []\<rparr>))
          = map snd (concat (map turn_calls (take k demo_turns))))"
proof -
  have r: "fst (serve_notifications demo_turns \<lparr>nl_denied = [], nl_answers = [], nl_said = []\<rparr>)
      = Some (Inr ())"
    by code_simp
  with serve_records_every_call [of demo_turns "\<lparr>nl_denied = [], nl_answers = [], nl_said = []\<rparr>"]
  show ?thesis by auto
qed

end
