(* ===== verification/Sandbox_Plan.thy ===== *)
theory Sandbox_Plan
  imports Ids Harness Session
begin

text \<open>
  The boundary of a session as data (\<^verbatim>\<open>crates/willie-linux/src/sandbox/\<close>): the plan of mounts
  (\<^verbatim>\<open>mod.rs\<close>), the namespace helper's argument vector (\<^verbatim>\<open>bwrap.rs\<close>), the Landlock rules
  (\<^verbatim>\<open>landlock.rs\<close>) and the mechanisms a report must name (\<^verbatim>\<open>inner.rs\<close>).

  Shown: the argument vector, read back option by option, is the fixed base followed by exactly the
  plan, the environment and the command, whatever strings the plan carries; the mounts of a resolved
  policy never reach the keys, nor the login unless the policy grants it; Landlock allows writing
  wherever the mounts do and only at their writable places.
\<close>

section \<open>The plan\<close>

datatype op =
    Tmpfs string string
  | Bind string string path_mode bool
  | Symlink string string

record plan =
  pl_home :: string
  pl_workspace :: string
  pl_argv :: "string list"
  pl_inner_exe :: string
  pl_env :: "(string, string) btree"
  pl_ensure_dirs :: "string list"
  pl_ops :: "op list"

datatype plan_error = HomeMissing

fun plan_error_code :: "plan_error \<Rightarrow> string" where
  "plan_error_code HomeMissing = ''spec_invalid''"

definition plan_under :: "string \<Rightarrow> string \<Rightarrow> bool" where
  "plan_under path pre \<longleftrightarrow>
     path = pre \<or>
     (case strip_prefix pre path of None \<Rightarrow> False | Some rest \<Rightarrow> starts_with rest ''/'')"

definition SYSTEM_TREE :: string where
  "SYSTEM_TREE = ''/usr''"

definition state_ops :: "agent_state \<Rightarrow> op list" where
  "state_ops st =
     Bind (as_dir st) (as_dir st) Rw False
     # map (\<lambda>l. Symlink (link_target l) (link_path l)) (as_links st)"

definition cache_src :: "string \<Rightarrow> string \<Rightarrow> cache \<Rightarrow> string" where
  "cache_src home pid c = home @ ''/.willie/caches/'' @ pid @ ''/'' @ cache_name c"

text \<open>The harness binary is bound unless something already carries it.\<close>

definition binary_ops :: "string list \<Rightarrow> string list \<Rightarrow> op list" where
  "binary_ops argv carried =
     (case argv of
        [] \<Rightarrow> []
      | binary # _ \<Rightarrow>
          if \<not> list_ex (plan_under binary) carried then [Bind binary binary Ro False] else [])"

text \<open>The operations in the order \<open>plan\<close> pushes them.\<close>

definition plan_ops ::
  "(project_id \<Rightarrow> string) \<Rightarrow> session_spec \<Rightarrow> harness \<Rightarrow> string \<Rightarrow> string \<Rightarrow> op list" where
  "plan_ops ulid_text spec harness inner_exe home =
     (let policy = sp_capabilities spec;
          roots = (if tools_ro policy then tool_roots home else []);
          src = cache_src home (id_display ulid_text KProject (sp_project_id spec))
      in [Tmpfs home ''0700'', Bind (sp_workspace spec) (sp_workspace spec) Rw False]
         @ (if Policy.agent_state policy then
              (case h_agent_state harness home of Some st \<Rightarrow> state_ops st | None \<Rightarrow> [])
            else [])
         @ map (\<lambda>r. Bind r r Ro True) roots
         @ binary_ops (sp_argv spec) (SYSTEM_TREE # roots)
         @ (if caches_rw policy then
              map (\<lambda>c. Bind (src c) (cache_path c) Rw False) (cache_paths home) else [])
         @ (if git_identity policy then
              [Bind (home @ ''/.gitconfig'') (home @ ''/.gitconfig'') Ro False] else [])
         @ map (\<lambda>x. Bind (xp_path x) (xp_path x) (xp_mode x) False) (extra_paths policy)
         @ [Bind inner_exe inner_exe Ro False])"

definition make_plan ::
  "(project_id \<Rightarrow> string) \<Rightarrow> session_spec \<Rightarrow> harness \<Rightarrow> string \<Rightarrow> plan_error + plan" where
  "make_plan ulid_text spec harness inner_exe =
     (case bt_get (sp_env spec) ''HOME'' of
        None \<Rightarrow> Inl HomeMissing
      | Some home \<Rightarrow>
          if home = [] then Inl HomeMissing
          else Inr
            \<lparr>pl_home = home, pl_workspace = sp_workspace spec, pl_argv = sp_argv spec,
             pl_inner_exe = inner_exe, pl_env = sp_env spec,
             pl_ensure_dirs =
               (if caches_rw (sp_capabilities spec)
                then map (cache_src home (id_display ulid_text KProject (sp_project_id spec)))
                       (cache_paths home)
                else []),
             pl_ops = plan_ops ulid_text spec harness inner_exe home\<rparr>)"

section \<open>The helper's argument vector\<close>

definition BWRAP :: string where "BWRAP = ''/usr/bin/bwrap''"

definition ETC :: "string list" where
  "ETC = [''resolv.conf'', ''hosts'', ''passwd'', ''group'', ''nsswitch.conf'', ''ssl'', ''alternatives'']"

definition ETC_OPTIONAL :: "string list" where
  "ETC_OPTIONAL = [''ld.so.cache'', ''localtime'', ''terminfo'', ''gitconfig'', ''os-release'', ''willie/zsh'']"

definition MASKED :: "string list" where "MASKED = [''/usr/bin/sudo'']"

definition USR_LINKS :: "(string \<times> string) list" where
  "USR_LINKS = [(''usr/bin'', ''/bin''), (''usr/lib'', ''/lib''), (''usr/lib64'', ''/lib64''),
     (''usr/sbin'', ''/sbin'')]"

fun bind_flag :: "path_mode \<Rightarrow> bool \<Rightarrow> string" where
  "bind_flag Ro False = ''--ro-bind''"
| "bind_flag Ro True = ''--ro-bind-try''"
| "bind_flag Rw False = ''--bind''"
| "bind_flag Rw True = ''--bind-try''"

fun render_op :: "op \<Rightarrow> string list" where
  "render_op (Tmpfs dest perms) = [''--perms'', perms, ''--tmpfs'', dest]"
| "render_op (Bind src dest mode opt) = [bind_flag mode opt, src, dest]"
| "render_op (Symlink target link) = [''--symlink'', target, link]"

definition bwrap_argv :: "plan \<Rightarrow> int \<Rightarrow> string list" where
  "bwrap_argv plan inner_fd =
     [BWRAP]
     @ [''--unshare-user'', ''--unshare-pid'', ''--unshare-ipc'', ''--unshare-uts'',
        ''--disable-userns'', ''--die-with-parent'']
     @ [''--clearenv'']
     @ concat (map (\<lambda>(key, val). [''--setenv'', key, val]) (pl_env plan))
     @ [''--ro-bind'', ''/usr'', ''/usr'']
     @ concat (map (\<lambda>(target, link). [''--symlink'', target, link]) USR_LINKS)
     @ concat (map (\<lambda>name. [''--ro-bind'', ''/etc/'' @ name, ''/etc/'' @ name]) ETC)
     @ concat (map (\<lambda>name. [''--ro-bind-try'', ''/etc/'' @ name, ''/etc/'' @ name]) ETC_OPTIONAL)
     @ [''--proc'', ''/proc'', ''--dev'', ''/dev'', ''--tmpfs'', ''/tmp'']
     @ concat (map (\<lambda>m. [''--ro-bind'', ''/dev/null'', m]) MASKED)
     @ concat (map render_op (pl_ops plan))
     @ [''--chdir'', pl_workspace plan, ''--'', pl_inner_exe plan, ''--inner'', int_text inner_fd]"

section \<open>Landlock\<close>

definition ACCESS_FS_EXECUTE :: u64 where [codes]: "ACCESS_FS_EXECUTE = push_bit 0 1"
definition ACCESS_FS_WRITE_FILE :: u64 where [codes]: "ACCESS_FS_WRITE_FILE = push_bit 1 1"
definition ACCESS_FS_READ_FILE :: u64 where [codes]: "ACCESS_FS_READ_FILE = push_bit 2 1"
definition ACCESS_FS_READ_DIR :: u64 where [codes]: "ACCESS_FS_READ_DIR = push_bit 3 1"
definition ACCESS_FS_REMOVE_DIR :: u64 where [codes]: "ACCESS_FS_REMOVE_DIR = push_bit 4 1"
definition ACCESS_FS_REMOVE_FILE :: u64 where [codes]: "ACCESS_FS_REMOVE_FILE = push_bit 5 1"
definition ACCESS_FS_MAKE_CHAR :: u64 where [codes]: "ACCESS_FS_MAKE_CHAR = push_bit 6 1"
definition ACCESS_FS_MAKE_DIR :: u64 where [codes]: "ACCESS_FS_MAKE_DIR = push_bit 7 1"
definition ACCESS_FS_MAKE_REG :: u64 where [codes]: "ACCESS_FS_MAKE_REG = push_bit 8 1"
definition ACCESS_FS_MAKE_SOCK :: u64 where [codes]: "ACCESS_FS_MAKE_SOCK = push_bit 9 1"
definition ACCESS_FS_MAKE_FIFO :: u64 where [codes]: "ACCESS_FS_MAKE_FIFO = push_bit 10 1"
definition ACCESS_FS_MAKE_BLOCK :: u64 where [codes]: "ACCESS_FS_MAKE_BLOCK = push_bit 11 1"
definition ACCESS_FS_MAKE_SYM :: u64 where [codes]: "ACCESS_FS_MAKE_SYM = push_bit 12 1"
definition ACCESS_FS_REFER :: u64 where [codes]: "ACCESS_FS_REFER = push_bit 13 1"
definition ACCESS_FS_TRUNCATE :: u64 where [codes]: "ACCESS_FS_TRUNCATE = push_bit 14 1"

definition READ_EXEC :: u64 where
  [codes]: "READ_EXEC = ACCESS_FS_EXECUTE OR ACCESS_FS_READ_FILE OR ACCESS_FS_READ_DIR"

definition ALL_ABI2 :: u64 where
  [codes]: "ALL_ABI2 = push_bit 14 1 - 1"

definition BASE_WRITABLE :: "string list" where
  "BASE_WRITABLE = [''/tmp'', ''/dev'']"

definition grant :: "string list \<Rightarrow> string \<Rightarrow> string list" where
  "grant write path = (if list_ex (\<lambda>p. p = path) write then write else write @ [path])"

fun grant_op :: "string list \<Rightarrow> op \<Rightarrow> string list" where
  "grant_op write (Tmpfs dest perms) = grant write dest"
| "grant_op write (Bind src dest Rw opt) = grant write dest"
| "grant_op write (Bind src dest Ro opt) = write"
| "grant_op write (Symlink target link) = write"

definition landlock_rules :: "plan \<Rightarrow> string list" where
  "landlock_rules plan = foldl grant (foldl grant_op [] (pl_ops plan)) BASE_WRITABLE"

datatype landlock_apply = Ruleset u64 | Unavailable

text \<open>The ABI is a signed 32-bit number; zero and a negative errno are no Landlock.\<close>

definition applicability :: "int \<Rightarrow> landlock_apply" where
  "applicability abi =
     (if abi \<le> 1 then Unavailable
      else if abi = 2 then Ruleset ALL_ABI2
      else Ruleset (ALL_ABI2 OR ACCESS_FS_TRUNCATE))"

section \<open>The stage's request and report\<close>

record rlimits =
  rl_nproc :: u64
  rl_nofile :: u64
  rl_core :: u64

definition RLIMITS_DEFAULT :: rlimits where
  "RLIMITS_DEFAULT = \<lparr>rl_nproc = 4096, rl_nofile = 65536, rl_core = 0\<rparr>"

record inner_request =
  rq_argv :: "string list"
  rq_rlimits :: rlimits
  rq_landlock :: "string list"

datatype inner_report =
    Applied "string list" "string list"
  | Refused string string

definition REQUIRED :: "string list" where
  "REQUIRED = [''namespaces'', ''mounts'', ''rlimits'', ''seccomp'']"

definition required_missing :: "string list \<Rightarrow> string option" where
  "required_missing app = find (\<lambda>req. \<not> list_ex (\<lambda>m. m = req) app) REQUIRED"

lemma required_missing_None: "required_missing app = None \<longleftrightarrow> set REQUIRED \<subseteq> set app"
  by (auto simp: required_missing_def find_None_iff list_ex_iff)


section \<open>Reading the vector back\<close>

text \<open>The helper reads its options left to right, each taking a fixed number of arguments, until
  \<open>--\<close>; what follows is the command. \<open>bwrap_view\<close> is what it has gathered.\<close>

datatype mount = MOp op | MTmpfs string | MProc string | MDev string

record bwrap_view =
  bv_flags :: "string list"
  bv_env :: "(string \<times> string) list"
  bv_mounts :: "mount list"
  bv_chdir :: "string option"
  bv_cmd :: "string list"

definition add_mount :: "mount \<Rightarrow> bwrap_view \<Rightarrow> bwrap_view" where
  "add_mount m st = st\<lparr>bv_mounts := bv_mounts st @ [m]\<rparr>"

definition no_arg_option :: "string \<Rightarrow> bool" where
  "no_arg_option a \<longleftrightarrow>
     a \<in> set [''--unshare-user'', ''--unshare-pid'', ''--unshare-ipc'', ''--unshare-uts'',
            ''--disable-userns'', ''--die-with-parent'', ''--clearenv'']"

definition one_arg_option :: "string \<Rightarrow> string \<Rightarrow> bwrap_view \<Rightarrow> bwrap_view option" where
  "one_arg_option a x st =
     (if a = ''--proc'' then Some (add_mount (MProc x) st)
      else if a = ''--dev'' then Some (add_mount (MDev x) st)
      else if a = ''--tmpfs'' then Some (add_mount (MTmpfs x) st)
      else if a = ''--chdir'' then Some (st\<lparr>bv_chdir := Some x\<rparr>)
      else None)"

definition two_arg_option :: "string \<Rightarrow> string \<Rightarrow> string \<Rightarrow> bwrap_view \<Rightarrow> bwrap_view option" where
  "two_arg_option a x y st =
     (if a = ''--setenv'' then Some (st\<lparr>bv_env := bv_env st @ [(x, y)]\<rparr>)
      else if a = ''--ro-bind'' then Some (add_mount (MOp (Bind x y Ro False)) st)
      else if a = ''--ro-bind-try'' then Some (add_mount (MOp (Bind x y Ro True)) st)
      else if a = ''--bind'' then Some (add_mount (MOp (Bind x y Rw False)) st)
      else if a = ''--bind-try'' then Some (add_mount (MOp (Bind x y Rw True)) st)
      else if a = ''--symlink'' then Some (add_mount (MOp (Symlink x y)) st)
      else None)"

function parse_bwrap :: "string list \<Rightarrow> bwrap_view \<Rightarrow> bwrap_view option" where
  "parse_bwrap args st =
     (case args of
        [] \<Rightarrow> None
      | a # r \<Rightarrow>
          if a = ''--'' then Some (st\<lparr>bv_cmd := r\<rparr>)
          else if no_arg_option a then
            parse_bwrap r (st\<lparr>bv_env := (if a = ''--clearenv'' then [] else bv_env st),
                              bv_flags := bv_flags st @ [a]\<rparr>)
          else
            (case r of
               [] \<Rightarrow> None
             | x # r1 \<Rightarrow>
                 (case one_arg_option a x st of
                    Some st' \<Rightarrow> parse_bwrap r1 st'
                  | None \<Rightarrow>
                      if a = ''--perms'' then
                        (case r1 of
                           [] \<Rightarrow> None
                         | t # r2 \<Rightarrow>
                             (case r2 of
                                [] \<Rightarrow> None
                              | d # r3 \<Rightarrow>
                                  if t = ''--tmpfs'' then parse_bwrap r3 (add_mount (MOp (Tmpfs d x)) st)
                                  else None))
                      else
                        (case r1 of
                           [] \<Rightarrow> None
                         | y # r2 \<Rightarrow>
                             (case two_arg_option a x y st of
                                Some st' \<Rightarrow> parse_bwrap r2 st'
                              | None \<Rightarrow> None)))))"
  by pat_completeness auto
termination
  by (relation "measure (\<lambda>(args, st). length args)") auto

declare parse_bwrap.simps [simp del]

lemmas bwrap_options = no_arg_option_def one_arg_option_def two_arg_option_def

lemma parse_end: "parse_bwrap (''--'' # cmd) st = Some (st\<lparr>bv_cmd := cmd\<rparr>)"
  by (subst parse_bwrap.simps) simp

lemma parse_no_arg:
  "no_arg_option a \<Longrightarrow> parse_bwrap (a # r) st =
     parse_bwrap r (st\<lparr>bv_env := (if a = ''--clearenv'' then [] else bv_env st),
                       bv_flags := bv_flags st @ [a]\<rparr>)"
  by (subst parse_bwrap.simps) (auto simp: no_arg_option_def)

lemma parse_one_arg:
  "one_arg_option a x st = Some st' \<Longrightarrow> parse_bwrap (a # x # r) st = parse_bwrap r st'"
  by (subst parse_bwrap.simps) (auto simp: bwrap_options split: if_splits)

lemma parse_two_arg:
  "two_arg_option a x y st = Some st' \<Longrightarrow> parse_bwrap (a # x # y # r) st = parse_bwrap r st'"
  by (subst parse_bwrap.simps) (auto simp: bwrap_options split: if_splits)

lemma parse_perms:
  "parse_bwrap (''--perms'' # p # ''--tmpfs'' # d # r) st =
     parse_bwrap r (add_mount (MOp (Tmpfs d p)) st)"
  by (subst parse_bwrap.simps) (simp add: bwrap_options)

lemma parse_render:
  "parse_bwrap (render_op op @ r) st = parse_bwrap r (add_mount (MOp op) st)"
proof (cases op)
  case (Tmpfs d p)
  then show ?thesis by (simp add: parse_perms)
next
  case (Bind s d m opt)
  then show ?thesis
    by (cases m; cases opt) (simp_all add: parse_two_arg two_arg_option_def)
next
  case (Symlink t l)
  then show ?thesis by (simp add: parse_two_arg two_arg_option_def)
qed

lemma parse_renders:
  "parse_bwrap (concat (map render_op ops) @ r) st =
     parse_bwrap r (st\<lparr>bv_mounts := bv_mounts st @ map MOp ops\<rparr>)"
proof (induction ops arbitrary: st)
  case (Cons op ops)
  then show ?case by (simp add: parse_render add_mount_def)
qed simp

lemma parse_setenvs:
  "parse_bwrap (concat (map (\<lambda>(k, v). [''--setenv'', k, v]) kvs) @ r) st =
     parse_bwrap r (st\<lparr>bv_env := bv_env st @ kvs\<rparr>)"
proof (induction kvs arbitrary: st)
  case (Cons kv kvs)
  then show ?case by (cases kv) (simp add: parse_two_arg two_arg_option_def)
qed simp

definition bwrap_view_start :: bwrap_view where
  "bwrap_view_start = \<lparr>bv_flags = [], bv_env = [], bv_mounts = [], bv_chdir = None, bv_cmd = []\<rparr>"

text \<open>The base every session gets: the system tree and its links, the files of \<open>/etc\<close> by name, the
  kernel's own file systems, a fresh temporary directory, the escalation helper masked.\<close>

definition etc_bind :: "bool \<Rightarrow> string \<Rightarrow> op" where
  "etc_bind opt n = Bind (''/etc/'' @ n) (''/etc/'' @ n) Ro opt"

definition base_front :: "op list" where
  "base_front =
     [Bind ''/usr'' ''/usr'' Ro False]
     @ map (\<lambda>(t, l). Symlink t l) USR_LINKS
     @ map (etc_bind False) ETC @ map (etc_bind True) ETC_OPTIONAL"

definition mask_ops :: "op list" where
  "mask_ops = map (\<lambda>m. Bind ''/dev/null'' m Ro False) MASKED"

definition base_mounts :: "mount list" where
  "base_mounts =
     map MOp base_front @ [MProc ''/proc'', MDev ''/dev'', MTmpfs ''/tmp'']
     @ map MOp mask_ops"

lemma bwrap_argv_blocks:
  "tl (bwrap_argv plan fd) =
     [''--unshare-user'', ''--unshare-pid'', ''--unshare-ipc'', ''--unshare-uts'',
      ''--disable-userns'', ''--die-with-parent'', ''--clearenv'']
     @ concat (map (\<lambda>(k, v). [''--setenv'', k, v]) (pl_env plan))
     @ concat (map render_op base_front)
     @ [''--proc'', ''/proc'', ''--dev'', ''/dev'', ''--tmpfs'', ''/tmp'']
     @ concat (map render_op mask_ops)
     @ concat (map render_op (pl_ops plan))
     @ [''--chdir'', pl_workspace plan, ''--'', pl_inner_exe plan, ''--inner'', int_text fd]"
proof -
  have "concat (map render_op (map (\<lambda>(t, l). Symlink t l) ls))
      = concat (map (\<lambda>(target, link). [''--symlink'', target, link]) ls)" for ls
    by (induction ls) auto
  moreover have "concat (map render_op (map (etc_bind opt) ns))
      = concat (map (\<lambda>name. [bind_flag Ro opt, ''/etc/'' @ name, ''/etc/'' @ name]) ns)" for ns opt
    by (induction ns) (auto simp: etc_bind_def)
  ultimately show ?thesis
    by (simp add: bwrap_argv_def base_front_def mask_ops_def comp_def)
qed

text \<open>(C14) The helper's argument vector means the plan and nothing else: read option by option it
  clears the environment and sets exactly the spec's, unshares the same namespaces for everyone,
  mounts the fixed base and then the plan's operations in the plan's order, works in the workspace and
  runs the inner stage, whatever the paths and the values are, those that look like options included.\<close>
theorem bwrap_vector_means_plan:
  "hd (bwrap_argv plan fd) = BWRAP
   \<and> parse_bwrap (tl (bwrap_argv plan fd)) bwrap_view_start = Some
       \<lparr>bv_flags = [''--unshare-user'', ''--unshare-pid'', ''--unshare-ipc'', ''--unshare-uts'',
          ''--disable-userns'', ''--die-with-parent'', ''--clearenv''],
        bv_env = pl_env plan,
        bv_mounts = base_mounts @ map MOp (pl_ops plan),
        bv_chdir = Some (pl_workspace plan),
        bv_cmd = [pl_inner_exe plan, ''--inner'', int_text fd]\<rparr>"
proof
  show "hd (bwrap_argv plan fd) = BWRAP" by (simp add: bwrap_argv_def)
next
  show "parse_bwrap (tl (bwrap_argv plan fd)) bwrap_view_start = Some
       \<lparr>bv_flags = [''--unshare-user'', ''--unshare-pid'', ''--unshare-ipc'', ''--unshare-uts'',
          ''--disable-userns'', ''--die-with-parent'', ''--clearenv''],
        bv_env = pl_env plan,
        bv_mounts = base_mounts @ map MOp (pl_ops plan),
        bv_chdir = Some (pl_workspace plan),
        bv_cmd = [pl_inner_exe plan, ''--inner'', int_text fd]\<rparr>"
    unfolding bwrap_argv_blocks
    by (simp add: parse_no_arg no_arg_option_def parse_setenvs parse_renders parse_one_arg
        one_arg_option_def parse_end add_mount_def bwrap_view_start_def base_mounts_def comp_def
        del: concat.simps list.map)
qed

section \<open>What the session can write\<close>

lemma set_grant [simp]: "set (grant w p) = insert p (set w)"
  by (auto simp: grant_def list_ex_iff)

lemma distinct_grant: "distinct w \<Longrightarrow> distinct (grant w p)"
  by (auto simp: grant_def list_ex_iff)

text \<open>Where an operation makes something writable.\<close>

fun writable_dest :: "op \<Rightarrow> string option" where
  "writable_dest (Tmpfs dest perms) = Some dest"
| "writable_dest (Bind src dest Rw opt) = Some dest"
| "writable_dest _ = None"

lemma set_grant_op: "set (grant_op w op) = set w \<union> set_option (writable_dest op)"
  by (cases op rule: writable_dest.cases) auto

lemma distinct_grant_op: "distinct w \<Longrightarrow> distinct (grant_op w op)"
  by (cases op rule: writable_dest.cases) (auto simp: distinct_grant)

lemma set_foldl_grant_op:
  "set (foldl grant_op w ops) = set w \<union> {d. Some d \<in> writable_dest ` set ops}"
  by (induction ops arbitrary: w) (auto simp: set_grant_op)

lemma landlock_rules_set:
  "set (landlock_rules pl) = {d. Some d \<in> writable_dest ` set (pl_ops pl)} \<union> set BASE_WRITABLE"
  by (auto simp: landlock_rules_def BASE_WRITABLE_def set_foldl_grant_op)

lemma landlock_rules_distinct: "distinct (landlock_rules pl)"
proof -
  have "distinct (foldl grant_op w ops)" if "distinct w" for w ops
    using that by (induction ops arbitrary: w) (auto simp: distinct_grant_op)
  then show ?thesis by (simp add: landlock_rules_def BASE_WRITABLE_def distinct_grant)
qed

text \<open>The mount a path is on: the last operation whose place it is in.\<close>

fun op_place :: "op \<Rightarrow> string list option" where
  "op_place (Tmpfs dest perms) = Some (path_comps dest)"
| "op_place (Bind src dest mode opt) = Some (path_comps dest)"
| "op_place (Symlink target link) = None"

definition covers :: "string list \<Rightarrow> op \<Rightarrow> bool" where
  "covers p op \<longleftrightarrow> (case op_place op of None \<Rightarrow> False | Some d \<Rightarrow> prefix d p)"

definition mount_at :: "op list \<Rightarrow> string list \<Rightarrow> op option" where
  "mount_at ops p = find (covers p) (rev ops)"

text \<open>Landlock never forbids what the mounts allow and never allows what no mount does: a path on
  a private file system or a read-write bind lies beneath a granted path; and every granted path is
  such a mount's own place or one of the two writable trees of the base, named once.\<close>
theorem landlock_follows_mounts:
  "(\<forall>p op. mount_at (pl_ops pl) p = Some op \<and> writable_dest op \<noteq> None
      \<longrightarrow> list_ex (\<lambda>w. prefix (path_comps w) p) (landlock_rules pl))
   \<and> set (landlock_rules pl)
       = {d. Some d \<in> writable_dest ` set (pl_ops pl)} \<union> {''/tmp'', ''/dev''}
   \<and> distinct (landlock_rules pl)"
proof -
  have "list_ex (\<lambda>w. prefix (path_comps w) p) (landlock_rules pl)"
    if at: "mount_at (pl_ops pl) p = Some op" and w: "writable_dest op = Some d" for p op d
  proof -
    from at have op: "covers p op" "op \<in> set (pl_ops pl)"
      by (auto simp: mount_at_def find_Some_iff) (metis nth_mem length_rev set_rev)
    from op(1) w have "prefix (path_comps d) p"
      by (cases op rule: writable_dest.cases) (auto simp: covers_def)
    moreover have "d \<in> set (landlock_rules pl)"
      unfolding landlock_rules_set using op(2) w by force
    ultimately show ?thesis by (auto simp: list_ex_iff)
  qed
  then show ?thesis
    by (auto simp: landlock_rules_distinct landlock_rules_set BASE_WRITABLE_def)
qed

definition demo_plan :: plan where
  "demo_plan = \<lparr>pl_home = ''/home/w'', pl_workspace = ''/home/w/p'', pl_argv = [''/usr/bin/zsh''],
     pl_inner_exe = ''/opt/i'', pl_env = [], pl_ensure_dirs = [],
     pl_ops = [Tmpfs ''/home/w'' ''0700'', Bind ''/home/w/p'' ''/home/w/p'' Rw False,
               Bind ''/opt/i'' ''/opt/i'' Ro False]\<rparr>"

theorem landlock_follows_mounts_witness:
  "mount_at (pl_ops demo_plan) [''home'', ''w'', ''p'', ''src''] = Some (Bind ''/home/w/p'' ''/home/w/p'' Rw False)
   \<and> list_ex (\<lambda>w. prefix (path_comps w) [''home'', ''w'', ''p'', ''src'']) (landlock_rules demo_plan)"
proof -
  have m: "mount_at (pl_ops demo_plan) [''home'', ''w'', ''p'', ''src'']
      = Some (Bind ''/home/w/p'' ''/home/w/p'' Rw False)"
    by (simp add: demo_plan_def mount_at_def covers_def path_comps_def)
  with landlock_follows_mounts [of demo_plan] show ?thesis by auto
qed

section \<open>What the session cannot reach\<close>

definition apart :: "string list \<Rightarrow> string list \<Rightarrow> bool" where
  "apart p q \<longleftrightarrow> \<not> prefix p q \<and> \<not> prefix q p"

text \<open>The keys, always; the login, unless the policy grants the agent's state.\<close>

definition secret_places :: "string list \<Rightarrow> capability_set \<Rightarrow> string list list" where
  "secret_places hs caps =
     (hs @ [''.ssh''])
     # (if Policy.agent_state caps then [] else [hs @ [''.willie'', ''agent-state'']])"

definition bind_apart :: "string list \<Rightarrow> op \<Rightarrow> bool" where
  "bind_apart q op =
     (case op of
        Bind src dest mode opt \<Rightarrow> apart (path_comps src) q \<and> apart (path_comps dest) q
      | _ \<Rightarrow> True)"

lemma path_comps_append: "path_comps (a @ slash # b) = path_comps a @ path_comps b"
  by (simp add: path_comps_def split_on_append_sep)

lemma path_comps_rel:
  "slash \<notin> set n \<Longrightarrow> n \<noteq> [] \<Longrightarrow> n \<noteq> ''.'' \<Longrightarrow> path_comps (a @ slash # n) = path_comps a @ [n]"
  unfolding path_comps_append by (simp add: path_comps_def split_on_no_sep)

lemma apart_append: "apart (hs @ p) (hs @ q) \<longleftrightarrow> apart p q"
  by (simp add: apart_def)

lemma apart_Cons: "apart (x # p) (y # q) \<longleftrightarrow> x \<noteq> y \<or> apart p q"
  by (auto simp: apart_def)

lemmas comps_home = path_comps_append path_comps_def [of "''.local''"] path_comps_def [of "''.dotnet''"]
  path_comps_def [of "''.npm''"] path_comps_def [of "''.nuget''"] path_comps_def [of "''.cache''"]
  path_comps_def [of "''.gitconfig''"]

lemma cache_src_comps:
  "\<exists>rest. path_comps (cache_src home pid c) = path_comps home @ ''.willie'' # ''caches'' # rest"
proof -
  have "cache_src home pid c = home @ slash # ''.willie'' @ slash # ''caches'' @ slash # (pid @ slash # cache_name c)"
    by (simp add: cache_src_def)
  then have "path_comps (cache_src home pid c) =
      path_comps home @ path_comps ''.willie'' @ path_comps ''caches'' @ path_comps (pid @ slash # cache_name c)"
    by (simp only: path_comps_append append_assoc)
  then show ?thesis by (simp add: path_comps_def [of "''.willie''"] path_comps_def [of "''caches''"])
qed

lemma secret_place_cases:
  assumes "q \<in> set (secret_places hs caps)"
  obtains "q = hs @ [''.ssh'']"
    | "q = hs @ [''.willie'', ''agent-state'']" "\<not> Policy.agent_state caps"
  using assms by (auto simp: secret_places_def split: if_splits)

lemma outside_guard_apart:
  assumes "outside_guard cs hs" "q \<in> set (secret_places hs caps)"
  shows "apart cs q"
proof -
  have g: "\<not> prefix cs place \<and> \<not> prefix place cs" if "(place, Subtree) \<in> set (guarded_places hs)" for place
    using assms(1) that by (auto simp: outside_guard_def list_all_iff)
  have ssh: "\<not> prefix cs (hs @ [''.ssh'']) \<and> \<not> prefix (hs @ [''.ssh'']) cs"
    by (rule g) (simp add: guarded_places_def)
  have willie: "\<not> prefix cs (hs @ [''.willie'']) \<and> \<not> prefix (hs @ [''.willie'']) cs"
    by (rule g) (simp add: guarded_places_def)
  from assms(2) show ?thesis
  proof (cases rule: secret_place_cases)
    case 1
    with ssh show ?thesis by (simp add: apart_def)
  next
    case 2
    have "\<not> prefix cs (hs @ [''.willie'', ''agent-state''])"
    proof
      assume "prefix cs (hs @ [''.willie'', ''agent-state''])"
      moreover have "prefix (hs @ [''.willie'']) (hs @ [''.willie'', ''agent-state''])" by simp
      ultimately show False using willie prefix_same_cases by blast
    qed
    moreover have "\<not> prefix (hs @ [''.willie'', ''agent-state'']) cs"
    proof
      assume "prefix (hs @ [''.willie'', ''agent-state'']) cs"
      then have "prefix (hs @ [''.willie'']) cs" by (auto simp: prefix_def)
      then show False using willie by simp
    qed
    ultimately show ?thesis using 2 by (simp add: apart_def)
  qed
qed

lemma make_plan_ops:
  "make_plan ulid_text spec h inner_exe = Inr pl \<Longrightarrow> bt_get (sp_env spec) ''HOME'' = Some home \<Longrightarrow>
   pl_ops pl = plan_ops ulid_text spec h inner_exe home"
  by (auto simp: make_plan_def split: if_splits)

lemma binary_ops_cases:
  "op \<in> set (binary_ops argv carried) \<Longrightarrow> \<exists>b \<in> set (take 1 argv). op = Bind b b Ro False"
  by (auto simp: binary_ops_def split: list.splits if_splits)

lemma claude_state_ops_apart:
  assumes "op \<in> set (state_ops st)" "claude_agent_state home = Some st"
    "q \<in> set (secret_places (path_comps home) caps)" "Policy.agent_state caps"
  shows "bind_apart q op"
proof -
  have "path_comps (as_dir st) = path_comps home @ [''.willie'', ''agent-state'', ''claude'']"
    using assms(2)
    by (auto simp: claude_agent_state_def under_home_def CLAUDE_STATE_def path_comps_append)
      (simp add: path_comps_def)
  with assms show ?thesis
    by (auto simp: state_ops_def bind_apart_def secret_places_def apart_append apart_Cons)
qed

lemma plan_ops_apart:
  assumes q: "q \<in> set (secret_places (path_comps home) (sp_capabilities spec))"
    and ex: "list_all (\<lambda>x. outside_guard (path_comps (xp_path x)) (path_comps home))
          (extra_paths (sp_capabilities spec))"
    and ws: "apart (path_comps (sp_workspace spec)) q" "apart (path_comps inner_exe) q"
    and bin: "list_all (\<lambda>b. apart (path_comps b) q) (take 1 (sp_argv spec))"
  shows "list_all (bind_apart q) (plan_ops ulid_text spec claude_code inner_exe home)"
proof -
  let ?hs = "path_comps home"
  have place: "apart (?hs @ n # rest) q"
    if "n \<notin> {''.ssh'', ''.willie''} \<or> n = ''.willie'' \<and> hd rest = ''caches'' \<and> rest \<noteq> []" for n rest
    using q
  proof (cases rule: secret_place_cases)
    case 1
    with that show ?thesis by (auto simp: apart_append apart_Cons)
  next
    case 2
    with that show ?thesis by (cases rest) (auto simp: apart_append apart_Cons)
  qed
  have dest: "apart (path_comps (home @ slash # n)) q"
    if "n \<in> {''.local'', ''.dotnet'', ''.npm'', ''.nuget'', ''.cache'', ''.gitconfig''}" for n
    using that place [of n "[]"] path_comps_rel [of n home] by auto
  have src: "apart (path_comps (cache_src home pid c)) q" for pid c
    using cache_src_comps [of home pid c] place by fastforce
  have state: "list_all (bind_apart q)
      (if Policy.agent_state (sp_capabilities spec)
       then (case h_agent_state claude_code home of Some st \<Rightarrow> state_ops st | None \<Rightarrow> []) else [])"
  proof (cases "Policy.agent_state (sp_capabilities spec)")
    case True
    then have "list_all (bind_apart q) (state_ops st)" if "claude_agent_state home = Some st" for st
      using claude_state_ops_apart [OF _ that q True] by (simp add: list_all_iff)
    with True show ?thesis by (simp add: claude_code_def split: option.split)
  qed simp
  have tools: "list_all (bind_apart q) (map (\<lambda>r. Bind r r Ro True) (if b then tool_roots home else []))" for b
    using dest by (simp add: tool_roots_def under_home_def bind_apart_def)
  have caches: "list_all (bind_apart q)
      (if b then map (\<lambda>c. Bind (cache_src home pid c) (cache_path c) Rw False) (cache_paths home)
       else [])" for pid b
    using dest src by (simp add: cache_paths_def under_home_def bind_apart_def)
  have extra: "list_all (bind_apart q)
      (map (\<lambda>x. Bind (xp_path x) (xp_path x) (xp_mode x) False) (extra_paths (sp_capabilities spec)))"
    using ex outside_guard_apart [OF _ q] by (auto simp: list_all_iff bind_apart_def)
  have binary: "list_all (bind_apart q) (binary_ops (sp_argv spec) carried)" for carried
    using bin by (auto simp: list_all_iff bind_apart_def dest!: binary_ops_cases)
  have fixed: "list_all (bind_apart q) [Tmpfs home ''0700'', Bind (sp_workspace spec) (sp_workspace spec) Rw False]"
    "list_all (bind_apart q) [Bind inner_exe inner_exe Ro False]"
    "list_all (bind_apart q)
      (if b then [Bind (home @ ''/.gitconfig'') (home @ ''/.gitconfig'') Ro False] else [])" for b
    using ws dest by (simp_all add: bind_apart_def)
  show ?thesis
    unfolding plan_ops_def Let_def list_all_append
    by (simp only: state tools caches extra binary fixed simp_thms)
qed


fun is_tmpfs :: "op \<Rightarrow> bool" where
  "is_tmpfs (Tmpfs d m) = True"
| "is_tmpfs _ = False"

lemma binary_ops_not_tmpfs: "filter is_tmpfs (binary_ops argv carried) = []"
  by (cases argv) (simp_all add: binary_ops_def)

lemma filter_map_not_tmpfs: "(\<And>x. \<not> is_tmpfs (f x)) \<Longrightarrow> filter is_tmpfs (map f xs) = []"
  by (induction xs) simp_all

lemma plan_ops_only_private:
  "filter is_tmpfs (plan_ops ulid_text spec claude_code inner_exe home) = [Tmpfs home ''0700'']"
proof -
  have st: "filter is_tmpfs (case h_agent_state claude_code home of
      Some st \<Rightarrow> state_ops st | None \<Rightarrow> []) = []"
    by (simp add: claude_code_def claude_agent_state_def state_ops_def)
  have parts: "filter is_tmpfs (if c then [Bind s d m b] else []) = []"
    "filter is_tmpfs (if c then map (\<lambda>x. Bind (f x) (cache_path x) m b) xs else []) = []"
    "filter is_tmpfs (if c then (case h_agent_state claude_code home of
      Some st \<Rightarrow> state_ops st | None \<Rightarrow> []) else []) = []" for c s d m b f xs
    using st filter_map_not_tmpfs [of "\<lambda>x. Bind (f x) (cache_path x) m b" xs] by (cases c; simp)+
  show ?thesis
    unfolding plan_ops_def Let_def filter_append
    by (simp only: binary_ops_not_tmpfs filter_map_not_tmpfs parts filter.simps is_tmpfs.simps
        if_True if_False append_Nil append_Nil2 not_False_eq_True)
qed

lemma mount_at_private:
  assumes ops: "pl_ops pl = plan_ops ulid_text spec claude_code inner_exe home"
    and ap: "list_all (bind_apart q) (pl_ops pl)"
    and q: "prefix (path_comps home) q" "prefix q p"
  shows "mount_at (pl_ops pl) p = Some (Tmpfs home ''0700'')"
proof -
  have only: "op = Tmpfs home ''0700''" if "op \<in> set (pl_ops pl)" "covers p op" for op
  proof -
    show ?thesis
    proof (cases op)
      case (Tmpfs d m)
      with that(1) have "op \<in> set (filter is_tmpfs (pl_ops pl))" by simp
      then show ?thesis unfolding ops plan_ops_only_private by simp
    next
      case (Bind s d m b)
      with ap that(1) have "apart (path_comps d) q" by (fastforce simp: list_all_iff bind_apart_def)
      moreover have "prefix (path_comps d) p" using Bind that(2) by (simp add: covers_def)
      ultimately show ?thesis using q(2) prefix_same_cases unfolding apart_def by blast
    next
      case (Symlink t l)
      with that(2) show ?thesis by (simp add: covers_def)
    qed
  qed
  have "Tmpfs home ''0700'' \<in> set (pl_ops pl)"
    unfolding ops plan_ops_def Let_def append_Cons list.set(2) by (rule insertI1)
  moreover have "covers p (Tmpfs home ''0700'')"
    using prefix_order.trans [OF q] by (simp add: covers_def)
  ultimately have "find (covers p) (rev (pl_ops pl)) \<noteq> None"
    unfolding find_None_iff set_rev by blast
  then obtain op where "find (covers p) (rev (pl_ops pl)) = Some op" by blast
  with only show ?thesis
    using find_Some_P [of "covers p" "rev (pl_ops pl)" op] by (auto simp: mount_at_def)
qed

text \<open>(C15) A session whose policy was resolved from any defaults and profile never reaches the user's
  keys, nor the agent's login unless the policy grants the agent's state: no bind of its plan takes
  anything from there or puts anything there, and every path below is on the private empty home. What
  the policy does not choose (the workspace, the harness binary, the supervisor) is taken to lie
  elsewhere.\<close>
theorem secrets_stay_private:
  assumes "resolve defaults profile home = Inr (sp_capabilities spec)"
    and "path_comps home \<noteq> []" "bt_get (sp_env spec) ''HOME'' = Some home"
    and "make_plan ulid_text spec claude_code inner_exe = Inr pl"
    and "q \<in> set (secret_places (path_comps home) (sp_capabilities spec))"
    and "apart (path_comps (sp_workspace spec)) q" "apart (path_comps inner_exe) q"
    and "list_all (\<lambda>b. apart (path_comps b) q) (take 1 (sp_argv spec))"
    and "prefix q p"
  shows "list_all (bind_apart q) (pl_ops pl) \<and> mount_at (pl_ops pl) p = Some (Tmpfs home ''0700'')"
proof -
  have ops: "pl_ops pl = plan_ops ulid_text spec claude_code inner_exe home"
    using make_plan_ops assms(3,4) by blast
  have "list_all (\<lambda>x. outside_guard (path_comps (xp_path x)) (path_comps home))
      (extra_paths (sp_capabilities spec))"
    using resolved_extra_paths [OF assms(2,1)] by (simp add: list_all_iff)
  then have ap: "list_all (bind_apart q) (pl_ops pl)"
    unfolding ops using plan_ops_apart assms(5-8) by blast
  have "prefix (path_comps home) q"
    using assms(5) by (auto simp: secret_places_def split: if_splits)
  with ap ops assms(9) show ?thesis using mount_at_private by blast
qed

definition private_spec :: session_spec where
  "private_spec = demo_spec\<lparr>sp_workspace := ''/home/w/projects/x'',
     sp_argv := [''/home/w/.local/bin/claude''], sp_env := [(''HOME'', ''/home/w'')],
     sp_capabilities := claude_default_capabilities\<lparr>Policy.agent_state := False,
        extra_paths := [\<lparr>xp_path = ''/srv/data'', xp_mode = Rw\<rparr>]\<rparr>\<rparr>"

theorem secrets_stay_private_witness:
  "\<exists>pl. make_plan (\<lambda>_. ''01J'') private_spec claude_code ''/opt/willie/bin/willie-sess'' = Inr pl
     \<and> list_all (bind_apart [''home'', ''w'', ''.willie'', ''agent-state'']) (pl_ops pl)
     \<and> mount_at (pl_ops pl) [''home'', ''w'', ''.willie'', ''agent-state'', ''claude'']
         = Some (Tmpfs ''/home/w'' ''0700'')"
proof -
  define profile where "profile = sandbox_profile_default\<lparr>pr_agent_state := Some False,
      pr_extra_paths := [\<lparr>xp_path = ''/srv/data'', xp_mode = Rw\<rparr>]\<rparr>"
  have h: "path_comps ''/home/w'' = [''home'', ''w'']"
    and c: "path_comps ''/home/w/projects/x'' = [''home'', ''w'', ''projects'', ''x'']"
      "path_comps ''/home/w/.local/bin/claude'' = [''home'', ''w'', ''.local'', ''bin'', ''claude'']"
      "path_comps ''/opt/willie/bin/willie-sess'' = [''opt'', ''willie'', ''bin'', ''willie-sess'']"
      "path_comps ''/srv/data'' = [''srv'', ''data'']"
    by (simp_all add: path_comps_def)
  have ok: "outside_guard [''srv'', ''data''] [''home'', ''w'']" by code_simp
  have "check_extra_paths [\<lparr>xp_path = ''/srv/data'', xp_mode = Rw\<rparr>] ''/home/w'' = None"
    using check_extra_paths_None [of "''/home/w''" "[\<lparr>xp_path = ''/srv/data'', xp_mode = Rw\<rparr>]"] ok
    by (simp add: h c starts_with_def del: check_extra_paths.simps)
  then have r: "resolve claude_default_capabilities profile ''/home/w'' = Inr (sp_capabilities private_spec)"
    by (simp add: resolve_def private_spec_def profile_def sandbox_profile_default_def
        claude_default_capabilities_def unwrap_or_def)
  have e: "bt_get (sp_env private_spec) ''HOME'' = Some ''/home/w''"
    by (simp add: private_spec_def bt_get_def)
  then obtain pl where
    pl: "make_plan (\<lambda>_. ''01J'') private_spec claude_code ''/opt/willie/bin/willie-sess'' = Inr pl"
    by (simp add: make_plan_def)
  have q: "[''home'', ''w'', ''.willie'', ''agent-state'']
      \<in> set (secret_places (path_comps ''/home/w'') (sp_capabilities private_spec))"
    by (simp add: h secret_places_def private_spec_def)
  have a: "apart (path_comps (sp_workspace private_spec)) [''home'', ''w'', ''.willie'', ''agent-state'']"
    "apart (path_comps ''/opt/willie/bin/willie-sess'') [''home'', ''w'', ''.willie'', ''agent-state'']"
    "list_all (\<lambda>b. apart (path_comps b) [''home'', ''w'', ''.willie'', ''agent-state''])
       (take 1 (sp_argv private_spec))"
    by (simp_all add: c private_spec_def apart_def)
  have "path_comps ''/home/w'' \<noteq> []" by (simp add: h)
  from secrets_stay_private [OF r this e pl q a, of "[''home'', ''w'', ''.willie'', ''agent-state'', ''claude'']"]
  show ?thesis using pl by auto
qed

end
