(* ===== verification/Sess_Sandbox.thy ===== *)
theory Sess_Sandbox
  imports Sandbox_Plan
begin

text \<open>
  Applying the boundary, on both sides of the namespace
  (\<^verbatim>\<open>crates/willie-sess/src/sandbox/{mod,inner,landlock}.rs\<close>): the checks made before the helper is
  spawned, the stage that runs inside the namespace, the report it sends, and how the processes
  behind the helper are told apart. The file system, the kernel and the socket are inputs: records of
  what they answer.

  Shown: what is mounted for an extra path is the resolved path the guard saw; a report is believed
  only whole, with at most one descriptor; a stage that reports is inside a namespace, limited and
  filtered, and what Landlock then allows; the exit and the processes are read back as they were.
\<close>

section \<open>Before the helper\<close>

definition EXEC_STEP :: string where "EXEC_STEP = ''cannot execute the harness''"
definition WORKSPACE_STEP :: string where "WORKSPACE_STEP = ''cannot enter the workspace''"

text \<open>What the machine answers: plain tests on paths, the resolution of links, and the creation of
  directories. \<open>fs_exists\<close> is asked after the caches were made. Errors are their text.\<close>

record fs_view =
  fs_is_file :: "string \<Rightarrow> bool"
  fs_is_executable_file :: "string \<Rightarrow> bool"
  fs_is_dir :: "string \<Rightarrow> bool"
  fs_canonicalize :: "string \<Rightarrow> string + string"
  fs_create_dir_all :: "string \<Rightarrow> string option"
  fs_exists :: "string \<Rightarrow> bool"

datatype prepare_error =
    PHarnessUnknown string
  | PPlan plan_error
  | PBackendMissing string
  | PCacheDir string string
  | PHarness string string string
  | PExtraPath string string
  | PBindSource string

fun prepare_error_code :: "prepare_error \<Rightarrow> string" where
  "prepare_error_code (PHarnessUnknown i) = ''spec_invalid''"
| "prepare_error_code (PPlan e) = ''spec_invalid''"
| "prepare_error_code (PBackendMissing p) = ''sandbox_backend_missing''"
| "prepare_error_code (PCacheDir p e) = ''sandbox_apply_failed''"
| "prepare_error_code (PBindSource p) = ''sandbox_apply_failed''"
| "prepare_error_code (PHarness st e p) = ''harness_exec_failed''"
| "prepare_error_code (PExtraPath p d) = ''sandbox_profile_invalid''"

fun plan_error_text :: "plan_error \<Rightarrow> string" where
  "plan_error_text HomeMissing = ''spec.env names no HOME to make private''"

fun prepare_error_text :: "prepare_error \<Rightarrow> string" where
  "prepare_error_text (PHarnessUnknown i) = ''unknown harness `'' @ i @ ''`''"
| "prepare_error_text (PPlan e) = plan_error_text e"
| "prepare_error_text (PBackendMissing p) = ''the namespace helper is missing: '' @ p"
| "prepare_error_text (PCacheDir p e) = ''cannot create the cache directory '' @ p @ '': '' @ e"
| "prepare_error_text (PHarness st e p) = st @ '': '' @ e @ '' ('' @ p @ '')''"
| "prepare_error_text (PExtraPath p d) = ''`'' @ p @ ''`: '' @ d"
| "prepare_error_text (PBindSource p) = ''the sandbox needs '' @ p @ '', which is not there''"

text \<open>The last operation that binds at a destination takes another source.\<close>

fun rebind_first :: "op list \<Rightarrow> string \<Rightarrow> string \<Rightarrow> op list" where
  "rebind_first [] dest r = []"
| "rebind_first (Bind s d m b # ops) dest r =
     (if d = dest then Bind r d m b # ops else Bind s d m b # rebind_first ops dest r)"
| "rebind_first (op # ops) dest r = op # rebind_first ops dest r"

definition rebind_source :: "op list \<Rightarrow> string \<Rightarrow> string \<Rightarrow> op list" where
  "rebind_source ops dest r = rev (rebind_first (rev ops) dest r)"

fun resolve_extras ::
  "fs_view \<Rightarrow> string \<Rightarrow> extra_path list \<Rightarrow> op list \<Rightarrow> prepare_error + op list" where
  "resolve_extras fs home [] ops = Inr ops"
| "resolve_extras fs home (x # xs) ops =
     (case fs_canonicalize fs (xp_path x) of
        Inl e \<Rightarrow> Inl (PExtraPath (xp_path x) (''cannot be resolved: '' @ e))
      | Inr r \<Rightarrow>
          (case if r \<noteq> xp_path x then guard_extra_path r home else None of
             Some reason \<Rightarrow>
               Inl (PExtraPath (xp_path x)
                 (''resolves to `'' @ r @ ''`, which cannot be an extra path: '' @ reason))
           | None \<Rightarrow> resolve_extras fs home xs (rebind_source ops (xp_path x) r)))"

fun make_dirs :: "fs_view \<Rightarrow> string list \<Rightarrow> prepare_error option" where
  "make_dirs fs [] = None"
| "make_dirs fs (d # ds) =
     (case fs_create_dir_all fs d of
        Some e \<Rightarrow> Some (PCacheDir d e)
      | None \<Rightarrow> make_dirs fs ds)"

fun missing_source :: "fs_view \<Rightarrow> op list \<Rightarrow> prepare_error option" where
  "missing_source fs [] = None"
| "missing_source fs (Bind src dest m False # ops) =
     (if \<not> fs_exists fs src then Some (PBindSource src) else missing_source fs ops)"
| "missing_source fs (op # ops) = missing_source fs ops"

definition pick_harness :: "session_spec \<Rightarrow> prepare_error + harness" where
  "pick_harness spec =
     (case sp_kind spec of
        Shell \<Rightarrow>
          if sp_harness spec \<noteq> SHELL_HARNESS then Inl (PHarnessUnknown (sp_harness spec))
          else Inr claude_code
      | Agent \<Rightarrow>
          (case find (\<lambda>h. h_id h = sp_harness spec) registry of
             None \<Rightarrow> Inl (PHarnessUnknown (sp_harness spec))
           | Some h \<Rightarrow> Inr h))"

record prepared =
  pp_plan :: plan
  pp_request :: inner_request

definition NOT_FOUND :: string where "NOT_FOUND = ''entity not found''"

text \<open>The checks between the plan and the extra paths.\<close>

definition plan_refusal :: "fs_view \<Rightarrow> string \<Rightarrow> plan \<Rightarrow> prepare_error option" where
  "plan_refusal fs helper pl =
     (let binary = (case pl_argv pl of [] \<Rightarrow> [] | b # _ \<Rightarrow> b) in
      if \<not> fs_is_file fs helper then Some (PBackendMissing helper)
      else if \<not> fs_is_executable_file fs binary then Some (PHarness EXEC_STEP NOT_FOUND binary)
      else if \<not> fs_is_dir fs (pl_workspace pl) then
        Some (PHarness WORKSPACE_STEP NOT_FOUND (pl_workspace pl))
      else None)"

definition prepare ::
  "(project_id \<Rightarrow> string) \<Rightarrow> fs_view \<Rightarrow> session_spec \<Rightarrow> string \<Rightarrow> string \<Rightarrow> prepare_error + prepared" where
  "prepare ulid_text fs spec helper inner_exe =
     (case pick_harness spec of
        Inl e \<Rightarrow> Inl e
      | Inr h \<Rightarrow>
     (case make_plan ulid_text spec h inner_exe of
        Inl e \<Rightarrow> Inl (PPlan e)
      | Inr pl \<Rightarrow>
     (case plan_refusal fs helper pl of
        Some e \<Rightarrow> Inl e
      | None \<Rightarrow>
     (case resolve_extras fs (pl_home pl) (extra_paths (sp_capabilities spec)) (pl_ops pl) of
        Inl e \<Rightarrow> Inl e
      | Inr ops \<Rightarrow>
     (case make_dirs fs (pl_ensure_dirs pl) of
        Some e \<Rightarrow> Inl e
      | None \<Rightarrow>
     (case missing_source fs ops of
        Some e \<Rightarrow> Inl e
      | None \<Rightarrow>
          (let pl' = pl\<lparr>pl_ops := ops\<rparr>
           in Inr \<lparr>pp_plan = pl',
                   pp_request = \<lparr>rq_argv = pl_argv pl', rq_rlimits = RLIMITS_DEFAULT,
                                 rq_landlock = landlock_rules pl'\<rparr>\<rparr>)))))))"

definition helper_argv :: "prepared \<Rightarrow> string \<Rightarrow> int \<Rightarrow> string list" where
  "helper_argv p helper inner_fd =
     (case bwrap_argv (pp_plan p) inner_fd of
        [] \<Rightarrow> []
      | _ # rest \<Rightarrow> helper # rest)"

section \<open>Numbers and lines as the standard library reads them\<close>

definition parse_digits :: "string \<Rightarrow> nat option" where
  "parse_digits s =
     (if s \<noteq> [] \<and> list_all is_ascii_digit s
      then Some (foldl (\<lambda>n c. 10 * n + (of_char c - 48)) 0 s) else None)"

definition parse_i32 :: "string \<Rightarrow> int option" where
  "parse_i32 s =
     (case s of
        [] \<Rightarrow> None
      | c # r \<Rightarrow>
          if c = CHR ''-'' then
            Option.bind (parse_digits r) (\<lambda>n. if n \<le> 2 ^ 31 then Some (- int n) else None)
          else
            Option.bind (parse_digits (if c = CHR ''+'' then r else s))
              (\<lambda>n. if n < 2 ^ 31 then Some (int n) else None))"

definition parse_u64 :: "string \<Rightarrow> nat option" where
  "parse_u64 s =
     Option.bind (parse_digits (case s of c # r \<Rightarrow> if c = CHR ''+'' then r else s | [] \<Rightarrow> []))
       (\<lambda>n. if n < 2 ^ 64 then Some n else None)"

definition newline :: char where "newline = CHR 0x0A"

definition rust_lines :: "string \<Rightarrow> string list" where
  "rust_lines s =
     (let ps = split_on newline s;
          strip_cr = (\<lambda>l. if l \<noteq> [] \<and> last l = CHR 0x0D then butlast l else l)
      in map strip_cr (butlast ps) @ (if last ps = [] then [] else [last ps]))"

section \<open>The stage inside the namespace\<close>

text \<open>\<open>rest.trim() == "1"\<close> is read as: the only token of the rest is \<open>1\<close>.\<close>

definition not_in_namespace :: "string \<Rightarrow> string \<Rightarrow> string option" where
  "not_in_namespace uid_map status =
     (let fields = split_ws [] uid_map;
          mapped = (if 2 < length fields then
                      (case parse_u64 (fields ! 2) of
                         None \<Rightarrow> False
                       | Some len \<Rightarrow> 1 \<le> len \<and> len < 4294967295)
                    else False);
          found = List.map_filter (strip_prefix ''NoNewPrivs:'') (rust_lines status);
          no_new_privs = (case found of [] \<Rightarrow> False | rest # _ \<Rightarrow> split_ws [] rest = [''1''])
      in if mapped \<and> no_new_privs then None
         else Some ''not inside the sandbox namespace: the helper did not build it'')"

definition clamp_limit :: "u64 \<Rightarrow> u64 \<Rightarrow> u64" where
  "clamp_limit requested hard = (if hard = - 1 then requested else min requested hard)"

text \<open>\<open>set_one\<close> on the hard limit in force: the new soft and hard limit, both.\<close>

definition set_one :: "u64 \<Rightarrow> u64 \<Rightarrow> u64 \<times> u64" where
  "set_one requested hard = (let v = clamp_limit requested hard in (v, v))"

text \<open>What the kernel answers for a resource: the hard limit in force, and an error when it refuses the
  new one. The outcome names each limit set.\<close>

record limit_kernel =
  lk_get :: "string \<Rightarrow> string + u64"
  lk_set :: "string \<Rightarrow> string option"

fun set_limits ::
  "limit_kernel \<Rightarrow> (string \<times> u64) list \<Rightarrow> string + (string \<times> u64 \<times> u64) list" where
  "set_limits k [] = Inr []"
| "set_limits k ((name, requested) # rs) =
     (case lk_get k name of
        Inl e \<Rightarrow> Inl (name @ '': '' @ e)
      | Inr hard \<Rightarrow>
          (case lk_set k name of
             Some e \<Rightarrow> Inl (name @ '': '' @ e)
           | None \<Rightarrow> map_sum id (Cons (name, set_one requested hard)) (set_limits k rs)))"

definition apply_rlimits :: "limit_kernel \<Rightarrow> rlimits \<Rightarrow> string + (string \<times> u64 \<times> u64) list" where
  "apply_rlimits k r =
     set_limits k [(''NPROC'', rl_nproc r), (''NOFILE'', rl_nofile r), (''CORE'', rl_core r)]"

subsection \<open>Landlock\<close>

definition FILE_RIGHTS :: u64 where
  "FILE_RIGHTS = ACCESS_FS_EXECUTE OR ACCESS_FS_WRITE_FILE OR ACCESS_FS_READ_FILE
     OR ACCESS_FS_TRUNCATE"

definition rule_rights :: "u64 \<Rightarrow> u64 \<Rightarrow> bool \<Rightarrow> u64" where
  "rule_rights granted handled is_dir =
     (let rights = granted AND handled in if is_dir then rights else rights AND FILE_RIGHTS)"

text \<open>What the kernel answers to the Landlock calls: the ABI, then an errno where a call fails.
  Opening a path answers whether it is a directory.\<close>

record landlock_kernel =
  ll_abi :: int
  ll_create :: "int option"
  ll_open :: "string \<Rightarrow> int + bool"
  ll_add :: "string \<Rightarrow> int option"
  ll_restrict :: "int option"

datatype landlock_error =
    LPathWontOpen string int
  | LRuleset int
  | LAddRule string int
  | LRestrictSelf int

fun add_rules ::
  "landlock_kernel \<Rightarrow> u64 \<Rightarrow> (string \<times> u64) list \<Rightarrow> landlock_error + (string \<times> u64) list" where
  "add_rules k handled [] = Inr []"
| "add_rules k handled ((path, granted) # rs) =
     (case ll_open k path of
        Inl e \<Rightarrow> Inl (LPathWontOpen path e)
      | Inr is_dir \<Rightarrow>
          (case ll_add k path of
             Some e \<Rightarrow> Inl (LAddRule path e)
           | None \<Rightarrow>
               map_sum id (Cons (path, rule_rights granted handled is_dir)) (add_rules k handled rs)))"

text \<open>The outcome: unavailable, or the handled rights and the rules in force.\<close>

definition landlock_install ::
  "landlock_kernel \<Rightarrow> string list \<Rightarrow> landlock_error + (u64 \<times> (string \<times> u64) list) option" where
  "landlock_install k write =
     (case applicability (ll_abi k) of
        Unavailable \<Rightarrow> Inr None
      | Ruleset handled \<Rightarrow>
          (case ll_create k of
             Some e \<Rightarrow> Inl (LRuleset e)
           | None \<Rightarrow>
               (case add_rules k handled ((''/'', READ_EXEC) # map (\<lambda>p. (p, handled)) write) of
                  Inl e \<Rightarrow> Inl e
                | Inr rs \<Rightarrow>
                    (case ll_restrict k of
                       Some e \<Rightarrow> Inl (LRestrictSelf e)
                     | None \<Rightarrow> Inr (Some (handled, rs))))))"

subsection \<open>The stage\<close>

text \<open>What the stage meets: the request it reads, the two files of \<open>/proc\<close>, the kernel's limits,
  Landlock, the filter (an errno when it cannot be installed), and whether its report could
  be written. Error texts come with the answers.\<close>

record stage_env =
  se_request :: "string + inner_request"
  se_uid_map :: string
  se_status :: string
  se_limits :: limit_kernel
  se_landlock :: landlock_kernel
  se_landlock_text :: "landlock_error \<Rightarrow> string"
  se_install :: "(nat option \<times> string) option"
  se_report_ok :: bool

datatype stage_end =
    StageRefused string string
  | StageReportLost
  | StageExec "string list" "string list" "string list"

definition run_inner :: "stage_env \<Rightarrow> stage_end" where
  "run_inner se =
     (case se_request se of
        Inl msg \<Rightarrow> StageRefused ''sandbox_apply_failed'' msg
      | Inr request \<Rightarrow>
     (case not_in_namespace (se_uid_map se) (se_status se) of
        Some reason \<Rightarrow> StageRefused ''sandbox_apply_failed'' reason
      | None \<Rightarrow>
     (case apply_rlimits (se_limits se) (rq_rlimits request) of
        Inl msg \<Rightarrow> StageRefused ''sandbox_apply_failed'' (''cannot set '' @ msg)
      | Inr limits \<Rightarrow>
     (case landlock_install (se_landlock se) (rq_landlock request) of
        Inl e \<Rightarrow> StageRefused ''sandbox_apply_failed'' (se_landlock_text se e)
      | Inr outcome \<Rightarrow>
     (case se_install se of
        Some (errno, text) \<Rightarrow>
          (if errno = Some 22 \<or> errno = Some 38
           then StageRefused ''sandbox_backend_missing''
                  (''this kernel has no seccomp user notification: '' @ text)
           else StageRefused ''sandbox_apply_failed''
                  (''cannot install the syscall filter: '' @ text))
      | None \<Rightarrow>
          (let mechanisms = [''namespaces'', ''mounts'', ''rlimits'']
                 @ (if outcome \<noteq> None then [''landlock''] else []) @ [''seccomp''];
               unavail = (if outcome = None then [''landlock''] else [])
           in if \<not> se_report_ok se then StageReportLost
              else StageExec mechanisms unavail (rq_argv request)))))))"

section \<open>The report\<close>

text \<open>What the first read of the report socket answered: an error that is a timeout, any other error,
  or some bytes with the number of descriptors that came along and whether there were more.\<close>

datatype read_error = ReadTimeout | ReadBroken

record first_read =
  fr_bytes :: bytes
  fr_fds :: nat
  fr_truncated :: bool

datatype report_outcome =
    ReportApplied "string list" "string list" bool
  | ReportRefused string string
  | HelperGone
  | TimedOut

text \<open>The bytes up to the newline: the reads after the first answer one byte, an error, or the end,
  which is also what a list that runs out means.\<close>

fun read_rest :: "bytes \<Rightarrow> (read_error + bytes) list \<Rightarrow> report_outcome + bytes" where
  "read_rest line [] = Inl HelperGone"
| "read_rest line (Inl ReadTimeout # rs) = Inl TimedOut"
| "read_rest line (Inl ReadBroken # rs) = Inl HelperGone"
| "read_rest line (Inr [] # rs) = Inl HelperGone"
| "read_rest line (Inr (b # bs) # rs) = (if b = 10 then Inr line else read_rest (line @ [b]) rs)"

definition read_report ::
  "(bytes \<Rightarrow> string + inner_report) \<Rightarrow> read_error + first_read \<Rightarrow> (read_error + bytes) list
    \<Rightarrow> report_outcome" where
  "read_report parse first rs =
     (case first of
        Inl ReadTimeout \<Rightarrow> TimedOut
      | Inl ReadBroken \<Rightarrow> HelperGone
      | Inr fr \<Rightarrow>
          if fr_bytes fr = [] then HelperGone
          else if fr_truncated fr then
            ReportRefused ''sandbox_apply_failed'' ''the sandbox report carried a truncated control message''
          else if 1 < fr_fds fr then
            ReportRefused ''sandbox_apply_failed''
              (''the sandbox report carried '' @ nat_text (fr_fds fr)
                @ '' descriptors, where at most one belongs'')
          else
            (case (if 10 \<in> set (fr_bytes fr) then Inr (takeWhile (\<lambda>b. b \<noteq> 10) (fr_bytes fr))
                   else read_rest (fr_bytes fr) rs) of
               Inl outcome \<Rightarrow> outcome
             | Inr line \<Rightarrow>
                 (case parse line of
                    Inr (Applied mechanisms unavail) \<Rightarrow>
                      ReportApplied mechanisms unavail (fr_fds fr = 1)
                  | Inr (Refused code message) \<Rightarrow> ReportRefused code message
                  | Inl e \<Rightarrow>
                      ReportRefused ''sandbox_apply_failed'' (''unreadable sandbox report: '' @ e))))"

section \<open>The processes behind the helper\<close>

definition helper_exit :: "int option \<Rightarrow> int option \<Rightarrow> int option \<times> int option" where
  "helper_exit code sig =
     (case (code, sig) of
        (Some c, None) \<Rightarrow> if 129 \<le> c \<and> c \<le> 192 then (None, Some (c - 128)) else (code, sig)
      | _ \<Rightarrow> (code, sig))"

fun all_some :: "'a option list \<Rightarrow> 'a list option" where
  "all_some [] = Some []"
| "all_some (None # xs) = None"
| "all_some (Some x # xs) = map_option (Cons x) (all_some xs)"

definition parse_child_pids :: "string \<Rightarrow> int list option" where
  "parse_child_pids text = all_some (map parse_i32 (split_ws [] text))"

definition parse_children :: "string \<Rightarrow> int option" where
  "parse_children text =
     (case parse_child_pids text of Some [only] \<Rightarrow> Some only | _ \<Rightarrow> None)"

definition children_include :: "string \<Rightarrow> int \<Rightarrow> bool" where
  "children_include text harness =
     (case parse_child_pids text of None \<Rightarrow> False | Some ids \<Rightarrow> harness \<in> set ids)"

text \<open>\<open>proc pid\<close> is the text of \<open>/proc/<pid>/task/<pid>/children\<close>, when it can be read.\<close>

definition only_child :: "(int \<Rightarrow> string option) \<Rightarrow> int \<Rightarrow> int option" where
  "only_child proc pid = Option.bind (proc pid) parse_children"

definition harness_pid :: "(int \<Rightarrow> string option) \<Rightarrow> int \<Rightarrow> int option" where
  "harness_pid proc monitor = Option.bind (only_child proc monitor) (only_child proc)"

definition harness_still_behind :: "(int \<Rightarrow> string option) \<Rightarrow> int \<Rightarrow> int \<Rightarrow> bool" where
  "harness_still_behind proc monitor harness =
     (case only_child proc monitor of
        None \<Rightarrow> False
      | Some reaper \<Rightarrow>
          (case proc reaper of None \<Rightarrow> False | Some text \<Rightarrow> children_include text harness))"

text \<open>\<open>apply_failure\<close>, on what \<open>helper_words\<close> made of the terminal's output.\<close>

definition apply_failure :: "string option \<Rightarrow> int option \<Rightarrow> int option \<Rightarrow> string" where
  "apply_failure words code sig =
     (case (words, code, sig) of
        (Some w, _, _) \<Rightarrow> ''the namespace helper refused: '' @ w
      | (None, Some c, _) \<Rightarrow>
          ''the namespace helper exited with '' @ int_text c
            @ '' before the harness started, and said nothing''
      | (None, None, Some s) \<Rightarrow>
          ''the namespace helper was killed by signal '' @ int_text s
            @ '' before the harness started''
      | (None, None, None) \<Rightarrow>
          ''the namespace helper ended before the harness started, and said nothing'')"


section \<open>What is mounted for an extra path\<close>

fun binds_at :: "string \<Rightarrow> op \<Rightarrow> bool" where
  "binds_at dest (Bind s d m b) = (d = dest)"
| "binds_at dest _ = False"

text \<open>The bind a destination ends up with: the last one made there.\<close>

definition bind_at :: "op list \<Rightarrow> string \<Rightarrow> op option" where
  "bind_at ops dest = find (binds_at dest) (rev ops)"

fun bind_source :: "op \<Rightarrow> string" where
  "bind_source (Bind s d m b) = s"
| "bind_source _ = []"

lemma find_rebind_first:
  "find (binds_at d) (rebind_first ops dest r) =
     (if d = dest then map_option (\<lambda>op. case op of Bind s d' m b \<Rightarrow> Bind r d' m b | _ \<Rightarrow> op)
        (find (binds_at d) ops)
      else find (binds_at d) ops)"
  by (induction ops dest r rule: rebind_first.induct) auto

lemma bind_at_rebind:
  "bind_at (rebind_source ops dest r) d =
     (if d = dest then map_option (\<lambda>op. case op of Bind s d' m b \<Rightarrow> Bind r d' m b | _ \<Rightarrow> op)
        (bind_at ops d)
      else bind_at ops d)"
  by (simp add: bind_at_def rebind_source_def find_rebind_first)

lemma bind_at_binds: "bind_at ops d = Some op \<Longrightarrow> \<exists>s m b. op = Bind s d m b"
  unfolding bind_at_def by (drule find_Some_P) (cases op; simp)

lemma resolve_extras_Cons:
  "resolve_extras fs home (x # xs) ops = Inr ops' \<Longrightarrow>
   \<exists>r. fs_canonicalize fs (xp_path x) = Inr r \<and> (r = xp_path x \<or> guard_extra_path r home = None)
     \<and> resolve_extras fs home xs (rebind_source ops (xp_path x) r) = Inr ops'"
  by (simp split: sum.splits option.splits if_splits)

lemma resolve_extras_kept:
  "resolve_extras fs home xs ops = Inr ops' \<Longrightarrow> fs_canonicalize fs d = Inr r \<Longrightarrow>
   bind_at ops d = Some (Bind r d m b) \<Longrightarrow> bind_at ops' d = Some (Bind r d m b)"
proof (induction xs arbitrary: ops)
  case (Cons x xs)
  from resolve_extras_Cons [OF Cons.prems(1)]
  obtain r' where r': "fs_canonicalize fs (xp_path x) = Inr r'"
    "resolve_extras fs home xs (rebind_source ops (xp_path x) r') = Inr ops'"
    by blast
  with Cons.prems(2,3) have "bind_at (rebind_source ops (xp_path x) r') d = Some (Bind r d m b)"
    by (cases "d = xp_path x") (simp_all add: bind_at_rebind)
  with Cons.IH [OF r'(2)] Cons.prems(2) show ?case by blast
qed simp

lemma resolve_extras_source:
  "resolve_extras fs home xs ops = Inr ops' \<Longrightarrow> x \<in> set xs \<Longrightarrow>
   bind_at ops (xp_path x) = Some (Bind s (xp_path x) m b) \<Longrightarrow>
   \<exists>r. fs_canonicalize fs (xp_path x) = Inr r
     \<and> (r = xp_path x \<or> guard_extra_path r home = None)
     \<and> bind_at ops' (xp_path x) = Some (Bind r (xp_path x) m b)"
proof (induction xs arbitrary: ops s)
  case (Cons y ys)
  from resolve_extras_Cons [OF Cons.prems(1)] obtain r where r: "fs_canonicalize fs (xp_path y) = Inr r"
    "r = xp_path y \<or> guard_extra_path r home = None"
    "resolve_extras fs home ys (rebind_source ops (xp_path y) r) = Inr ops'"
    by blast
  show ?case
  proof (cases "xp_path x = xp_path y")
    case True
    then have "bind_at (rebind_source ops (xp_path y) r) (xp_path x) = Some (Bind r (xp_path x) m b)"
      using Cons.prems(3) by (simp add: bind_at_rebind)
    with resolve_extras_kept [OF r(3)] r(1,2) True show ?thesis by auto
  next
    case False
    then have "bind_at (rebind_source ops (xp_path y) r) (xp_path x) = Some (Bind s (xp_path x) m b)"
      using Cons.prems(3) by (simp add: bind_at_rebind)
    moreover have "x \<in> set ys" using Cons.prems(2) False by auto
    ultimately show ?thesis using Cons.IH [OF r(3)] by blast
  qed
qed simp

lemma bind_at_append:
  "bind_at (xs @ ys) d = (case bind_at ys d of Some op \<Rightarrow> Some op | None \<Rightarrow> bind_at xs d)"
proof -
  have "find P (as @ bs) = (case find P as of Some x \<Rightarrow> Some x | None \<Rightarrow> find P bs)" for P and as bs :: "op list"
    by (induction as) auto
  then show ?thesis unfolding bind_at_def rev_append by simp
qed

lemma bind_at_exists: "op \<in> set ops \<Longrightarrow> binds_at d op \<Longrightarrow> \<exists>s m b. bind_at ops d = Some (Bind s d m b)"
proof -
  assume "op \<in> set ops" "binds_at d op"
  then have "bind_at ops d \<noteq> None"
    unfolding bind_at_def find_None_iff set_rev by blast
  then show ?thesis using bind_at_binds by blast
qed

lemma plan_extra_bind:
  assumes "x \<in> set (extra_paths (sp_capabilities spec))"
  shows "\<exists>op \<in> set (plan_ops ulid_text spec h inner_exe home). binds_at (xp_path x) op"
proof -
  have "Bind (xp_path x) (xp_path x) (xp_mode x) False
      \<in> set (map (\<lambda>x. Bind (xp_path x) (xp_path x) (xp_mode x) False) (extra_paths (sp_capabilities spec)))"
    unfolding set_map using assms by (rule imageI)
  then have "Bind (xp_path x) (xp_path x) (xp_mode x) False \<in> set (plan_ops ulid_text spec h inner_exe home)"
    unfolding plan_ops_def Let_def set_append by blast
  then show ?thesis by (rule bexI [rotated]) simp
qed

lemma missing_source_None:
  "missing_source fs ops = None \<longleftrightarrow>
   list_all (\<lambda>op. case op of Bind src dest m False \<Rightarrow> fs_exists fs src | _ \<Rightarrow> True) ops"
  by (induction fs ops rule: missing_source.induct) auto

lemma prepare_parts:
  assumes "prepare ulid_text fs spec helper inner_exe = Inr p"
  obtains h pl ops where "pick_harness spec = Inr h" "make_plan ulid_text spec h inner_exe = Inr pl"
    "resolve_extras fs (pl_home pl) (extra_paths (sp_capabilities spec)) (pl_ops pl) = Inr ops"
    "missing_source fs ops = None" "pp_plan p = pl\<lparr>pl_ops := ops\<rparr>"
    "rq_landlock (pp_request p) = landlock_rules (pp_plan p)" "rq_argv (pp_request p) = pl_argv pl"
  using assms that
  by (simp add: prepare_def Let_def split: sum.splits option.splits) fastforce

text \<open>What a prepared session mounts for an extra path is the resolved path the guard was asked
  about: the bind its destination ends up with takes what the links lead to, which lies outside every
  guarded place even when the path as written was only a link there; and no source that must be there
  is missing.\<close>
theorem prepare_mounts_what_was_guarded:
  assumes "prepare ulid_text fs spec helper inner_exe = Inr p"
    and "bt_get (sp_env spec) ''HOME'' = Some home" "path_comps home \<noteq> []"
    and "list_all (\<lambda>x. outside_guard (path_comps (xp_path x)) (path_comps home))
           (extra_paths (sp_capabilities spec))"
    and "x \<in> set (extra_paths (sp_capabilities spec))"
  shows "\<exists>r m b. fs_canonicalize fs (xp_path x) = Inr r
      \<and> bind_at (pl_ops (pp_plan p)) (xp_path x) = Some (Bind r (xp_path x) m b)
      \<and> outside_guard (path_comps r) (path_comps home)
      \<and> missing_source fs (pl_ops (pp_plan p)) = None"
proof -
  from assms(1) obtain h pl ops where pl: "make_plan ulid_text spec h inner_exe = Inr pl"
    and ops: "resolve_extras fs (pl_home pl) (extra_paths (sp_capabilities spec)) (pl_ops pl) = Inr ops"
    and rest: "missing_source fs ops = None" "pp_plan p = pl\<lparr>pl_ops := ops\<rparr>"
    by (rule prepare_parts)
  from pl assms(2) have home: "pl_home pl = home" "pl_ops pl = plan_ops ulid_text spec h inner_exe home"
    by (auto simp: make_plan_def split: if_splits)
  from plan_extra_bind [OF assms(5)] bind_at_exists obtain s m b
    where "bind_at (pl_ops pl) (xp_path x) = Some (Bind s (xp_path x) m b)"
    unfolding home by blast
  from resolve_extras_source [OF ops assms(5) this] obtain r where r:
    "fs_canonicalize fs (xp_path x) = Inr r" "r = xp_path x \<or> guard_extra_path r home = None"
    "bind_at ops (xp_path x) = Some (Bind r (xp_path x) m b)"
    unfolding home by blast
  have "outside_guard (path_comps r) (path_comps home)"
    using r(2) assms(4,5) guard_iff [OF assms(3), of r] by (auto simp: list_all_iff)
  with r rest show ?thesis by auto
qed

definition link_fs :: fs_view where
  "link_fs = \<lparr>fs_is_file = (\<lambda>_. True), fs_is_executable_file = (\<lambda>_. True), fs_is_dir = (\<lambda>_. True),
     fs_canonicalize = (\<lambda>p. Inr (if p = ''/srv/link'' then ''/srv/data'' else p)),
     fs_create_dir_all = (\<lambda>_. None), fs_exists = (\<lambda>_. True)\<rparr>"

definition link_spec :: session_spec where
  "link_spec = demo_spec\<lparr>sp_env := [(''HOME'', ''/home/w'')],
     sp_capabilities := capability_set_default\<lparr>
       extra_paths := [\<lparr>xp_path = ''/srv/link'', xp_mode = Ro\<rparr>]\<rparr>\<rparr>"

theorem prepare_mounts_what_was_guarded_witness:
  "\<exists>p m b. prepare (\<lambda>_. ''01J'') link_fs link_spec ''/usr/bin/bwrap'' ''/opt/i'' = Inr p
     \<and> bind_at (pl_ops (pp_plan p)) ''/srv/link'' = Some (Bind ''/srv/data'' ''/srv/link'' m b)"
proof -
  have c: "path_comps ''/home/w'' = [''home'', ''w'']" "path_comps ''/srv/link'' = [''srv'', ''link'']"
    "path_comps ''/srv/data'' = [''srv'', ''data'']"
    by (simp_all add: path_comps_def)
  have ok: "outside_guard [''srv'', ''link''] [''home'', ''w'']"
    "outside_guard [''srv'', ''data''] [''home'', ''w'']" by code_simp+
  have g: "guard_extra_path ''/srv/data'' ''/home/w'' = None"
    using guard_iff [of "''/home/w''" "''/srv/data''"] ok by (simp add: c)
  have e: "bt_get (sp_env link_spec) ''HOME'' = Some ''/home/w''"
    by (simp add: link_spec_def bt_get_def)
  have h: "pick_harness link_spec = Inr claude_code"
    by (simp add: pick_harness_def link_spec_def demo_spec_def registry_def claude_code_def)
  from e obtain pl where
    pl: "make_plan (\<lambda>_. ''01J'') link_spec claude_code ''/opt/i'' = Inr pl" "pl_home pl = ''/home/w''"
    by (simp add: make_plan_def)
  have x: "extra_paths (sp_capabilities link_spec) = [\<lparr>xp_path = ''/srv/link'', xp_mode = Ro\<rparr>]"
    by (simp add: link_spec_def)
  have "resolve_extras link_fs (pl_home pl) (extra_paths (sp_capabilities link_spec)) (pl_ops pl)
      = Inr (rebind_source (pl_ops pl) ''/srv/link'' ''/srv/data'')"
    by (simp add: x pl(2) g link_fs_def)
  moreover have "make_dirs link_fs ds = None" for ds
    by (induction ds) (simp_all add: link_fs_def)
  moreover have "missing_source link_fs ops = None" for ops
    by (induction link_fs ops rule: missing_source.induct) (simp_all add: link_fs_def)
  moreover have "plan_refusal link_fs helper pl = None" for helper
    by (simp add: plan_refusal_def link_fs_def Let_def)
  ultimately obtain p where
    p: "prepare (\<lambda>_. ''01J'') link_fs link_spec ''/usr/bin/bwrap'' ''/opt/i'' = Inr p"
    by (simp add: prepare_def h pl Let_def)
  have "path_comps ''/home/w'' \<noteq> []" by (simp add: c)
  moreover have "list_all (\<lambda>x. outside_guard (path_comps (xp_path x)) (path_comps ''/home/w''))
      (extra_paths (sp_capabilities link_spec))"
    by (simp add: x c ok)
  moreover have "\<lparr>xp_path = ''/srv/link'', xp_mode = Ro\<rparr> \<in> set (extra_paths (sp_capabilities link_spec))"
    by (simp add: x)
  ultimately obtain r m b where
    "fs_canonicalize link_fs ''/srv/link'' = Inr r"
    "bind_at (pl_ops (pp_plan p)) ''/srv/link'' = Some (Bind r ''/srv/link'' m b)"
    using prepare_mounts_what_was_guarded [OF p e] by fastforce
  then show ?thesis using p by (auto simp: link_fs_def)
qed

section \<open>What a reporting stage has done\<close>

lemma min_word_le: "min a b \<le> (b :: u64)"
  by simp

lemma clamp_limit_le: "clamp_limit requested hard \<le> hard \<and> clamp_limit requested hard \<le> requested"
  by (simp add: clamp_limit_def)

lemma map_sum_Inr: "map_sum id f x = Inr y \<longleftrightarrow> (\<exists>z. x = Inr z \<and> y = f z)"
  by (cases x) auto

lemma set_limits_bounded:
  "set_limits k rs = Inr out \<Longrightarrow>
   list_all2 (\<lambda>(name, requested) (name', soft, hard). name' = name \<and> soft = hard \<and> hard \<le> requested
     \<and> (\<exists>old. lk_get k name = Inr old \<and> hard \<le> old)) rs out"
proof (induction rs arbitrary: out)
  case (Cons r rs)
  obtain name requested where r: "r = (name, requested)" by (cases r)
  from Cons.prems r obtain old out' where "lk_get k name = Inr old" "set_limits k rs = Inr out'"
    "out = (name, set_one requested old) # out'"
    by (auto simp: map_sum_Inr split: sum.splits option.splits)
  with Cons.IH r show ?case by (simp add: set_one_def Let_def clamp_limit_le)
qed simp


definition calm_stage :: stage_env where
  "calm_stage =
     \<lparr>se_request = Inr \<lparr>rq_argv = [''/usr/bin/zsh''], rq_rlimits = RLIMITS_DEFAULT, rq_landlock = [''/tmp'']\<rparr>,
      se_uid_map = ''1000 1000 1'', se_status = ''NoNewPrivs: 1'',
      se_limits = \<lparr>lk_get = (\<lambda>_. Inr 1024), lk_set = (\<lambda>_. None)\<rparr>,
      se_landlock = \<lparr>ll_abi = 3, ll_create = None, ll_open = (\<lambda>_. Inr True), ll_add = (\<lambda>_. None),
        ll_restrict = None\<rparr>,
      se_landlock_text = (\<lambda>_. []), se_install = None, se_report_ok = True\<rparr>"


section \<open>What Landlock then allows\<close>

text \<open>The kernel's rule: a right is denied at a path when the ruleset handles it and no rule on the path
  or above it grants it.\<close>

definition landlock_allows :: "u64 \<times> (string \<times> u64) list \<Rightarrow> string list \<Rightarrow> nat \<Rightarrow> bool" where
  "landlock_allows rs p n \<longleftrightarrow>
     \<not> bit (fst rs) n \<or> list_ex (\<lambda>(path, r). prefix (path_comps path) p \<and> bit r n) (snd rs)"

lemma add_rules_granted:
  "add_rules k handled rs = Inr out \<Longrightarrow>
   list_ex (\<lambda>(path, r). prefix (path_comps path) p \<and> bit r n) out \<longleftrightarrow>
   list_ex (\<lambda>(path, granted). prefix (path_comps path) p
     \<and> (\<exists>is_dir. ll_open k path = Inr is_dir \<and> bit (rule_rights granted handled is_dir) n)) rs"
proof (induction rs arbitrary: out)
  case (Cons r rs)
  obtain path granted where r: "r = (path, granted)" by (cases r)
  from Cons.prems r obtain is_dir out' where "ll_open k path = Inr is_dir"
    "add_rules k handled rs = Inr out'" "out = (path, rule_rights granted handled is_dir) # out'"
    by (auto simp: map_sum_Inr split: sum.splits option.splits)
  with Cons.IH r show ?case by simp
qed simp

lemma bit_rule_rights:
  "bit (rule_rights granted handled is_dir) n \<longleftrightarrow>
   bit granted n \<and> bit handled n \<and> (is_dir \<or> bit FILE_RIGHTS n)"
  by (auto simp: rule_rights_def Let_def bit_simps)

lemma read_exec_bits: "bit READ_EXEC n \<longleftrightarrow> n \<in> {0, 2, 3}"
  unfolding codes bit_or_iff bit_push_bit_iff bit_1_iff by auto

lemma file_rights_bits: "bit FILE_RIGHTS n \<longleftrightarrow> n \<in> {0, 1, 2, 14}"
  unfolding FILE_RIGHTS_def codes bit_or_iff bit_push_bit_iff bit_1_iff by auto

lemma landlock_install_rules:
  "landlock_install k write = Inr (Some (handled, rs)) \<Longrightarrow>
   applicability (ll_abi k) = Ruleset handled
   \<and> add_rules k handled ((''/'', READ_EXEC) # map (\<lambda>p. (p, handled)) write) = Inr rs"
  by (auto simp: landlock_install_def split: landlock_apply.splits option.splits sum.splits)



section \<open>A report is read whole\<close>

lemma read_rest_line:
  "10 \<notin> set line \<Longrightarrow>
   read_rest acc (map (\<lambda>b. Inr [b]) line @ Inr [10] # rs) = Inr (acc @ line)"
  by (induction line arbitrary: acc) auto

lemma read_rest_no_line:
  "10 \<notin> set line \<Longrightarrow> read_rest acc (map (\<lambda>b. Inr [b]) line @ rs) = read_rest (acc @ line) rs"
  by (induction line arbitrary: acc) auto

text \<open>How the socket cuts the stage's report does not matter: whatever part of the line the first
  read delivers, and the rest byte by byte, the outcome is what the whole line says, with the
  descriptor that came with it.\<close>
theorem report_cut_independent:
  assumes "10 \<notin> set line" "0 < k" "k \<le> length line" "fds \<le> 1"
  shows "read_report parse
      (Inr \<lparr>fr_bytes = take k (line @ [10]), fr_fds = fds, fr_truncated = False\<rparr>)
      (map (\<lambda>b. Inr [b]) (drop k (line @ [10])) @ later)
    = (case parse line of
         Inr (Applied mechanisms unavail) \<Rightarrow> ReportApplied mechanisms unavail (fds = 1)
       | Inr (Refused code message) \<Rightarrow> ReportRefused code message
       | Inl e \<Rightarrow> ReportRefused ''sandbox_apply_failed'' (''unreadable sandbox report: '' @ e))"
proof -
  have ne: "line \<noteq> []" using assms by auto
  have n: "10 \<notin> set (take k line)" "10 \<notin> set (drop k line)"
    using assms(1) by (meson in_set_takeD, meson in_set_dropD)
  have "read_rest (take k line) (map (\<lambda>b. Inr [b]) (drop k (line @ [10])) @ later) = Inr line"
    using read_rest_line [OF n(2), of "take k line" later] assms(3) by simp
  with n ne assms show ?thesis
    by (simp add: read_report_def split: sum.split inner_report.split)
qed

theorem report_cut_independent_witness:
  "read_report (\<lambda>l. if l = [1, 2] then Inr (Applied [''seccomp''] []) else Inl [])
     (Inr \<lparr>fr_bytes = take 1 ([1, 2] @ [10]), fr_fds = 1, fr_truncated = False\<rparr>)
     (map (\<lambda>b. Inr [b]) (drop 1 ([1, 2] @ [10])) @ [])
   = ReportApplied [''seccomp''] [] True"
  by (subst report_cut_independent) simp_all

text \<open>A report that never ends in a newline is never taken as applied.\<close>

lemma report_needs_newline:
  "10 \<notin> set first \<Longrightarrow> list_all (\<lambda>r. case r of Inr bs \<Rightarrow> 10 \<notin> set bs | Inl _ \<Rightarrow> True) rs \<Longrightarrow>
   read_report parse (Inr \<lparr>fr_bytes = first, fr_fds = fds, fr_truncated = t\<rparr>) rs
     \<noteq> ReportApplied ms un l"
proof -
  assume first: "10 \<notin> set first"
  assume "list_all (\<lambda>r. case r of Inr bs \<Rightarrow> 10 \<notin> set bs | Inl _ \<Rightarrow> True) rs"
  then have "read_rest acc rs \<in> {Inl HelperGone, Inl TimedOut}" for acc
    by (induction acc rs rule: read_rest.induct) auto
  then have "read_rest first rs = Inl HelperGone \<or> read_rest first rs = Inl TimedOut" by blast
  with first show ?thesis by (auto simp: read_report_def)
qed

section \<open>Exit and processes\<close>

lemma helper_exit_signal: "1 \<le> n \<Longrightarrow> n \<le> 64 \<Longrightarrow> helper_exit (Some (128 + n)) None = (None, Some n)"
  by (simp add: helper_exit_def)

lemma helper_exit_else:
  "code = None \<or> sig \<noteq> None \<or> code = Some c \<and> (c < 129 \<or> 192 < c) \<Longrightarrow> helper_exit code sig = (code, sig)"
  by (auto simp: helper_exit_def split: option.splits)

lemma parse_children_include: "parse_children text = Some pid \<Longrightarrow> children_include text pid"
  by (auto simp: parse_children_def children_include_def split: option.splits list.splits)

lemma harness_pid_behind: "harness_pid proc monitor = Some pid \<Longrightarrow> harness_still_behind proc monitor pid"
  by (auto simp: harness_pid_def harness_still_behind_def only_child_def parse_children_include
      split: option.splits Option.bind_splits)

end
