(* ===== verification/Startup.thy ===== *)
theory Startup
  imports Sess_Sandbox
begin

text \<open>
  How a supervisor starts one session (\<open>session_main\<close> of \<^verbatim>\<open>crates/willie-sess/src/main.rs\<close>), up to the
  point where it serves the terminal: every step that can refuse, the events it writes and the answer
  it gives its launcher. What each step finds is an input; \<open>prepare\<close> and \<open>read_report\<close> are the ones
  modelled in \<open>Sess_Sandbox\<close>, and so is the command line (\<^verbatim>\<open>cli.rs\<close>).

  Shown: a session is recorded as started only with the whole boundary in place, every start gets one
  answer, and a start that is refused says so in its log with the code the launcher is given.
\<close>

section \<open>The command line\<close>

datatype command = Version | RunSpec string | InnerFd int | Usage string

definition parse_command :: "string list \<Rightarrow> command" where
  "parse_command args =
     (if args = [''--version''] then Version
      else if length args = 3 \<and> take 2 args = [''run'', ''--spec''] then RunSpec (args ! 2)
      else if length args = 2 \<and> hd args = ''--inner'' then
        (case parse_i32 (args ! 1) of
           Some fd \<Rightarrow> InnerFd fd
         | None \<Rightarrow> Usage ''--inner takes a descriptor number'')
      else
        (case args of
           [] \<Rightarrow> Usage ''no command''
         | a # _ \<Rightarrow>
             if a = ''--inner'' then Usage ''--inner takes exactly one descriptor number''
             else if a = ''run'' then Usage ''run takes exactly --spec <path>''
             else Usage (''unknown command `'' @ a @ ''`'')))"

section \<open>Setting a session up\<close>

datatype spawn_error =
    SpawnSetup string
  | SpawnExec string string

fun spawn_error_text :: "spawn_error \<Rightarrow> string" where
  "spawn_error_text (SpawnSetup e) = e"
| "spawn_error_text (SpawnExec step e) = step @ '': '' @ e"

fun spawn_failure :: "spawn_error \<Rightarrow> string \<times> string" where
  "spawn_failure (SpawnExec step e) =
     (if step = WORKSPACE_STEP then (''harness_exec_failed'', spawn_error_text (SpawnExec step e))
      else (''sandbox_apply_failed'',
            ''the namespace helper did not start: '' @ spawn_error_text (SpawnExec step e)))"
| "spawn_failure (SpawnSetup e) = (''supervisor_spawn_failed'', spawn_error_text (SpawnSetup e))"

text \<open>What each step finds, an error text or its result. \<open>st_gone\<close> is what draining the terminal and
  waiting for the helper give when it dies before reporting.\<close>

record start_env =
  st_load :: "string + session_spec"
  st_log :: "string option"
  st_redirect :: "string option"
  st_events :: "string option"
  st_bind :: "string option"
  st_prepare :: "prepare_error + prepared"
  st_socket :: "string option"
  st_pty :: "string option"
  st_spawn :: "spawn_error + u32"
  st_report :: report_outcome
  st_gone :: "string option \<times> int option \<times> int option"
  st_serve :: "string option"

datatype reply = ReplyOk u32 | ReplyFail string string

text \<open>The events written, the answers given, and whether the helper's process group was killed.\<close>

record start_result =
  sr_events :: "session_event_kind list"
  sr_replies :: "reply list"
  sr_killed :: bool

definition refuse_silently :: "string \<Rightarrow> string \<Rightarrow> start_result" where
  "refuse_silently code text =
     \<lparr>sr_events = [], sr_replies = [ReplyFail code text], sr_killed = False\<rparr>"

definition refuse_start :: "bool \<Rightarrow> string \<Rightarrow> string \<Rightarrow> start_result" where
  "refuse_start kill code text =
     \<lparr>sr_events = [EvCreated, EvFailed code text], sr_replies = [ReplyFail code text],
      sr_killed = kill\<rparr>"

text \<open>What the report means for the start: a refusal, or the mechanisms to record.\<close>

definition judge_report ::
  "report_outcome \<Rightarrow> string option \<times> int option \<times> int option
    \<Rightarrow> start_result + string list \<times> string list" where
  "judge_report outcome gone =
     (case outcome of
        ReportApplied mechanisms unavail has_listener \<Rightarrow>
          if list_ex (\<lambda>m. m = ''seccomp'') mechanisms \<and> \<not> has_listener then
            Inl (refuse_start True ''sandbox_apply_failed''
                   ''the sandbox reported seccomp but sent no listener'')
          else
            (case required_missing mechanisms of
               Some missing \<Rightarrow>
                 Inl (refuse_start True ''sandbox_backend_missing''
                        (''the sandbox did not apply '' @ missing))
             | None \<Rightarrow> Inr (mechanisms, unavail))
      | ReportRefused code message \<Rightarrow> Inl (refuse_start True code message)
      | HelperGone \<Rightarrow>
          (case gone of (words, code, sig) \<Rightarrow>
             Inl (refuse_start False ''sandbox_apply_failed'' (apply_failure words code sig)))
      | TimedOut \<Rightarrow>
          Inl (refuse_start True ''sandbox_apply_failed''
                 ''the sandbox reported nothing within the deadline''))"

definition session_start :: "string \<Rightarrow> start_env \<Rightarrow> start_result" where
  "session_start socket st =
     (case st_load st of
        Inl e \<Rightarrow> refuse_silently ''spec_invalid'' e
      | Inr spec \<Rightarrow>
     (case st_log st of Some e \<Rightarrow> refuse_silently ''supervisor_spawn_failed'' e | None \<Rightarrow>
     (case st_redirect st of Some e \<Rightarrow> refuse_silently ''supervisor_spawn_failed'' e | None \<Rightarrow>
     (case st_events st of Some e \<Rightarrow> refuse_silently ''supervisor_spawn_failed'' e | None \<Rightarrow>
     (case st_bind st of
        Some e \<Rightarrow>
          refuse_start False ''supervisor_spawn_failed'' (''cannot bind '' @ socket @ '': '' @ e)
      | None \<Rightarrow>
     (case st_prepare st of
        Inl e \<Rightarrow> refuse_start False (prepare_error_code e) (prepare_error_text e)
      | Inr prep \<Rightarrow>
     (case st_socket st of
        Some e \<Rightarrow>
          refuse_start False ''supervisor_spawn_failed'' (''cannot make the report socket: '' @ e)
      | None \<Rightarrow>
     (case st_pty st of
        Some e \<Rightarrow> refuse_start False ''supervisor_spawn_failed'' (''cannot open a pty: '' @ e)
      | None \<Rightarrow>
     (case st_spawn st of
        Inl e \<Rightarrow> (case spawn_failure e of (code, text) \<Rightarrow> refuse_start False code text)
      | Inr pid \<Rightarrow>
     (case judge_report (st_report st) (st_gone st) of
        Inl refusal \<Rightarrow> refusal
      | Inr (mechanisms, unavail) \<Rightarrow>
          \<lparr>sr_events = [EvCreated, EvSandboxApplied mechanisms unavail, EvStarted pid],
           sr_replies = [case st_serve st of
                           Some e \<Rightarrow> ReplyFail ''supervisor_spawn_failed'' e
                         | None \<Rightarrow> ReplyOk pid],
           sr_killed = False\<rparr>))))))))))"

section \<open>Starting fails closed\<close>

definition started_ok :: "start_result \<Rightarrow> bool" where
  "started_ok r \<longleftrightarrow> (\<exists>pid. EvStarted pid \<in> set (sr_events r))"

text \<open>The three shapes a start can have.\<close>

inductive start_shape :: "start_env \<Rightarrow> start_result \<Rightarrow> bool" for st where
  silent: "start_shape st (refuse_silently code text)"
| refused: "start_shape st (refuse_start kill code text)"
| started: "st_prepare st = Inr prep \<Longrightarrow> st_spawn st = Inr pid \<Longrightarrow>
     st_report st = ReportApplied mechanisms unavail True \<Longrightarrow> required_missing mechanisms = None \<Longrightarrow>
     start_shape st
       \<lparr>sr_events = [EvCreated, EvSandboxApplied mechanisms unavail, EvStarted pid],
        sr_replies = [case st_serve st of
                        Some e \<Rightarrow> ReplyFail ''supervisor_spawn_failed'' e
                      | None \<Rightarrow> ReplyOk pid],
        sr_killed = False\<rparr>"

lemma judge_report_refusal:
  "judge_report outcome gone = Inl r \<Longrightarrow> \<exists>kill code text. r = refuse_start kill code text"
  by (auto simp: judge_report_def split: report_outcome.splits if_splits option.splits prod.splits)

lemma judge_report_accepts:
  assumes "judge_report outcome gone = Inr (mechanisms, unavail)"
  shows "outcome = ReportApplied mechanisms unavail True \<and> required_missing mechanisms = None"
proof -
  from assms obtain l where o: "outcome = ReportApplied mechanisms unavail l"
    "required_missing mechanisms = None" "\<not> (''seccomp'' \<in> set mechanisms \<and> \<not> l)"
    by (auto simp: judge_report_def list_ex_iff
        split: report_outcome.splits if_splits option.splits prod.splits)
  then have "''seccomp'' \<in> set mechanisms" by (auto simp: required_missing_None REQUIRED_def)
  with o show ?thesis by simp
qed

lemma session_start_shape: "start_shape st (session_start socket st)"
proof -
  have accepted: "start_shape st (case judge_report (st_report st) (st_gone st) of
        Inl refusal \<Rightarrow> refusal
      | Inr (mechanisms, unavail) \<Rightarrow>
          \<lparr>sr_events = [EvCreated, EvSandboxApplied mechanisms unavail, EvStarted pid],
           sr_replies = [case st_serve st of
                           Some e \<Rightarrow> ReplyFail ''supervisor_spawn_failed'' e
                         | None \<Rightarrow> ReplyOk pid],
           sr_killed = False\<rparr>)"
    if "st_prepare st = Inr prep" "st_spawn st = Inr pid" for prep pid
  proof (cases "judge_report (st_report st) (st_gone st)")
    case (Inl r)
    with judge_report_refusal [OF Inl] show ?thesis by (auto intro: start_shape.refused)
  next
    case (Inr mu)
    obtain m u where mu: "mu = (m, u)" by (cases mu)
    from judge_report_accepts [OF Inr [unfolded mu]] that Inr mu show ?thesis
      by (simp add: start_shape.started)
  qed
  show ?thesis
    unfolding session_start_def
    by (cases "st_load st"; cases "st_log st"; cases "st_redirect st"; cases "st_events st";
        cases "st_bind st"; cases "st_prepare st"; cases "st_socket st"; cases "st_pty st";
        cases "st_spawn st")
      (simp_all only: sum.case option.case accepted start_shape.silent start_shape.refused
        prod.case_eq_if)
qed


definition good_start :: start_env where
  "good_start =
     (let pl = \<lparr>pl_home = ''/home/w'', pl_workspace = ''/home/w/p'', pl_argv = [''/usr/bin/zsh''],
                pl_inner_exe = ''/opt/i'', pl_env = [], pl_ensure_dirs = [], pl_ops = []\<rparr>
      in \<lparr>st_load = Inr demo_spec, st_log = None, st_redirect = None, st_events = None, st_bind = None,
          st_prepare = Inr \<lparr>pp_plan = pl,
            pp_request = \<lparr>rq_argv = [''/usr/bin/zsh''], rq_rlimits = RLIMITS_DEFAULT, rq_landlock = []\<rparr>\<rparr>,
          st_socket = None, st_pty = None, st_spawn = Inr 7,
          st_report = ReportApplied [''namespaces'', ''mounts'', ''rlimits'', ''seccomp''] [''landlock''] True,
          st_gone = (None, None, None), st_serve = None\<rparr>)"


end
