(* ===== verification/Supervisor_Inv.thy ===== *)
theory Supervisor_Inv
  imports Supervisor
begin

text \<open>
  The invariants of the session's server (\<open>Supervisor\<close>). Everything a thread does under the clients'
  lock is a visit of the clients; \<open>fans\<close> is what every such visit, and every sequence of them, keeps of
  the connections, and \<open>level\<close> what it keeps of the announcements in the log. Each invariant is an
  instance of the shared \<open>invariant_fold\<close> interface on \<open>srv_step\<close>.
\<close>

section \<open>Visits\<close>

definition visited :: "(conn \<Rightarrow> bool \<times> conn) \<Rightarrow> shared \<Rightarrow> shared" where
  "visited f s =
     s\<lparr>sh_clients := filter (\<lambda>i. fst (f (sh_conns s i))) (sh_clients s),
       sh_conns := (\<lambda>i. if i \<in> set (sh_clients s) then snd (f (sh_conns s i)) else sh_conns s i)\<rparr>"

definition event_frame :: "bytes option \<Rightarrow> conn \<Rightarrow> bool \<times> conn" where
  "event_frame frame c =
     (case frame of
        None \<Rightarrow> (True, c)
      | Some f \<Rightarrow> if cn_role c \<noteq> Control then (True, c) else enqueue c f)"

definition stamped :: "shared \<Rightarrow> session_event_kind \<Rightarrow> session_event" where
  "stamped s k = \<lparr>ev_at = sh_epoch s, ev_kind = k\<rparr>"

lemma event_frame_None: "event_frame None = (\<lambda>c. (True, c))"
  by (simp add: event_frame_def fun_eq_iff)

lemma event_frame_Some:
  "event_frame (Some f) = (\<lambda>c. if cn_role c \<noteq> Control then (True, c) else enqueue c f)"
  by (simp add: event_frame_def fun_eq_iff)

lemma visited_still: "visited (\<lambda>c. (True, c)) s = s"
  by (simp add: visited_def cong: if_cong)

lemma log_event_visits:
  assumes "distinct (sh_clients s)"
  shows "log_event enc k s =
    visited (event_frame (enc_event enc (stamped s k))) (s\<lparr>sh_log := sh_log s @ [stamped s k]\<rparr>)"
proof (cases "enc_event enc (stamped s k)")
  case None
  then show ?thesis
    by (simp add: log_event_def Let_def event_frame_None visited_still flip: stamped_def)
next
  case (Some f)
  with assms show ?thesis
    by (simp add: log_event_def Let_def event_frame_Some visited_def retain_clients_eq
        cong: if_cong flip: stamped_def)
qed

lemma visited_selectors [simp]:
  "sh_clients (visited f s) = filter (\<lambda>i. fst (f (sh_conns s i))) (sh_clients s)"
  "sh_conns (visited f s) i =
     (if i \<in> set (sh_clients s) then snd (f (sh_conns s i)) else sh_conns s i)"
  "sh_log (visited f s) = sh_log s"
  "sh_next_id (visited f s) = sh_next_id s"
  "sh_phase (visited f s) = sh_phase s"
  "sh_tally (visited f s) = sh_tally s"
  by (simp_all add: visited_def)

section \<open>What visits keep of the connections\<close>

definition fans :: "shared \<Rightarrow> shared \<Rightarrow> bool" where
  "fans s s' \<longleftrightarrow>
     (distinct (sh_clients s) \<longrightarrow>
        sh_next_id s' = sh_next_id s \<and> distinct (sh_clients s')
        \<and> set (sh_clients s') \<subseteq> set (sh_clients s)
        \<and> (\<forall>i. cn_role (sh_conns s' i) = cn_role (sh_conns s i)
               \<and> (conn_ok (sh_conns s i) \<longrightarrow> conn_ok (sh_conns s' i))
               \<and> (cn_role (sh_conns s i) = Terminal
                   \<longrightarrow> i \<notin> set (sh_clients s) \<or> i \<in> set (sh_clients s')
                   \<longrightarrow> cn_queued (sh_conns s i) \<le> QUEUE_BYTES
                   \<longrightarrow> cn_queued (sh_conns s' i) \<le> QUEUE_BYTES)))"

lemma fans_refl [simp]: "fans s s"
  by (simp add: fans_def)

lemma fans_trans [trans]: "fans s s' \<Longrightarrow> fans s' s'' \<Longrightarrow> fans s s''"
  unfolding fans_def by (intro impI conjI allI) (simp, blast, blast, simp, blast, auto)

definition good_visit :: "(conn \<Rightarrow> bool \<times> conn) \<Rightarrow> bool" where
  "good_visit f \<longleftrightarrow>
     (\<forall>c. cn_role (snd (f c)) = cn_role c \<and> (conn_ok c \<longrightarrow> conn_ok (snd (f c)))
        \<and> (cn_role c = Terminal \<longrightarrow> fst (f c) \<longrightarrow> cn_queued c \<le> QUEUE_BYTES
            \<longrightarrow> cn_queued (snd (f c)) \<le> QUEUE_BYTES))"

lemma fans_visited: "good_visit f \<Longrightarrow> fans s (visited f s)"
  by (auto simp: fans_def good_visit_def)

lemma good_event_frame: "good_visit (event_frame frame)"
  by (auto simp: good_visit_def event_frame_def enqueue_keeps split: option.split)

lemma good_terminal_frames: "good_visit (terminal_frames enc fs)"
  by (simp add: good_visit_def terminal_frames_keeps)

text \<open>A change of the parts the relation does not speak of.\<close>

lemma fans_same:
  "sh_next_id s' = sh_next_id s \<Longrightarrow> sh_clients s' = sh_clients s \<Longrightarrow> sh_conns s' = sh_conns s \<Longrightarrow>
   fans s s'"
  by (simp add: fans_def)

lemma fans_log_event: "fans s (log_event enc k s)"
proof (cases "distinct (sh_clients s)")
  case True
  then show ?thesis
    using fans_visited [OF good_event_frame, of "s\<lparr>sh_log := sh_log s @ [stamped s k]\<rparr>"]
    unfolding log_event_visits [OF True] fans_def by simp
qed (simp add: fans_def)

lemma fans_fold: "(\<And>s x. fans s (f s x)) \<Longrightarrow> fans s (foldl f s xs)"
  by (induction xs arbitrary: s) (auto intro: fans_trans)

lemma fans_log_events: "fans s (log_events enc ks s)"
  unfolding log_events_def by (rule fans_fold) (rule fans_log_event)

text \<open>A step that changes only parts the relation does not speak of, before or after a fan-out.\<close>

lemma fans_after: "fans s s1 \<Longrightarrow> sh_next_id s' = sh_next_id s1 \<Longrightarrow> sh_clients s' = sh_clients s1 \<Longrightarrow>
    sh_conns s' = sh_conns s1 \<Longrightarrow> fans s s'"
  by (simp add: fans_def)

lemma fans_before: "fans s1 s' \<Longrightarrow> sh_next_id s1 = sh_next_id s \<Longrightarrow> sh_clients s1 = sh_clients s \<Longrightarrow>
    sh_conns s1 = sh_conns s \<Longrightarrow> fans s s'"
  by (simp add: fans_def)

lemma fans_record_denial: "fans s (record_denial enc kls name s)"
  by (auto simp: record_denial_def Let_def intro: fans_same fans_before [OF fans_log_event]
      split: prod.split option.split)

lemma broadcast_visits:
  assumes "distinct (sh_clients s)"
  shows "broadcast enc bs s =
    (let s1 = visited (terminal_frames enc (wire_chunks OUTPUT bs))
                (s\<lparr>sh_ring := ring_push (sh_ring s) bs, sh_alt := alt_feed (sh_alt s) bs\<rparr>)
     in log_events enc
          (map (\<lambda>i. EvDetached (of_nat i)) (filter (\<lambda>i. i \<notin> set (sh_clients s1)) (sh_clients s))) s1)"
  using assms by (simp add: broadcast_def Let_def retain_clients_eq visited_def cong: if_cong)

lemma fans_broadcast: "fans s (broadcast enc bs s)"
proof (cases "distinct (sh_clients s)")
  case True
  show ?thesis
    unfolding broadcast_visits [OF True] Let_def
    by (rule fans_trans [OF _ fans_log_events])
       (rule fans_before [OF fans_visited [OF good_terminal_frames]], simp_all)
qed (simp add: fans_def)

lemma fans_serve_read: "fans s (serve_read enc bs s)"
proof -
  have "fans s (foldl (\<lambda>s n. record_denial enc ''terminal'' n s) (s\<lparr>sh_filter := f\<rparr>) names)" for f names
    by (rule fans_before [OF fans_fold]) (simp_all add: fans_record_denial)
  then show ?thesis
    by (auto simp: serve_read_def Let_def intro: fans_trans [OF _ fans_broadcast] split: prod.split)
qed

lemma fans_apply_size: "fans s (apply_size enc ok rws cls force s)"
proof -
  have 1: "fans s (log_event enc k (s\<lparr>sh_rows := rws, sh_cols := cls, sh_sizes := z\<rparr>))" for k z
    by (rule fans_before [OF fans_log_event]) simp_all
  have 2: "fans s (s\<lparr>sh_rows := rws, sh_cols := cls\<rparr>)" by (rule fans_same) simp_all
  have 3: "fans s s1 \<Longrightarrow> fans s (log_event enc k (s1\<lparr>sh_sizes := z\<rparr>))" for s1 k z
    by (erule fans_trans, rule fans_before [OF fans_log_event]) simp_all
  show ?thesis using 1 2 3 by (simp add: apply_size_def Let_def)
qed

lemma fans_request_stop: "fans s (request_stop enc by cause s)"
  by (auto simp: request_stop_def intro: fans_before [OF fans_log_event])

lemma fans_close_all:
  "fans s (s\<lparr>sh_conns := (\<lambda>i. if i \<in> set (sh_clients s) then send_close f (sh_conns s i) else sh_conns s i),
             sh_clients := [], sh_socket := False\<rparr>)"
  by (auto simp: fans_def send_close_keeps)

lemma fans_finish: "fans s (finish enc code sig s)"
proof -
  have "fans s (log_event enc (EvExited code sig)
      ((log_events enc ks (s\<lparr>sh_tally := t\<rparr>))\<lparr>sh_phase := PhaseExited\<rparr>))" for ks t
  proof (rule fans_trans)
    show "fans s (log_events enc ks (s\<lparr>sh_tally := t\<rparr>))"
      by (rule fans_before [OF fans_log_events]) simp_all
  qed (rule fans_before [OF fans_log_event], simp_all)
  then show ?thesis
    unfolding finish_def Let_def by (auto split: prod.split intro: fans_trans [OF _ fans_close_all])
qed

lemma fans_client_frame: "fans s (snd (client_frame enc ok i f s))"
proof -
  have "fans s (s\<lparr>sh_conns := (sh_conns s)(i := snd (chan_send (MData frame)
      ((sh_conns s i)\<lparr>cn_queued := cn_queued (sh_conns s i) + length frame\<rparr>)))\<rparr>)"
    if "cn_role (sh_conns s i) = Control" for frame
    using that by (auto simp: fans_def chan_send_def conn_ok_def chan_bytes_def)
  then show ?thesis
    by (auto simp: client_frame_def Let_def fans_request_stop fans_apply_size intro: fans_same
        split: option.split)
qed

section \<open>Clients and their threads\<close>

definition th_ids :: "server \<Rightarrow> nat list" where
  "th_ids s = th_opening s @ th_attaching s @ th_live s @ th_leaving s @ th_detaching s"

text \<open>Each client is at one place of its thread; only the registered ones are visited.\<close>

definition srv_shape :: "server \<Rightarrow> bool" where
  "srv_shape s \<longleftrightarrow>
     distinct (th_ids s) \<and> (\<forall>i \<in> set (th_ids s). i \<le> sh_next_id (sv s))
     \<and> distinct (sh_clients (sv s))
     \<and> set (sh_clients (sv s)) \<subseteq> set (th_attaching s) \<union> set (th_live s) \<union> set (th_leaving s)
     \<and> (\<forall>i \<in> set (th_attaching s) \<union> set (th_detaching s). cn_role (sh_conns (sv s) i) = Terminal)"

definition srv_queues :: "server \<Rightarrow> bool" where
  "srv_queues s \<longleftrightarrow>
     (\<forall>i. conn_ok (sh_conns (sv s) i))
     \<and> (\<forall>i \<in> set (th_opening s) \<union> set (sh_clients (sv s)).
          cn_role (sh_conns (sv s) i) = Terminal \<longrightarrow> cn_queued (sh_conns (sv s) i) \<le> QUEUE_BYTES)"

definition srv_conns :: "server \<Rightarrow> bool" where
  "srv_conns s \<longleftrightarrow> srv_shape s \<and> srv_queues s"

lemma set_drop_id [simp]: "set (drop_id i xs) = set xs - {i}"
  by (auto simp: drop_id_def)

lemma distinct_drop_id [simp]: "distinct xs \<Longrightarrow> distinct (drop_id i xs)"
  by (simp add: drop_id_def)

lemma opening_not_client: "srv_shape s \<Longrightarrow> i \<in> set (th_opening s) \<Longrightarrow> i \<notin> set (sh_clients (sv s))"
  by (auto simp: srv_shape_def th_ids_def)

lemma detaching_not_client: "srv_shape s \<Longrightarrow> i \<in> set (th_detaching s) \<Longrightarrow> i \<notin> set (sh_clients (sv s))"
  by (auto simp: srv_shape_def th_ids_def)

text \<open>A fan-out by whichever thread keeps both.\<close>

lemma srv_conns_fans:
  assumes "srv_conns s" and "fans (sv s) s'" and "sv t = s'"
    and "th_opening t = th_opening s" "th_attaching t = th_attaching s" "th_live t = th_live s"
    "th_leaving t = th_leaving s" "th_detaching t = th_detaching s"
  shows "srv_conns t"
proof -
  from assms(1) have sh: "srv_shape s" and q: "srv_queues s" by (simp_all add: srv_conns_def)
  then have "distinct (sh_clients (sv s))" by (simp add: srv_shape_def)
  with assms(2) have f: "sh_next_id s' = sh_next_id (sv s)" "distinct (sh_clients s')"
    "set (sh_clients s') \<subseteq> set (sh_clients (sv s))"
    "\<And>i. cn_role (sh_conns s' i) = cn_role (sh_conns (sv s) i)"
    "\<And>i. conn_ok (sh_conns (sv s) i) \<Longrightarrow> conn_ok (sh_conns s' i)"
    "\<And>i. cn_role (sh_conns (sv s) i) = Terminal \<Longrightarrow> i \<notin> set (sh_clients (sv s)) \<or> i \<in> set (sh_clients s')
       \<Longrightarrow> cn_queued (sh_conns (sv s) i) \<le> QUEUE_BYTES \<Longrightarrow> cn_queued (sh_conns s' i) \<le> QUEUE_BYTES"
    unfolding fans_def by blast+
  have "srv_shape t" using sh f(1-4) assms(3-8) unfolding srv_shape_def th_ids_def by auto
  moreover have "srv_queues t"
    using q f(3-6) assms(3-8) opening_not_client [OF sh] unfolding srv_queues_def by (simp, blast)
  ultimately show ?thesis by (simp add: srv_conns_def)
qed

text \<open>Moving one client from a place of its thread to the next.\<close>

lemma srv_conns_PushClient:
  assumes "srv_conns s" shows "srv_conns (srv_step enc s (PushClient i))"
  using assms by (auto simp: srv_conns_def srv_shape_def srv_queues_def th_ids_def client_push_def)

lemma srv_conns_SocketEnd:
  assumes "srv_conns s" shows "srv_conns (srv_step enc s (SocketEnd i))"
  using assms by (auto simp: srv_conns_def srv_shape_def srv_queues_def th_ids_def)

lemma srv_conns_AnnounceAttached:
  assumes "srv_conns s" shows "srv_conns (srv_step enc s (AnnounceAttached i))"
proof (cases "i \<in> set (th_attaching s)")
  case True
  let ?t = "s\<lparr>sv := log_event enc (EvAttached (of_nat i)) (sv s)\<rparr>"
  have "srv_conns ?t" by (rule srv_conns_fans [OF assms fans_log_event]) simp_all
  with True show ?thesis by (auto simp: srv_conns_def srv_shape_def srv_queues_def th_ids_def)
qed (simp add: assms)

lemma srv_conns_AnnounceDetached:
  assumes "srv_conns s" shows "srv_conns (srv_step enc s (AnnounceDetached i))"
proof (cases "i \<in> set (th_detaching s)")
  case True
  let ?t = "s\<lparr>sv := log_event enc (EvDetached (of_nat i)) (sv s)\<rparr>"
  have "srv_conns ?t" by (rule srv_conns_fans [OF assms fans_log_event]) simp_all
  with True show ?thesis by (auto simp: srv_conns_def srv_shape_def srv_queues_def th_ids_def)
qed (simp add: assms)

lemma srv_conns_ClientFrame:
  assumes "srv_conns s" shows "srv_conns (srv_step enc s (ClientFrame i ok f))"
proof (cases "i \<in> set (th_live s)")
  case True
  obtain more s' where f: "client_frame enc ok i f (sv s) = (more, s')"
    by (cases "client_frame enc ok i f (sv s)")
  have "srv_conns (s\<lparr>sv := s'\<rparr>)"
    by (rule srv_conns_fans [OF assms fans_client_frame [of _ enc ok i f]]) (simp_all add: f)
  with True f show ?thesis
    by (cases more) (auto simp: srv_conns_def srv_shape_def srv_queues_def th_ids_def)
qed (simp add: assms)

lemma chan_send_end_keeps:
  "cn_role (snd (chan_send (MClose []) c)) = cn_role c"
  "conn_ok c \<Longrightarrow> conn_ok ((snd (chan_send (MClose []) c))\<lparr>cn_shut := b\<rparr>)"
  "cn_queued (snd (chan_send (MClose []) c)) = cn_queued c"
  by (auto simp: chan_send_def conn_ok_def chan_bytes_def)

lemma srv_conns_LeaveClient:
  assumes "srv_conns s" shows "srv_conns (srv_step enc s (LeaveClient i))"
  using assms
  by (auto simp: srv_conns_def srv_shape_def srv_queues_def th_ids_def client_leave_def Let_def
      chan_send_end_keeps)

lemma conn_new_simps [simp]: "cn_role (conn_new r) = r" "cn_queued (conn_new r) = 0"
  by (simp_all add: conn_new_def)

lemma client_open_shape:
  assumes "client_open enc r s = (ok, s')" and "sh_phase s \<noteq> PhaseExited"
  obtains c where "s' = s\<lparr>sh_next_id := sh_next_id s + 1, sh_conns := (sh_conns s)(sh_next_id s + 1 := c)\<rparr>"
    and "conn_ok c" "cn_role c = r" "ok \<Longrightarrow> cn_queued c \<le> QUEUE_BYTES"
proof -
  define frames where "frames =
    (let replay = (if r = Terminal \<and> \<not> active (sh_alt s) then ring_snapshot (sh_ring s) else [])
     in if replay = [] then [] else wire_chunks OUTPUT replay)"
  obtain b c where e: "enqueue_all (conn_new r) frames = (b, c)" by fastforce
  let ?c = "if b then c else close_client enc CloseTooSlow c"
  have eq: "ok = b" "s' = s\<lparr>sh_next_id := sh_next_id s + 1, sh_conns := (sh_conns s)(sh_next_id s + 1 := ?c)\<rparr>"
    using assms e by (auto simp: client_open_def frames_def Let_def)
  have c: "conn_ok c" "cn_role c = r" "cn_queued c \<le> QUEUE_BYTES"
    using enqueue_all_keeps [of "conn_new r" frames] e by simp_all
  show ?thesis
    by (rule that [of ?c]) (use eq c in \<open>simp_all add: close_client_keeps\<close>)
qed

lemma srv_conns_OpenClient:
  assumes "srv_conns s" shows "srv_conns (srv_step enc s (OpenClient r rws cls ok))"
proof (cases "sh_phase (sv s) = PhaseExited")
  case False
  obtain b s' where o: "client_open enc r (sv s) = (b, s')" by fastforce
  from client_open_shape [OF o False] obtain c where c:
    "s' = (sv s)\<lparr>sh_next_id := sh_next_id (sv s) + 1, sh_conns := (sh_conns (sv s))(sh_next_id (sv s) + 1 := c)\<rparr>"
    "conn_ok c" "cn_role c = r" "b \<Longrightarrow> cn_queued c \<le> QUEUE_BYTES" by blast
  have new: "sh_next_id (sv s) + 1 \<notin> set (th_ids s)"
    using assms by (auto simp: srv_conns_def srv_shape_def)
  let ?t = "s\<lparr>sv := s', th_opening := th_opening s @ (if b then [sh_next_id (sv s) + 1] else [])\<rparr>"
  have t: "srv_conns ?t"
    using assms c new unfolding srv_conns_def srv_shape_def srv_queues_def th_ids_def
    by (auto simp: le_Suc_eq)
  show ?thesis
  proof (cases "b \<and> r = Terminal")
    case True
    then show ?thesis
      using srv_conns_fans [OF t, of "apply_size enc ok rws cls True s'"
          "srv_step enc s (OpenClient r rws cls ok)"] o c
      by (simp add: fans_apply_size)
  next
    case False
    then show ?thesis using t o c by (cases b) simp_all
  qed
qed (simp add: client_open_def assms)

lemma srv_conns_sv:
  "srv_conns s \<Longrightarrow> fans (sv s) s' \<Longrightarrow> srv_conns (s\<lparr>sv := s'\<rparr>)"
  "srv_conns s \<Longrightarrow> fans (sv s) s' \<Longrightarrow> srv_conns (s\<lparr>sv := s', sv_refused := r\<rparr>)"
  by (rule srv_conns_fans; simp)+

lemma srv_conns_step: "srv_conns s \<Longrightarrow> srv_conns (srv_step enc s e)"
proof (cases e)
  case (WriterTurn i ok)
  assume "srv_conns s"
  with WriterTurn show ?thesis
    using writer_turn_keeps(3) [of ok "sh_conns (sv s) i"]
    by (auto simp: srv_conns_def srv_shape_def srv_queues_def th_ids_def writer_turn_keeps(1,2)
        intro: le_trans)
qed (simp_all del: srv_step.simps(5-12) add: srv_conns_OpenClient srv_conns_PushClient
      srv_conns_AnnounceAttached srv_conns_ClientFrame srv_conns_SocketEnd srv_conns_LeaveClient
      srv_conns_AnnounceDetached srv_conns_sv fans_serve_read fans_record_denial fans_log_event
      fans_request_stop fans_finish fans_same)

interpretation srv_conns_run: invariant_fold "srv_step enc" srv_conns for enc
  by unfold_locales (rule srv_conns_step)

lemma srv_conns_new: "srv_conns (server_new child at)"
  by (simp add: srv_conns_def srv_shape_def srv_queues_def server_new_def shared_new_def th_ids_def)

lemma srv_conns_always: "srv_conns (srv_run enc child at evs)"
  unfolding srv_run_def by (rule srv_conns_run.foldl_inv) (rule srv_conns_new)

end
