(* ===== verification/Supervisor_Log.thy ===== *)
theory Supervisor_Log
  imports Supervisor_Inv
begin

text \<open>
  What the log of a session says of its clients and of its refusals. \<open>level\<close> is kept by whatever
  announces a terminal that it drops and no other; \<open>fair\<close> by whatever moves the counts of refusals
  between the tally and the log without changing their sum.
\<close>

section \<open>The kinds of the log\<close>

definition kinds :: "shared \<Rightarrow> session_event_kind list" where
  "kinds s = map ev_kind (sh_log s)"

definition is_terminal_client :: "shared \<Rightarrow> nat \<Rightarrow> bool" where
  "is_terminal_client s i \<longleftrightarrow> i \<in> set (sh_clients s) \<and> cn_role (sh_conns s i) = Terminal"

lemma log_event_keeps [simp]:
  "kinds (log_event enc k s) = kinds s @ [k]"
  "sh_phase (log_event enc k s) = sh_phase s"
  "sh_tally (log_event enc k s) = sh_tally s"
  "sh_instant (log_event enc k s) = sh_instant s"
  "sh_alt (log_event enc k s) = sh_alt s"
  "sh_stop_cause (log_event enc k s) = sh_stop_cause s"
  by (simp_all add: log_event_def kinds_def Let_def split: option.split prod.split)

lemma log_events_Nil [simp]: "log_events enc [] s = s"
  by (simp add: log_events_def)

lemma log_events_Cons [simp]: "log_events enc (k # ks) s = log_events enc ks (log_event enc k s)"
  by (simp add: log_events_def)

lemma log_events_keeps [simp]:
  "kinds (log_events enc ks s) = kinds s @ ks"
  "sh_phase (log_events enc ks s) = sh_phase s"
  "sh_tally (log_events enc ks s) = sh_tally s"
  "sh_stop_cause (log_events enc ks s) = sh_stop_cause s"
  by (induction ks arbitrary: s) simp_all

lemma visited_kinds [simp]: "kinds (visited f s) = kinds s"
  by (simp add: kinds_def)

lemma fans_distinct: "fans s s' \<Longrightarrow> distinct (sh_clients s) \<Longrightarrow> distinct (sh_clients s')"
  by (simp add: fans_def)

lemma log_event_terminals [simp]:
  assumes "distinct (sh_clients s)"
  shows "is_terminal_client (log_event enc k s) i = is_terminal_client s i"
  unfolding log_event_visits [OF assms]
  by (auto simp: is_terminal_client_def event_frame_def enqueue_keeps split: option.split)

lemma log_events_terminals [simp]:
  "distinct (sh_clients s) \<Longrightarrow> is_terminal_client (log_events enc ks s) i = is_terminal_client s i"
  by (induction ks arbitrary: s) (simp_all add: fans_distinct [OF fans_log_event])

section \<open>Terminals come and go in the log\<close>

definition attached :: "shared \<Rightarrow> nat \<Rightarrow> nat" where
  "attached s i = count_list (kinds s) (EvAttached (of_nat i))"

definition detached :: "shared \<Rightarrow> nat \<Rightarrow> nat" where
  "detached s i = count_list (kinds s) (EvDetached (of_nat i))"

definition numbered :: "shared \<Rightarrow> bool" where
  "numbered s \<longleftrightarrow> distinct (sh_clients s) \<and> (\<forall>i \<in> set (sh_clients s). i \<le> sh_next_id s)
     \<and> sh_next_id s < 2 ^ 64"

definition level :: "shared \<Rightarrow> shared \<Rightarrow> bool" where
  "level s s' \<longleftrightarrow>
     fans s s' \<and> (sh_phase s' = PhaseExited \<longleftrightarrow> sh_phase s = PhaseExited)
     \<and> (numbered s \<longrightarrow>
          (\<forall>i < 2 ^ 64. attached s' i = attached s i
             \<and> detached s' i + of_bool (is_terminal_client s' i)
                 = detached s i + of_bool (is_terminal_client s i)))"

lemma fans_numbered: "fans s s' \<Longrightarrow> numbered s \<Longrightarrow> numbered s'"
  by (auto simp: fans_def numbered_def)

lemma level_refl [simp]: "level s s"
  by (simp add: level_def)

lemma level_trans [trans]: "level s s' \<Longrightarrow> level s' s'' \<Longrightarrow> level s s''"
  unfolding level_def by (auto intro: fans_trans dest: fans_numbered)

lemma level_fold: "(\<And>s x. level s (f s x)) \<Longrightarrow> level s (foldl f s xs)"
  by (induction xs arbitrary: s) (auto intro: level_trans)

text \<open>Changes that the announcements do not depend on.\<close>

lemma level_same:
  "sh_next_id s' = sh_next_id s \<Longrightarrow> sh_clients s' = sh_clients s \<Longrightarrow> sh_conns s' = sh_conns s \<Longrightarrow>
   sh_log s' = sh_log s \<Longrightarrow> (sh_phase s' = PhaseExited \<longleftrightarrow> sh_phase s = PhaseExited) \<Longrightarrow> level s s'"
  by (simp add: level_def fans_same attached_def detached_def kinds_def is_terminal_client_def)

definition about_clients :: "session_event_kind \<Rightarrow> bool" where
  "about_clients k \<longleftrightarrow> (case k of EvAttached i \<Rightarrow> True | EvDetached i \<Rightarrow> True | _ \<Rightarrow> False)"

lemma level_log_event: "\<not> about_clients k \<Longrightarrow> level s (log_event enc k s)"
  by (auto simp: level_def fans_log_event attached_def detached_def numbered_def about_clients_def)

lemma level_log_events: "\<forall>k \<in> set ks. \<not> about_clients k \<Longrightarrow> level s (log_events enc ks s)"
  by (induction ks arbitrary: s) (auto intro: level_trans [OF level_log_event])

lemma level_set_tally: "level s (s\<lparr>sh_tally := t\<rparr>)"
  by (rule level_same) simp_all

lemma level_record_denial: "level s (record_denial enc kls name s)"
  by (simp add: record_denial_def Let_def denial_event_def about_clients_def level_set_tally
      level_trans [OF level_set_tally level_log_event] split: prod.split option.split)

lemma count_dropped:
  assumes "distinct xs" and "\<forall>j \<in> set xs. j < 2 ^ 64" and "i < 2 ^ 64"
  shows "count_list (map (\<lambda>j. EvDetached (of_nat j)) xs) (EvDetached (of_nat i)) = of_bool (i \<in> set xs)"
  using assms
proof (induction xs)
  case (Cons j xs)
  then have "take_bit 64 j = j" "take_bit 64 i = i" by (auto intro!: take_bit_nat_eq_self)
  then have "(of_nat j :: u64) = of_nat i \<longleftrightarrow> j = i"
    by (simp add: word_of_nat_eq_iff take_bit_nat_eq_self)
  with Cons show ?case by auto
qed simp

lemma count_list_dropped_attached:
  "count_list (map (\<lambda>j. EvDetached (f j)) xs) (EvAttached i) = 0"
  by (induction xs) simp_all

lemma level_broadcast: "level s (broadcast enc bs s)"
proof (cases "numbered s")
  case True
  then have d: "distinct (sh_clients s)" by (simp add: numbered_def)
  define f where "f = terminal_frames enc (wire_chunks OUTPUT bs)"
  define s0 where "s0 = s\<lparr>sh_ring := ring_push (sh_ring s) bs, sh_alt := alt_feed (sh_alt s) bs\<rparr>"
  define s1 where "s1 = visited f s0"
  define gone where "gone = filter (\<lambda>i. i \<notin> set (sh_clients s1)) (sh_clients s)"
  have b: "broadcast enc bs s = log_events enc (map (\<lambda>i. EvDetached (of_nat i)) gone) s1"
    by (simp add: broadcast_visits [OF d] Let_def gone_def s1_def s0_def f_def)
  have d1: "distinct (sh_clients s1)" using d by (simp add: s1_def s0_def)
  have k1: "kinds s1 = kinds s" by (simp add: s1_def s0_def kinds_def)
  have role: "cn_role (snd (f c)) = cn_role c" for c by (simp add: f_def terminal_frames_keeps)
  have control: "cn_role c = Control \<Longrightarrow> fst (f c)" for c by (simp add: f_def terminal_frames_def)
  have terminals: "of_bool (i \<in> set gone) + of_bool (is_terminal_client s1 i)
      = (of_bool (is_terminal_client s i) :: nat)" for i
    using role control [of "sh_conns s i"]
    by (cases "cn_role (sh_conns s i)") (auto simp: is_terminal_client_def gone_def s1_def s0_def)
  have small: "\<forall>j \<in> set gone. j < 2 ^ 64"
    using True by (auto simp: gone_def numbered_def)
  have "distinct gone" using d by (simp add: gone_def)
  note counts = count_dropped [OF this small]
  show ?thesis
    unfolding level_def
  proof (intro conjI impI allI)
    show "fans s (broadcast enc bs s)" by (rule fans_broadcast)
    show "(sh_phase (broadcast enc bs s) = PhaseExited) = (sh_phase s = PhaseExited)"
      by (simp add: b s1_def s0_def)
    fix i :: nat
    assume "i < 2 ^ 64"
    then show "attached (broadcast enc bs s) i = attached s i"
      by (simp add: b attached_def count_list_dropped_attached k1)
    show "detached (broadcast enc bs s) i + of_bool (is_terminal_client (broadcast enc bs s) i)
        = detached s i + of_bool (is_terminal_client s i)"
      using counts [OF \<open>i < 2 ^ 64\<close>] terminals [of i]
      by (simp add: b d1 detached_def k1)
  qed
next
  case False
  have "sh_phase (broadcast enc bs s) = sh_phase s"
    by (simp add: broadcast_def Let_def split: prod.split)
  with False show ?thesis by (simp add: level_def fans_broadcast)
qed

lemma level_serve_read: "level s (serve_read enc bs s)"
proof -
  have "level s (foldl (\<lambda>s n. record_denial enc ''terminal'' n s) (s\<lparr>sh_filter := f\<rparr>) names)" for f names
    by (rule level_trans [OF level_same level_fold]) (simp_all add: level_record_denial)
  then show ?thesis
    by (auto simp: serve_read_def Let_def intro: level_trans [OF _ level_broadcast] split: prod.split)
qed

lemma level_apply_size: "level s (apply_size enc ok rws cls force s)"
proof -
  have 1: "level s (log_event enc (EvResized a b) (s\<lparr>sh_rows := rws, sh_cols := cls, sh_sizes := z\<rparr>))" for a b z
    by (rule level_trans [OF level_same level_log_event]) (simp_all add: about_clients_def)
  have 2: "level s (s\<lparr>sh_rows := rws, sh_cols := cls\<rparr>)" by (rule level_same) simp_all
  have 3: "level s s1 \<Longrightarrow> level s (log_event enc (EvResized a b) (s1\<lparr>sh_sizes := z\<rparr>))" for s1 a b z
    by (erule level_trans, rule level_trans [OF level_same level_log_event]) (simp_all add: about_clients_def)
  show ?thesis using 1 2 3 by (simp add: apply_size_def Let_def)
qed

lemma level_request_stop: "level s (request_stop enc by cause s)"
proof (cases "sh_phase s = PhaseRunning")
  case True
  then have "level s (s\<lparr>sh_phase := PhaseStopping, sh_stop_cause := Some cause\<rparr>)"
    by (intro level_same) simp_all
  with True show ?thesis
    by (simp add: request_stop_def about_clients_def level_trans [OF _ level_log_event])
qed (simp add: request_stop_def)

lemma level_client_frame: "level s (snd (client_frame enc ok i f s))"
proof -
  have "level s (s\<lparr>sh_conns := (sh_conns s)(i := snd (chan_send (MData frame)
      ((sh_conns s i)\<lparr>cn_queued := cn_queued (sh_conns s i) + length frame\<rparr>)))\<rparr>)"
    if c: "cn_role (sh_conns s i) = Control" for frame
    using c by (auto simp: level_def fans_def chan_send_def conn_ok_def chan_bytes_def attached_def
        detached_def kinds_def is_terminal_client_def)
  then show ?thesis
    by (auto simp: client_frame_def Let_def level_request_stop level_apply_size intro: level_same
        split: option.split)
qed

text \<open>A terminal that came and has not been announced counts as announced, on either side.\<close>

definition came :: "server \<Rightarrow> nat \<Rightarrow> nat" where
  "came s i = attached (sv s) i + of_bool (i \<in> set (th_attaching s))"

definition went :: "server \<Rightarrow> nat \<Rightarrow> nat" where
  "went s i = detached (sv s) i + of_bool (i \<in> set (th_detaching s))
     + of_bool (is_terminal_client (sv s) i)"

definition balanced_at :: "server \<Rightarrow> nat \<Rightarrow> bool" where
  "balanced_at s i \<longleftrightarrow>
     went s i \<le> came s i \<and> came s i \<le> 1
     \<and> (sh_phase (sv s) \<noteq> PhaseExited \<longrightarrow> went s i = came s i)
     \<and> (sh_next_id (sv s) < i \<or> i \<in> set (th_opening s) \<longrightarrow> came s i = 0)"

definition balanced :: "server \<Rightarrow> bool" where
  "balanced s \<longleftrightarrow> (sh_next_id (sv s) < 2 ^ 64 \<longrightarrow> (\<forall>i < 2 ^ 64. balanced_at s i))"

lemma shape_numbered: "srv_shape s \<Longrightarrow> sh_next_id (sv s) < 2 ^ 64 \<Longrightarrow> numbered (sv s)"
  by (auto simp: srv_shape_def numbered_def th_ids_def)

lemma shape_fans_next: "srv_shape s \<Longrightarrow> fans (sv s) s' \<Longrightarrow> sh_next_id s' = sh_next_id (sv s)"
  by (simp add: fans_def srv_shape_def)

lemma balanced_level:
  assumes "srv_shape s" "balanced s" "level (sv s) s'" "sv t = s'"
    "th_opening t = th_opening s" "th_attaching t = th_attaching s" "th_detaching t = th_detaching s"
  shows "balanced t"
proof -
  have next_id: "sh_next_id s' = sh_next_id (sv s)"
    by (rule shape_fans_next [OF assms(1)]) (use assms(3) in \<open>simp add: level_def\<close>)
  have "balanced_at t i" if n: "sh_next_id (sv s) < 2 ^ 64" and i: "i < 2 ^ 64" for i
  proof -
    from assms(3) shape_numbered [OF assms(1) n] i
    have "attached s' i = attached (sv s) i"
      "detached s' i + of_bool (is_terminal_client s' i) = detached (sv s) i + of_bool (is_terminal_client (sv s) i)"
      unfolding level_def by blast+
    then have "came t i = came s i" "went t i = went s i"
      using assms(4-7) by (simp_all add: came_def went_def)
    moreover have "balanced_at s i" using assms(2) n i by (simp add: balanced_def)
    moreover have "sh_phase s' = PhaseExited \<longleftrightarrow> sh_phase (sv s) = PhaseExited"
      using assms(3) by (simp add: level_def)
    ultimately show ?thesis using next_id assms(4-7) by (simp add: balanced_at_def)
  qed
  then show ?thesis using next_id assms(4) by (simp add: balanced_def)
qed

text \<open>The conjuncts for one client, read off the step.\<close>

lemma balancedI:
  assumes "\<And>i. sh_next_id (sv t) < 2 ^ 64 \<Longrightarrow> i < 2 ^ 64 \<Longrightarrow> balanced_at t i"
  shows "balanced t"
  using assms by (simp add: balanced_def)

lemma balanced_at_same:
  assumes "balanced_at s i" "came t i = came s i" "went t i = went s i"
    "sh_phase (sv t) = sh_phase (sv s)" "sh_next_id (sv s) \<le> sh_next_id (sv t)"
    "i \<in> set (th_opening t) \<Longrightarrow> i \<in> set (th_opening s) \<or> sh_next_id (sv s) < i"
  shows "balanced_at t i"
  using assms by (auto simp: balanced_at_def)

lemma of_nat_u64_eq: "i < 2 ^ 64 \<Longrightarrow> j < 2 ^ 64 \<Longrightarrow> (of_nat i :: u64) = of_nat j \<longleftrightarrow> i = j"
proof -
  assume "i < 2 ^ 64" "j < 2 ^ 64"
  then have "take_bit 64 j = j" "take_bit 64 i = i" by (auto intro!: take_bit_nat_eq_self)
  then show ?thesis by (simp add: word_of_nat_eq_iff)
qed

lemma shape_client_known: "srv_shape s \<Longrightarrow> i \<in> set (sh_clients (sv s)) \<Longrightarrow> i \<le> sh_next_id (sv s)"
  unfolding srv_shape_def th_ids_def set_append by blast

lemma shape_opening_place:
  "srv_shape s \<Longrightarrow> i \<in> set (th_opening s) \<Longrightarrow>
     i \<notin> set (th_attaching s) \<and> i \<notin> set (th_detaching s) \<and> i \<notin> set (sh_clients (sv s)) \<and> i \<le> sh_next_id (sv s)"
  by (auto simp: srv_shape_def th_ids_def)

lemma balanced_PushClient:
  assumes "srv_shape s" "balanced s" shows "balanced (srv_step enc s (PushClient i))"
proof (cases "i \<in> set (th_opening s)")
  case True
  let ?t = "srv_step enc s (PushClient i)"
  note place = shape_opening_place [OF assms(1) True]
  show ?thesis
  proof (rule balancedI)
    fix j :: nat
    assume n: "sh_next_id (sv ?t) < 2 ^ 64" and j: "j < 2 ^ 64"
    with True have b: "balanced_at s j" using assms(2) by (simp add: balanced_def client_push_def split: if_splits)
    show "balanced_at ?t j"
    proof (cases "j = i")
      case False
      with b True show ?thesis
        by (auto simp: balanced_at_def came_def went_def client_push_def attached_def detached_def
            kinds_def is_terminal_client_def)
    next
      case True
      with b \<open>i \<in> set (th_opening s)\<close> place show ?thesis
        by (auto simp: balanced_at_def came_def went_def client_push_def attached_def detached_def
            kinds_def is_terminal_client_def)
    qed
  qed
qed (simp add: assms)

lemma balanced_same_places:
  assumes "balanced s" "\<And>i. came t i = came s i" "\<And>i. went t i = went s i"
    "sh_phase (sv t) = sh_phase (sv s)" "sh_next_id (sv s) = sh_next_id (sv t)"
    "th_opening t = th_opening s"
  shows "balanced t"
proof (rule balancedI)
  fix i :: nat
  assume "sh_next_id (sv t) < 2 ^ 64" "i < 2 ^ 64"
  with assms(1,5) have "balanced_at s i" by (simp add: balanced_def)
  then show "balanced_at t i" by (rule balanced_at_same) (use assms in simp_all)
qed

lemma balanced_SocketEnd: "balanced s \<Longrightarrow> balanced (srv_step enc s (SocketEnd i))"
  by (auto simp: came_def went_def intro: balanced_same_places)

lemma balanced_WriterTurn: "balanced s \<Longrightarrow> balanced (srv_step enc s (WriterTurn i ok))"
  by (rule balanced_same_places [of s])
     (simp_all add: came_def went_def attached_def detached_def kinds_def is_terminal_client_def
       writer_turn_keeps)

lemma balanced_LeaveClient:
  assumes "srv_shape s" "balanced s" shows "balanced (srv_step enc s (LeaveClient i))"
proof (cases "i \<in> set (th_leaving s)")
  case True
  then have away: "i \<notin> set (th_detaching s)" using assms(1) by (auto simp: srv_shape_def th_ids_def)
  let ?t = "srv_step enc s (LeaveClient i)"
  have went: "went ?t j = went s j" for j
    using True away
    by (cases "j = i")
       (auto simp: went_def client_leave_def Let_def detached_def kinds_def is_terminal_client_def
         chan_send_end_keeps)
  have came: "came ?t j = came s j" for j
    using True by (simp add: came_def client_leave_def Let_def attached_def kinds_def)
  show ?thesis
    by (rule balanced_same_places [OF assms(2) came went]) (use True in \<open>simp_all add: client_leave_def Let_def\<close>)
qed (simp add: assms)

lemma balanced_AnnounceAttached:
  assumes "srv_shape s" "balanced s" shows "balanced (srv_step enc s (AnnounceAttached i))"
proof (cases "i \<in> set (th_attaching s)")
  case True
  let ?t = "srv_step enc s (AnnounceAttached i)"
  have d: "distinct (sh_clients (sv s))" and i: "i \<le> sh_next_id (sv s)"
    using assms(1) True by (auto simp: srv_shape_def th_ids_def)
  have next_id: "sh_next_id (sv ?t) = sh_next_id (sv s)"
    using True by (simp add: shape_fans_next [OF assms(1) fans_log_event])
  show ?thesis
  proof (rule balancedI)
    fix j :: nat
    assume n: "sh_next_id (sv ?t) < 2 ^ 64" and j: "j < 2 ^ 64"
    then have b: "balanced_at s j" using assms(2) next_id by (simp add: balanced_def)
    have "i < 2 ^ 64" using i n unfolding next_id by (rule le_less_trans)
    then have "(of_nat i :: u64) = of_nat j \<longleftrightarrow> i = j" using j by (rule of_nat_u64_eq)
    then have "came ?t j = came s j" "went ?t j = went s j"
      using True d by (auto simp: came_def went_def attached_def detached_def)
    with b show "balanced_at ?t j" by (rule balanced_at_same) (use next_id True in simp_all)
  qed
qed (simp add: assms)

lemma balanced_AnnounceDetached:
  assumes "srv_shape s" "balanced s" shows "balanced (srv_step enc s (AnnounceDetached i))"
proof (cases "i \<in> set (th_detaching s)")
  case True
  let ?t = "srv_step enc s (AnnounceDetached i)"
  have d: "distinct (sh_clients (sv s))" and i: "i \<le> sh_next_id (sv s)"
    using assms(1) True by (auto simp: srv_shape_def th_ids_def)
  have next_id: "sh_next_id (sv ?t) = sh_next_id (sv s)"
    using True by (simp add: shape_fans_next [OF assms(1) fans_log_event])
  show ?thesis
  proof (rule balancedI)
    fix j :: nat
    assume n: "sh_next_id (sv ?t) < 2 ^ 64" and j: "j < 2 ^ 64"
    then have b: "balanced_at s j" using assms(2) next_id by (simp add: balanced_def)
    have "i < 2 ^ 64" using i n unfolding next_id by (rule le_less_trans)
    then have "(of_nat i :: u64) = of_nat j \<longleftrightarrow> i = j" using j by (rule of_nat_u64_eq)
    then have "came ?t j = came s j" "went ?t j = went s j"
      using True d by (auto simp: came_def went_def attached_def detached_def)
    with b show "balanced_at ?t j" by (rule balanced_at_same) (use next_id True in simp_all)
  qed
qed (simp add: assms)

lemma balanced_ClientFrame:
  assumes "srv_shape s" "balanced s" shows "balanced (srv_step enc s (ClientFrame i ok f))"
proof (cases "i \<in> set (th_live s)")
  case True
  obtain b s' where f: "client_frame enc ok i f (sv s) = (b, s')" by fastforce
  show ?thesis
    by (rule balanced_level [OF assms level_client_frame [of _ enc ok i f]])
       (use True f in \<open>cases b; simp\<close>)+
qed (simp add: assms)

lemma balanced_OpenClient:
  assumes "srv_conns s" "balanced s" shows "balanced (srv_step enc s (OpenClient r rws cls ok))"
proof (cases "sh_phase (sv s) = PhaseExited")
  case False
  obtain b s' where o: "client_open enc r (sv s) = (b, s')" by fastforce
  from client_open_shape [OF o False] obtain c where c:
    "s' = (sv s)\<lparr>sh_next_id := sh_next_id (sv s) + 1, sh_conns := (sh_conns (sv s))(sh_next_id (sv s) + 1 := c)\<rparr>"
    by blast
  let ?t = "srv_step enc s (OpenClient r rws cls ok)"
  let ?m = "?t\<lparr>sv := s'\<rparr>"
  have sh: "srv_shape s" using assms(1) by (simp add: srv_conns_def)
  then have away: "sh_next_id (sv s) + 1 \<notin> set (sh_clients (sv s))"
    using shape_client_known [of s "sh_next_id (sv s) + 1"] by auto
  have "balanced ?m"
  proof (rule balancedI)
    fix i :: nat
    assume "sh_next_id (sv ?m) < 2 ^ 64" "i < 2 ^ 64"
    then have "balanced_at s i" using assms(2) c by (simp add: balanced_def)
    then show "balanced_at ?m i"
      by (rule balanced_at_same)
         (use c o away in \<open>auto simp: came_def went_def attached_def detached_def kinds_def
            is_terminal_client_def split: if_splits prod.splits bool.splits\<close>)
  qed
  moreover have "srv_shape ?m"
    using srv_conns_OpenClient [OF assms(1), of enc r rws cls ok] o c sh
    unfolding srv_conns_def srv_shape_def th_ids_def
    by (cases b) (auto simp: le_Suc_eq)
  moreover have "level s' (sv ?t)" using o by (cases b) (auto simp: level_apply_size)
  ultimately show ?thesis by (rule_tac balanced_level [of ?m _ ?t]) simp_all
qed (simp add: client_open_def assms)

text \<open>The end: what is still folded, then the exit, then every client is gone.\<close>

lemma finish_keeps:
  "kinds (finish enc code sig s) =
     kinds s @ map denial_event (snd (tally_flush (sh_tally s) (sh_instant s))) @ [EvExited code sig]"
  "sh_phase (finish enc code sig s) = PhaseExited"
  "sh_clients (finish enc code sig s) = []"
  "sh_tally (finish enc code sig s) = fst (tally_flush (sh_tally s) (sh_instant s))"
proof -
  obtain t counts where f: "tally_flush (sh_tally s) (sh_instant s) = (t, counts)" by fastforce
  define e where "e = log_event enc (EvExited code sig)
     ((log_events enc (map denial_event counts) (s\<lparr>sh_tally := t\<rparr>))\<lparr>sh_phase := PhaseExited\<rparr>)"
  have k: "kinds e = kinds s @ map denial_event counts @ [EvExited code sig]"
  proof -
    have 1: "kinds (s\<lparr>sh_tally := t\<rparr>) = kinds s" by (simp add: kinds_def)
    have 2: "kinds (u\<lparr>sh_phase := p\<rparr>) = kinds u" for u p by (simp add: kinds_def)
    show ?thesis by (simp add: e_def 1 2)
  qed
  have e: "sh_phase e = PhaseExited" "sh_tally e = t" by (simp_all add: e_def)
  have fin: "\<exists>cs. finish enc code sig s = e\<lparr>sh_conns := cs, sh_clients := [], sh_socket := False\<rparr>"
    unfolding finish_def Let_def f prod.case e_def [symmetric] by blast
  then show "kinds (finish enc code sig s) =
     kinds s @ map denial_event (snd (tally_flush (sh_tally s) (sh_instant s))) @ [EvExited code sig]"
    "sh_phase (finish enc code sig s) = PhaseExited"
    "sh_clients (finish enc code sig s) = []"
    "sh_tally (finish enc code sig s) = fst (tally_flush (sh_tally s) (sh_instant s))"
    using k e f by (auto simp: kinds_def)
qed

lemma count_denial_events [simp]:
  "count_list (map denial_event rs) (EvAttached i) = 0"
  "count_list (map denial_event rs) (EvDetached i) = 0"
  by (induction rs) (simp_all add: denial_event_def)

lemma balanced_HarnessExit:
  assumes "srv_shape s" "balanced s" shows "balanced (srv_step enc s (HarnessExit code sig))"
proof (cases "sh_phase (sv s) = PhaseExited")
  case False
  let ?t = "srv_step enc s (HarnessExit code sig)"
  have next_id: "sh_next_id (sv ?t) = sh_next_id (sv s)"
    using False by (simp add: shape_fans_next [OF assms(1) fans_finish])
  show ?thesis
  proof (rule balancedI)
    fix i :: nat
    assume "sh_next_id (sv ?t) < 2 ^ 64" "i < 2 ^ 64"
    then have b: "balanced_at s i" using assms(2) next_id by (simp add: balanced_def)
    have "came ?t i = came s i" "went ?t i \<le> went s i"
      using False by (simp_all add: came_def went_def attached_def detached_def is_terminal_client_def finish_keeps)
    moreover have "sh_phase (sv ?t) = PhaseExited" "th_opening ?t = th_opening s"
      using False by (simp_all add: finish_keeps)
    ultimately show "balanced_at ?t i" using b next_id unfolding balanced_at_def by auto
  qed
qed (simp add: assms)

lemma balanced_sv:
  "srv_shape s \<Longrightarrow> balanced s \<Longrightarrow> level (sv s) s' \<Longrightarrow> balanced (s\<lparr>sv := s'\<rparr>)"
  "srv_shape s \<Longrightarrow> balanced s \<Longrightarrow> level (sv s) s' \<Longrightarrow> balanced (s\<lparr>sv := s', sv_refused := r\<rparr>)"
  by (rule balanced_level; simp)+

lemma balanced_step: "srv_conns s \<and> balanced s \<Longrightarrow> srv_conns (srv_step enc s e) \<and> balanced (srv_step enc s e)"
proof -
  assume inv: "srv_conns s \<and> balanced s"
  then have "srv_shape s" by (simp add: srv_conns_def)
  with inv have "balanced (srv_step enc s e)"
    by (cases e) (simp_all del: srv_step.simps(5-12,15) add: balanced_OpenClient balanced_PushClient
      balanced_AnnounceAttached balanced_ClientFrame balanced_SocketEnd balanced_LeaveClient
      balanced_AnnounceDetached balanced_WriterTurn balanced_HarnessExit balanced_sv
      level_serve_read level_record_denial level_log_event about_clients_def level_request_stop level_same)
  with inv show ?thesis by (simp add: srv_conns_step)
qed

interpretation balanced_run: invariant_fold "srv_step enc" "\<lambda>s. srv_conns s \<and> balanced s" for enc
  by unfold_locales (rule balanced_step)

lemma balanced_always: "balanced (srv_run enc child at evs)"
  unfolding srv_run_def
  by (rule conjunct2 [OF balanced_run.foldl_inv], rule conjI [OF srv_conns_new])
     (simp add: balanced_def balanced_at_def came_def went_def attached_def detached_def kinds_def
       is_terminal_client_def server_new_def shared_new_def)

text \<open>Each step numbers at most one client.\<close>

lemma next_id_step:
  assumes "srv_conns s" shows "sh_next_id (sv (srv_step enc s e)) \<le> sh_next_id (sv s) + 1"
proof -
  have sh: "srv_shape s" using assms by (simp add: srv_conns_def)
  note f = shape_fans_next [OF sh]
  show ?thesis
  proof (cases e)
    case (OpenClient r rws cls ok)
    obtain b s' where o: "client_open enc r (sv s) = (b, s')" by fastforce
    have n: "sh_next_id s' \<le> sh_next_id (sv s) + 1" and c: "sh_clients s' = sh_clients (sv s)"
      using o by (auto simp: client_open_def Let_def split: if_splits prod.splits)
    have "distinct (sh_clients s')" using sh c by (simp add: srv_shape_def)
    then have "sh_next_id (apply_size enc ok rws cls True s') = sh_next_id s'"
      using fans_apply_size [of s' enc ok rws cls True] by (simp add: fans_def)
    with OpenClient o n show ?thesis by (cases b) simp_all
  next
    case (ClientFrame i ok fr)
    obtain b s' where o: "client_frame enc ok i fr (sv s) = (b, s')" by fastforce
    with f [OF fans_client_frame [of _ enc ok i fr]] have "sh_next_id s' = sh_next_id (sv s)" by simp
    with ClientFrame o show ?thesis by (cases b) simp_all
  qed (simp_all add: f [OF fans_serve_read] f [OF fans_record_denial] f [OF fans_log_event]
      f [OF fans_request_stop] f [OF fans_finish] client_push_def client_leave_def Let_def)
qed

lemma next_id_run: "sh_next_id (sv (srv_run enc child at evs)) \<le> length evs"
proof (induction evs rule: rev_induct)
  case (snoc e evs)
  then show ?case
    using next_id_step [OF srv_conns_always [of enc child at evs], of enc e] by (simp add: srv_run_def)
qed (simp add: srv_run_def server_new_def shared_new_def)

section \<open>What a call can say\<close>

text \<open>\<open>says P\<close>: the log grows by events of the kinds \<open>P\<close> only.\<close>

definition says :: "(session_event_kind \<Rightarrow> bool) \<Rightarrow> shared \<Rightarrow> shared \<Rightarrow> bool" where
  "says P s s' \<longleftrightarrow> (\<exists>es. sh_log s' = sh_log s @ es \<and> (\<forall>e \<in> set es. P (ev_kind e)))"

lemma says_trans: "says P s s' \<Longrightarrow> says P s' s'' \<Longrightarrow> says P s s''"
  by (auto simp: says_def)

lemma says_same: "sh_log s' = sh_log s \<Longrightarrow> says P s s'"
  by (simp add: says_def)

lemma says_log_event: "P k \<Longrightarrow> sh_log s' = sh_log s \<Longrightarrow> says P s (log_event enc k s')"
  by (auto simp: says_def log_event_def Let_def split: option.split prod.split)

lemma says_log_events:
  "\<forall>k \<in> set ks. P k \<Longrightarrow> sh_log s' = sh_log s \<Longrightarrow> says P s (log_events enc ks s')"
proof (induction ks arbitrary: s s')
  case (Cons k ks)
  then have "says P s (log_event enc k s')" by (simp add: says_log_event)
  moreover have "says P (log_event enc k s') (log_events enc ks (log_event enc k s'))" using Cons by simp
  ultimately show ?case by (simp add: says_trans)
qed (simp add: says_same)

lemma says_record_denial:
  "(\<And>c n cnt. P (EvSandboxDenied c n cnt)) \<Longrightarrow> sh_log s' = sh_log s \<Longrightarrow> says P s (record_denial enc kls name s')"
  by (simp add: record_denial_def Let_def denial_event_def says_same says_log_event split: prod.split option.split)

lemma says_broadcast:
  "(\<And>i. P (EvDetached i)) \<Longrightarrow> sh_log s' = sh_log s \<Longrightarrow> says P s (broadcast enc bs s')"
  by (simp add: broadcast_def Let_def says_log_events split: prod.split)

lemma says_apply_size:
  assumes "\<And>a b. P (EvResized a b)" and "sh_log s' = sh_log s"
  shows "says P s (apply_size enc ok rws cls force s')"
proof -
  have "says P s s1 \<Longrightarrow> says P s (log_event enc (EvResized a b) (s1\<lparr>sh_sizes := z\<rparr>))" for s1 a b z
    by (erule says_trans) (simp add: says_log_event assms(1))
  then show ?thesis using assms by (simp add: apply_size_def Let_def says_log_event says_same)
qed

lemma says_request_stop: "(\<And>by. P (EvStopRequested by)) \<Longrightarrow> says P s (request_stop enc by cause s)"
  by (simp add: request_stop_def says_same says_log_event)

lemma says_client_frame:
  "(\<And>a b. P (EvResized a b)) \<Longrightarrow> (\<And>by. P (EvStopRequested by)) \<Longrightarrow>
   says P s (snd (client_frame enc ok i f s))"
  by (simp add: client_frame_def Let_def says_apply_size says_request_stop says_same split: option.split)

lemma says_client_open: "sh_log (snd (client_open enc r s)) = sh_log s"
  by (simp add: client_open_def Let_def split: prod.split)

lemma says_record_denials:
  "(\<And>c n cnt. P (EvSandboxDenied c n cnt)) \<Longrightarrow> sh_log s' = sh_log s \<Longrightarrow>
   says P s (foldl (\<lambda>s n. record_denial enc kls n s) s' names)"
proof (induction names arbitrary: s s')
  case (Cons n names)
  then have "says P s (record_denial enc kls n s')" by (simp add: says_record_denial)
  moreover have "says P (record_denial enc kls n s') (foldl (\<lambda>s n. record_denial enc kls n s) (record_denial enc kls n s') names)"
    by (rule Cons.IH [OF Cons.prems(1) refl])
  ultimately show ?case unfolding foldl_Cons by (rule says_trans)
qed (simp add: says_same)

lemma says_serve_read:
  assumes "\<And>c n cnt. P (EvSandboxDenied c n cnt)" "\<And>i. P (EvDetached i)"
  shows "says P s (serve_read enc bs s)"
proof -
  obtain f out names where v: "vt_feed (sh_filter s) bs = (f, out, names)" by (cases "vt_feed (sh_filter s) bs")
  define s1 where "s1 = foldl (\<lambda>s n. record_denial enc ''terminal'' n s) (s\<lparr>sh_filter := f\<rparr>) names"
  have "says P s s1" unfolding s1_def by (rule says_record_denials) (simp_all add: assms(1))
  moreover have "says P s1 (broadcast enc out s1)" by (rule says_broadcast) (rule assms(2), rule refl)
  ultimately show ?thesis
    by (simp add: serve_read_def v Let_def s1_def [symmetric] says_trans)
qed

text \<open>None of these moves the phase, and only denials touch the tally.\<close>

lemma calls_keep [simp]:
  "sh_phase (record_denial enc kls name s) = sh_phase s"
  "sh_phase (broadcast enc bs s) = sh_phase s"
  "sh_tally (broadcast enc bs s) = sh_tally s"
  "sh_phase (apply_size enc ok rws cls force s) = sh_phase s"
  "sh_tally (apply_size enc ok rws cls force s) = sh_tally s"
  "sh_tally (request_stop enc by cause s) = sh_tally s"
  "sh_phase (snd (client_open enc r s)) = sh_phase s"
  "sh_tally (snd (client_open enc r s)) = sh_tally s"
  by (simp_all add: record_denial_def broadcast_def apply_size_def request_stop_def client_open_def Let_def
      split: prod.split option.split)

lemma client_frame_tally [simp]: "sh_tally (snd (client_frame enc ok i f s)) = sh_tally s"
  by (simp add: client_frame_def Let_def split: option.split)

lemma record_denials_phase [simp]:
  "sh_phase (foldl (\<lambda>s n. record_denial enc kls n s) s names) = sh_phase s"
  by (induction names arbitrary: s) simp_all

lemma serve_read_phase [simp]: "sh_phase (serve_read enc bs s) = sh_phase s"
  by (simp add: serve_read_def Let_def split: prod.split)

section \<open>Refusals reach the log\<close>

definition denied_in :: "session_event_kind \<Rightarrow> denial \<Rightarrow> u64" where
  "denied_in k key =
     (case k of EvSandboxDenied c n cnt \<Rightarrow> if (c, n) = key then cnt else 0 | _ \<Rightarrow> 0)"

definition denied_sum :: "session_event_kind list \<Rightarrow> denial \<Rightarrow> u64" where
  "denied_sum ks key = sum_list (map (\<lambda>k. denied_in k key) ks)"

lemma denied_sum_simps [simp]:
  "denied_sum [] key = 0"
  "denied_sum (k # ks) key = denied_in k key + denied_sum ks key"
  "denied_sum (ks @ ks') key = denied_sum ks key + denied_sum ks' key"
  by (simp_all add: denied_sum_def)

definition owed :: "shared \<Rightarrow> denial \<Rightarrow> u64" where
  "owed s key = denied_sum (kinds s) key + of_nat (folded (sh_tally s) key)"

definition no_denial :: "session_event_kind \<Rightarrow> bool" where
  "no_denial k \<longleftrightarrow> (case k of EvSandboxDenied c n cnt \<Rightarrow> False | _ \<Rightarrow> True)"

lemma denied_sum_none: "\<forall>k \<in> set ks. no_denial k \<Longrightarrow> denied_sum ks key = 0"
  by (induction ks) (auto simp: no_denial_def denied_in_def split: session_event_kind.splits)

text \<open>A call that logs no denial and leaves the tally.\<close>

definition fair :: "shared \<Rightarrow> shared \<Rightarrow> bool" where
  "fair s s' \<longleftrightarrow> sh_tally s' = sh_tally s \<and> says no_denial s s'"

lemma fair_owed: "fair s s' \<Longrightarrow> owed s' key = owed s key \<and> sh_tally s' = sh_tally s"
  by (auto simp: fair_def says_def owed_def kinds_def denied_sum_none)

lemma fair_trans: "fair s s' \<Longrightarrow> fair s' s'' \<Longrightarrow> fair s s''"
  unfolding fair_def by (auto intro: says_trans)

lemma fair_same: "sh_tally s' = sh_tally s \<Longrightarrow> sh_log s' = sh_log s \<Longrightarrow> fair s s'"
  by (simp add: fair_def says_same)

lemma fair_calls:
  "no_denial k \<Longrightarrow> fair s (log_event enc k s)"
  "fair s (broadcast enc bs s)"
  "fair s (apply_size enc ok rws cls force s)"
  "fair s (request_stop enc by cause s)"
  "fair s (snd (client_frame enc ok i f s))"
  "fair s (snd (client_open enc r s))"
  by (simp_all add: fair_def says_log_event says_broadcast says_apply_size says_request_stop
      says_client_frame says_client_open says_same no_denial_def)

lemma denied_denial_event: "denied_in (denial_event r) key = of_nat (reported [r] key)"
  by (cases r) (auto simp: denial_event_def denied_in_def)

lemma reported_Cons: "reported (r # rs) key = reported [r] key + reported rs key"
  using reported_append [of "[r]" rs key] by simp

lemma denied_sum_denial_events: "denied_sum (map denial_event rs) key = of_nat (reported rs key)"
proof (induction rs)
  case (Cons r rs)
  then show ?case by (simp only: list.map denied_sum_simps denied_denial_event reported_Cons [of r rs] of_nat_add)
qed simp

lemma record_denial_owed:
  assumes "tally_ok (sh_tally s)"
  shows "tally_ok (sh_tally (record_denial enc c n s))"
    and "owed (record_denial enc c n s) key = owed s key + of_nat (of_bool ((c, n) = key))"
proof -
  obtain t due where r: "tally_record (sh_tally s) (sh_instant s) (c, n) = (t, due)" by fastforce
  show "tally_ok (sh_tally (record_denial enc c n s))"
    using tally_ok_record [OF assms, of "sh_instant s" "(c, n)"] r
    by (simp add: record_denial_def Let_def split: option.split)
  have "reported (case due of None \<Rightarrow> [] | Some r \<Rightarrow> [r]) key + folded t key
      = folded (sh_tally s) key + of_bool ((c, n) = key)"
    using record_accounts [OF assms r, of key] by simp
  then have eq: "of_nat (reported (case due of None \<Rightarrow> [] | Some r \<Rightarrow> [r]) key) + of_nat (folded t key)
      = (of_nat (folded (sh_tally s) key) + of_nat (of_bool ((c, n) = key)) :: u64)"
    by (simp only: of_nat_add [symmetric])
  have ks: "kinds (u\<lparr>sh_tally := t\<rparr>) = kinds u" for u by (simp add: kinds_def)
  show "owed (record_denial enc c n s) key = owed s key + of_nat (of_bool ((c, n) = key))"
  proof (cases due)
    case None
    with eq r ks show ?thesis by (simp add: record_denial_def owed_def algebra_simps)
  next
    case (Some d)
    with eq r ks show ?thesis
      by (simp add: record_denial_def owed_def Let_def denied_denial_event algebra_simps del: of_nat_of_bool)
  qed
qed

lemma record_terminal_owed:
  assumes "tally_ok (sh_tally s)"
  shows "tally_ok (sh_tally (foldl (\<lambda>s n. record_denial enc c n s) s names))
    \<and> owed (foldl (\<lambda>s n. record_denial enc c n s) s names) key
        = owed s key + of_nat (count_list (map (Pair c) names) key)"
  using assms
proof (induction names arbitrary: s)
  case (Cons n names)
  note step = record_denial_owed [OF Cons.prems, of enc c n]
  show ?case
    using Cons.IH [OF step(1)] step(2) [of key] by (simp add: algebra_simps del: of_nat_of_bool)
qed simp

definition told :: "server \<Rightarrow> bool" where
  "told s \<longleftrightarrow> tally_ok (sh_tally (sv s))
     \<and> (\<forall>key. owed (sv s) key = of_nat (count_list (sv_refused s) key))"

lemma told_fair: "told s \<Longrightarrow> fair (sv s) (sv t) \<Longrightarrow> sv_refused t = sv_refused s \<Longrightarrow> told t"
  by (simp add: told_def) (metis fair_owed)

lemma told_sv:
  "told s \<Longrightarrow> fair (sv s) s' \<Longrightarrow> told (s\<lparr>sv := s'\<rparr>)"
  "told s \<Longrightarrow> told (s\<lparr>th_live := l, th_leaving := l'\<rparr>)"
  "told s \<Longrightarrow> fair (sv s) s' \<Longrightarrow> told (s\<lparr>sv := s', th_attaching := a, th_live := l\<rparr>)"
  "told s \<Longrightarrow> fair (sv s) s' \<Longrightarrow> told (s\<lparr>sv := s', th_detaching := a\<rparr>)"
  by (rule told_fair; simp add: fair_same)+

lemma told_PtyRead:
  assumes "told s" shows "told (srv_step enc s (PtyRead bs))"
proof -
  obtain f out names where v: "vt_feed (sh_filter (sv s)) bs = (f, out, names)" by (cases "vt_feed (sh_filter (sv s)) bs")
  define s0 where "s0 = (sv s)\<lparr>sh_filter := f\<rparr>"
  define s1 where "s1 = foldl (\<lambda>s n. record_denial enc ''terminal'' n s) s0 names"
  have s0: "tally_ok (sh_tally s0)" "owed s0 key = owed (sv s) key" for key
    using assms by (simp_all add: s0_def told_def owed_def kinds_def)
  have read: "serve_read enc bs (sv s) = (if out \<noteq> [] then broadcast enc out s1 else s1)"
    by (simp add: serve_read_def v Let_def s0_def s1_def)
  have "tally_ok (sh_tally s1)" "owed s1 key = owed (sv s) key + of_nat (count_list (map (Pair ''terminal'') names) key)" for key
    using record_terminal_owed [OF s0(1), of enc "''terminal''" names] s0(2) by (simp_all add: s1_def)
  then have "tally_ok (sh_tally (serve_read enc bs (sv s)))"
    "owed (serve_read enc bs (sv s)) key = owed (sv s) key + of_nat (count_list (map (Pair ''terminal'') names) key)" for key
    using fair_owed [OF fair_calls(2) [of s1 enc out]] by (simp_all add: read)
  with assms v show ?thesis by (simp add: told_def)
qed

lemma told_HarnessExit:
  assumes "told s" shows "told (srv_step enc s (HarnessExit code sig))"
proof (cases "sh_phase (sv s) = PhaseExited")
  case False
  obtain t reps where f: "tally_flush (sh_tally (sv s)) (sh_instant (sv s)) = (t, reps)" by fastforce
  from assms have ok: "tally_ok (sh_tally (sv s))" by (simp add: told_def)
  have sum: "of_nat (reported reps key) + of_nat (folded t key) = (of_nat (folded (sh_tally (sv s)) key) :: u64)" for key
    using flush_accounts [OF ok f, of key] by (simp only: of_nat_add [symmetric])
  have ok': "tally_ok t" using tally_ok_flush [OF ok, of "sh_instant (sv s)"] f by simp
  have "owed (finish enc code sig (sv s)) key = owed (sv s) key" for key
    using sum [of key]
    by (simp add: owed_def finish_keeps f denied_sum_denial_events denied_in_def algebra_simps)
  with assms False ok' f show ?thesis by (simp add: told_def finish_keeps)
qed (simp add: assms)

lemma told_step: "told s \<Longrightarrow> told (srv_step enc s e)"
proof (cases e)
  case (Refusal c n)
  assume "told s"
  with Refusal record_denial_owed [of "sv s" enc c n] show ?thesis
    by (simp add: told_def del: of_nat_of_bool)
next
  case (OpenClient r rws cls ok)
  assume t: "told s"
  obtain b s' where o: "client_open enc r (sv s) = (b, s')" by fastforce
  with fair_calls(6) [of "sv s" enc r] have f: "fair (sv s) s'" by simp
  have "fair (sv s) (sv (srv_step enc s e))"
    using o f fair_trans [OF f fair_calls(3)] by (cases b) (simp_all add: OpenClient)
  then show ?thesis by (rule told_fair [OF t]) (use OpenClient o in \<open>cases b; simp\<close>)
next
  case (ClientFrame i ok f)
  assume t: "told s"
  obtain b s' where o: "client_frame enc ok i f (sv s) = (b, s')" by fastforce
  with fair_calls(5) [of "sv s" enc ok i f] have "fair (sv s) s'" by simp
  with ClientFrame o t show ?thesis by (cases b) (auto intro: told_fair [OF t])
next
  case (LeaveClient i)
  assume t: "told s"
  show ?thesis
    by (rule told_fair [OF t]) (simp_all add: LeaveClient client_leave_def Let_def fair_same)
next
  case (PushClient i)
  assume t: "told s"
  show ?thesis
    by (rule told_fair [OF t]) (simp_all add: PushClient client_push_def fair_same)
qed (simp_all del: srv_step.simps(2,15) add: told_PtyRead told_HarnessExit told_sv fair_calls fair_same
      no_denial_def)

interpretation told_run: invariant_fold "srv_step enc" told for enc
  by unfold_locales (rule told_step)

lemma told_always: "told (srv_run enc child at evs)"
  unfolding srv_run_def
  by (rule told_run.foldl_inv)
     (simp add: told_def server_new_def shared_new_def tally_ok_def tally_new_def owed_def kinds_def folded_def)

section \<open>The phase is what the log says\<close>

definition phase_state :: "phase \<Rightarrow> session_state \<Rightarrow> bool" where
  "phase_state p st =
     (case p of
        PhaseRunning \<Rightarrow> st = Running
      | PhaseStopping \<Rightarrow> st = Stopping
      | PhaseExited \<Rightarrow> (case st of Exited c g \<Rightarrow> True | _ \<Rightarrow> False))"

definition idle :: "session_event_kind \<Rightarrow> bool" where
  "idle k =
     (case k of EvStarted p \<Rightarrow> False | EvStopRequested b \<Rightarrow> False | EvExited c g \<Rightarrow> False
      | EvFailed c m \<Rightarrow> False | _ \<Rightarrow> True)"

lemma idle_state: "idle (ev_kind e) \<Longrightarrow> s_state (apply_event s e) = s_state s"
  by (auto simp: idle_def apply_event_def split: session_event_kind.splits)

lemma idle_states: "\<forall>e \<in> set es. idle (ev_kind e) \<Longrightarrow> s_state (foldl apply_event s es) = s_state s"
  by (induction es arbitrary: s) (simp_all add: idle_state)

text \<open>The log of the session as a whole: what the start wrote, then what the server wrote.\<close>

definition log_state :: "session_spec \<Rightarrow> session_event list \<Rightarrow> shared \<Rightarrow> session_state" where
  "log_state sp before s = s_state (from_log sp (before @ sh_log s))"

definition in_step :: "session_spec \<Rightarrow> session_event list \<Rightarrow> shared \<Rightarrow> bool" where
  "in_step sp before s \<longleftrightarrow> phase_state (sh_phase s) (log_state sp before s)"

lemma says_idle: "says idle s s' \<Longrightarrow> log_state sp before s' = log_state sp before s"
  by (auto simp: says_def log_state_def from_log_def idle_states)

lemma in_step_idle: "in_step sp before s \<Longrightarrow> says idle s s' \<Longrightarrow> sh_phase s' = sh_phase s \<Longrightarrow> in_step sp before s'"
  by (simp add: in_step_def says_idle)

lemma log_state_log_event:
  "sh_log s' = sh_log s \<Longrightarrow> log_state sp before (log_event enc k s') =
     s_state (apply_event (from_log sp (before @ sh_log s)) (stamped s' k))"
proof -
  assume "sh_log s' = sh_log s"
  then have "sh_log (log_event enc k s') = sh_log s @ [stamped s' k]"
    by (simp add: log_event_def stamped_def Let_def split: option.split prod.split)
  then show ?thesis by (simp add: log_state_def from_log_def)
qed

lemma in_step_request_stop:
  assumes "in_step sp before s" shows "in_step sp before (request_stop enc by cause s)"
proof (cases "sh_phase s = PhaseRunning")
  case True
  with assms have "s_state (from_log sp (before @ sh_log s)) = Running"
    by (simp add: in_step_def log_state_def phase_state_def)
  then show ?thesis
    using True by (simp add: in_step_def request_stop_def log_state_log_event [of _ s] phase_state_def
        apply_event_def stamped_def)
qed (simp add: request_stop_def assms)

lemma in_step_finish:
  assumes "in_step sp before s" and "sh_phase s \<noteq> PhaseExited"
  shows "in_step sp before (finish enc code sig s)"
proof -
  obtain t counts where f: "tally_flush (sh_tally s) (sh_instant s) = (t, counts)" by fastforce
  define d where "d = log_events enc (map denial_event counts) (s\<lparr>sh_tally := t\<rparr>)"
  define e where "e = log_event enc (EvExited code sig) (d\<lparr>sh_phase := PhaseExited\<rparr>)"
  have "says idle s d"
    unfolding d_def by (rule says_log_events) (auto simp: idle_def denial_event_def)
  then have st: "s_state (from_log sp (before @ sh_log d)) = log_state sp before s"
    using says_idle [of s d sp before] by (simp add: log_state_def)
  have live: "\<not> is_terminal (log_state sp before s)"
    using assms by (cases "sh_phase s") (auto simp: in_step_def phase_state_def split: session_state.splits)
  have "log_state sp before e = Exited code sig"
    using st live by (simp add: e_def log_state_log_event [of _ d] apply_event_def stamped_def)
  moreover have "sh_log (finish enc code sig s) = sh_log e" "sh_phase (finish enc code sig s) = PhaseExited"
    by (simp_all add: finish_def f Let_def e_def d_def)
  ultimately show ?thesis by (simp add: in_step_def log_state_def phase_state_def)
qed

lemma in_step_client_frame:
  assumes "in_step sp before s" shows "in_step sp before (snd (client_frame enc ok i f s))"
proof -
  have 1: "in_step sp before (apply_size enc ok rws cls False s)" for rws cls
    by (rule in_step_idle [OF assms]) (simp_all add: says_apply_size idle_def)
  have 2: "sh_log s' = sh_log s \<Longrightarrow> sh_phase s' = sh_phase s \<Longrightarrow> in_step sp before s'" for s'
    by (rule in_step_idle [OF assms]) (simp_all add: says_same)
  show ?thesis
    by (simp add: client_frame_def Let_def 1 2 in_step_request_stop [OF assms] split: option.split)
qed

lemma in_step_step:
  assumes "in_step sp before (sv s)" shows "in_step sp before (sv (srv_step enc s e))"
proof -
  have same: "sh_log s' = sh_log (sv s) \<Longrightarrow> sh_phase s' = sh_phase (sv s) \<Longrightarrow> in_step sp before s'" for s'
    by (rule in_step_idle [OF assms]) (simp_all add: says_same)
  have logged: "idle k \<Longrightarrow> in_step sp before (log_event enc k (sv s))" for k
    by (rule in_step_idle [OF assms]) (simp_all add: says_log_event)
  show ?thesis
  proof (cases e)
    case (PtyRead bs)
    have "in_step sp before (serve_read enc bs (sv s))"
      by (rule in_step_idle [OF assms]) (simp_all add: says_serve_read idle_def)
    with PtyRead show ?thesis by simp
  next
    case (Refusal c n)
    have "in_step sp before (record_denial enc c n (sv s))"
      by (rule in_step_idle [OF assms]) (simp_all add: says_record_denial idle_def)
    with Refusal show ?thesis by simp
  next
    case (OpenClient r rws cls ok)
    obtain b s' where o: "client_open enc r (sv s) = (b, s')" by fastforce
    then have s': "sh_log s' = sh_log (sv s)" "sh_phase s' = sh_phase (sv s)"
      using says_client_open [of enc r "sv s"] calls_keep(7) [of enc r "sv s"] by simp_all
    then have "in_step sp before (apply_size enc ok rws cls True s')"
      by (intro in_step_idle [OF assms]) (simp_all add: says_apply_size idle_def)
    with OpenClient o same [OF s'] show ?thesis by (cases b) simp_all
  next
    case (ClientFrame i ok f)
    obtain b s' where o: "client_frame enc ok i f (sv s) = (b, s')" by fastforce
    with in_step_client_frame [OF assms, of enc ok i f] have "in_step sp before s'" by simp
    with ClientFrame o assms show ?thesis by (cases b) simp_all
  qed (auto simp: assms same logged idle_def in_step_request_stop in_step_finish client_push_def
      client_leave_def Let_def)
qed

interpretation phase_run: invariant_fold "srv_step enc" "\<lambda>s. in_step sp before (sv s)" for enc sp before
  by unfold_locales (rule in_step_step)

section \<open>Properties\<close>

text \<open>(C27) A wedged terminal costs itself its connection and nothing else: whatever the clients, the
  program and the sandbox do, in whatever order, the counter of each registered terminal is the size of
  what its writer still has to write, and never exceeds the budget.\<close>

theorem terminal_queues_bounded:
  "let s = sv (srv_run enc child at evs)
   in list_all (\<lambda>i. conn_ok (sh_conns s i) \<and> cn_queued (sh_conns s i) \<le> QUEUE_BYTES)
        (filter (\<lambda>i. cn_role (sh_conns s i) = Terminal) (sh_clients s))"
  using srv_conns_always [of enc child at evs]
  by (simp add: srv_conns_def srv_queues_def Let_def list_all_iff)

text \<open>The log attaches a terminal at most once and never detaches it more often than it came; while
  the session runs the books are exact: a terminal that came is gone, going, or registered. A terminal
  between its registration and its announcement counts as one that came.\<close>

theorem terminals_balanced:
  assumes "length evs < 2 ^ 64" and "i < 2 ^ 64"
  shows "let s = srv_run enc child at evs;
             into = attached (sv s) i + of_bool (i \<in> set (th_attaching s));
             out = detached (sv s) i + of_bool (i \<in> set (th_detaching s)) + of_bool (is_terminal_client (sv s) i)
         in into \<le> 1 \<and> out \<le> into \<and> (sh_phase (sv s) \<noteq> PhaseExited \<longrightarrow> out = into)"
proof -
  have "sh_next_id (sv (srv_run enc child at evs)) < 2 ^ 64"
    using next_id_run [of enc child at evs] assms(1) by (rule le_less_trans)
  with balanced_always [of enc child at evs] assms(2)
  have "balanced_at (srv_run enc child at evs) i" by (simp add: balanced_def)
  then show ?thesis by (simp add: balanced_at_def came_def went_def Let_def)
qed

text \<open>A terminal that is dropped as too slow before its thread announces it is detached in the log first
  and attached afterwards; the totals are right all the same.\<close>

definition no_encoders :: encoders where
  "no_encoders = \<lparr>enc_event = (\<lambda>_. None), enc_closed = (\<lambda>_. None), enc_status = (\<lambda>_. None)\<rparr>"

theorem terminals_balanced_witness:
  "let s = srv_run no_encoders 7 ''1'' [OpenClient Terminal 24 80 True, PushClient 1, AnnounceAttached 1];
       into = attached (sv s) 1 + of_bool (1 \<in> set (th_attaching s));
       out = detached (sv s) 1 + of_bool (1 \<in> set (th_detaching s)) + of_bool (is_terminal_client (sv s) 1)
   in into \<le> 1 \<and> out \<le> into \<and> (sh_phase (sv s) \<noteq> PhaseExited \<longrightarrow> out = into)"
  by (rule terminals_balanced) simp_all



text \<open>(C18) The daemon, which reads only the log, and the supervisor agree: once the start has left the
  session running, the state the log folds to is the supervisor's phase, through every attach, resize,
  denial, stop and exit.\<close>

theorem log_follows_phase:
  assumes "s_state (from_log sp before) = Running"
  shows "let s = sv (srv_run enc child at evs)
         in phase_state (sh_phase s) (s_state (from_log sp (before @ sh_log s)))"
proof -
  have "in_step sp before (sv (server_new child at))"
    using assms by (simp add: in_step_def log_state_def phase_state_def server_new_def shared_new_def)
  then have "in_step sp before (sv (srv_run enc child at evs))"
    unfolding srv_run_def by (rule phase_run.foldl_inv)
  then show ?thesis by (simp add: in_step_def log_state_def Let_def)
qed

theorem log_follows_phase_witness:
  "let s = sv (srv_run no_encoders 7 ''1'' [StopAsked ''daemon'' CloseStopped, HarnessExit None (Some 15)])
   in phase_state (sh_phase s) (s_state (from_log demo_spec
        ([\<lparr>ev_at = ''1'', ev_kind = EvCreated\<rparr>, \<lparr>ev_at = ''1'', ev_kind = EvStarted 7\<rparr>] @ sh_log s)))"
  by (rule log_follows_phase) (simp add: from_log_def session_init_def apply_event_def)

text \<open>(C30) A stop always reaches its end: there are at most three rungs, the last of them kills the whole
  group unless the session has ended before, and no rung signals a process on its own that the reaper
  does not name as the harness at that moment.\<close>

theorem stop_ladder_ends:
  "stop_ladder child known proc exited \<noteq> [] \<and> length (stop_ladder child known proc exited) \<le> 3
   \<and> (last (stop_ladder child known proc exited) = KillGroup child SigKill \<or> exited SigInt \<or> exited SigTerm)
   \<and> list_all (\<lambda>k. case k of
        KillPid pid sig \<Rightarrow> sig \<noteq> SigKill \<and> harness_still_behind (proc sig) child pid
      | KillGroup g sig \<Rightarrow> g = child) (stop_ladder child known proc exited)"
proof -
  have rung: "case ladder_rung child known p sig of
      KillPid pid sg \<Rightarrow> sg = sig \<and> sig \<noteq> SigKill \<and> harness_still_behind p child pid
    | KillGroup g sg \<Rightarrow> g = child \<and> sg = sig" for p sig
    using harness_pid_behind [of p child] by (auto simp: ladder_rung_def split: option.splits)
  have kill: "ladder_rung child known p SigKill = KillGroup child SigKill" for p
    by (simp add: ladder_rung_def)
  show ?thesis
    using rung [where p = "proc SigInt" and sig = SigInt] rung [where p = "proc SigTerm" and sig = SigTerm]
    by (auto simp: stop_ladder_def kill split: kill.splits)
qed

end
