(* ===== verification/Daemon_State.thy ===== *)
theory Daemon_State
  imports Session
begin

text \<open>
  The daemon's mirror of projects, jobs, sessions and its event stream
  (\<^verbatim>\<open>crates/willied/src/state.rs\<close>, \<^verbatim>\<open>outbound.rs\<close>, the types of \<^verbatim>\<open>crates/willie-core/src/project.rs\<close>
  and \<^verbatim>\<open>crates/willie-proto/src/{job,state}.rs\<close>). A mutation under the lock numbers itself, is applied
  and queues its event, all in one step, so the steps of all threads form one sequence. The stream a
  client reads is the queue of \<open>Outbound\<close>. The sequence number is a word of 64 bits.

  Shown: a client that takes a snapshot and applies the events queued after it holds the daemon's
  records at every later moment, except for the flag \<open>source_present\<close>, which a refresh changes
  without an event; the numbers of the events are consecutive.
\<close>

section \<open>Records\<close>

type_synonym job_id = "128 word"

datatype project_state =
    ProjPreparing
  | ProjReady
  | ProjFailed string string string

record sandbox_problem =
  pb_code :: string
  pb_message :: string
  pb_remediation :: string

record project =
  pj_id :: project_id
  pj_name :: string
  pj_slug :: string
  pj_source :: string
  pj_workspace :: string
  pj_branch :: string
  pj_state :: project_state
  pj_source_present :: bool
  pj_created_at :: string
  pj_sandbox :: sandbox_profile
  pj_sandbox_problem :: "sandbox_problem option"

datatype job_kind =
    JobAdd | JobRemove | JobSyncToWindows | JobUpdateFromWindows | JobRelocate
  | JobInstallHarness | JobUpdateHarness

datatype job_state =
    JobRunning
  | JobDone
  | JobFailed string string string

record job =
  jb_id :: job_id
  jb_kind :: job_kind
  jb_project_id :: "project_id option"
  jb_state :: job_state
  jb_started_at :: string
  jb_finished_at :: "string option"
  jb_log_tail :: string

text \<open>The plugin records of the stream belong to the plugin host; the mirror never emits one.\<close>

datatype event_kind =
    ProjectChanged project
  | ProjectRemoved project_id
  | JobChanged job
  | SessionChanged session

record state_event =
  se_seq :: u64
  se_kind :: event_kind

record state =
  st_projects :: "(project_id, project) btree"
  st_jobs :: "(job_id, job) btree"
  st_sessions :: "(session_id, session) btree"
  st_seq :: u64

record snapshot =
  sn_seq :: u64
  sn_projects :: "project list"
  sn_jobs :: "job list"
  sn_sessions :: "session list"

section \<open>Operations\<close>

definition state_load :: "project list \<Rightarrow> state" where
  "state_load ps =
     \<lparr>st_projects = foldl (\<lambda>m p. bt_insert (pj_id p) p m) [] ps, st_jobs = [], st_sessions = [],
      st_seq = 0\<rparr>"

definition state_snapshot :: "state \<Rightarrow> snapshot" where
  "state_snapshot s =
     \<lparr>sn_seq = st_seq s, sn_projects = bt_values (st_projects s), sn_jobs = bt_values (st_jobs s),
      sn_sessions = bt_values (st_sessions s)\<rparr>"

definition bump :: "state \<Rightarrow> u64 \<times> state" where
  "bump s = (st_seq s + 1, s\<lparr>st_seq := st_seq s + 1\<rparr>)"

definition upsert_project :: "project \<Rightarrow> state \<Rightarrow> state_event \<times> state" where
  "upsert_project p s =
     (case bump s of (seq, s) \<Rightarrow>
        (\<lparr>se_seq = seq, se_kind = ProjectChanged p\<rparr>,
         s\<lparr>st_projects := bt_insert (pj_id p) p (st_projects s)\<rparr>))"

definition remove_project :: "project_id \<Rightarrow> state \<Rightarrow> state_event \<times> state" where
  "remove_project i s =
     (case bump s of (seq, s) \<Rightarrow>
        (\<lparr>se_seq = seq, se_kind = ProjectRemoved i\<rparr>,
         s\<lparr>st_projects := bt_remove i (st_projects s)\<rparr>))"

definition upsert_job :: "job \<Rightarrow> state \<Rightarrow> state_event \<times> state" where
  "upsert_job j s =
     (case bump s of (seq, s) \<Rightarrow>
        (\<lparr>se_seq = seq, se_kind = JobChanged j\<rparr>, s\<lparr>st_jobs := bt_insert (jb_id j) j (st_jobs s)\<rparr>))"

definition upsert_session :: "session \<Rightarrow> state \<Rightarrow> state_event \<times> state" where
  "upsert_session x s =
     (case bump s of (seq, s) \<Rightarrow>
        (\<lparr>se_seq = seq, se_kind = SessionChanged x\<rparr>,
         s\<lparr>st_sessions := bt_insert (s_id x) x (st_sessions s)\<rparr>))"

definition live_session_ids_for :: "project_id \<Rightarrow> state \<Rightarrow> session_id list" where
  "live_session_ids_for i s =
     map s_id (filter (\<lambda>x. s_project_id x = i \<and> is_live (s_state x)) (bt_values (st_sessions s)))"

text \<open>\<open>Outbound::send_event\<close>: the queue of what the writer thread will print.\<close>

record daemon =
  dm_state :: state
  dm_out :: "state_event list"

definition emit :: "(state \<Rightarrow> state_event \<times> state) \<Rightarrow> daemon \<Rightarrow> daemon" where
  "emit mutate d =
     (case mutate (dm_state d) of (ev, s) \<Rightarrow> d\<lparr>dm_state := s, dm_out := dm_out d @ [ev]\<rparr>)"

text \<open>\<open>Ops::apply_presence\<close>: the one mutation of the records that queues no event.\<close>

fun apply_presence :: "(project_id \<times> string \<times> bool) list \<Rightarrow> state \<Rightarrow> state" where
  "apply_presence [] s = s"
| "apply_presence ((i, source, present) # rest) s =
     apply_presence rest
       (case bt_get (st_projects s) i of
          Some p \<Rightarrow>
            (if pj_source p = source
             then s\<lparr>st_projects := bt_insert i (p\<lparr>pj_source_present := present\<rparr>) (st_projects s)\<rparr>
             else s)
        | None \<Rightarrow> s)"

section \<open>A client that follows the stream\<close>

datatype mutation =
    PutProject project
  | DropProject project_id
  | PutJob job
  | PutSession session
  | Presence "(project_id \<times> string \<times> bool) list"

fun mutate :: "daemon \<Rightarrow> mutation \<Rightarrow> daemon" where
  "mutate d (PutProject p) = emit (upsert_project p) d"
| "mutate d (DropProject i) = emit (remove_project i) d"
| "mutate d (PutJob j) = emit (upsert_job j) d"
| "mutate d (PutSession x) = emit (upsert_session x) d"
| "mutate d (Presence ps) = d\<lparr>dm_state := apply_presence ps (dm_state d)\<rparr>"

text \<open>The reading side of the protocol: the records a client builds from a snapshot, and what an event
  does to them.\<close>

definition client_load :: "snapshot \<Rightarrow> state" where
  "client_load sn =
     \<lparr>st_projects = map (\<lambda>p. (pj_id p, p)) (sn_projects sn),
      st_jobs = map (\<lambda>j. (jb_id j, j)) (sn_jobs sn),
      st_sessions = map (\<lambda>x. (s_id x, x)) (sn_sessions sn), st_seq = sn_seq sn\<rparr>"

fun client_apply :: "state \<Rightarrow> event_kind \<Rightarrow> state" where
  "client_apply s (ProjectChanged p) = s\<lparr>st_projects := bt_insert (pj_id p) p (st_projects s)\<rparr>"
| "client_apply s (ProjectRemoved i) = s\<lparr>st_projects := bt_remove i (st_projects s)\<rparr>"
| "client_apply s (JobChanged j) = s\<lparr>st_jobs := bt_insert (jb_id j) j (st_jobs s)\<rparr>"
| "client_apply s (SessionChanged x) = s\<lparr>st_sessions := bt_insert (s_id x) x (st_sessions s)\<rparr>"

definition client_event :: "state \<Rightarrow> state_event \<Rightarrow> state" where
  "client_event s ev = (client_apply s (se_kind ev))\<lparr>st_seq := se_seq ev\<rparr>"

section \<open>Lemmas\<close>

text \<open>Each record is filed under its own id.\<close>

definition filed :: "('v \<Rightarrow> 'k::linorder) \<Rightarrow> ('k, 'v) btree \<Rightarrow> bool" where
  "filed key m \<longleftrightarrow> bt_ok m \<and> (\<forall>k v. bt_get m k = Some v \<longrightarrow> key v = k)"

lemma filed_Nil [simp]: "filed key []"
  by (simp add: filed_def)

lemma filed_insert: "filed key m \<Longrightarrow> filed key (bt_insert (key v) v m)"
  by (simp add: filed_def bt.ok_put bt.get_put)

lemma filed_remove: "filed key m \<Longrightarrow> filed key (bt_remove k m)"
  by (simp add: filed_def bt.ok_del bt.get_del)

lemma filed_values:
  assumes "filed key m" shows "map (\<lambda>v. (key v, v)) (bt_values m) = m"
proof -
  have "\<forall>(k, v) \<in> set m. key v = k"
    using assms bt.entries_get [of m] by (auto simp: filed_def)
  then show ?thesis unfolding bt_values_def by (induction m) auto
qed

definition state_ok :: "state \<Rightarrow> bool" where
  "state_ok s \<longleftrightarrow> filed pj_id (st_projects s) \<and> filed jb_id (st_jobs s) \<and> filed s_id (st_sessions s)"

lemma client_load_snapshot: "state_ok s \<Longrightarrow> client_load (state_snapshot s) = s"
  by (simp add: state_ok_def client_load_def state_snapshot_def filed_values)

text \<open>Records up to the flag no event carries.\<close>

definition blank :: "project \<Rightarrow> project" where
  "blank p = p\<lparr>pj_source_present := True\<rparr>"

definition blank_all :: "state \<Rightarrow> state" where
  "blank_all s = s\<lparr>st_projects := map (\<lambda>(i, p). (i, blank p)) (st_projects s)\<rparr>"

lemma blank_insert:
  "map (\<lambda>(i, p). (i, f p)) (bt_insert k v m) = bt_insert k (f v) (map (\<lambda>(i, p). (i, f p)) m)"
  by (induction k v m rule: bt_insert.induct) auto

lemma blank_remove:
  "map (\<lambda>(i, p). (i, f p)) (bt_remove k m) = bt_remove k (map (\<lambda>(i, p). (i, f p)) m)"
  by (induction k m rule: bt_remove.induct) auto

lemma bt_insert_same: "bt_ok m \<Longrightarrow> bt_get m k = Some v \<Longrightarrow> bt_insert k v m = m"
proof (induction k v m rule: bt_insert.induct)
  case (2 k v k' v' m)
  have "bt_get m k = None" if "k < k'"
    using 2(2) that by (auto simp: bt_ok_def bt_get_def map_of_eq_None_iff)
  with 2 show ?case by (auto simp: bt_get_def bt_ok_def)
qed simp

lemma bt_get_map_snd: "bt_get (map (\<lambda>(i, p). (i, f p)) m) k = map_option f (bt_get m k)"
  by (induction m) (auto simp: bt_get_def)

lemma bt_ok_map_snd: "bt_ok (map (\<lambda>(i, p). (i, f p)) m) \<longleftrightarrow> bt_ok m"
  by (simp add: bt_ok_def comp_def split_def)

fun blank_kind :: "event_kind \<Rightarrow> event_kind" where
  "blank_kind (ProjectChanged p) = ProjectChanged (blank p)"
| "blank_kind k = k"

lemma blank_id [simp]: "pj_id (blank p) = pj_id p"
  by (simp add: blank_def)

lemma client_event_blank:
  "blank_all (client_event s ev) = client_event (blank_all s) (ev\<lparr>se_kind := blank_kind (se_kind ev)\<rparr>)"
  by (cases "se_kind ev") (simp_all add: client_event_def blank_all_def blank_insert blank_remove)

lemma client_event_cong:
  "blank_all s = blank_all t \<Longrightarrow> blank_all (client_event s ev) = blank_all (client_event t ev)"
  by (simp add: client_event_blank)

text \<open>A mutation with an event is that event applied.\<close>

lemma emit_is_event:
  "dm_state (emit (upsert_project p) d) = client_event (dm_state d) \<lparr>se_seq = st_seq (dm_state d) + 1, se_kind = ProjectChanged p\<rparr>"
  "dm_state (emit (remove_project i) d) = client_event (dm_state d) \<lparr>se_seq = st_seq (dm_state d) + 1, se_kind = ProjectRemoved i\<rparr>"
  "dm_state (emit (upsert_job j) d) = client_event (dm_state d) \<lparr>se_seq = st_seq (dm_state d) + 1, se_kind = JobChanged j\<rparr>"
  "dm_state (emit (upsert_session x) d) = client_event (dm_state d) \<lparr>se_seq = st_seq (dm_state d) + 1, se_kind = SessionChanged x\<rparr>"
  "dm_out (emit (upsert_project p) d) = dm_out d @ [\<lparr>se_seq = st_seq (dm_state d) + 1, se_kind = ProjectChanged p\<rparr>]"
  "dm_out (emit (remove_project i) d) = dm_out d @ [\<lparr>se_seq = st_seq (dm_state d) + 1, se_kind = ProjectRemoved i\<rparr>]"
  "dm_out (emit (upsert_job j) d) = dm_out d @ [\<lparr>se_seq = st_seq (dm_state d) + 1, se_kind = JobChanged j\<rparr>]"
  "dm_out (emit (upsert_session x) d) = dm_out d @ [\<lparr>se_seq = st_seq (dm_state d) + 1, se_kind = SessionChanged x\<rparr>]"
  by (simp_all add: emit_def upsert_project_def remove_project_def upsert_job_def upsert_session_def
      bump_def client_event_def)

lemma client_event_ok: "state_ok s \<Longrightarrow> state_ok (client_event s ev)"
  by (cases "se_kind ev") (simp_all add: client_event_def state_ok_def filed_insert filed_remove)

lemma apply_presence_keeps:
  assumes "state_ok s"
  shows "state_ok (apply_presence ps s) \<and> blank_all (apply_presence ps s) = blank_all s"
  using assms
proof (induction ps s rule: apply_presence.induct)
  case (2 i source present rest s)
  show ?case
  proof (cases "bt_get (st_projects s) i")
    case (Some p)
    then have p: "pj_id p = i" "bt_ok (st_projects s)"
      using 2(2) by (auto simp: state_ok_def filed_def)
    let ?s = "s\<lparr>st_projects := bt_insert i (p\<lparr>pj_source_present := present\<rparr>) (st_projects s)\<rparr>"
    have "state_ok ?s"
      using 2(2) filed_insert [of pj_id "st_projects s" "p\<lparr>pj_source_present := present\<rparr>"] p
      by (simp add: state_ok_def)
    moreover have "blank_all ?s = blank_all s"
      using Some p by (simp add: blank_all_def blank_insert)
        (simp add: blank_def bt_insert_same bt_ok_map_snd bt_get_map_snd)
    ultimately show ?thesis using 2 Some by simp
  next
    case None
    with 2 show ?thesis by simp
  qed
qed simp

lemma apply_presence_seq [simp]: "st_seq (apply_presence ps s) = st_seq s"
  by (induction ps s rule: apply_presence.induct) (auto split: option.split)

definition event_of :: "daemon \<Rightarrow> mutation \<Rightarrow> state_event list" where
  "event_of d m =
     (case m of
        PutProject p \<Rightarrow> [\<lparr>se_seq = st_seq (dm_state d) + 1, se_kind = ProjectChanged p\<rparr>]
      | DropProject i \<Rightarrow> [\<lparr>se_seq = st_seq (dm_state d) + 1, se_kind = ProjectRemoved i\<rparr>]
      | PutJob j \<Rightarrow> [\<lparr>se_seq = st_seq (dm_state d) + 1, se_kind = JobChanged j\<rparr>]
      | PutSession x \<Rightarrow> [\<lparr>se_seq = st_seq (dm_state d) + 1, se_kind = SessionChanged x\<rparr>]
      | Presence ps \<Rightarrow> [])"

text \<open>One mutation, seen from a client that was up to date.\<close>

lemma mutate_followed:
  assumes "state_ok (dm_state d)"
  shows "dm_out (mutate d m) = dm_out d @ event_of d m"
    and "state_ok (dm_state (mutate d m))"
    and "blank_all c = blank_all (dm_state d) \<Longrightarrow>
      blank_all (foldl client_event c (event_of d m)) = blank_all (dm_state (mutate d m))"
proof -
  show "dm_out (mutate d m) = dm_out d @ event_of d m"
    by (cases m) (simp_all add: emit_is_event event_of_def)
  show "state_ok (dm_state (mutate d m))"
    using assms apply_presence_keeps by (cases m) (auto simp: emit_is_event client_event_ok)
  show "blank_all (foldl client_event c (event_of d m)) = blank_all (dm_state (mutate d m))"
    if "blank_all c = blank_all (dm_state d)"
    using that assms apply_presence_keeps
    by (cases m) (auto simp: emit_is_event event_of_def intro: client_event_cong)
qed

interpretation daemon_run: invariant_fold mutate "\<lambda>d. state_ok (dm_state d)"
  by unfold_locales (rule mutate_followed(2))

lemma mutations_followed:
  assumes "state_ok (dm_state d)"
  shows "\<exists>evs. dm_out (foldl mutate d ms) = dm_out d @ evs
    \<and> (\<forall>c. blank_all c = blank_all (dm_state d) \<longrightarrow>
          blank_all (foldl client_event c evs) = blank_all (dm_state (foldl mutate d ms)))
    \<and> map se_seq evs = map (\<lambda>i. st_seq (dm_state d) + of_nat i + 1) [0..<length evs]
    \<and> st_seq (dm_state (foldl mutate d ms)) = st_seq (dm_state d) + of_nat (length evs)"
  using assms
proof (induction ms rule: rev_induct)
  case Nil
  show ?case by (rule exI [of _ "[]"]) simp
next
  case (snoc m ms)
  let ?d = "foldl mutate d ms"
  from snoc obtain evs where evs: "dm_out ?d = dm_out d @ evs"
    "\<And>c. blank_all c = blank_all (dm_state d) \<Longrightarrow> blank_all (foldl client_event c evs) = blank_all (dm_state ?d)"
    "map se_seq evs = map (\<lambda>i. st_seq (dm_state d) + of_nat i + 1) [0..<length evs]"
    "st_seq (dm_state ?d) = st_seq (dm_state d) + of_nat (length evs)" by auto
  have ok: "state_ok (dm_state ?d)" using daemon_run.foldl_inv [OF snoc.prems] .
  note step = mutate_followed [OF ok, where m = m]
  have seq: "st_seq (dm_state (mutate ?d m)) = st_seq (dm_state ?d) + of_nat (length (event_of ?d m))"
    by (cases m) (simp_all add: emit_is_event event_of_def client_event_def)
  have one: "event_of ?d m = [] \<or> (\<exists>ev. event_of ?d m = [ev] \<and> se_seq ev = st_seq (dm_state d) + of_nat (length evs) + 1)"
    using evs(4) by (cases m) (simp_all add: event_of_def)
  show ?case
  proof (rule exI [of _ "evs @ event_of ?d m"], intro conjI allI impI)
    show "dm_out (foldl mutate d (ms @ [m])) = dm_out d @ evs @ event_of ?d m"
      using evs(1) step(1) by simp
    fix c assume "blank_all c = blank_all (dm_state d)"
    with evs(2) step(3) show "blank_all (foldl client_event c (evs @ event_of ?d m))
        = blank_all (dm_state (foldl mutate d (ms @ [m])))" by simp
  next
    show "map se_seq (evs @ event_of ?d m)
        = map (\<lambda>i. st_seq (dm_state d) + of_nat i + 1) [0..<length (evs @ event_of ?d m)]"
      using evs(3) one by auto
    show "st_seq (dm_state (foldl mutate d (ms @ [m])))
        = st_seq (dm_state d) + of_nat (length (evs @ event_of ?d m))"
      using evs(4) seq by (simp add: add.assoc)
  qed
qed

section \<open>Properties\<close>

lemma state_load_ok: "state_ok (state_load ps)"
proof -
  have "filed pj_id m \<Longrightarrow> filed pj_id (foldl (\<lambda>m p. bt_insert (pj_id p) p m) m ps)" for m
    by (induction ps arbitrary: m) (simp_all add: filed_insert)
  then show ?thesis by (simp add: state_ok_def state_load_def)
qed

text \<open>(C16) A client that takes a snapshot at any moment of a daemon's life and then applies the events
  queued after it, in order, holds at every later moment what a snapshot taken then would say,
  whatever the threads did in between. The one difference can be \<open>source_present\<close>. The events it
  applies are numbered without a gap from its snapshot's number.\<close>

theorem replica_follows:
  "let d = foldl mutate \<lparr>dm_state = state_load ps, dm_out = []\<rparr> before;
       snap = state_snapshot (dm_state d)
   in \<exists>evs. dm_out (foldl mutate d ms) = dm_out d @ evs
        \<and> map se_seq evs = map (\<lambda>i. sn_seq snap + of_nat i + 1) [0..<length evs]
        \<and> blank_all (foldl client_event (client_load snap) evs)
            = blank_all (client_load (state_snapshot (dm_state (foldl mutate d ms))))"
proof -
  let ?d = "foldl mutate \<lparr>dm_state = state_load ps, dm_out = []\<rparr> before"
  have ok: "state_ok (dm_state ?d)" by (rule daemon_run.foldl_inv) (simp add: state_load_ok)
  from mutations_followed [OF ok, of ms] obtain evs where e: "dm_out (foldl mutate ?d ms) = dm_out ?d @ evs"
    "map se_seq evs = map (\<lambda>i. st_seq (dm_state ?d) + of_nat i + 1) [0..<length evs]"
    "\<And>c. blank_all c = blank_all (dm_state ?d) \<Longrightarrow>
       blank_all (foldl client_event c evs) = blank_all (dm_state (foldl mutate ?d ms))" by blast
  have "state_ok (dm_state (foldl mutate ?d ms))" using daemon_run.foldl_inv [OF ok] .
  with e ok show ?thesis
    unfolding Let_def
    by (intro exI [of _ evs]) (simp add: client_load_snapshot, simp add: state_snapshot_def)
qed

end
