(* ===== verification/Text.thy ===== *)
theory Text
  imports Prelude
begin

text \<open>
  Text as the standard library sees it, on UTF-8 bytes: characters, trimming of white space, ASCII
  classes. Shared by the daemon's components.
\<close>

section \<open>Characters\<close>

definition continuation :: "char \<Rightarrow> bool" where
  "continuation c \<longleftrightarrow> (let b = (of_char c :: nat) in 128 \<le> b \<and> b < 192)"

text \<open>\<open>str::chars\<close>: each character as its bytes.\<close>

function utf8_chars :: "string \<Rightarrow> string list" where
  "utf8_chars [] = []"
| "utf8_chars (c # cs) = (c # takeWhile continuation cs) # utf8_chars (dropWhile continuation cs)"
  by pat_completeness auto
termination
  by (relation "measure length") (auto simp: length_dropWhile_le less_Suc_eq_le)

lemma concat_utf8_chars [simp]: "concat (utf8_chars s) = s"
  by (induction s rule: utf8_chars.induct) simp_all

definition ascii_lower :: "char \<Rightarrow> bool" where
  "ascii_lower c \<longleftrightarrow> (let n = (of_char c :: nat) in 97 \<le> n \<and> n \<le> 122)"

definition ascii_upper :: "char \<Rightarrow> bool" where
  "ascii_upper c \<longleftrightarrow> (let n = (of_char c :: nat) in 65 \<le> n \<and> n \<le> 90)"

definition ascii_digit :: "char \<Rightarrow> bool" where
  "ascii_digit c \<longleftrightarrow> (let n = (of_char c :: nat) in 48 \<le> n \<and> n \<le> 57)"

definition to_ascii_lower :: "char \<Rightarrow> char" where
  "to_ascii_lower c = (if ascii_upper c then char_of ((of_char c :: nat) + 32) else c)"

lemma to_ascii_lower_class:
  "ascii_upper c \<Longrightarrow> ascii_lower (to_ascii_lower c)"
  "\<not> ascii_upper c \<Longrightarrow> to_ascii_lower c = c"
proof -
  show "\<not> ascii_upper c \<Longrightarrow> to_ascii_lower c = c" by (simp add: to_ascii_lower_def)
  assume u: "ascii_upper c"
  then have "(of_char (char_of ((of_char c :: nat) + 32)) :: nat) = of_char c + 32"
    by (simp add: ascii_upper_def Let_def)
  with u show "ascii_lower (to_ascii_lower c)"
    by (simp add: to_ascii_lower_def ascii_lower_def ascii_upper_def Let_def)
qed

lemma nat_text_digits: "list_all ascii_digit (nat_text n) \<and> nat_text n \<noteq> []"
proof (induction n rule: nat_text.induct)
  case (1 n)
  have "ascii_digit (char_of (48 + n mod 10))" "n < 10 \<Longrightarrow> ascii_digit (char_of (48 + n))"
    by (simp_all add: ascii_digit_def)
  with 1 show ?case by (subst (1 2) nat_text.simps) auto
qed

text \<open>The number a decimal text stands for; \<open>nat_text\<close> is injective.\<close>

definition digits_value :: "string \<Rightarrow> nat" where
  "digits_value s = foldl (\<lambda>n c. 10 * n + (of_char c - 48)) 0 s"

lemma digits_value_nat_text [simp]: "digits_value (nat_text n) = n"
proof (induction n rule: nat_text.induct)
  case (1 n)
  have "digits_value (s @ [c]) = 10 * digits_value s + (of_char c - 48)" for s c
    by (simp add: digits_value_def)
  with 1 show ?case
    by (subst nat_text.simps) (auto simp: digits_value_def)
qed

lemma nat_text_inject [simp]: "nat_text m = nat_text n \<longleftrightarrow> m = n"
  by (metis digits_value_nat_text)

section \<open>Trimming\<close>

text \<open>\<open>str::trim\<close>. A suffix that is blank starts at a white-space character, so cutting at the first
  byte from which all is blank cuts at a character.\<close>

function trim_ws_start :: "string \<Rightarrow> string" where
  "trim_ws_start s = (if s = [] \<or> ws_len s = 0 then s else trim_ws_start (drop (ws_len s) s))"
  by pat_completeness auto
termination
  by (relation "measure length") auto

declare trim_ws_start.simps [simp del]

fun trim_ws_end :: "string \<Rightarrow> string" where
  "trim_ws_end [] = []"
| "trim_ws_end (c # cs) = (if is_blank (c # cs) then [] else c # trim_ws_end cs)"

definition trim_ws :: "string \<Rightarrow> string" where
  "trim_ws s = trim_ws_end (trim_ws_start s)"

section \<open>Splitting\<close>

text \<open>\<open>str::split_once\<close>.\<close>

fun split_once :: "string \<Rightarrow> string \<Rightarrow> (string \<times> string) option" where
  "split_once sep [] = (if sep = [] then Some ([], []) else None)"
| "split_once sep (c # cs) =
     (case strip_prefix sep (c # cs) of
        Some rest \<Rightarrow> Some ([], rest)
      | None \<Rightarrow> map_option (\<lambda>(a, b). (c # a, b)) (split_once sep cs))"

end
