(* ===== verification/Jobs.thy ===== *)
theory Jobs
  imports Daemon_State Text
begin

text \<open>
  The job runner (\<^verbatim>\<open>crates/willied/src/jobs.rs\<close>): bounded concurrency, exclusion per project and among
  the project-less jobs, cancellation. The threads are an inductive step relation; a step is what a
  thread does under its locks between two waits: submitting, taking a slot, ending its work with the
  cleanup guard, reporting. What the work does to the rest of the daemon is the step \<open>Elsewhere\<close>.

  Shown: never more jobs at work than slots, never two for one project nor two tool jobs, no slot,
  busy mark or registration outlives its job, the mirror calls a job running exactly while it is in
  flight, and a job in flight can always be brought to its end.
\<close>

section \<open>Outcomes\<close>

type_synonym job_outcome = "(string \<times> string \<times> string) + string"

definition cancelled_outcome :: "string \<times> string \<times> string" where
  "cancelled_outcome =
     (''cancelled'', ''the job was cancelled'', ''start it again if you still need it'')"

text \<open>The payload of a panic is a text or something else.\<close>

definition panic_outcome :: "string option \<Rightarrow> string \<times> string \<times> string" where
  "panic_outcome payload =
     (''job_panicked'', (case payload of Some m \<Rightarrow> m | None \<Rightarrow> ''the job thread panicked''),
      ''try the operation again; if it keeps happening, report it'')"

definition LOG_MAX :: nat where "LOG_MAX = 4096"

text \<open>The last bytes of the log, from a character boundary on.\<close>

definition log_tail :: "string \<Rightarrow> string" where
  "log_tail log =
     (if length log \<le> LOG_MAX then log
      else dropWhile continuation (drop (length log - LOG_MAX) log))"

fun final_state :: "job_outcome \<Rightarrow> job_state \<times> string" where
  "final_state (Inr log) = (JobDone, log)"
| "final_state (Inl (code, message, hint)) = (JobFailed code message hint, [])"

section \<open>The runner\<close>

text \<open>\<open>Working tripped\<close>: the job has its slot; \<open>tripped\<close> is whether its cancel had been tripped by then.\<close>

datatype thread_phase = Waiting | Working bool | Ending job_outcome

record job_thread =
  jt_id :: job_id
  jt_kind :: job_kind
  jt_project :: "project_id option"
  jt_started_at :: string
  jt_cancel :: bool
  jt_phase :: thread_phase

record runner =
  rn_daemon :: daemon
  rn_limit :: nat
  rn_running :: nat
  rn_busy :: "project_id set"
  rn_tool_busy :: bool
  rn_cancels :: "job_id set"
  rn_threads :: "job_thread list"

definition runner_new :: "daemon \<Rightarrow> runner" where
  "runner_new d =
     \<lparr>rn_daemon = d, rn_limit = 3, rn_running = 0, rn_busy = {}, rn_tool_busy = False,
      rn_cancels = {}, rn_threads = []\<rparr>"

definition job_of :: "job_thread \<Rightarrow> job" where
  "job_of t =
     \<lparr>jb_id = jt_id t, jb_kind = jt_kind t, jb_project_id = jt_project t, jb_state = JobRunning,
      jb_started_at = jt_started_at t, jb_finished_at = None, jb_log_tail = []\<rparr>"

definition done_job :: "job_thread \<Rightarrow> job_outcome \<Rightarrow> string \<Rightarrow> job" where
  "done_job t out now =
     (case final_state out of (st, log) \<Rightarrow>
        (job_of t)\<lparr>jb_state := st, jb_finished_at := Some now, jb_log_tail := log_tail log\<rparr>)"

definition emit_job :: "job \<Rightarrow> runner \<Rightarrow> runner" where
  "emit_job j r = r\<lparr>rn_daemon := emit (upsert_job j) (rn_daemon r)\<rparr>"

text \<open>\<open>spawn_job\<close>: the registration, the running record, the thread.\<close>

definition spawn_job :: "job_id \<Rightarrow> job_kind \<Rightarrow> project_id option \<Rightarrow> string \<Rightarrow> runner \<Rightarrow> runner" where
  "spawn_job i kd project now r =
     (let t = \<lparr>jt_id = i, jt_kind = kd, jt_project = project, jt_started_at = now, jt_cancel = False,
               jt_phase = Waiting\<rparr>
      in (emit_job (job_of t) (r\<lparr>rn_cancels := insert i (rn_cancels r)\<rparr>))
           \<lparr>rn_threads := rn_threads r @ [t]\<rparr>)"

definition submit ::
  "job_id \<Rightarrow> job_kind \<Rightarrow> project_id \<Rightarrow> string \<Rightarrow> runner \<Rightarrow> (unit + job_id) \<times> runner" where
  "submit i kd project now r =
     (if project \<in> rn_busy r then (Inl (), r)
      else (Inr i, spawn_job i kd (Some project) now (r\<lparr>rn_busy := insert project (rn_busy r)\<rparr>)))"

definition submit_global ::
  "job_id \<Rightarrow> job_kind \<Rightarrow> string \<Rightarrow> runner \<Rightarrow> (unit + job_id) \<times> runner" where
  "submit_global i kd now r =
     (if rn_tool_busy r then (Inl (), r)
      else (Inr i, spawn_job i kd None now (r\<lparr>rn_tool_busy := True\<rparr>)))"

definition is_busy :: "project_id \<Rightarrow> runner \<Rightarrow> bool" where
  "is_busy project r \<longleftrightarrow> project \<in> rn_busy r"

text \<open>A trip reaches the flag of a job that is still registered.\<close>

definition trip :: "(job_id \<Rightarrow> bool) \<Rightarrow> runner \<Rightarrow> runner" where
  "trip sel r =
     r\<lparr>rn_threads := map (\<lambda>t. if sel (jt_id t) \<and> jt_id t \<in> rn_cancels r then t\<lparr>jt_cancel := True\<rparr> else t)
         (rn_threads r)\<rparr>"

definition cancel_job :: "job_id \<Rightarrow> runner \<Rightarrow> runner" where
  "cancel_job i = trip (\<lambda>j. j = i)"

definition shutdown_jobs :: "runner \<Rightarrow> runner" where
  "shutdown_jobs = trip (\<lambda>j. True)"

text \<open>\<open>Cleanup::drop\<close>.\<close>

definition cleanup :: "job_thread \<Rightarrow> runner \<Rightarrow> runner" where
  "cleanup t r =
     (case jt_project t of
        Some p \<Rightarrow> r\<lparr>rn_running := rn_running r - 1, rn_busy := rn_busy r - {p},
                    rn_cancels := rn_cancels r - {jt_id t}\<rparr>
      | None \<Rightarrow> r\<lparr>rn_running := rn_running r - 1, rn_tool_busy := False,
                  rn_cancels := rn_cancels r - {jt_id t}\<rparr>)"

definition set_phase :: "job_id \<Rightarrow> thread_phase \<Rightarrow> runner \<Rightarrow> runner" where
  "set_phase i ph r =
     r\<lparr>rn_threads := map (\<lambda>t. if jt_id t = i then t\<lparr>jt_phase := ph\<rparr> else t) (rn_threads r)\<rparr>"

text \<open>What the closure gives back: a result, or a panic with its payload. It is not called when the
  cancel was tripped before the job had its slot.\<close>

datatype work_end = Returned job_outcome | Panicked "string option"

definition work_outcome :: "bool \<Rightarrow> work_end \<Rightarrow> job_outcome" where
  "work_outcome tripped we =
     (if tripped then Inl cancelled_outcome
      else (case we of Returned out \<Rightarrow> out | Panicked payload \<Rightarrow> Inl (panic_outcome payload)))"

datatype job_event =
    Submit job_id job_kind project_id string
  | SubmitGlobal job_id job_kind string
  | Acquire job_id
  | WorkEnds job_id work_end
  | Report job_id string
  | CancelJob job_id
  | Shutdown
  | Elsewhere mutation

definition touches_jobs :: "mutation \<Rightarrow> bool" where
  "touches_jobs m \<longleftrightarrow> (case m of PutJob j \<Rightarrow> True | _ \<Rightarrow> False)"

text \<open>Job ids are fresh (ULIDs).\<close>

inductive job_step :: "runner \<Rightarrow> job_event \<Rightarrow> runner \<Rightarrow> bool" where
  submit: "i \<notin> jt_id ` set (rn_threads r) \<Longrightarrow> bt_get (st_jobs (dm_state (rn_daemon r))) i = None \<Longrightarrow>
     job_step r (Submit i kd p now) (snd (submit i kd p now r))"
| submit_global: "i \<notin> jt_id ` set (rn_threads r) \<Longrightarrow> bt_get (st_jobs (dm_state (rn_daemon r))) i = None \<Longrightarrow>
     job_step r (SubmitGlobal i kd now) (snd (submit_global i kd now r))"
| acquire: "t \<in> set (rn_threads r) \<Longrightarrow> jt_phase t = Waiting \<Longrightarrow> rn_running r < rn_limit r \<Longrightarrow>
     job_step r (Acquire (jt_id t)) (set_phase (jt_id t) (Working (jt_cancel t)) (r\<lparr>rn_running := rn_running r + 1\<rparr>))"
| work: "t \<in> set (rn_threads r) \<Longrightarrow> jt_phase t = Working tripped \<Longrightarrow>
     job_step r (WorkEnds (jt_id t) we)
       (set_phase (jt_id t) (Ending (work_outcome tripped we)) (cleanup t r))"
| report: "t \<in> set (rn_threads r) \<Longrightarrow> jt_phase t = Ending out \<Longrightarrow>
     job_step r (Report (jt_id t) now)
       ((emit_job (done_job t out now) r)
          \<lparr>rn_threads := filter (\<lambda>u. jt_id u \<noteq> jt_id t) (rn_threads r)\<rparr>)"
| cancel: "job_step r (CancelJob i) (cancel_job i r)"
| shutdown: "job_step r Shutdown (shutdown_jobs r)"
| elsewhere: "\<not> touches_jobs m \<Longrightarrow> job_step r (Elsewhere m) (r\<lparr>rn_daemon := mutate (rn_daemon r) m\<rparr>)"

inductive_cases job_stepE: "job_step r e r'"

inductive job_reach :: "daemon \<Rightarrow> runner \<Rightarrow> bool" for d where
  start: "job_reach d (runner_new d)"
| step: "job_reach d r \<Longrightarrow> job_step r e r' \<Longrightarrow> job_reach d r'"

section \<open>The invariant\<close>

fun is_working :: "thread_phase \<Rightarrow> bool" where
  "is_working (Working tripped) = True"
| "is_working _ = False"

fun holds_place :: "thread_phase \<Rightarrow> bool" where
  "holds_place (Ending out) = False"
| "holds_place _ = True"

definition at_work :: "job_thread list \<Rightarrow> job_thread list" where
  "at_work ts = filter (\<lambda>t. is_working (jt_phase t)) ts"

definition in_place :: "job_thread list \<Rightarrow> job_thread list" where
  "in_place ts = filter (\<lambda>t. holds_place (jt_phase t)) ts"

definition runner_ok :: "runner \<Rightarrow> bool" where
  "runner_ok r \<longleftrightarrow>
     rn_limit r = 3 \<and> rn_running r = length (at_work (rn_threads r)) \<and> rn_running r \<le> 3
     \<and> distinct (map jt_id (rn_threads r))
     \<and> distinct (map jt_project (in_place (rn_threads r)))
     \<and> rn_busy r = {p. Some p \<in> jt_project ` set (in_place (rn_threads r))}
     \<and> (rn_tool_busy r \<longleftrightarrow> None \<in> jt_project ` set (in_place (rn_threads r)))
     \<and> rn_cancels r = jt_id ` set (in_place (rn_threads r))"

section \<open>Lemmas\<close>

text \<open>Ids are unique, so an update by id changes one thread of the list.\<close>

lemma one_thread:
  assumes "t \<in> set ts" and "distinct (map jt_id ts)"
  obtains us vs where "ts = us @ t # vs" "\<forall>u \<in> set us \<union> set vs. jt_id u \<noteq> jt_id t"
    "\<forall>f. map (\<lambda>u. if jt_id u = jt_id t then f u else u) ts = us @ f t # vs"
    "filter (\<lambda>u. jt_id u \<noteq> jt_id t) ts = us @ vs"
proof -
  from split_list [OF assms(1)] obtain us vs where ts: "ts = us @ t # vs" by blast
  with assms(2) have others: "\<forall>u \<in> set us \<union> set vs. jt_id u \<noteq> jt_id t" by (auto simp: image_iff)
  have "map (\<lambda>u. if jt_id u = jt_id t then f u else u) ts = us @ f t # vs" for f
    using others by (simp add: ts map_idI)
  moreover have "filter (\<lambda>u. jt_id u \<noteq> jt_id t) ts = us @ vs"
    using others by (simp add: ts)
  ultimately show ?thesis using that ts others by blast
qed

lemma lists_simps [simp]:
  "at_work (ts @ us) = at_work ts @ at_work us" "in_place (ts @ us) = in_place ts @ in_place us"
  "at_work (t # us) = (if is_working (jt_phase t) then t # at_work us else at_work us)"
  "in_place (t # us) = (if holds_place (jt_phase t) then t # in_place us else in_place us)"
  "at_work [] = []" "in_place [] = []"
  by (simp_all add: at_work_def in_place_def)

lemma in_place_subset: "set (in_place ts) \<subseteq> set ts"
  by (auto simp: in_place_def)

lemma runner_ok_new: "runner_ok (runner_new d)"
  by (simp add: runner_ok_def runner_new_def)

lemma runner_ok_submit:
  assumes "runner_ok r" "i \<notin> jt_id ` set (rn_threads r)"
  shows "runner_ok (snd (submit i kd p now r))"
  using assms
  by (auto simp: submit_def spawn_job_def emit_job_def runner_ok_def Let_def)

lemma runner_ok_submit_global:
  assumes "runner_ok r" "i \<notin> jt_id ` set (rn_threads r)"
  shows "runner_ok (snd (submit_global i kd now r))"
  using assms
  by (auto simp: submit_global_def spawn_job_def emit_job_def runner_ok_def Let_def)

lemma runner_ok_acquire:
  assumes "runner_ok r" "t \<in> set (rn_threads r)" "jt_phase t = Waiting" "rn_running r < rn_limit r"
  shows "runner_ok (set_phase (jt_id t) (Working b) (r\<lparr>rn_running := rn_running r + 1\<rparr>))"
proof -
  from assms(1) have "distinct (map jt_id (rn_threads r))" by (simp add: runner_ok_def)
  with one_thread [OF assms(2)] obtain us vs where ts: "rn_threads r = us @ t # vs" "\<forall>u \<in> set us \<union> set vs. jt_id u \<noteq> jt_id t"
    "\<forall>f. map (\<lambda>u. if jt_id u = jt_id t then f u else u) (rn_threads r) = us @ f t # vs"
    "filter (\<lambda>u. jt_id u \<noteq> jt_id t) (rn_threads r) = us @ vs" by blast
  then show ?thesis using assms(1,3,4) by (simp add: runner_ok_def set_phase_def ts(1,3))
qed

lemma in_place_ids:
  "\<forall>u \<in> set us. jt_id u \<noteq> i \<Longrightarrow> i \<notin> jt_id ` set (in_place us)"
  using in_place_subset by fastforce

lemma runner_ok_work:
  assumes "runner_ok r" "t \<in> set (rn_threads r)" "jt_phase t = Working b"
  shows "runner_ok (set_phase (jt_id t) (Ending out) (cleanup t r))"
proof -
  from assms(1) have "distinct (map jt_id (rn_threads r))" by (simp add: runner_ok_def)
  with one_thread [OF assms(2)] obtain us vs where ts: "rn_threads r = us @ t # vs" "\<forall>u \<in> set us \<union> set vs. jt_id u \<noteq> jt_id t"
    "\<forall>f. map (\<lambda>u. if jt_id u = jt_id t then f u else u) (rn_threads r) = us @ f t # vs"
    "filter (\<lambda>u. jt_id u \<noteq> jt_id t) (rn_threads r) = us @ vs" by blast
  have ids: "jt_id t \<notin> jt_id ` set (in_place us)" "jt_id t \<notin> jt_id ` set (in_place vs)"
    using ts(2) by (simp_all add: in_place_ids)
  have threads: "rn_threads (cleanup t r) = rn_threads r" by (simp add: cleanup_def split: option.split)
  show ?thesis
  proof (cases "jt_project t")
    case None
    then show ?thesis using assms(1,3) ts(1) ids ts(3) threads
      by (auto simp: runner_ok_def set_phase_def cleanup_def image_iff)
  next
    case (Some p)
    then show ?thesis using assms(1,3) ts(1) ids ts(3) threads
      by (auto simp: runner_ok_def set_phase_def cleanup_def image_iff)
  qed
qed

lemma runner_ok_report:
  assumes "runner_ok r" "t \<in> set (rn_threads r)" "jt_phase t = Ending out"
  shows "runner_ok ((emit_job j r)\<lparr>rn_threads := filter (\<lambda>u. jt_id u \<noteq> jt_id t) (rn_threads r)\<rparr>)"
proof -
  from assms(1) have "distinct (map jt_id (rn_threads r))" by (simp add: runner_ok_def)
  with one_thread [OF assms(2)] obtain us vs where ts: "rn_threads r = us @ t # vs" "\<forall>u \<in> set us \<union> set vs. jt_id u \<noteq> jt_id t"
    "\<forall>f. map (\<lambda>u. if jt_id u = jt_id t then f u else u) (rn_threads r) = us @ f t # vs"
    "filter (\<lambda>u. jt_id u \<noteq> jt_id t) (rn_threads r) = us @ vs" by blast
  then show ?thesis using assms(1,3) by (simp add: runner_ok_def emit_job_def ts(1,4))
qed

lemma trip_lists:
  "at_work (map (\<lambda>t. if P t then t\<lparr>jt_cancel := True\<rparr> else t) ts) =
     map (\<lambda>t. if P t then t\<lparr>jt_cancel := True\<rparr> else t) (at_work ts)"
  "in_place (map (\<lambda>t. if P t then t\<lparr>jt_cancel := True\<rparr> else t) ts) =
     map (\<lambda>t. if P t then t\<lparr>jt_cancel := True\<rparr> else t) (in_place ts)"
  by (induction ts) auto

lemma trip_ids:
  "map jt_id (map (\<lambda>t. if P t then t\<lparr>jt_cancel := True\<rparr> else t) ts) = map jt_id ts"
  "map jt_project (map (\<lambda>t. if P t then t\<lparr>jt_cancel := True\<rparr> else t) ts) = map jt_project ts"
  "jt_id ` set (map (\<lambda>t. if P t then t\<lparr>jt_cancel := True\<rparr> else t) ts) = jt_id ` set ts"
  "jt_project ` set (map (\<lambda>t. if P t then t\<lparr>jt_cancel := True\<rparr> else t) ts) = jt_project ` set ts"
  by (induction ts) auto

lemma runner_ok_trip: "runner_ok r \<Longrightarrow> runner_ok (trip sel r)"
proof -
  assume ok: "runner_ok r"
  define ts where "ts = map (\<lambda>t. if sel (jt_id t) \<and> jt_id t \<in> rn_cancels r then t\<lparr>jt_cancel := True\<rparr> else t) (rn_threads r)"
  have "length (at_work ts) = length (at_work (rn_threads r))" "map jt_id ts = map jt_id (rn_threads r)"
    "map jt_project (in_place ts) = map jt_project (in_place (rn_threads r))"
    "jt_project ` set (in_place ts) = jt_project ` set (in_place (rn_threads r))"
    "jt_id ` set (in_place ts) = jt_id ` set (in_place (rn_threads r))"
    unfolding ts_def trip_lists by (simp_all only: trip_ids length_map)
  moreover have "trip sel r = r\<lparr>rn_threads := ts\<rparr>" by (simp add: trip_def ts_def)
  ultimately show ?thesis using ok by (simp add: runner_ok_def)
qed

lemma runner_ok_step: "job_step r e r' \<Longrightarrow> runner_ok r \<Longrightarrow> runner_ok r'"
proof (induction rule: job_step.induct)
  case (elsewhere m r)
  then show ?case by (simp add: runner_ok_def)
qed (simp_all add: runner_ok_submit runner_ok_submit_global runner_ok_acquire [simplified] runner_ok_work
      runner_ok_report runner_ok_trip cancel_job_def shutdown_jobs_def)

lemma runner_ok_reach: "job_reach d r \<Longrightarrow> runner_ok r"
  by (induction rule: job_reach.induct) (auto simp: runner_ok_new intro: runner_ok_step)

section \<open>The mirror\<close>

lemma job_of_id [simp]: "jb_id (job_of t) = jt_id t"
  by (simp add: job_of_def)

lemma job_of_same:
  "job_of (t\<lparr>jt_phase := ph\<rparr>) = job_of t" "job_of (t\<lparr>jt_cancel := b\<rparr>) = job_of t"
  by (simp_all add: job_of_def)

definition jobs_of :: "runner \<Rightarrow> (job_id, job) btree" where
  "jobs_of r = st_jobs (dm_state (rn_daemon r))"

lemma jobs_of_emit [simp]: "jobs_of (emit_job j r) = bt_insert (jb_id j) j (jobs_of r)"
  by (simp add: jobs_of_def emit_job_def emit_is_event client_event_def)

lemma emit_job_same [simp]: "rn_threads (emit_job j r) = rn_threads r"
  by (simp add: emit_job_def)

lemma apply_presence_jobs [simp]: "st_jobs (apply_presence ps s) = st_jobs s"
  by (induction ps s rule: apply_presence.induct) (auto split: option.split)

lemma mutate_jobs: "\<not> touches_jobs m \<Longrightarrow> st_jobs (dm_state (mutate d m)) = st_jobs (dm_state d)"
  by (cases m) (simp_all add: touches_jobs_def emit_is_event client_event_def)

definition mirror_at :: "(job_id, job) btree \<Rightarrow> job_thread list \<Rightarrow> bool" where
  "mirror_at js ts \<longleftrightarrow>
     (\<forall>t \<in> set ts. bt_get js (jt_id t) = Some (job_of t))
     \<and> (\<forall>i j. bt_get js i = Some j \<longrightarrow> jb_state j = JobRunning \<longrightarrow> i \<in> jt_id ` set ts)"

lemma mirror_spawn:
  assumes "mirror_at js ts" "jt_id t \<notin> jt_id ` set ts"
  shows "mirror_at (bt_insert (jt_id t) (job_of t) js) (ts @ [t])"
  using assms by (auto simp: mirror_at_def bt_get_insert image_iff)

lemma mirror_map:
  assumes "mirror_at js ts" "\<And>t. jt_id (f t) = jt_id t" "\<And>t. job_of (f t) = job_of t"
  shows "mirror_at js (map f ts)"
  using assms(1) by (simp add: mirror_at_def image_image assms(2,3))

lemma mirror_report:
  assumes "mirror_at js ts" "distinct (map jt_id ts)" "t \<in> set ts"
  shows "mirror_at (bt_insert (jt_id t) (done_job t out now) js) (filter (\<lambda>u. jt_id u \<noteq> jt_id t) ts)"
proof -
  have "jb_state (done_job t out now) \<noteq> JobRunning"
    by (cases out rule: final_state.cases) (simp_all add: done_job_def)
  with assms show ?thesis by (fastforce simp: mirror_at_def bt_get_insert image_iff)
qed

lemma mirror_step:
  assumes "job_step r e r'" "runner_ok r" "mirror_at (jobs_of r) (rn_threads r)"
  shows "mirror_at (jobs_of r') (rn_threads r')"
  using assms
proof (induction rule: job_step.induct)
  case (submit i r kd p now)
  show ?case
  proof (cases "p \<in> rn_busy r")
    case False
    define t where "t = \<lparr>jt_id = i, jt_kind = kd, jt_project = Some p, jt_started_at = now, jt_cancel = False, jt_phase = Waiting\<rparr>"
    have "rn_threads (snd (submit i kd p now r)) = rn_threads r @ [t]"
      "jobs_of (snd (submit i kd p now r)) = bt_insert (jt_id t) (job_of t) (jobs_of r)"
      using False by (simp_all add: submit_def spawn_job_def Let_def t_def jobs_of_def emit_job_def emit_is_event client_event_def)
    with mirror_spawn [OF submit(4), of t] submit(1) show ?thesis by (simp add: t_def)
  qed (simp add: submit_def submit(4))
next
  case (submit_global i r kd now)
  show ?case
  proof (cases "rn_tool_busy r")
    case False
    define t where "t = \<lparr>jt_id = i, jt_kind = kd, jt_project = None, jt_started_at = now, jt_cancel = False, jt_phase = Waiting\<rparr>"
    have "rn_threads (snd (submit_global i kd now r)) = rn_threads r @ [t]"
      "jobs_of (snd (submit_global i kd now r)) = bt_insert (jt_id t) (job_of t) (jobs_of r)"
      using False by (simp_all add: submit_global_def spawn_job_def Let_def t_def jobs_of_def emit_job_def emit_is_event client_event_def)
    with mirror_spawn [OF submit_global(4), of t] submit_global(1) show ?thesis by (simp add: t_def)
  qed (simp add: submit_global_def submit_global(4))
next
  case (report t r out now)
  have "jb_id (done_job t out now) = jt_id t" by (simp add: done_job_def split: prod.split)
  then show ?case
    using mirror_report [of "jobs_of r" "rn_threads r" t out now] report
    by (simp add: runner_ok_def jobs_of_def emit_job_def emit_is_event client_event_def)
next
  case (elsewhere m r)
  then show ?case by (simp add: jobs_of_def mutate_jobs)
next
  case (work t r tripped we)
  have "jobs_of (set_phase (jt_id t) ph (cleanup t r)) = jobs_of r"
    "rn_threads (set_phase (jt_id t) ph (cleanup t r)) = map (\<lambda>u. if jt_id u = jt_id t then u\<lparr>jt_phase := ph\<rparr> else u) (rn_threads r)" for ph
    by (simp_all add: jobs_of_def set_phase_def cleanup_def split: option.split)
  with work show ?case by (simp add: mirror_map job_of_same)
qed (simp_all add: set_phase_def jobs_of_def cancel_job_def shutdown_jobs_def trip_def mirror_map job_of_same)

lemma mirror_reach:
  assumes "job_reach d r" "\<And>i j. bt_get (st_jobs (dm_state d)) i = Some j \<Longrightarrow> jb_state j \<noteq> JobRunning"
  shows "mirror_at (jobs_of r) (rn_threads r)"
  using assms(1)
proof (induction rule: job_reach.induct)
  case start
  with assms(2) show ?case by (auto simp: mirror_at_def runner_new_def jobs_of_def)
next
  case (step r e r')
  then show ?case using mirror_step runner_ok_reach by blast
qed

section \<open>Every job can be brought to its end\<close>

fun steps_left :: "thread_phase \<Rightarrow> nat" where
  "steps_left Waiting = 3"
| "steps_left (Working b) = 2"
| "steps_left (Ending out) = 1"

definition work_left :: "runner \<Rightarrow> nat" where
  "work_left r = sum_list (map (\<lambda>t. steps_left (jt_phase t)) (rn_threads r))"

definition own_step :: "job_event \<Rightarrow> bool" where
  "own_step e \<longleftrightarrow> (case e of Acquire i \<Rightarrow> True | WorkEnds i we \<Rightarrow> True | Report i now \<Rightarrow> True | _ \<Rightarrow> False)"

lemma work_left_set_phase:
  assumes "t \<in> set (rn_threads r)" "distinct (map jt_id (rn_threads r))" "rn_threads r' = rn_threads r"
  shows "work_left (set_phase (jt_id t) ph r') + steps_left (jt_phase t) = work_left r + steps_left ph"
proof -
  obtain us vs where ts: "rn_threads r = us @ t # vs" "\<forall>u \<in> set us \<union> set vs. jt_id u \<noteq> jt_id t"
    "\<forall>f. map (\<lambda>u. if jt_id u = jt_id t then f u else u) (rn_threads r) = us @ f t # vs"
    "filter (\<lambda>u. jt_id u \<noteq> jt_id t) (rn_threads r) = us @ vs"
    by (rule one_thread [OF assms(1,2)])
  from ts(3) have "rn_threads (set_phase (jt_id t) ph r') = us @ t\<lparr>jt_phase := ph\<rparr> # vs"
    by (simp add: set_phase_def assms(3))
  with ts(1) show ?thesis by (simp add: work_left_def)
qed

text \<open>Each thread's own step brings it nearer to its end, and one of them is always possible.\<close>

lemma own_step_decreases:
  assumes "job_step r e r'" "own_step e" "distinct (map jt_id (rn_threads r))"
  shows "work_left r' < work_left r"
  using assms
proof (induction rule: job_step.induct)
  case (acquire t r)
  then show ?case using work_left_set_phase [of t r "r\<lparr>rn_running := rn_running r + 1\<rparr>" "Working (jt_cancel t)"] by simp
next
  case (work t r tripped we)
  have "rn_threads (cleanup t r) = rn_threads r" by (simp add: cleanup_def split: option.split)
  with work show ?case using work_left_set_phase [of t r "cleanup t r" "Ending (work_outcome tripped we)"] by simp
next
  case (report t r out now)
  obtain us vs where ts: "rn_threads r = us @ t # vs" "\<forall>u \<in> set us \<union> set vs. jt_id u \<noteq> jt_id t"
    "\<forall>f. map (\<lambda>u. if jt_id u = jt_id t then f u else u) (rn_threads r) = us @ f t # vs"
    "filter (\<lambda>u. jt_id u \<noteq> jt_id t) (rn_threads r) = us @ vs"
    by (rule one_thread [OF report(1,4)])
  from report(2) show ?case by (simp add: work_left_def ts(4)) (simp add: ts(1))
qed (simp_all add: own_step_def)

lemma own_step_possible:
  assumes "runner_ok r" "rn_threads r \<noteq> []"
  shows "\<exists>e r'. job_step r e r' \<and> own_step e"
proof (cases "at_work (rn_threads r)")
  case Nil
  then have run: "rn_running r < rn_limit r" using assms(1) by (simp add: runner_ok_def)
  from assms(2) obtain t where t: "t \<in> set (rn_threads r)" by (cases "rn_threads r") auto
  with Nil have "\<not> is_working (jt_phase t)" by (auto simp: at_work_def filter_empty_conv)
  then consider "jt_phase t = Waiting" | out where "jt_phase t = Ending out"
    by (cases "jt_phase t") auto
  then show ?thesis
  proof cases
    case 1
    have "own_step (Acquire (jt_id t))" by (simp add: own_step_def)
    with job_step.acquire [OF t 1 run] show ?thesis by blast
  next
    case 2
    have "own_step (Report (jt_id t) now)" for now by (simp add: own_step_def)
    with job_step.report [OF t 2] show ?thesis by blast
  qed
next
  case (Cons t ts)
  then have "t \<in> set (at_work (rn_threads r))" by simp
  then obtain b where "t \<in> set (rn_threads r)" "jt_phase t = Working b"
    by (auto simp: at_work_def elim: is_working.elims)
  then have "job_step r (WorkEnds (jt_id t) (Panicked None))
      (set_phase (jt_id t) (Ending (work_outcome b (Panicked None))) (cleanup t r))" by (rule job_step.work)
  moreover have "own_step (WorkEnds (jt_id t) (Panicked None))" by (simp add: own_step_def)
  ultimately show ?thesis by blast
qed

definition own_move :: "runner \<Rightarrow> runner \<Rightarrow> bool" where
  "own_move r r' \<longleftrightarrow> (\<exists>e. own_step e \<and> job_step r e r')"

lemma all_jobs_end:
  "runner_ok r \<Longrightarrow> \<exists>r'. own_move\<^sup>*\<^sup>* r r' \<and> rn_threads r' = [] \<and> runner_ok r'"
proof (induction "work_left r" arbitrary: r rule: less_induct)
  case less
  show ?case
  proof (cases "rn_threads r = []")
    case False
    with own_step_possible [OF less.prems] obtain e r1 where s: "job_step r e r1" "own_step e" by blast
    have ok: "runner_ok r1" using runner_ok_step [OF s(1) less.prems] .
    have "work_left r1 < work_left r"
      using own_step_decreases [OF s] less.prems by (simp add: runner_ok_def)
    from less.hyps [OF this ok] obtain r' where "own_move\<^sup>*\<^sup>* r1 r'" "rn_threads r' = []" "runner_ok r'" by blast
    moreover have "own_move r r1" using s by (auto simp: own_move_def)
    ultimately show ?thesis by (blast intro: converse_rtranclp_into_rtranclp)
  qed (use less.prems in blast)
qed

section \<open>Properties\<close>

text \<open>(C23) In every state the runner can reach there are at most three jobs at work, no two jobs hold a
  place for the same project, at most one tool job holds a place, and a project is busy exactly while
  one of its jobs does.\<close>

theorem jobs_exclusive:
  assumes "job_reach d r"
  shows "length (at_work (rn_threads r)) \<le> 3
    \<and> distinct (map jt_project (in_place (rn_threads r)))
    \<and> (is_busy p r \<longleftrightarrow> (\<exists>t. t \<in> set (in_place (rn_threads r)) \<and> jt_project t = Some p))"
proof -
  have "Some p \<in> jt_project ` S \<longleftrightarrow> (\<exists>t. t \<in> S \<and> jt_project t = Some p)" for S
    by (metis (mono_tags) image_iff)
  with runner_ok_reach [OF assms] show ?thesis by (simp add: runner_ok_def is_busy_def)
qed

definition idle_daemon :: daemon where
  "idle_daemon = \<lparr>dm_state = state_load [], dm_out = []\<rparr>"

definition one_job :: runner where
  "one_job = snd (submit 7 JobAdd 1 ''t'' (runner_new idle_daemon))"

lemma one_job_reach: "job_reach idle_daemon one_job"
  unfolding one_job_def
  by (rule job_reach.step [OF job_reach.start job_step.submit])
     (simp_all add: runner_new_def idle_daemon_def state_load_def)

theorem jobs_exclusive_witness:
  "length (at_work (rn_threads one_job)) \<le> 3
    \<and> distinct (map jt_project (in_place (rn_threads one_job)))
    \<and> (is_busy 1 one_job \<longleftrightarrow> (\<exists>t. t \<in> set (in_place (rn_threads one_job)) \<and> jt_project t = Some 1))"
  by (rule jobs_exclusive [OF one_job_reach])

text \<open>The mirror is right about jobs: what clients see as running are exactly the jobs in flight,
  from the accepted submission to the report.\<close>

theorem jobs_mirrored:
  assumes "job_reach \<lparr>dm_state = state_load ps, dm_out = []\<rparr> r"
  shows "(\<exists>j. bt_get (st_jobs (dm_state (rn_daemon r))) i = Some j \<and> jb_state j = JobRunning)
    \<longleftrightarrow> i \<in> jt_id ` set (rn_threads r)"
proof -
  have "mirror_at (jobs_of r) (rn_threads r)"
    by (rule mirror_reach [OF assms]) (simp add: state_load_def)
  then show ?thesis
    by (auto simp: mirror_at_def jobs_of_def) (auto simp: job_of_def)
qed

theorem jobs_mirrored_witness:
  "(\<exists>j. bt_get (st_jobs (dm_state (rn_daemon one_job))) 7 = Some j \<and> jb_state j = JobRunning)
    \<longleftrightarrow> 7 \<in> jt_id ` set (rn_threads one_job)"
  by (rule jobs_mirrored [where ps = "[]"]) (use one_job_reach in \<open>simp add: idle_daemon_def\<close>)

text \<open>No job is stuck and nothing leaks: from every reachable state the jobs in flight can end by
  their own steps, each of which brings them nearer to the end, and then every slot, busy mark and
  registration is free again.\<close>

theorem jobs_end:
  assumes "job_reach d r"
  shows "{r'. own_move r r'} \<subseteq> {r'. work_left r' < work_left r}
    \<and> (\<exists>r'. own_move\<^sup>*\<^sup>* r r' \<and> rn_threads r' = [] \<and> rn_running r' = 0 \<and> rn_busy r' = {}
          \<and> \<not> rn_tool_busy r' \<and> rn_cancels r' = {})"
proof -
  have ok: "runner_ok r" by (rule runner_ok_reach [OF assms])
  then have "distinct (map jt_id (rn_threads r))" by (simp add: runner_ok_def)
  then have "{r'. own_move r r'} \<subseteq> {r'. work_left r' < work_left r}"
    unfolding own_move_def using own_step_decreases by blast
  moreover from all_jobs_end [OF ok] obtain r' where "own_move\<^sup>*\<^sup>* r r'" "rn_threads r' = []" "runner_ok r'" by blast
  moreover from this have "rn_running r' = 0 \<and> rn_busy r' = {} \<and> \<not> rn_tool_busy r' \<and> rn_cancels r' = {}"
    by (simp add: runner_ok_def)
  ultimately show ?thesis by blast
qed

theorem jobs_end_witness:
  "{r'. own_move one_job r'} \<subseteq> {r'. work_left r' < work_left one_job}
    \<and> (\<exists>r'. own_move\<^sup>*\<^sup>* one_job r' \<and> rn_threads r' = [] \<and> rn_running r' = 0 \<and> rn_busy r' = {}
          \<and> \<not> rn_tool_busy r' \<and> rn_cancels r' = {})"
  by (rule jobs_end [OF one_job_reach])

end
