(* ===== verification/Project_Ids.thy ===== *)
theory Project_Ids
  imports Text
begin

text \<open>
  Names and paths of projects (\<^verbatim>\<open>crates/willie-core/src/project.rs\<close>, \<^verbatim>\<open>paths.rs\<close>, and the helpers at
  the top of \<^verbatim>\<open>crates/willied/src/projects.rs\<close>): the slug of a folder name and its search for a free
  one, the key of a Windows checkout, the Linux path of a registered source. The counter of the search
  is a natural number; the source's \<open>u32\<close> would overflow only with four thousand million slugs taken.
  \<open>str::to_lowercase\<close> beyond ASCII is a parameter.

  Shown: the search for a slug ends, and the slug is free, ASCII, and a single path component.
\<close>

section \<open>Slugs\<close>

text \<open>The accented letters are two bytes: 0xC3 and one of these.\<close>

definition fold_table :: "(nat list \<times> string) list" where
  "fold_table = [
     ([0xA1, 0xA0, 0xA2, 0xA3, 0xA4, 0x81, 0x80, 0x82, 0x83, 0x84], ''a''),
     ([0xA9, 0xA8, 0xAA, 0xAB, 0x89, 0x88, 0x8A, 0x8B], ''e''),
     ([0xAD, 0xAC, 0xAE, 0xAF, 0x8D, 0x8C, 0x8E, 0x8F], ''i''),
     ([0xB3, 0xB2, 0xB4, 0xB5, 0xB6, 0x93, 0x92, 0x94, 0x95, 0x96], ''o''),
     ([0xBA, 0xB9, 0xBB, 0xBC, 0x9A, 0x99, 0x9B, 0x9C], ''u''),
     ([0xA7, 0x87], ''c''),
     ([0xB1, 0x91], ''n'')]"

definition fold_ascii :: "string \<Rightarrow> string" where
  "fold_ascii ch =
     (case map of_char ch of
        [l, b] \<Rightarrow>
          (if l = 0xC3 then
             (case find (\<lambda>(bs, a). list_ex (\<lambda>x. x = b) bs) fold_table of
                Some (bs, a) \<Rightarrow> a
              | None \<Rightarrow> ch)
           else ch)
      | _ \<Rightarrow> ch)"

definition ascii_alnum :: "char \<Rightarrow> bool" where
  "ascii_alnum c \<longleftrightarrow> ascii_digit c \<or> ascii_lower c \<or> ascii_upper c"

definition dash :: char where "dash = CHR ''-''"

definition kebab_step :: "string \<times> bool \<Rightarrow> string \<Rightarrow> string \<times> bool" where
  "kebab_step st ch =
     (case st of (out, dashed) \<Rightarrow>
        (let mapped = fold_ascii ch in
         if length mapped = 1 \<and> ascii_alnum (hd mapped) then (out @ [to_ascii_lower (hd mapped)], False)
         else if out \<noteq> [] \<and> \<not> dashed then (out @ [dash], True)
         else (out, dashed)))"

definition kebab_ascii :: "string \<Rightarrow> string" where
  "kebab_ascii s = trim_both (\<lambda>c. c = dash) (fst (foldl kebab_step ([], False) (utf8_chars s)))"

definition slug_candidate :: "string \<Rightarrow> nat \<Rightarrow> string" where
  "slug_candidate base n = base @ dash # nat_text n"

text \<open>The search is a loop without a bound of its own.\<close>

partial_function (option) slug_search :: "string \<Rightarrow> string list \<Rightarrow> nat \<Rightarrow> string option" where
  "slug_search base taken n =
     (if \<not> list_ex (\<lambda>t. t = slug_candidate base n) taken then Some (slug_candidate base n)
      else slug_search base taken (n + 1))"

definition slug_for :: "string \<Rightarrow> string list \<Rightarrow> string option" where
  "slug_for folder taken =
     (let base = kebab_ascii folder;
          base = (if base = [] then ''project'' else base)
      in if \<not> list_ex (\<lambda>t. t = base) taken then Some base else slug_search base taken 2)"

section \<open>Sources\<close>

definition backslash :: char where "backslash = CHR 0x5C"

definition forward :: "string \<Rightarrow> string" where
  "forward s = map (\<lambda>c. if c = backslash then CHR ''/'' else c) s"

definition source_key :: "(string \<Rightarrow> string) \<Rightarrow> string \<Rightarrow> string" where
  "source_key to_lowercase windows_path =
     to_lowercase (trim_end (\<lambda>c. c = CHR ''/'') (forward windows_path))"

definition windows_to_drvfs :: "string \<Rightarrow> string option" where
  "windows_to_drvfs path =
     (if length path < 3 \<or> path ! 1 \<noteq> CHR '':'' then None
      else
        (let drive = to_ascii_lower (path ! 0) in
         if \<not> ascii_lower drive then None
         else if path ! 2 \<noteq> backslash \<and> path ! 2 \<noteq> CHR ''/'' then None
         else Some (''/mnt/'' @ drive # forward (drop 2 path))))"

definition source_to_linux :: "string \<Rightarrow> string option" where
  "source_to_linux source =
     (if 2 \<le> length source \<and> source ! 1 = CHR '':'' then windows_to_drvfs source
      else if starts_with source ''/'' then Some source
      else None)"

definition folder_name :: "string \<Rightarrow> string" where
  "folder_name windows_path =
     (let sep = (\<lambda>c. c = backslash \<or> c = CHR ''/'')
      in rev (takeWhile (\<lambda>c. \<not> sep c) (rev (trim_end sep windows_path))))"

section \<open>The shape of a slug\<close>

definition slug_char :: "char \<Rightarrow> bool" where
  "slug_char c \<longleftrightarrow> ascii_digit c \<or> ascii_lower c \<or> c = dash"

definition slug_ok :: "string \<Rightarrow> bool" where
  "slug_ok s \<longleftrightarrow> s \<noteq> [] \<and> list_all slug_char s \<and> hd s \<noteq> dash \<and> last s \<noteq> dash"

lemma kebab_step_chars:
  "list_all slug_char (fst st) \<Longrightarrow> list_all slug_char (fst (kebab_step st ch))"
  by (auto simp: kebab_step_def Let_def slug_char_def ascii_alnum_def to_ascii_lower_class to_ascii_lower_def
      split: prod.split)
     (auto simp: ascii_lower_def ascii_upper_def ascii_digit_def Let_def)

lemma kebab_fold_chars:
  "list_all slug_char (fst st) \<Longrightarrow> list_all slug_char (fst (foldl kebab_step st chs))"
  by (induction chs arbitrary: st) (simp_all add: kebab_step_chars)

lemma trim_both_first: "trim_both p s \<noteq> [] \<Longrightarrow> \<not> p (hd (trim_both p s))"
proof -
  assume ne: "trim_both p s \<noteq> []"
  let ?t = "dropWhile p s"
  have t: "?t \<noteq> []"
  proof
    assume e: "?t = []"
    have "trim_both p s = []" unfolding trim_both_def trim_start_def e by (simp add: trim_end_def)
    with ne show False by contradiction
  qed
  obtain u where u: "?t = trim_end p ?t @ u"
    using suffix_dropWhile [of p "rev ?t"] unfolding trim_end_def suffix_def by (metis rev_append rev_rev_ident)
  then have "hd ?t = hd (trim_both p s)"
    using ne by (metis hd_append2 trim_both_def trim_start_def)
  then show ?thesis using hd_dropWhile [OF t] by simp
qed

lemma kebab_ok: "kebab_ascii s \<noteq> [] \<Longrightarrow> slug_ok (kebab_ascii s)"
proof -
  assume ne: "kebab_ascii s \<noteq> []"
  have "list_all slug_char (fst (foldl kebab_step ([], False) (utf8_chars s)))"
    by (rule kebab_fold_chars) simp
  then have "list_all slug_char (kebab_ascii s)"
    unfolding kebab_ascii_def list_all_iff using set_trim_both by fast
  moreover have "hd (kebab_ascii s) \<noteq> dash"
    using trim_both_first [OF ne [unfolded kebab_ascii_def]] unfolding kebab_ascii_def .
  moreover have "last (kebab_ascii s) \<noteq> dash"
    using trim_end_last [OF ne [unfolded kebab_ascii_def trim_both_def]] unfolding kebab_ascii_def trim_both_def .
  ultimately show ?thesis using ne by (simp add: slug_ok_def)
qed

lemma project_ok: "slug_ok ''project''"
  by (simp add: slug_ok_def slug_char_def ascii_lower_def ascii_digit_def dash_def)

lemma digit_not_dash: "ascii_digit c \<Longrightarrow> c \<noteq> dash"
  by (auto simp: ascii_digit_def dash_def)

lemma candidate_ok: "slug_ok base \<Longrightarrow> slug_ok (slug_candidate base n)"
proof -
  assume "slug_ok base"
  moreover have "list_all slug_char (nat_text n)" "last (nat_text n) \<noteq> dash"
    using nat_text_digits [of n] digit_not_dash by (auto simp: list_all_iff slug_char_def)
  ultimately show ?thesis
    using nat_text_digits [of n]
    by (simp add: slug_ok_def slug_candidate_def slug_char_def)
qed

lemma slug_candidate_inject: "slug_candidate base m = slug_candidate base n \<longleftrightarrow> m = n"
  by (simp add: slug_candidate_def)

text \<open>Among more numbers than there are taken slugs, one is free.\<close>

lemma free_candidate: "\<exists>m \<ge> n. slug_candidate base m \<notin> set taken"
proof (rule ccontr)
  assume "\<not> ?thesis"
  then have "slug_candidate base ` {n..n + length taken} \<subseteq> set taken" by auto
  then have "card (slug_candidate base ` {n..n + length taken}) \<le> length taken"
    by (meson card_length card_mono List.finite_set le_trans)
  moreover have "inj_on (slug_candidate base) {n..n + length taken}"
    by (simp add: inj_on_def slug_candidate_inject)
  ultimately show False by (simp add: card_image)
qed

lemma slug_search_finds:
  assumes "n \<le> m" "slug_candidate base m \<notin> set taken"
  shows "\<exists>k. slug_search base taken n = Some (slug_candidate base k) \<and> slug_candidate base k \<notin> set taken"
  using assms(1)
proof (induction "m - n" arbitrary: n)
  case 0
  with assms(2) show ?case by (subst slug_search.simps) (auto simp: list_ex_iff)
next
  case (Suc d)
  show ?case
  proof (cases "slug_candidate base n \<in> set taken")
    case True
    with Suc.hyps(1) [of "n + 1"] Suc.hyps(2) Suc.prems show ?thesis
      by (subst slug_search.simps) (auto simp: list_ex_iff)
  qed (subst slug_search.simps, auto simp: list_ex_iff)
qed

lemma slug_for_shape:
  "\<exists>s. slug_for folder taken = Some s \<and> s \<notin> set taken \<and> slug_ok s \<and> CHR ''/'' \<notin> set s \<and> CHR ''.'' \<notin> set s"
proof -
  define base where "base = (if kebab_ascii folder = [] then ''project'' else kebab_ascii folder)"
  have ok: "slug_ok base" using kebab_ok [of folder] project_ok by (simp add: base_def)
  have "\<exists>s. slug_for folder taken = Some s \<and> s \<notin> set taken \<and> slug_ok s"
  proof (cases "base \<in> set taken")
    case False
    with ok show ?thesis by (auto simp: slug_for_def Let_def list_ex_iff simp flip: base_def)
  next
    case True
    obtain m where "2 \<le> m" "slug_candidate base m \<notin> set taken" using free_candidate by blast
    from slug_search_finds [OF this] obtain k where
      "slug_search base taken 2 = Some (slug_candidate base k)" "slug_candidate base k \<notin> set taken" by blast
    with True candidate_ok [OF ok, of k] show ?thesis
      by (auto simp: slug_for_def Let_def list_ex_iff simp flip: base_def)
  qed
  moreover have "slug_char c \<Longrightarrow> c \<noteq> CHR ''/'' \<and> c \<noteq> CHR ''.''" for c
    by (auto simp: slug_char_def ascii_digit_def ascii_lower_def dash_def)
  ultimately show ?thesis by (fastforce simp: slug_ok_def list_all_iff)
qed

section \<open>Properties\<close>


end
