(* ===== verification/Project_Jobs.thy ===== *)
theory Project_Jobs
  imports Jobs Project_Ids Sess_Sandbox
begin

text \<open>
  The git work of the project jobs (\<^verbatim>\<open>crates/willied/src/projects.rs\<close>, \<open>run_add\<close> to \<open>run_relocate\<close>,
  and \<^verbatim>\<open>crates/willied/src/git.rs\<close>). Everything outside the daemon is asked through an oracle: its
  answer to a call may depend on all the calls made so far, which are kept in order, so that what was
  asked before what is part of the model. Writing and forgetting a project's file are such calls;
  \<open>save_or_log\<close> goes on when they fail. The mirror is the \<open>daemon\<close> of \<open>Daemon_State\<close>.

  Shown: an add ends with its project ready or failed with the job's own code; the Windows checkout is
  pushed to only after the checks that protect it and no job but an add and a sync ever writes it; an
  update merges only a one-sided history; a workspace is deleted only clean or by force; a project is
  relocated only to a checkout that contains its commit.
\<close>

section \<open>Calls\<close>

datatype call =
    CIsRepo string
  | CGit string "string list"
  | CClone string string
  | CRemoveDir string
  | CCreateDir string
  | CExists string
  | CCancelled
  | CSave project
  | CForget project_id

text \<open>A command could not be run, or it ended with whether it succeeded and its two outputs.\<close>

type_synonym cmd_output = "string + bool \<times> string \<times> string"

record answers =
  an_is_repo :: "call list \<Rightarrow> string \<Rightarrow> bool"
  an_git :: "call list \<Rightarrow> string \<Rightarrow> string list \<Rightarrow> cmd_output"
  an_clone :: "call list \<Rightarrow> string \<Rightarrow> string \<Rightarrow> cmd_output"
  an_remove_dir :: "call list \<Rightarrow> string \<Rightarrow> string option"
  an_exists :: "call list \<Rightarrow> string \<Rightarrow> bool"
  an_cancelled :: "call list \<Rightarrow> bool"
  an_save :: "call list \<Rightarrow> project \<Rightarrow> string option"

record ctx =
  cx_calls :: "call list"
  cx_daemon :: daemon

definition called :: "call \<Rightarrow> ctx \<Rightarrow> ctx" where
  "called c cx = cx\<lparr>cx_calls := cx_calls cx @ [c]\<rparr>"

text \<open>The \<open>?\<close> operator.\<close>

definition andthen ::
  "('e + 'a) \<times> 's \<Rightarrow> ('a \<Rightarrow> 's \<Rightarrow> ('e + 'b) \<times> 's) \<Rightarrow> ('e + 'b) \<times> 's" where
  "andthen m f =
     (case m of
        (Inl e, cx) \<Rightarrow> (Inl e, cx)
      | (Inr a, cx) \<Rightarrow> f a cx)"

section \<open>git\<close>

record git_error =
  ge_code :: string
  ge_message :: string

fun join_lines :: "string list \<Rightarrow> string" where
  "join_lines [] = []"
| "join_lines [l] = l"
| "join_lines (l # ls) = l @ newline # join_lines ls"

definition is_repo :: "answers \<Rightarrow> string \<Rightarrow> ctx \<Rightarrow> bool \<times> ctx" where
  "is_repo an path cx = (an_is_repo an (cx_calls cx) path, called (CIsRepo path) cx)"

definition git_run :: "answers \<Rightarrow> string \<Rightarrow> string list \<Rightarrow> ctx \<Rightarrow> (git_error + string) \<times> ctx" where
  "git_run an repo args cx =
     ((case an_git an (cx_calls cx) repo args of
         Inl e \<Rightarrow> Inl \<lparr>ge_code = ''git_failed'', ge_message = e\<rparr>
       | Inr (ok, out, err) \<Rightarrow>
           if ok then Inr out
           else Inl \<lparr>ge_code = ''git_failed'', ge_message = join_lines (last_n 4 (rust_lines err))\<rparr>),
      called (CGit repo args) cx)"

text \<open>The commands of which only the exit status counts.\<close>

definition git_succeeds :: "answers \<Rightarrow> string \<Rightarrow> string list \<Rightarrow> ctx \<Rightarrow> bool \<times> ctx" where
  "git_succeeds an repo args cx =
     ((case an_git an (cx_calls cx) repo args of Inr (ok, out, err) \<Rightarrow> ok | Inl e \<Rightarrow> False),
      called (CGit repo args) cx)"

definition current_branch :: "answers \<Rightarrow> string \<Rightarrow> ctx \<Rightarrow> (git_error + string) \<times> ctx" where
  "current_branch an repo cx =
     (case git_run an repo [''symbolic-ref'', ''--short'', ''HEAD''] cx of
        (Inr out, cx) \<Rightarrow> (Inr (trim_ws out), cx)
      | (Inl e, cx) \<Rightarrow>
          (Inl \<lparr>ge_code = ''source_detached_head'',
                ge_message = ''the checkout is on a detached HEAD; check out a branch first''\<rparr>, cx))"

definition has_commits :: "answers \<Rightarrow> string \<Rightarrow> ctx \<Rightarrow> bool \<times> ctx" where
  "has_commits an repo = git_succeeds an repo [''rev-parse'', ''--verify'', ''--quiet'', ''HEAD'']"

definition is_clean :: "answers \<Rightarrow> string \<Rightarrow> ctx \<Rightarrow> (git_error + bool) \<times> ctx" where
  "is_clean an repo cx =
     andthen (git_run an repo [''status'', ''--porcelain''] cx) (\<lambda>out cx. (Inr (is_blank out), cx))"

definition git_clone :: "answers \<Rightarrow> string \<Rightarrow> string \<Rightarrow> ctx \<Rightarrow> (git_error + string) \<times> ctx" where
  "git_clone an src dst cx =
     ((case an_clone an (cx_calls cx) src dst of
         Inl e \<Rightarrow> Inl \<lparr>ge_code = ''git_failed'', ge_message = e\<rparr>
       | Inr (ok, out, err) \<Rightarrow>
           if ok then Inr (out @ err) else Inl \<lparr>ge_code = ''git_failed'', ge_message = out @ err\<rparr>),
      called (CClone src dst) cx)"

definition head_contains :: "answers \<Rightarrow> string \<Rightarrow> string \<Rightarrow> ctx \<Rightarrow> bool \<times> ctx" where
  "head_contains an repo commit =
     git_succeeds an repo [''merge-base'', ''--is-ancestor'', commit, ''HEAD'']"

section \<open>Outcomes of a job\<close>

type_synonym refusal = "string \<times> string \<times> string"

definition git_remediation :: "string \<Rightarrow> string" where
  "git_remediation code =
     (if code = ''source_detached_head'' then ''check out a branch in the Windows checkout, then add again''
      else ''check git's output and try again'')"

definition git_err_outcome :: "(git_error + 'a) \<times> ctx \<Rightarrow> (refusal + 'a) \<times> ctx" where
  "git_err_outcome m =
     (case m of
        (Inl e, cx) \<Rightarrow> (Inl (ge_code e, ge_message e, git_remediation (ge_code e)), cx)
      | (Inr a, cx) \<Rightarrow> (Inr a, cx))"

definition save_or_log :: "project \<Rightarrow> ctx \<Rightarrow> ctx" where
  "save_or_log p cx = called (CSave p) cx"

definition delete_or_log :: "project \<Rightarrow> ctx \<Rightarrow> ctx" where
  "delete_or_log p cx = called (CForget (pj_id p)) cx"

definition update_project :: "project \<Rightarrow> (project \<Rightarrow> project) \<Rightarrow> ctx \<Rightarrow> ctx" where
  "update_project project edit cx =
     (let p = edit project; cx = save_or_log p cx
      in cx\<lparr>cx_daemon := emit (upsert_project p) (cx_daemon cx)\<rparr>)"

definition mark_ready :: "project \<Rightarrow> ctx \<Rightarrow> ctx" where
  "mark_ready project cx = update_project project (\<lambda>p. p\<lparr>pj_state := ProjReady\<rparr>) cx"

text \<open>What only an add does with a git error: the project fails with it.\<close>

definition add_fail :: "project \<Rightarrow> (git_error + 'a) \<times> ctx \<Rightarrow> (refusal + 'a) \<times> ctx" where
  "add_fail project m =
     (case m of
        (Inl e, cx) \<Rightarrow>
          (let hint = git_remediation (ge_code e)
           in (Inl (ge_code e, ge_message e, hint),
               update_project project
                 (\<lambda>p. p\<lparr>pj_state := ProjFailed (ge_code e) (ge_message e) hint\<rparr>) cx))
      | (Inr a, cx) \<Rightarrow> (Inr a, cx))"

definition check_cancelled ::
  "answers \<Rightarrow> job_kind \<Rightarrow> project \<Rightarrow> ctx \<Rightarrow> (refusal + unit) \<times> ctx" where
  "check_cancelled an kd project cx =
     (let tripped = an_cancelled an (cx_calls cx); cx = called CCancelled cx
      in if \<not> tripped then (Inr (), cx)
         else
           (let message = ''the job was interrupted before it finished'';
                hint = (if kd = JobAdd then ''remove the project and add it again''
                        else ''retry the operation'')
            in (Inl (''interrupted'', message, hint),
                update_project project (\<lambda>p. p\<lparr>pj_state := ProjFailed ''interrupted'' message hint\<rparr>) cx)))"

section \<open>The jobs\<close>

fun copy_remotes ::
  "answers \<Rightarrow> string \<Rightarrow> string \<Rightarrow> project \<Rightarrow> string list \<Rightarrow> ctx \<Rightarrow> (refusal + unit) \<times> ctx" where
  "copy_remotes an src workspace project [] cx = (Inr (), cx)"
| "copy_remotes an src workspace project (name # names) cx =
     andthen (add_fail project (git_run an src [''remote'', ''get-url'', name] cx)) (\<lambda>url cx.
     andthen (add_fail project (git_run an workspace [''remote'', ''add'', name, trim_ws url] cx)) (\<lambda>_ cx.
     copy_remotes an src workspace project names cx))"

definition run_add ::
  "answers \<Rightarrow> string \<Rightarrow> string \<Rightarrow> project \<Rightarrow> ctx \<Rightarrow> (refusal + string) \<times> ctx" where
  "run_add an src workspace project cx =
     andthen (check_cancelled an JobAdd project cx) (\<lambda>_ cx.
     andthen (add_fail project (git_clone an src workspace cx)) (\<lambda>log cx.
     andthen (check_cancelled an JobAdd project cx) (\<lambda>_ cx.
     andthen (add_fail project (git_run an workspace [''remote'', ''rename'', ''origin'', ''windows''] cx)) (\<lambda>_ cx.
     andthen (add_fail project (git_run an src [''remote''] cx)) (\<lambda>remotes cx.
     andthen (copy_remotes an src workspace project
                (filter (\<lambda>n. n \<noteq> [] \<and> n \<noteq> ''origin'') (map trim_ws (rust_lines remotes))) cx) (\<lambda>_ cx.
     andthen (check_cancelled an JobAdd project cx) (\<lambda>_ cx.
     andthen (add_fail project (git_run an workspace [''config'', ''core.autocrlf'', ''false''] cx)) (\<lambda>_ cx.
     andthen (add_fail project (git_run an src [''config'', ''receive.denyCurrentBranch'', ''updateInstead''] cx)) (\<lambda>_ cx.
     andthen (check_cancelled an JobAdd project cx) (\<lambda>_ cx.
     (Inr log, mark_ready project cx)))))))))))"

definition source_missing :: refusal where
  "source_missing =
     (''source_missing'', ''the Windows checkout is missing'',
      ''relocate the project to a checkout that still exists'')"

definition positive_count :: "string \<Rightarrow> bool" where
  "positive_count out = (0 < (case parse_u64 (trim_ws out) of Some n \<Rightarrow> n | None \<Rightarrow> 0))"

definition run_sync ::
  "answers \<Rightarrow> string \<Rightarrow> string \<Rightarrow> string \<Rightarrow> project \<Rightarrow> ctx \<Rightarrow> (refusal + string) \<times> ctx" where
  "run_sync an src workspace branch project cx =
     andthen (check_cancelled an JobSyncToWindows project cx) (\<lambda>_ cx.
     (case is_repo an src cx of (there, cx) \<Rightarrow>
     if \<not> there then (Inl source_missing, cx) else
     andthen (git_err_outcome (is_clean an src cx)) (\<lambda>clean cx.
     if \<not> clean then
       (Inl (''windows_tree_dirty'', ''the Windows checkout has uncommitted changes'',
             ''commit or discard the changes in the Windows checkout, then try again''), cx)
     else
     andthen (git_err_outcome (git_run an src [''rev-parse'', ''--abbrev-ref'', ''HEAD''] cx)) (\<lambda>current cx.
     if trim_ws current \<noteq> branch then
       (Inl (''windows_branch_mismatch'',
             ''the Windows checkout is on `'' @ trim_ws current @ ''`, the project's branch is `'' @ branch @ ''`'',
             ''check out the project's branch in the Windows checkout, then try again''), cx)
     else
     andthen (check_cancelled an JobSyncToWindows project cx) (\<lambda>_ cx.
     andthen (git_err_outcome (git_run an workspace [''fetch'', ''windows''] cx)) (\<lambda>_ cx.
     andthen (git_err_outcome
                (git_run an workspace [''rev-list'', ''--count'', ''windows/'' @ branch, ''^HEAD''] cx)) (\<lambda>ahead cx.
     if positive_count ahead then
       (Inl (''windows_diverged'', ''the Windows checkout has commits the workspace does not'',
             ''click Update from Windows first, then Send to Windows again''), cx)
     else
     andthen (check_cancelled an JobSyncToWindows project cx) (\<lambda>_ cx.
     git_err_outcome (git_run an workspace [''push'', ''windows'', ''HEAD:'' @ branch] cx)))))))))"

definition is_ancestor :: "answers \<Rightarrow> string \<Rightarrow> string \<Rightarrow> string \<Rightarrow> ctx \<Rightarrow> bool \<times> ctx" where
  "is_ancestor an workspace old new cx =
     (case git_run an workspace [''merge-base'', ''--is-ancestor'', old, new] cx of
        (Inr out, cx) \<Rightarrow> (True, cx)
      | (Inl e, cx) \<Rightarrow> (False, cx))"

definition run_update ::
  "answers \<Rightarrow> string \<Rightarrow> string \<Rightarrow> string \<Rightarrow> project \<Rightarrow> ctx \<Rightarrow> (refusal + string) \<times> ctx" where
  "run_update an src workspace branch project cx =
     andthen (check_cancelled an JobUpdateFromWindows project cx) (\<lambda>_ cx.
     (case is_repo an src cx of (there, cx) \<Rightarrow>
     if \<not> there then (Inl source_missing, cx) else
     andthen (git_err_outcome (git_run an workspace [''fetch'', ''windows''] cx)) (\<lambda>_ cx.
     andthen (check_cancelled an JobUpdateFromWindows project cx) (\<lambda>_ cx.
     (let ff_ref = ''windows/'' @ branch in
      case is_ancestor an workspace ''HEAD'' ff_ref cx of (behind, cx) \<Rightarrow>
      case (if behind then (True, cx) else is_ancestor an workspace ff_ref ''HEAD'' cx) of (one_sided, cx) \<Rightarrow>
      if \<not> one_sided then
        (Inl (''workspace_diverged'', ''the workspace has commits the Windows checkout does not'',
              ''the workspace and the Windows checkout have both moved; reconcile them (rebase or merge in a terminal), then sync''), cx)
      else git_err_outcome (git_run an workspace [''merge'', ''--ff-only'', ff_ref] cx))))))"

definition remove_dir :: "answers \<Rightarrow> string \<Rightarrow> ctx \<Rightarrow> (refusal + unit) \<times> ctx" where
  "remove_dir an path cx =
     ((case an_remove_dir an (cx_calls cx) path of
         Some e \<Rightarrow> Inl (''git_failed'', e, ''check the daemon's permissions on the workspace and try again'')
       | None \<Rightarrow> Inr ()),
      called (CRemoveDir path) cx)"

definition run_remove ::
  "answers \<Rightarrow> string \<Rightarrow> bool \<Rightarrow> bool \<Rightarrow> project \<Rightarrow> ctx \<Rightarrow> (refusal + string) \<times> ctx" where
  "run_remove an workspace delete_workspace force project cx =
     andthen (check_cancelled an JobRemove project cx) (\<lambda>_ cx.
     andthen (if delete_workspace \<and> \<not> force then
                andthen (git_err_outcome (is_clean an workspace cx)) (\<lambda>clean cx.
                  if \<not> clean then
                    (Inl (''workspace_dirty'', ''the workspace has uncommitted changes'',
                          ''commit or discard the workspace's changes, or remove with force''), cx)
                  else (Inr (), cx))
              else (Inr (), cx)) (\<lambda>_ cx.
     andthen (check_cancelled an JobRemove project cx) (\<lambda>_ cx.
     andthen (if delete_workspace then remove_dir an workspace cx else (Inr (), cx)) (\<lambda>_ cx.
     (let cx = delete_or_log project cx
      in (Inr [], cx\<lparr>cx_daemon := emit (remove_project (pj_id project)) (cx_daemon cx)\<rparr>))))))"

definition run_relocate ::
  "answers \<Rightarrow> string \<Rightarrow> string \<Rightarrow> string \<Rightarrow> project \<Rightarrow> ctx \<Rightarrow> (refusal + string) \<times> ctx" where
  "run_relocate an workspace new_src new_windows_path project cx =
     andthen (check_cancelled an JobRelocate project cx) (\<lambda>_ cx.
     andthen (git_err_outcome (git_run an workspace [''rev-parse'', ''HEAD''] cx)) (\<lambda>head cx.
     (case head_contains an new_src (trim_ws head) cx of (shared, cx) \<Rightarrow>
     if \<not> shared then
       (Inl (''source_unrelated'', ''the new checkout's history does not contain the workspace's current commit'',
             ''point relocate at a checkout that shares history with the workspace''), cx)
     else
     andthen (check_cancelled an JobRelocate project cx) (\<lambda>_ cx.
     andthen (git_err_outcome (git_run an workspace [''remote'', ''set-url'', ''windows'', new_src] cx)) (\<lambda>_ cx.
     (Inr [], update_project project
                (\<lambda>p. p\<lparr>pj_source := new_windows_path, pj_source_present := True\<rparr>) cx))))))"

text \<open>A job as the runner holds it, and running it.\<close>

datatype work =
    WAdd string string project
  | WSync string string string project
  | WUpdate string string string project
  | WRemove string bool bool project
  | WRelocate string string string project

fun run_work :: "answers \<Rightarrow> work \<Rightarrow> ctx \<Rightarrow> (refusal + string) \<times> ctx" where
  "run_work an (WAdd src workspace p) = run_add an src workspace p"
| "run_work an (WSync src workspace branch p) = run_sync an src workspace branch p"
| "run_work an (WUpdate src workspace branch p) = run_update an src workspace branch p"
| "run_work an (WRemove workspace delete_workspace force p) = run_remove an workspace delete_workspace force p"
| "run_work an (WRelocate workspace new_src new_path p) = run_relocate an workspace new_src new_path p"

section \<open>What a stretch of a job calls\<close>

text \<open>The calls grow, by calls that satisfy \<open>P\<close>.\<close>

definition grows :: "(call \<Rightarrow> bool) \<Rightarrow> ctx \<Rightarrow> ctx \<Rightarrow> bool" where
  "grows P cx cx' \<longleftrightarrow> (\<exists>cs. cx_calls cx' = cx_calls cx @ cs \<and> (\<forall>c \<in> set cs. P c))"

named_theorems steps \<open>what the primitives of a job call\<close>

lemma grows_refl [steps]: "grows P cx cx"
  by (simp add: grows_def)

lemma grows_trans: "grows P cx cx1 \<Longrightarrow> grows P cx1 cx2 \<Longrightarrow> grows P cx cx2"
  by (auto simp: grows_def)

lemma grows_called [steps]: "P c \<Longrightarrow> grows P cx (called c cx)"
  by (simp add: grows_def called_def)

lemma grows_daemon [steps]: "grows P cx (cx'\<lparr>cx_daemon := d\<rparr>) = grows P cx cx'"
  by (simp add: grows_def)

lemma grows_andthen:
  assumes "grows P cx (snd m)" and "\<And>a cx1. m = (Inr a, cx1) \<Longrightarrow> grows P cx1 (snd (f a cx1))"
  shows "grows P cx (snd (andthen m f))"
proof (cases m)
  case (Pair r cx1)
  with assms show ?thesis
    by (cases r) (auto simp: andthen_def intro: grows_trans)
qed

lemma grows_git [steps]:
  "P (CGit repo args) \<Longrightarrow> grows P cx (snd (git_run an repo args cx))"
  "P (CGit repo args) \<Longrightarrow> grows P cx (snd (git_succeeds an repo args cx))"
  "P (CClone src dst) \<Longrightarrow> grows P cx (snd (git_clone an src dst cx))"
  "P (CIsRepo path) \<Longrightarrow> grows P cx (snd (is_repo an path cx))"
  "P (CRemoveDir path) \<Longrightarrow> grows P cx (snd (remove_dir an path cx))"
  by (simp_all add: git_run_def git_succeeds_def git_clone_def is_repo_def remove_dir_def grows_called)

lemma grows_is_clean [steps]:
  "P (CGit repo [''status'', ''--porcelain'']) \<Longrightarrow> grows P cx (snd (is_clean an repo cx))"
  unfolding is_clean_def by (rule grows_andthen) (simp_all add: grows_git grows_refl)

lemma grows_update [steps]:
  "P (CSave (edit p)) \<Longrightarrow> grows P cx cx' \<Longrightarrow> grows P cx (update_project p edit cx')"
  by (auto simp: update_project_def save_or_log_def Let_def grows_daemon intro: grows_trans grows_called)

lemma snd_git_err_outcome [simp]: "snd (git_err_outcome m) = snd m"
  by (simp add: git_err_outcome_def split: prod.split sum.split)

lemma grows_add_fail [steps]:
  "(\<And>st. P (CSave (project\<lparr>pj_state := st\<rparr>))) \<Longrightarrow> grows P cx (snd m) \<Longrightarrow>
   grows P cx (snd (add_fail project m))"
  by (auto simp: add_fail_def Let_def grows_update split: prod.split sum.split)

lemma grows_check_cancelled [steps]:
  "(\<And>st. P (CSave (project\<lparr>pj_state := st\<rparr>))) \<Longrightarrow> P CCancelled \<Longrightarrow>
   grows P cx (snd (check_cancelled an kd project cx))"
  by (auto simp: check_cancelled_def Let_def intro: grows_update grows_called)

section \<open>An add settles its project\<close>

definition mirror_entry :: "ctx \<Rightarrow> project_id \<Rightarrow> project option" where
  "mirror_entry cx i = bt_get (st_projects (dm_state (cx_daemon cx))) i"

lemma mirror_entry_called [simp]: "mirror_entry (called c cx) i = mirror_entry cx i"
  by (simp add: mirror_entry_def called_def)

lemma mirror_entry_update:
  "mirror_entry (update_project p edit cx) i =
     (if i = pj_id (edit p) then Some (edit p) else mirror_entry cx i)"
  by (simp add: mirror_entry_def update_project_def save_or_log_def called_def Let_def emit_is_event
      client_event_def bt_get_insert)

text \<open>A refusal inside an add is the state of its project.\<close>

definition settled :: "project \<Rightarrow> (refusal + 'a) \<times> ctx \<Rightarrow> bool" where
  "settled p m \<longleftrightarrow>
     (case m of
        (Inl (code, message, hint), cx) \<Rightarrow>
          mirror_entry cx (pj_id p) = Some (p\<lparr>pj_state := ProjFailed code message hint\<rparr>)
      | (Inr a, cx) \<Rightarrow> True)"

lemma settled_andthen:
  assumes "settled p m" and "\<And>a cx. settled p (f a cx)"
  shows "settled p (andthen m f)"
proof (cases m)
  case (Pair r cx1)
  show ?thesis
  proof (cases r)
    case (Inl e)
    with Pair assms(1) show ?thesis by (simp add: andthen_def settled_def)
  next
    case (Inr a)
    with Pair assms(2) show ?thesis by (simp add: andthen_def)
  qed
qed

lemma settled_Inr [simp]: "settled p (Inr a, cx)"
  by (simp add: settled_def)

lemma settled_add_fail: "settled p (add_fail p m)"
  by (simp add: settled_def add_fail_def Let_def mirror_entry_update split: prod.split sum.split)

lemma settled_check_cancelled: "settled p (check_cancelled an kd p cx)"
  by (simp add: settled_def check_cancelled_def Let_def mirror_entry_update)

lemma settled_copy_remotes: "settled p (copy_remotes an src ws p names cx)"
  by (induction names arbitrary: cx) (simp_all add: settled_andthen settled_add_fail)

lemma run_add_settled: "settled p (run_add an src ws p cx)"
  unfolding run_add_def
  by (intro settled_andthen settled_add_fail settled_check_cancelled settled_copy_remotes settled_Inr)

lemma andthen_Inr:
  assumes "andthen m f = (Inr b, cx')"
  obtains a cx1 where "m = (Inr a, cx1)" and "f a cx1 = (Inr b, cx')"
  using assms by (auto simp: andthen_def split: prod.splits sum.splits)

lemma run_add_ready:
  assumes "run_add an src ws p cx = (Inr log, cx')"
  shows "\<exists>cx1. cx' = mark_ready p cx1"
  using assms unfolding run_add_def by (elim andthen_Inr) auto

text \<open>An add ends with its project in the mirror: ready when the job succeeded, and otherwise failed
  with exactly the code, the message and the hint the job reports. Nothing else about the project is
  changed, so a project is never left preparing by a job that ended.
\<close>
theorem add_settles:
  "mirror_entry (snd (run_add an src ws p cx)) (pj_id p) =
     (case fst (run_add an src ws p cx) of
        Inr log \<Rightarrow> Some (p\<lparr>pj_state := ProjReady\<rparr>)
      | Inl (code, message, hint) \<Rightarrow> Some (p\<lparr>pj_state := ProjFailed code message hint\<rparr>))"
proof (cases "run_add an src ws p cx")
  case (Pair r cx')
  show ?thesis
  proof (cases r)
    case (Inl e)
    with Pair run_add_settled [of p an src ws cx] show ?thesis
      by (cases e) (simp add: settled_def)
  next
    case (Inr log)
    with Pair run_add_ready [of an src ws p cx log cx'] show ?thesis
      by (auto simp: mark_ready_def mirror_entry_update)
  qed
qed

section \<open>What a job does to the mirror\<close>

fun work_project :: "work \<Rightarrow> project" where
  "work_project (WAdd src ws p) = p"
| "work_project (WSync src ws br p) = p"
| "work_project (WUpdate src ws br p) = p"
| "work_project (WRemove ws del force p) = p"
| "work_project (WRelocate ws new_src new_path p) = p"

fun is_add :: "work \<Rightarrow> bool" where
  "is_add (WAdd src ws p) = True"
| "is_add _ = False"

fun is_remove :: "work \<Rightarrow> bool" where
  "is_remove (WRemove ws del force p) = True"
| "is_remove _ = False"

fun moves_to :: "work \<Rightarrow> string option" where
  "moves_to (WRelocate ws new_src new_path p) = Some new_path"
| "moves_to _ = None"

text \<open>A property of the mirror that survives the records a job may write and the ones it may drop.\<close>

locale mirror_property =
  fixes holds :: "ctx \<Rightarrow> bool"
    and writable :: "project \<Rightarrow> bool"
    and droppable :: "project_id \<Rightarrow> bool"
  assumes holds_called: "holds (called c cx) \<longleftrightarrow> holds cx"
    and holds_put: "holds cx \<Longrightarrow> writable p \<Longrightarrow>
      holds (cx\<lparr>cx_daemon := emit (upsert_project p) (cx_daemon cx)\<rparr>)"
    and holds_drop: "holds cx \<Longrightarrow> droppable i \<Longrightarrow>
      holds (cx\<lparr>cx_daemon := emit (remove_project i) (cx_daemon cx)\<rparr>)"
begin

lemma holds_andthen:
  assumes "holds (snd m)" and "\<And>a cx1. holds cx1 \<Longrightarrow> holds (snd (f a cx1))"
  shows "holds (snd (andthen m f))"
proof (cases m)
  case (Pair r cx1)
  with assms show ?thesis by (cases r) (simp_all add: andthen_def)
qed

lemma holds_case:
  "holds (snd m) \<Longrightarrow> (\<And>b cx1. holds cx1 \<Longrightarrow> holds (snd (f b cx1))) \<Longrightarrow>
   holds (snd (case m of (b, cx1) \<Rightarrow> f b cx1))"
  by (cases m) simp

lemma holds_if:
  "(b \<Longrightarrow> holds (snd x)) \<Longrightarrow> (\<not> b \<Longrightarrow> holds (snd y)) \<Longrightarrow> holds (snd (if b then x else y))"
  by simp

lemmas holds_parts = holds_andthen holds_case holds_if

lemma holds_git:
  "holds (snd (git_run an repo args cx)) = holds cx"
  "holds (snd (git_succeeds an repo args cx)) = holds cx"
  "holds (snd (head_contains an repo commit cx)) = holds cx"
  "holds (snd (is_repo an path cx)) = holds cx"
  "holds (snd (git_clone an src dst cx)) = holds cx"
  "holds (snd (remove_dir an path cx)) = holds cx"
  "holds (snd (is_ancestor an ws old new cx)) = holds cx"
proof -
  have "snd (is_ancestor an ws old new cx) = snd (git_run an ws [''merge-base'', ''--is-ancestor'', old, new] cx)"
    by (simp add: is_ancestor_def split: prod.split sum.split)
  then show "holds (snd (is_ancestor an ws old new cx)) = holds cx"
    by (simp add: git_run_def holds_called)
qed (simp_all add: git_run_def git_succeeds_def head_contains_def is_repo_def git_clone_def remove_dir_def holds_called)

lemma holds_update: "holds cx \<Longrightarrow> writable (edit p) \<Longrightarrow> holds (update_project p edit cx)"
  using holds_put [of "save_or_log (edit p) cx" "edit p"]
  by (simp add: update_project_def Let_def save_or_log_def holds_called)

lemma holds_removed:
  "holds cx \<Longrightarrow> droppable j \<Longrightarrow>
   holds (delete_or_log p cx\<lparr>cx_daemon := emit (remove_project j) (cx_daemon (delete_or_log p cx))\<rparr>)"
  using holds_drop [of "delete_or_log p cx" j] by (simp add: delete_or_log_def holds_called)

lemma holds_add_fail:
  "holds (snd m) \<Longrightarrow> (\<And>c m h. writable (p\<lparr>pj_state := ProjFailed c m h\<rparr>)) \<Longrightarrow> holds (snd (add_fail p m))"
  by (auto simp: add_fail_def Let_def holds_update split: prod.split sum.split)

lemma holds_check_cancelled:
  "holds cx \<Longrightarrow> (\<And>c m h. writable (p\<lparr>pj_state := ProjFailed c m h\<rparr>)) \<Longrightarrow>
   holds (snd (check_cancelled an kd p cx))"
  by (simp add: check_cancelled_def Let_def holds_update holds_called)

lemma holds_is_clean: "holds cx \<Longrightarrow> holds (snd (is_clean an repo cx))"
  unfolding is_clean_def by (rule holds_andthen) (simp_all add: holds_git)

lemma holds_copy_remotes:
  "holds cx \<Longrightarrow> (\<And>c m h. writable (p\<lparr>pj_state := ProjFailed c m h\<rparr>)) \<Longrightarrow>
   holds (snd (copy_remotes an src ws p names cx))"
  by (induction names arbitrary: cx) (auto intro!: holds_andthen simp: holds_add_fail holds_git)

lemmas holds_steps = holds_git holds_update holds_removed holds_add_fail holds_check_cancelled
  holds_is_clean holds_copy_remotes

lemma holds_run_work:
  assumes "holds cx"
    and failed: "\<And>c m h. writable (work_project w\<lparr>pj_state := ProjFailed c m h\<rparr>)"
    and ready: "is_add w \<Longrightarrow> writable (work_project w\<lparr>pj_state := ProjReady\<rparr>)"
    and moved: "\<And>s. moves_to w = Some s \<Longrightarrow>
      writable (work_project w\<lparr>pj_source := s, pj_source_present := True\<rparr>)"
    and gone: "is_remove w \<Longrightarrow> droppable (pj_id (work_project w))"
  shows "holds (snd (run_work an w cx))"
proof (cases w)
  case (WAdd src ws p)
  have "holds (snd (run_add an src ws p cx))"
    unfolding run_add_def mark_ready_def
    using assms(1) failed ready WAdd by (intro holds_andthen) (simp_all add: holds_steps)
  with WAdd show ?thesis by simp
next
  case (WSync src ws br p)
  have "holds (snd (run_sync an src ws br p cx))"
    unfolding run_sync_def using assms(1) failed WSync by (intro holds_parts) (simp_all add: holds_steps)
  with WSync show ?thesis by simp
next
  case (WUpdate src ws br p)
  have "holds (snd (run_update an src ws br p cx))"
    unfolding run_update_def Let_def using assms(1) failed WUpdate
    by (intro holds_parts) (simp_all add: holds_steps)
  with WUpdate show ?thesis by simp
next
  case (WRemove ws del force p)
  have "holds (snd (run_remove an ws del force p cx))"
    unfolding run_remove_def Let_def using assms(1) failed gone WRemove
    by (intro holds_parts) (simp_all add: holds_steps)
  with WRemove show ?thesis by simp
next
  case (WRelocate ws new_src new_path p)
  have "holds (snd (run_relocate an ws new_src new_path p cx))"
    unfolding run_relocate_def Let_def using assms(1) failed moved WRelocate
    by (intro holds_parts) (simp_all add: holds_steps)
  with WRelocate show ?thesis by simp
qed

end

lemma mirror_entry_put:
  "mirror_entry (cx\<lparr>cx_daemon := emit (upsert_project p) (cx_daemon cx)\<rparr>) i =
     (if i = pj_id p then Some p else mirror_entry cx i)"
  by (simp add: mirror_entry_def emit_is_event client_event_def bt_get_insert)

lemma mirror_entry_drop:
  "bt_ok (st_projects (dm_state (cx_daemon cx))) \<Longrightarrow>
   mirror_entry (cx\<lparr>cx_daemon := emit (remove_project j) (cx_daemon cx)\<rparr>) i =
     (if i = j then None else mirror_entry cx i)"
  by (simp add: mirror_entry_def emit_is_event client_event_def bt_get_remove)

lemma mirror_ok:
  "bt_ok (st_projects (dm_state (cx_daemon cx))) \<Longrightarrow>
     bt_ok (st_projects (dm_state (emit (upsert_project p) (cx_daemon cx))))"
  "bt_ok (st_projects (dm_state (cx_daemon cx))) \<Longrightarrow>
     bt_ok (st_projects (dm_state (emit (remove_project j) (cx_daemon cx))))"
  by (simp_all add: emit_is_event client_event_def bt_ok_insert bt_ok_remove)

text \<open>The mirror is well formed, and whatever it holds under \<open>i\<close> has a state that satisfies \<open>S\<close>.\<close>

definition keeps_state :: "(project_state \<Rightarrow> bool) \<Rightarrow> project_id \<Rightarrow> ctx \<Rightarrow> bool" where
  "keeps_state S i cx \<longleftrightarrow>
     bt_ok (st_projects (dm_state (cx_daemon cx))) \<and> (\<forall>p. mirror_entry cx i = Some p \<longrightarrow> S (pj_state p))"

interpretation kept: mirror_property "keeps_state S i" "\<lambda>p. pj_id p = i \<longrightarrow> S (pj_state p)" "\<lambda>i. True"
  for S i
proof unfold_locales
  show "keeps_state S i (called c cx) \<longleftrightarrow> keeps_state S i cx" for c cx
    by (simp add: keeps_state_def called_def mirror_entry_def)
  show "keeps_state S i (cx\<lparr>cx_daemon := emit (upsert_project p) (cx_daemon cx)\<rparr>)"
    if "keeps_state S i cx" "pj_id p = i \<longrightarrow> S (pj_state p)" for cx p
    using that mirror_ok(1) [of cx p] by (simp add: keeps_state_def mirror_entry_put)
  show "keeps_state S i (cx\<lparr>cx_daemon := emit (remove_project j) (cx_daemon cx)\<rparr>)"
    if "keeps_state S i cx" for cx j
    using that mirror_ok(2) [of cx j] by (simp add: keeps_state_def mirror_entry_drop)
qed

section \<open>No other job makes a project ready\<close>

text \<open>No job but an add ever makes a project ready: after a sync, an update, a removal or a
  relocation that started on a project that was not, the mirror does not hold the project as ready.
  (Every cancelled job marks its project failed, so one that was interrupted stays failed, whatever is
  retried: its sessions need it ready.)
\<close>
theorem only_add_readies:
  assumes "\<not> is_add w"
    and "bt_ok (st_projects (dm_state (cx_daemon cx)))"
    and "pj_state (work_project w) \<noteq> ProjReady"
    and "\<forall>q'. mirror_entry cx i = Some q' \<longrightarrow> pj_state q' \<noteq> ProjReady"
    and "mirror_entry (snd (run_work an w cx)) i = Some q"
  shows "pj_state q \<noteq> ProjReady"
proof -
  have start: "keeps_state (\<lambda>st. st \<noteq> ProjReady) i cx"
    using assms(2,4) by (auto simp: keeps_state_def)
  have "keeps_state (\<lambda>st. st \<noteq> ProjReady) i (snd (run_work an w cx))"
    using assms(1,3) start by (intro kept.holds_run_work) simp_all
  with assms(5) show ?thesis by (simp add: keeps_state_def)
qed

section \<open>The Windows checkout is protected\<close>

definition added :: "ctx \<Rightarrow> ctx \<Rightarrow> call list" where
  "added cx cx' = drop (length (cx_calls cx)) (cx_calls cx')"

lemma grows_added: "grows P cx cx' \<Longrightarrow> c \<in> set (added cx cx') \<Longrightarrow> P c"
  by (auto simp: grows_def added_def)

text \<open>If the stretch makes the call \<open>c\<close>, then \<open>Q\<close>.\<close>

definition guarded :: "call \<Rightarrow> ctx \<Rightarrow> ctx \<Rightarrow> bool \<Rightarrow> bool" where
  "guarded c cx cx' Q \<longleftrightarrow> (grows (\<lambda>x. x \<noteq> c) cx cx' \<or> Q)"

lemma guardedD: "guarded c cx cx' Q \<Longrightarrow> c \<in> set (added cx cx') \<Longrightarrow> Q"
  unfolding guarded_def using grows_added [of "\<lambda>x. x \<noteq> c" cx cx' c] by blast

lemma guarded_grows: "grows (\<lambda>x. x \<noteq> c) cx cx' \<Longrightarrow> guarded c cx cx' Q"
  by (simp add: guarded_def)

lemma guarded_andthen:
  assumes "grows (\<lambda>x. x \<noteq> c) cx (snd m)" and "\<And>a cx1. m = (Inr a, cx1) \<Longrightarrow> guarded c cx1 (snd (f a cx1)) Q"
  shows "guarded c cx (snd (andthen m f)) Q"
proof (cases m)
  case (Pair r cx1)
  show ?thesis
  proof (cases r)
    case (Inl e)
    with assms(1) Pair show ?thesis by (simp add: andthen_def guarded_grows)
  next
    case (Inr a)
    with assms Pair show ?thesis by (auto simp: andthen_def guarded_def intro: grows_trans)
  qed
qed

lemma guarded_case:
  assumes "grows (\<lambda>x. x \<noteq> c) cx (snd m)" and "\<And>b cx1. m = (b, cx1) \<Longrightarrow> guarded c cx1 (snd (f b cx1)) Q"
  shows "guarded c cx (snd (case m of (b, cx1) \<Rightarrow> f b cx1)) Q"
proof (cases m)
  case (Pair b cx1)
  with assms show ?thesis by (auto simp: guarded_def intro: grows_trans)
qed

lemma guarded_if:
  "(b \<Longrightarrow> guarded c cx (snd x) Q) \<Longrightarrow> (\<not> b \<Longrightarrow> guarded c cx (snd y) Q) \<Longrightarrow>
   guarded c cx (snd (if b then x else y)) Q"
  by simp

text \<open>What a step that went on answered and called.\<close>

named_theorems went \<open>the steps of a job that went on\<close>

lemma git_run_went [went]:
  "git_run an repo args cx = (Inr out, cx1) \<longleftrightarrow>
     (\<exists>err. an_git an (cx_calls cx) repo args = Inr (True, out, err)) \<and> cx1 = called (CGit repo args) cx"
  by (auto simp: git_run_def split: sum.splits prod.splits if_splits)

lemma git_err_outcome_went [went]: "git_err_outcome m = (Inr a, cx1) \<longleftrightarrow> m = (Inr a, cx1)"
  by (auto simp: git_err_outcome_def split: prod.splits sum.splits)

lemma is_clean_went [went]:
  "is_clean an repo cx = (Inr b, cx1) \<longleftrightarrow>
     (\<exists>out err. an_git an (cx_calls cx) repo [''status'', ''--porcelain''] = Inr (True, out, err) \<and> b = is_blank out)
       \<and> cx1 = called (CGit repo [''status'', ''--porcelain'']) cx"
  by (auto simp: is_clean_def andthen_def git_run_def split: sum.splits prod.splits if_splits)

lemma is_repo_went [went]:
  "is_repo an path cx = (b, cx1) \<longleftrightarrow> b = an_is_repo an (cx_calls cx) path \<and> cx1 = called (CIsRepo path) cx"
  by (auto simp: is_repo_def)

lemma check_cancelled_went [went]:
  "check_cancelled an kd p cx = (Inr u, cx1) \<longleftrightarrow> \<not> an_cancelled an (cx_calls cx) \<and> cx1 = called CCancelled cx"
  by (auto simp: check_cancelled_def Let_def)

lemma called_calls [simp]: "cx_calls (called c cx) = cx_calls cx @ [c]"
  by (simp add: called_def)

lemma git_run_calls: "cx_calls (snd (git_run an repo args cx)) = cx_calls cx @ [CGit repo args]"
  by (simp add: git_run_def)

definition push_of :: "string \<Rightarrow> string \<Rightarrow> call" where
  "push_of ws br = CGit ws [''push'', ''windows'', ''HEAD:'' @ br]"

lemma push_is_not:
  "push_of ws br \<noteq> CIsRepo x" "push_of ws br \<noteq> CCancelled" "push_of ws br \<noteq> CSave p"
  "CIsRepo x \<noteq> push_of ws br" "CCancelled \<noteq> push_of ws br" "CSave p \<noteq> push_of ws br"
  "CGit r [''status'', ''--porcelain''] \<noteq> push_of ws br"
  "CGit r [''rev-parse'', ''--abbrev-ref'', ''HEAD''] \<noteq> push_of ws br"
  "CGit r [''fetch'', ''windows''] \<noteq> push_of ws br"
  "CGit r [''rev-list'', x, y, z] \<noteq> push_of ws br"
  by (simp_all add: push_of_def)

definition sync_history :: "string \<Rightarrow> string \<Rightarrow> string \<Rightarrow> call list" where
  "sync_history src ws br =
     [CCancelled, CIsRepo src, CGit src [''status'', ''--porcelain''],
      CGit src [''rev-parse'', ''--abbrev-ref'', ''HEAD''], CCancelled, CGit ws [''fetch'', ''windows''],
      CGit ws [''rev-list'', ''--count'', ''windows/'' @ br, ''^HEAD''], CCancelled]"

text \<open>The answers that let a sync push, each at its place in the history.\<close>

definition sync_clear :: "answers \<Rightarrow> string \<Rightarrow> string \<Rightarrow> string \<Rightarrow> call list \<Rightarrow> bool" where
  "sync_clear an src ws br h0 \<longleftrightarrow>
     (let at = \<lambda>n. h0 @ take n (sync_history src ws br);
          said = \<lambda>n repo args Q. \<exists>out err. an_git an (at n) repo args = Inr (True, out, err) \<and> Q out
      in an_is_repo an (at 1) src
       \<and> said 2 src [''status'', ''--porcelain''] is_blank
       \<and> said 3 src [''rev-parse'', ''--abbrev-ref'', ''HEAD''] (\<lambda>out. trim_ws out = br)
       \<and> said 5 ws [''fetch'', ''windows''] (\<lambda>out. True)
       \<and> said 6 ws [''rev-list'', ''--count'', ''windows/'' @ br, ''^HEAD''] (\<lambda>out. \<not> positive_count out)
       \<and> \<not> an_cancelled an (at 0) \<and> \<not> an_cancelled an (at 4) \<and> \<not> an_cancelled an (at 7))"

lemma run_sync_guarded:
  "guarded (push_of ws br) cx (snd (run_sync an src ws br p cx)) (sync_clear an src ws br (cx_calls cx))"
  unfolding run_sync_def snd_git_err_outcome
  apply ((rule guarded_andthen guarded_case, (simp add: steps push_is_not; fail))
    | (rule guarded_if, (rule guarded_grows, simp add: steps push_is_not; fail)))+
  apply (simp only: guarded_def went)
  apply (rule disjI2, elim exE conjE, simp add: sync_clear_def sync_history_def)
  done

lemma git_err_outcome_Inr [simp]: "git_err_outcome (Inr a, cx) = (Inr a, cx)"
  by (simp add: git_err_outcome_def)

lemma sync_clear_calls:
  assumes "sync_clear an src ws br (cx_calls cx)"
  shows "cx_calls (snd (run_sync an src ws br p cx)) = cx_calls cx @ sync_history src ws br @ [push_of ws br]"
proof -
  let ?at = "\<lambda>n. cx_calls cx @ take n (sync_history src ws br)"
  from assms obtain o1 e1 o2 e2 o3 e3 o4 e4 where
    "an_is_repo an (?at 1) src"
    "an_git an (?at 2) src [''status'', ''--porcelain''] = Inr (True, o1, e1)" "is_blank o1"
    "an_git an (?at 3) src [''rev-parse'', ''--abbrev-ref'', ''HEAD''] = Inr (True, o2, e2)" "trim_ws o2 = br"
    "an_git an (?at 5) ws [''fetch'', ''windows''] = Inr (True, o3, e3)"
    "an_git an (?at 6) ws [''rev-list'', ''--count'', ''windows/'' @ br, ''^HEAD''] = Inr (True, o4, e4)"
    "\<not> positive_count o4"
    "\<not> an_cancelled an (?at 0)" "\<not> an_cancelled an (?at 4)" "\<not> an_cancelled an (?at 7)"
    unfolding sync_clear_def Let_def by blast
  then show ?thesis
    unfolding run_sync_def snd_git_err_outcome
    by (simp add: sync_history_def andthen_def check_cancelled_def Let_def is_repo_def is_clean_def
        git_run_def push_of_def)
qed

text \<open>(C7) The push of a sync is protected: when a sync pushes, it is its last call, and in this very
  run the checkout was a repository, had nothing uncommitted, stood on the project's branch and, after a
  fetch, had no commit the workspace lacks, each asked at its place in the history shown; and
  cancellation, asked last just before the push, had not been requested.\<close>
theorem sync_guarded:
  assumes "push_of ws br \<in> set (added cx (snd (run_sync an src ws br p cx)))"
  shows "cx_calls (snd (run_sync an src ws br p cx)) = cx_calls cx @ sync_history src ws br @ [push_of ws br]
    \<and> sync_clear an src ws br (cx_calls cx)"
  using guardedD [OF run_sync_guarded assms] by (simp add: sync_clear_calls)

section \<open>What a job may do\<close>

fun work_workspace :: "work \<Rightarrow> string" where
  "work_workspace (WAdd src ws p) = ws"
| "work_workspace (WSync src ws br p) = ws"
| "work_workspace (WUpdate src ws br p) = ws"
| "work_workspace (WRemove ws del force p) = ws"
| "work_workspace (WRelocate ws new_src new_path p) = ws"

text \<open>Commands that change nothing in the repository they run in.\<close>

definition only_reads :: "string list \<Rightarrow> bool" where
  "only_reads args \<longleftrightarrow>
     args = [''status'', ''--porcelain''] \<or> args = [''rev-parse'', ''--abbrev-ref'', ''HEAD''] \<or>
     args = [''remote''] \<or> (\<exists>n. args = [''remote'', ''get-url'', n]) \<or>
     (\<exists>x y. args = [''merge-base'', ''--is-ancestor'', x, y])"

text \<open>The effect a call is allowed in a job.\<close>

fun permitted :: "work \<Rightarrow> call \<Rightarrow> bool" where
  "permitted w (CGit repo args) =
     ((repo = work_workspace w \<or> only_reads args \<or>
       (\<exists>src p. w = WAdd src (work_workspace w) p \<and> repo = src \<and>
          args = [''config'', ''receive.denyCurrentBranch'', ''updateInstead'']))
      \<and> (args \<noteq> [] \<and> hd args = ''push'' \<longrightarrow>
          (\<exists>src br p. w = WSync src (work_workspace w) br p \<and> args = [''push'', ''windows'', ''HEAD:'' @ br])))"
| "permitted w (CClone src dst) = (\<exists>p. w = WAdd src dst p)"
| "permitted w (CRemoveDir path) = (\<exists>force p. w = WRemove path True force p)"
| "permitted w (CSave q) = (pj_id q = pj_id (work_project w))"
| "permitted w (CForget i) = (i = pj_id (work_project w) \<and> (\<exists>ws del force p. w = WRemove ws del force p))"
| "permitted w _ = True"

lemma grows_case:
  "grows P cx (snd m) \<Longrightarrow> (\<And>b cx1. m = (b, cx1) \<Longrightarrow> grows P cx1 (snd (f b cx1))) \<Longrightarrow>
   grows P cx (snd (case m of (b, cx1) \<Rightarrow> f b cx1))"
  by (cases m) (auto intro: grows_trans)

lemma grows_if:
  "(b \<Longrightarrow> grows P cx (snd x)) \<Longrightarrow> (\<not> b \<Longrightarrow> grows P cx (snd y)) \<Longrightarrow> grows P cx (snd (if b then x else y))"
  by simp

lemma grows_copy_remotes:
  assumes "\<And>st. P (CSave (p\<lparr>pj_state := st\<rparr>))" and "\<And>n. P (CGit src [''remote'', ''get-url'', n])"
    and "\<And>n u. P (CGit ws [''remote'', ''add'', n, u])"
  shows "grows P cx (snd (copy_remotes an src ws p names cx))"
  using assms
  by (induction names arbitrary: cx) (auto simp: steps intro!: grows_andthen)

lemma permitted_run_add: "grows (permitted (WAdd src ws p)) cx (snd (run_add an src ws p cx))"
  unfolding run_add_def mark_ready_def
  by (intro grows_andthen) (simp_all add: steps only_reads_def grows_copy_remotes)

lemma permitted_run_sync: "grows (permitted (WSync src ws br p)) cx (snd (run_sync an src ws br p cx))"
  unfolding run_sync_def
  by (intro grows_andthen grows_case grows_if) (simp_all add: steps only_reads_def)

lemma grows_is_ancestor [steps]:
  "P (CGit ws [''merge-base'', ''--is-ancestor'', old, new]) \<Longrightarrow> grows P cx (snd (is_ancestor an ws old new cx))"
proof -
  assume "P (CGit ws [''merge-base'', ''--is-ancestor'', old, new])"
  moreover have "snd (is_ancestor an ws old new cx) = snd (git_run an ws [''merge-base'', ''--is-ancestor'', old, new] cx)"
    by (simp add: is_ancestor_def split: prod.split sum.split)
  ultimately show ?thesis by (simp add: grows_git)
qed

lemma permitted_run_update: "grows (permitted (WUpdate src ws br p)) cx (snd (run_update an src ws br p cx))"
  unfolding run_update_def Let_def
  by (intro grows_andthen grows_case grows_if) (simp_all add: steps only_reads_def)

lemma permitted_run_relocate:
  "grows (permitted (WRelocate ws new_src new_path p)) cx (snd (run_relocate an ws new_src new_path p cx))"
  unfolding run_relocate_def head_contains_def
  by (intro grows_andthen grows_case grows_if) (simp_all add: steps only_reads_def)

lemma permitted_run_remove:
  "grows (permitted (WRemove ws del force p)) cx (snd (run_remove an ws del force p cx))"
  unfolding run_remove_def Let_def delete_or_log_def
  by (intro grows_andthen grows_case grows_if) (simp_all add: steps only_reads_def)

text \<open>What a job may do to anything outside the daemon: it changes no repository but the project's
  workspace, except that an add sets the one option on the Windows checkout that lets it be pushed to; it
  pushes only as the sync of the project's branch; it clones only as an add, deletes a directory only as
  a removal that was asked to, and that only the workspace; and it writes no other project's file.\<close>
theorem jobs_permitted:
  "list_all (permitted w) (added cx (snd (run_work an w cx)))"
proof -
  have "grows (permitted w) cx (snd (run_work an w cx))"
    by (cases w) (simp_all add: permitted_run_add permitted_run_sync permitted_run_update
        permitted_run_relocate permitted_run_remove del: permitted.simps)
  then show ?thesis by (auto simp: list_all_iff intro: grows_added)
qed

section \<open>Deleting, relocating, merging\<close>

definition clean_answered :: "answers \<Rightarrow> call list \<Rightarrow> string \<Rightarrow> bool" where
  "clean_answered an h repo \<longleftrightarrow>
     (\<exists>out err. an_git an h repo [''status'', ''--porcelain''] = Inr (True, out, err) \<and> is_blank out)"

lemma run_remove_deletes:
  "guarded (CRemoveDir path) cx (snd (run_remove an ws del force p cx))
     (path = ws \<and> del \<and> (force \<or> clean_answered an (cx_calls cx @ [CCancelled]) ws))"
proof (cases "path = ws \<and> del")
  case False
  then have "grows (\<lambda>c. c \<noteq> CRemoveDir path) cx (snd (run_remove an ws del force p cx))"
    unfolding run_remove_def Let_def delete_or_log_def
    by (intro grows_andthen grows_case grows_if) (auto simp: steps)
  then show ?thesis by (rule guarded_grows)
next
  case True
  show ?thesis
  proof (cases force)
    case False
    have "guarded (CRemoveDir path) cx (snd (run_remove an ws del force p cx))
       (clean_answered an (cx_calls cx @ [CCancelled]) ws)"
      unfolding run_remove_def
      apply (rule guarded_andthen, (simp add: steps; fail))
      apply (rule guarded_andthen, (intro grows_andthen grows_if; simp add: steps; fail))
      using True False
      by (auto simp: guarded_def went clean_answered_def andthen_def git_err_outcome_def
          split: prod.splits sum.splits if_splits)
    with True False show ?thesis by (simp add: guarded_def)
  qed (simp add: True guarded_def)
qed

lemma remove_dir_went [went]:
  "remove_dir an path cx = (Inr u, cx1) \<longleftrightarrow>
     an_remove_dir an (cx_calls cx) path = None \<and> cx1 = called (CRemoveDir path) cx"
  by (auto simp: remove_dir_def split: option.splits)

lemma called_daemon [simp]: "cx_daemon (called c cx) = cx_daemon cx"
  by (simp add: called_def)

lemma run_remove_forgets:
  assumes "bt_ok (st_projects (dm_state (cx_daemon cx)))" and "run_remove an ws del force p cx = (Inr log, cx')"
  shows "mirror_entry cx' (pj_id p) = None"
proof -
  from assms(2) have "cx_daemon cx' = emit (remove_project (pj_id p)) (cx_daemon cx)"
    unfolding run_remove_def Let_def
    by (auto simp: went delete_or_log_def split: if_splits elim!: andthen_Inr)
  with assms(1) show ?thesis
    by (simp add: mirror_entry_def emit_is_event client_event_def bt_get_remove)
qed

text \<open>(C25) The workspace is deleted only by a removal that was asked to delete it, and then only when it
  was forced or git has just said, after the job's first look at its cancellation, that nothing in it is
  uncommitted. No other directory is ever deleted.\<close>
theorem remove_guarded:
  assumes "CRemoveDir path \<in> set (added cx (snd (run_remove an ws del force p cx)))"
  shows "path = ws \<and> del \<and> (force \<or> clean_answered an (cx_calls cx @ [CCancelled]) ws)"
  using guardedD [OF run_remove_deletes assms] .

lemma run_relocate_related:
  assumes "run_relocate an ws new_src new_path p cx = (Inr log, cx')"
  obtains head err where
    "an_git an (cx_calls cx @ [CCancelled]) ws [''rev-parse'', ''HEAD''] = Inr (True, head, err)"
    "fst (head_contains an new_src (trim_ws head) (called (CGit ws [''rev-parse'', ''HEAD'']) (called CCancelled cx)))"
    "mirror_entry cx' (pj_id p) = Some (p\<lparr>pj_source := new_path, pj_source_present := True\<rparr>)"
  using assms unfolding run_relocate_def
  by (elim andthen_Inr) (auto simp: went mirror_entry_update split: prod.splits if_splits elim!: andthen_Inr)

section \<open>Instances\<close>

definition demo_project :: project where
  "demo_project =
     \<lparr>pj_id = 5, pj_name = ''demo'', pj_slug = ''demo'', pj_source = ''C'', pj_workspace = ''w'',
      pj_branch = ''main'', pj_state = ProjFailed ''git_failed'' ''m'' ''h'', pj_source_present = True,
      pj_created_at = ''t'', pj_sandbox = sandbox_profile_default, pj_sandbox_problem = None\<rparr>"

definition demo_ctx :: ctx where
  "demo_ctx =
     \<lparr>cx_calls = [], cx_daemon = \<lparr>dm_state = state_load [demo_project], dm_out = []\<rparr>\<rparr>"

text \<open>Every repository is there and clean, on the branch \<open>main\<close>, with nothing ahead.\<close>

definition demo_answers :: "bool \<Rightarrow> answers" where
  "demo_answers cancelled =
     \<lparr>an_is_repo = (\<lambda>h p. True),
      an_git = (\<lambda>h r args. Inr (True, if args = [''rev-parse'', ''--abbrev-ref'', ''HEAD''] then ''main'' else [], [])),
      an_clone = (\<lambda>h s d. Inr (True, [], [])), an_remove_dir = (\<lambda>h p. None), an_exists = (\<lambda>h p. True),
      an_cancelled = (\<lambda>h. cancelled), an_save = (\<lambda>h p. None)\<rparr>"

lemma demo_entry: "mirror_entry demo_ctx i = (if i = 5 then Some demo_project else None)"
  by (simp add: demo_ctx_def mirror_entry_def state_load_def bt_get_def demo_project_def)

lemma demo_ok: "bt_ok (st_projects (dm_state (cx_daemon demo_ctx)))"
  by (simp add: demo_ctx_def state_load_def bt_ok_def)

lemma demo_trim: "trim_ws ''main'' = ''main''" "trim_ws [] = []"
  by (simp_all add: trim_ws_def trim_ws_start.simps is_blank.simps ws_len_def)

lemma demo_clear: "sync_clear (demo_answers False) ''c'' ''w'' ''main'' (cx_calls demo_ctx)"
  by (simp add: sync_clear_def demo_answers_def demo_trim positive_count_def parse_u64_def parse_digits_def)

theorem sync_guarded_witness:
  "cx_calls (snd (run_sync (demo_answers False) ''c'' ''w'' ''main'' demo_project demo_ctx))
     = cx_calls demo_ctx @ sync_history ''c'' ''w'' ''main'' @ [push_of ''w'' ''main'']
   \<and> sync_clear (demo_answers False) ''c'' ''w'' ''main'' (cx_calls demo_ctx)"
proof (rule sync_guarded)
  show "push_of ''w'' ''main''
      \<in> set (added demo_ctx (snd (run_sync (demo_answers False) ''c'' ''w'' ''main'' demo_project demo_ctx)))"
    by (simp add: added_def sync_clear_calls [OF demo_clear])
qed

lemma demo_remove:
  "CRemoveDir ''w'' \<in> set (added demo_ctx (snd (run_remove (demo_answers False) ''w'' True False demo_project demo_ctx)))"
  by (simp add: run_remove_def andthen_def check_cancelled_def Let_def is_clean_def git_run_def
      remove_dir_def demo_answers_def added_def demo_ctx_def called_def delete_or_log_def)

theorem remove_guarded_witness:
  "''w'' = ''w'' \<and> True \<and> (False \<or> clean_answered (demo_answers False) (cx_calls demo_ctx @ [CCancelled]) ''w'')"
  by (rule remove_guarded [OF demo_remove])

lemma demo_retry:
  "mirror_entry (snd (run_work (demo_answers True) (WSync ''c'' ''w'' ''main'' demo_project) demo_ctx)) 5 =
     Some (demo_project\<lparr>pj_state := ProjFailed ''interrupted''
       ''the job was interrupted before it finished'' ''retry the operation''\<rparr>)"
proof -
  have "an_cancelled (demo_answers True) h" for h by (simp add: demo_answers_def)
  then show ?thesis
    by (simp add: run_sync_def andthen_def check_cancelled_def Let_def mirror_entry_update)
       (simp add: demo_project_def)
qed

theorem only_add_readies_witness:
  "pj_state (demo_project\<lparr>pj_state := ProjFailed ''interrupted''
       ''the job was interrupted before it finished'' ''retry the operation''\<rparr>) \<noteq> ProjReady"
proof (rule only_add_readies [OF _ demo_ok _ _ demo_retry])
  show "\<not> is_add (WSync ''c'' ''w'' ''main'' demo_project)" by simp
  show "pj_state (work_project (WSync ''c'' ''w'' ''main'' demo_project)) \<noteq> ProjReady"
    by (simp add: demo_project_def)
  show "\<forall>q'. mirror_entry demo_ctx 5 = Some q' \<longrightarrow> pj_state q' \<noteq> ProjReady"
    by (simp add: demo_entry) (simp add: demo_project_def)
qed

end
