(* ===== verification/Project_Ops.thy ===== *)
theory Project_Ops
  imports Project_Jobs Harness
begin

text \<open>
  The project requests (\<open>Ops\<close> in \<^verbatim>\<open>crates/willied/src/projects.rs\<close>, and \<open>interrupt_preparing\<close> of
  \<^verbatim>\<open>main.rs\<close>) over the runner and the mirror. One dispatcher serves all requests, so a request is one
  step; the job threads run beside it. A job writes the mirror at most once, as the last thing it does,
  so its work is one step too, on the project it captured when it was submitted.

  Shown: in every state the daemon can reach, no two projects have the same slug or the same workspace
  and the jobs in flight hold projects that are registered; the same checkout is never added twice.
\<close>

section \<open>Errors\<close>

record op_error =
  oe_code :: string
  oe_message :: string
  oe_remediation :: string

definition quoted :: "string \<Rightarrow> string" where
  "quoted s = ''`'' @ s @ ''`''"

definition coded :: "string \<Rightarrow> string \<Rightarrow> op_error" where
  "coded code message =
     \<lparr>oe_code = code, oe_message = message, oe_remediation = Session.remediation_for code\<rparr>"

fun cap_error_text :: "capability_error \<Rightarrow> string" where
  "cap_error_text (Unsupported c) = quoted (display_name c) @ '' is not implemented in this version''"
| "cap_error_text (ExtraPathNotAbsolute path) = quoted path @ '' is not an absolute path''"
| "cap_error_text (ExtraPathGuarded path reason) = quoted path @ '' cannot be an extra path: '' @ reason"

definition cap_op_error :: "capability_error \<Rightarrow> op_error" where
  "cap_op_error e =
     \<lparr>oe_code = cap_error_code e, oe_message = cap_error_text e, oe_remediation = cap_error_remediation e\<rparr>"

definition busy_err :: op_error where
  "busy_err =
     \<lparr>oe_code = ''project_busy'', oe_message = ''a job is already running for this project'',
      oe_remediation = ''wait for the current job to finish or cancel it''\<rparr>"

definition not_found_err :: "(project_id \<Rightarrow> string) \<Rightarrow> project_id \<Rightarrow> op_error" where
  "not_found_err id_text i =
     \<lparr>oe_code = ''project_not_found'', oe_message = ''no project with id '' @ quoted (id_text i),
      oe_remediation = ''check the project id and try again''\<rparr>"

definition path_not_windows_err :: "string \<Rightarrow> op_error" where
  "path_not_windows_err path =
     \<lparr>oe_code = ''path_not_windows'', oe_message = quoted path @ '' is not a path on a Windows drive'',
      oe_remediation = ''register a path on a Windows drive''\<rparr>"

definition not_a_git_repository_err :: "string \<Rightarrow> op_error" where
  "not_a_git_repository_err path =
     \<lparr>oe_code = ''not_a_git_repository'', oe_message = quoted path @ '' is not a git repository'',
      oe_remediation = ''run `git init` and a first commit in the folder, then add again''\<rparr>"

definition source_no_commits_err :: op_error where
  "source_no_commits_err =
     \<lparr>oe_code = ''source_no_commits'', oe_message = ''the checkout has no commits yet'',
      oe_remediation = ''make the first commit in this checkout, then add it again''\<rparr>"

definition project_exists_err :: "string \<Rightarrow> op_error" where
  "project_exists_err path =
     \<lparr>oe_code = ''project_exists'', oe_message = quoted path @ '' is already registered'',
      oe_remediation = ''this checkout is already registered as a project''\<rparr>"

definition workspace_exists_err :: "string \<Rightarrow> op_error" where
  "workspace_exists_err ws =
     \<lparr>oe_code = ''workspace_exists'', oe_message = ''workspace '' @ quoted ws @ '' already exists'',
      oe_remediation = ''delete that directory inside the distribution (`rm -rf '' @ ws @
        ''`), moving it aside first if it still holds work you want, then add the checkout again''\<rparr>"

definition state_write_failed :: "string \<Rightarrow> op_error" where
  "state_write_failed e =
     \<lparr>oe_code = ''state_write_failed'', oe_message = e,
      oe_remediation = ''check the daemon's state directory permissions and try again''\<rparr>"

section \<open>State\<close>

text \<open>What the requests rely on: the outside world, the text of an identifier, lower-casing, the
  directories of the daemon. The work a job will run is kept under the job's id until it has run.\<close>

record op_env =
  ev_answers :: answers
  ev_id_text :: "project_id \<Rightarrow> string"
  ev_lower :: "string \<Rightarrow> string"
  ev_workspaces :: string
  ev_home :: string

record ops =
  op_calls :: "call list"
  op_runner :: runner
  op_works :: "(job_id \<times> work) list"

definition op_ctx :: "ops \<Rightarrow> ctx" where
  "op_ctx s = \<lparr>cx_calls = op_calls s, cx_daemon = rn_daemon (op_runner s)\<rparr>"

definition with_ctx :: "(ctx \<Rightarrow> 'a \<times> ctx) \<Rightarrow> ops \<Rightarrow> 'a \<times> ops" where
  "with_ctx f s =
     (case f (op_ctx s) of (a, cx) \<Rightarrow>
        (a, s\<lparr>op_calls := cx_calls cx, op_runner := (op_runner s)\<lparr>rn_daemon := cx_daemon cx\<rparr>\<rparr>))"

definition op_projects :: "ops \<Rightarrow> (project_id, project) btree" where
  "op_projects s = st_projects (dm_state (rn_daemon (op_runner s)))"

definition refuse_unless :: "bool \<Rightarrow> op_error \<Rightarrow> ops \<Rightarrow> (op_error + unit) \<times> ops" where
  "refuse_unless b e s = (if b then Inr () else Inl e, s)"

definition git_err_to_op :: "(git_error + 'a) \<times> ops \<Rightarrow> (op_error + 'a) \<times> ops" where
  "git_err_to_op m =
     (case m of
        (Inl e, s) \<Rightarrow>
          (Inl \<lparr>oe_code = ge_code e, oe_message = ge_message e, oe_remediation = git_remediation (ge_code e)\<rparr>, s)
      | (Inr a, s) \<Rightarrow> (Inr a, s))"

definition get_project :: "op_env \<Rightarrow> project_id \<Rightarrow> ops \<Rightarrow> (op_error + project) \<times> ops" where
  "get_project ev i s =
     (case bt_get (op_projects s) i of
        Some p \<Rightarrow> (Inr p, s)
      | None \<Rightarrow> (Inl (not_found_err (ev_id_text ev) i), s))"

definition need_linux :: "string \<Rightarrow> ops \<Rightarrow> (op_error + string) \<times> ops" where
  "need_linux path s =
     (case source_to_linux path of
        Some l \<Rightarrow> (Inr l, s)
      | None \<Rightarrow> (Inl (path_not_windows_err path), s))"

text \<open>The submission that ends most requests.\<close>

definition submit_work ::
  "job_id \<Rightarrow> job_kind \<Rightarrow> string \<Rightarrow> work \<Rightarrow> ops \<Rightarrow> (op_error + job_id) \<times> ops" where
  "submit_work jid kd now w s =
     (case submit jid kd (pj_id (work_project w)) now (op_runner s) of
        (Inl (), r) \<Rightarrow> (Inl busy_err, s\<lparr>op_runner := r\<rparr>)
      | (Inr j, r) \<Rightarrow> (Inr j, s\<lparr>op_runner := r, op_works := (j, w) # op_works s\<rparr>))"

definition put_project :: "project \<Rightarrow> ops \<Rightarrow> ops" where
  "put_project p s =
     s\<lparr>op_runner := (op_runner s)\<lparr>rn_daemon := emit (upsert_project p) (rn_daemon (op_runner s))\<rparr>\<rparr>"

section \<open>Requests\<close>

text \<open>What the dispatcher makes new for a request: identifiers and the time.\<close>

record fresh =
  fr_project :: project_id
  fr_job :: job_id
  fr_now :: string

definition op_add ::
  "op_env \<Rightarrow> fresh \<Rightarrow> string \<Rightarrow> string option \<Rightarrow> ops \<Rightarrow> (op_error + project_id \<times> job_id) \<times> ops" where
  "op_add ev fr windows_path name s =
     (let an = ev_answers ev in
     andthen (need_linux windows_path s) (\<lambda>src s.
     (case with_ctx (is_repo an src) s of (repo, s) \<Rightarrow>
     andthen (refuse_unless repo (not_a_git_repository_err windows_path) s) (\<lambda>_ s.
     (case with_ctx (has_commits an src) s of (commits, s) \<Rightarrow>
     andthen (refuse_unless commits source_no_commits_err s) (\<lambda>_ s.
     (let key = source_key (ev_lower ev) windows_path in
     andthen (refuse_unless
                (\<not> list_ex (\<lambda>p. source_key (ev_lower ev) (pj_source p) = key) (bt_values (op_projects s)))
                (project_exists_err windows_path) s) (\<lambda>_ s.
     andthen (git_err_to_op (with_ctx (current_branch an src) s)) (\<lambda>branch s.
     (let taken = map pj_slug (bt_values (op_projects s));
          folder = folder_name windows_path;
          slug = the (slug_for folder taken);
          workspace = path_join (ev_workspaces ev) slug;
          s = snd (with_ctx (\<lambda>cx. ((), called (CCreateDir (ev_workspaces ev)) cx)) s)
      in case with_ctx (\<lambda>cx. (an_exists an (cx_calls cx) workspace, called (CExists workspace) cx)) s of
        (there, s) \<Rightarrow>
     andthen (refuse_unless (\<not> there) (workspace_exists_err workspace) s) (\<lambda>_ s.
     (let project =
            \<lparr>pj_id = fr_project fr, pj_name = (case name of Some n \<Rightarrow> n | None \<Rightarrow> folder), pj_slug = slug,
             pj_source = windows_path, pj_workspace = workspace, pj_branch = branch, pj_state = ProjPreparing,
             pj_source_present = True, pj_created_at = fr_now fr, pj_sandbox = sandbox_profile_default,
             pj_sandbox_problem = None\<rparr>;
          s = put_project project (snd (with_ctx (\<lambda>cx. ((), save_or_log project cx)) s))
      in andthen (submit_work (fr_job fr) JobAdd (fr_now fr) (WAdd src workspace project) s)
           (\<lambda>j s. (Inr (fr_project fr, j), s))))))))))))))"

definition op_sync :: "op_env \<Rightarrow> fresh \<Rightarrow> project_id \<Rightarrow> ops \<Rightarrow> (op_error + job_id) \<times> ops" where
  "op_sync ev fr i s =
     andthen (get_project ev i s) (\<lambda>p s.
     andthen (need_linux (pj_source p) s) (\<lambda>src s.
     submit_work (fr_job fr) JobSyncToWindows (fr_now fr) (WSync src (pj_workspace p) (pj_branch p) p) s))"

definition op_update :: "op_env \<Rightarrow> fresh \<Rightarrow> project_id \<Rightarrow> ops \<Rightarrow> (op_error + job_id) \<times> ops" where
  "op_update ev fr i s =
     andthen (get_project ev i s) (\<lambda>p s.
     andthen (need_linux (pj_source p) s) (\<lambda>src s.
     submit_work (fr_job fr) JobUpdateFromWindows (fr_now fr) (WUpdate src (pj_workspace p) (pj_branch p) p) s))"

definition op_remove ::
  "op_env \<Rightarrow> fresh \<Rightarrow> project_id \<Rightarrow> bool \<Rightarrow> bool \<Rightarrow> ops \<Rightarrow> (op_error + job_id) \<times> ops" where
  "op_remove ev fr i delete_workspace force s =
     andthen (get_project ev i s) (\<lambda>p s.
     andthen (refuse_unless (live_session_ids_for i (dm_state (rn_daemon (op_runner s))) = [])
                (coded ''sessions_running'' ''the project has a running session'') s) (\<lambda>_ s.
     submit_work (fr_job fr) JobRemove (fr_now fr) (WRemove (pj_workspace p) delete_workspace force p) s))"

definition op_relocate ::
  "op_env \<Rightarrow> fresh \<Rightarrow> project_id \<Rightarrow> string \<Rightarrow> ops \<Rightarrow> (op_error + job_id) \<times> ops" where
  "op_relocate ev fr i windows_path s =
     andthen (get_project ev i s) (\<lambda>p s.
     andthen (need_linux windows_path s) (\<lambda>new_src s.
     (case with_ctx (is_repo (ev_answers ev) new_src) s of (repo, s) \<Rightarrow>
     andthen (refuse_unless repo (not_a_git_repository_err windows_path) s) (\<lambda>_ s.
     submit_work (fr_job fr) JobRelocate (fr_now fr) (WRelocate (pj_workspace p) new_src windows_path p) s))))"

text \<open>\<open>store::save\<close> with its error reported, then the mirror.\<close>

definition save_project :: "op_env \<Rightarrow> project \<Rightarrow> ops \<Rightarrow> (op_error + project) \<times> ops" where
  "save_project ev p s =
     andthen
       (case with_ctx (\<lambda>cx. (an_save (ev_answers ev) (cx_calls cx) p, called (CSave p) cx)) s of
          (Some e, s) \<Rightarrow> (Inl (state_write_failed e), s)
        | (None, s) \<Rightarrow> (Inr (), s)) (\<lambda>_ s.
     (Inr p, put_project p s))"

definition op_rename :: "op_env \<Rightarrow> project_id \<Rightarrow> string \<Rightarrow> ops \<Rightarrow> (op_error + project) \<times> ops" where
  "op_rename ev i name s =
     andthen (get_project ev i s) (\<lambda>p s. save_project ev (p\<lparr>pj_name := name\<rparr>) s)"

definition op_set_sandbox ::
  "op_env \<Rightarrow> project_id \<Rightarrow> sandbox_profile \<Rightarrow> ops \<Rightarrow> (op_error + project) \<times> ops" where
  "op_set_sandbox ev i profile s =
     andthen (get_project ev i s) (\<lambda>p s.
     (case resolve claude_default_capabilities profile (ev_home ev) of
        Inl e \<Rightarrow> (Inl (cap_op_error e), s)
      | Inr caps \<Rightarrow> save_project ev (p\<lparr>pj_sandbox := profile, pj_sandbox_problem := None\<rparr>) s))"

fun compute_presence ::
  "answers \<Rightarrow> (project_id \<times> string) list \<Rightarrow> ctx \<Rightarrow> (project_id \<times> string \<times> bool) list \<times> ctx" where
  "compute_presence an [] cx = ([], cx)"
| "compute_presence an ((i, source) # rest) cx =
     (case (case source_to_linux source of
              Some l \<Rightarrow> is_repo an l cx
            | None \<Rightarrow> (False, cx)) of (present, cx) \<Rightarrow>
      case compute_presence an rest cx of (ps, cx) \<Rightarrow> ((i, source, present) # ps, cx))"

definition op_refresh :: "op_env \<Rightarrow> ops \<Rightarrow> ops" where
  "op_refresh ev s =
     (let sources = map (\<lambda>(i, p). (i, pj_source p)) (op_projects s)
      in case with_ctx (compute_presence (ev_answers ev) sources) s of (ps, s) \<Rightarrow>
         s\<lparr>op_runner := (op_runner s)\<lparr>rn_daemon := mutate (rn_daemon (op_runner s)) (Presence ps)\<rparr>\<rparr>)"

text \<open>At the next start.\<close>

definition interrupted_state :: project_state where
  "interrupted_state =
     ProjFailed ''interrupted'' ''the daemon stopped before the operation finished''
       ''remove the project and add it again''"

definition interrupt_preparing :: "state \<Rightarrow> state \<times> project list" where
  "interrupt_preparing st =
     (let stop = (\<lambda>p. if pj_state p = ProjPreparing then p\<lparr>pj_state := interrupted_state\<rparr> else p)
      in (st\<lparr>st_projects := map (\<lambda>(i, p). (i, stop p)) (st_projects st)\<rparr>,
          map stop (filter (\<lambda>p. pj_state p = ProjPreparing) (bt_values (st_projects st)))))"

end
