(* ===== verification/Project_System.thy ===== *)
theory Project_System
  imports Project_Ops
begin

text \<open>
  The project side of the daemon as a whole: requests, job threads and the runner's own steps over one
  state, and what holds in every state it can reach. The work of a job is the closure it captured when
  it was submitted; it runs only if the job was not cancelled before it had its slot.
\<close>

section \<open>Steps\<close>

datatype request =
    RAdd string "string option"
  | RSync project_id
  | RUpdate project_id
  | RRemove project_id bool bool
  | RRelocate project_id string
  | RRename project_id string
  | RSetSandbox project_id sandbox_profile
  | RRefresh

fun serve :: "op_env \<Rightarrow> fresh \<Rightarrow> request \<Rightarrow> ops \<Rightarrow> ops" where
  "serve ev fr (RAdd path name) s = snd (op_add ev fr path name s)"
| "serve ev fr (RSync i) s = snd (op_sync ev fr i s)"
| "serve ev fr (RUpdate i) s = snd (op_update ev fr i s)"
| "serve ev fr (RRemove i del force) s = snd (op_remove ev fr i del force s)"
| "serve ev fr (RRelocate i path) s = snd (op_relocate ev fr i path s)"
| "serve ev fr (RRename i name) s = snd (op_rename ev i name s)"
| "serve ev fr (RSetSandbox i profile) s = snd (op_set_sandbox ev i profile s)"
| "serve ev fr RRefresh s = op_refresh ev s"

definition is_fresh :: "fresh \<Rightarrow> ops \<Rightarrow> bool" where
  "is_fresh fr s \<longleftrightarrow>
     fr_job fr \<notin> jt_id ` set (rn_threads (op_runner s)) \<and> fr_job fr \<notin> fst ` set (op_works s)
     \<and> bt_get (op_projects s) (fr_project fr) = None \<and> fr_project fr \<notin> rn_busy (op_runner s)"

definition end_work :: "job_thread \<Rightarrow> job_outcome \<Rightarrow> ops \<Rightarrow> ops" where
  "end_work t out s =
     s\<lparr>op_works := filter (\<lambda>(j, w). j \<noteq> jt_id t) (op_works s),
       op_runner := set_phase (jt_id t) (Ending out) (cleanup t (op_runner s))\<rparr>"

definition run_thread :: "op_env \<Rightarrow> job_thread \<Rightarrow> work \<Rightarrow> ops \<Rightarrow> ops" where
  "run_thread ev t w s =
     (case with_ctx (run_work (ev_answers ev) w) s of (out, s) \<Rightarrow> end_work t out s)"

text \<open>The steps of the runner that concern no project's work.\<close>

fun beside :: "job_thread list \<Rightarrow> job_event \<Rightarrow> bool" where
  "beside ts (SubmitGlobal i kd now) = True"
| "beside ts (Acquire i) = True"
| "beside ts (WorkEnds i we) = list_all (\<lambda>t. jt_id t = i \<longrightarrow> jt_project t = None) ts"
| "beside ts (Report i now) = True"
| "beside ts (CancelJob i) = True"
| "beside ts Shutdown = True"
| "beside ts (Elsewhere (PutSession x)) = True"
| "beside ts _ = False"

inductive ops_step :: "op_env \<Rightarrow> ops \<Rightarrow> ops \<Rightarrow> bool" for ev where
  request: "is_fresh fr s \<Longrightarrow> ops_step ev s (serve ev fr rq s)"
| run: "t \<in> set (rn_threads (op_runner s)) \<Longrightarrow> jt_phase t = Working False \<Longrightarrow>
     (jt_id t, w) \<in> set (op_works s) \<Longrightarrow> ops_step ev s (run_thread ev t w s)"
| skip: "t \<in> set (rn_threads (op_runner s)) \<Longrightarrow> jt_phase t = Working True \<Longrightarrow>
     ops_step ev s (end_work t (Inl cancelled_outcome) s)"
| runner: "job_step (op_runner s) e r \<Longrightarrow> beside (rn_threads (op_runner s)) e \<Longrightarrow>
     ops_step ev s (s\<lparr>op_runner := r\<rparr>)"

definition ops_new :: "state \<Rightarrow> ops" where
  "ops_new st =
     \<lparr>op_calls = [],
      op_runner = runner_new \<lparr>dm_state = fst (interrupt_preparing st), dm_out = []\<rparr>, op_works = []\<rparr>"

inductive ops_reach :: "op_env \<Rightarrow> project list \<Rightarrow> ops \<Rightarrow> bool" for ev ps where
  start: "ops_reach ev ps (ops_new (state_load ps))"
| step: "ops_reach ev ps s \<Longrightarrow> ops_step ev s s' \<Longrightarrow> ops_reach ev ps s'"

section \<open>The runner beside the work\<close>

definition spots :: "runner \<Rightarrow> (job_id \<times> project_id option) set" where
  "spots r = (\<lambda>t. (jt_id t, jt_project t)) ` set (in_place (rn_threads r))"

lemma spots_submit:
  "spots (snd (submit i kd p now r)) = (if p \<in> rn_busy r then spots r else insert (i, Some p) (spots r))"
  by (simp add: submit_def spawn_job_def Let_def spots_def emit_job_def)

lemma spots_set_phase:
  assumes "t \<in> set (rn_threads r)" "runner_ok r" "holds_place (jt_phase t)"
  shows "spots (set_phase (jt_id t) ph r) =
    (if holds_place ph then spots r else {x \<in> spots r. fst x \<noteq> jt_id t})"
proof -
  from assms(2) have "distinct (map jt_id (rn_threads r))" by (simp add: runner_ok_def)
  with one_thread [OF assms(1)] obtain us vs where ts: "rn_threads r = us @ t # vs"
    "\<forall>u \<in> set us \<union> set vs. jt_id u \<noteq> jt_id t"
    "\<forall>f. map (\<lambda>u. if jt_id u = jt_id t then f u else u) (rn_threads r) = us @ f t # vs"
    "filter (\<lambda>u. jt_id u \<noteq> jt_id t) (rn_threads r) = us @ vs" by blast
  have "\<forall>u \<in> set (in_place us) \<union> set (in_place vs). jt_id u \<noteq> jt_id t"
    using ts(2) in_place_subset by fast
  then show ?thesis using assms(3) ts(3) by (auto simp: spots_def set_phase_def ts(1))
qed

lemma spots_report:
  assumes "t \<in> set (rn_threads r)" "runner_ok r" "\<not> holds_place (jt_phase t)"
  shows "spots (r\<lparr>rn_threads := filter (\<lambda>u. jt_id u \<noteq> jt_id t) (rn_threads r)\<rparr>) = spots r"
proof -
  from assms(2) have "distinct (map jt_id (rn_threads r))" by (simp add: runner_ok_def)
  with one_thread [OF assms(1)] obtain us vs where ts: "rn_threads r = us @ t # vs"
    "\<forall>u \<in> set us \<union> set vs. jt_id u \<noteq> jt_id t"
    "\<forall>f. map (\<lambda>u. if jt_id u = jt_id t then f u else u) (rn_threads r) = us @ f t # vs"
    "filter (\<lambda>u. jt_id u \<noteq> jt_id t) (rn_threads r) = us @ vs" by blast
  then show ?thesis using assms(3) by (simp add: spots_def)
qed

lemma spots_trip: "spots (trip sel r) = spots r"
proof -
  have same: "(\<lambda>t. (jt_id t, jt_project t)) ` set (map (\<lambda>t. if P t then t\<lparr>jt_cancel := True\<rparr> else t) ts) =
      (\<lambda>t. (jt_id t, jt_project t)) ` set ts" for P ts
    by (induction ts) simp_all
  have "spots (trip sel r) = (\<lambda>t. (jt_id t, jt_project t)) ` set (in_place (rn_threads (trip sel r)))"
    by (simp add: spots_def)
  also have "rn_threads (trip sel r) =
      map (\<lambda>t. if sel (jt_id t) \<and> jt_id t \<in> rn_cancels r then t\<lparr>jt_cancel := True\<rparr> else t) (rn_threads r)"
    by (simp add: trip_def)
  finally show ?thesis unfolding trip_lists same by (simp add: spots_def)
qed

lemma spots_same [simp]:
  "spots (r\<lparr>rn_running := n\<rparr>) = spots r" "spots (emit_job j r) = spots r" "spots (cleanup t r) = spots r"
  by (simp_all add: spots_def emit_job_def cleanup_def split: option.split)

lemma runner_ok_daemon [simp]: "runner_ok (r\<lparr>rn_daemon := d\<rparr>) = runner_ok r"
  by (simp add: runner_ok_def)

lemma spots_daemon [simp]: "spots (r\<lparr>rn_daemon := d\<rparr>) = spots r"
  by (simp add: spots_def)

lemma rn_busy_spots: "runner_ok r \<Longrightarrow> p \<in> rn_busy r \<longleftrightarrow> Some p \<in> snd ` spots r"
  by (auto simp: runner_ok_def spots_def image_iff)

text \<open>No two spots have the same project.\<close>

lemma spots_once:
  assumes "runner_ok r" "(i, p) \<in> spots r" "(j, p) \<in> spots r"
  shows "i = j"
proof -
  from assms(2,3) obtain t u where "t \<in> set (in_place (rn_threads r))" "u \<in> set (in_place (rn_threads r))"
    "i = jt_id t" "j = jt_id u" "jt_project t = jt_project u" by (auto simp: spots_def)
  moreover from assms(1) have "inj_on jt_project (set (in_place (rn_threads r)))"
    by (simp add: runner_ok_def distinct_map)
  ultimately show ?thesis by (auto dest: inj_onD)
qed

lemma projects_beside:
  assumes "job_step r e r'" "beside (rn_threads r) e"
  shows "st_projects (dm_state (rn_daemon r')) = st_projects (dm_state (rn_daemon r))"
  using assms
proof (cases rule: job_step.cases)
  case (elsewhere m)
  with assms(2) show ?thesis by (cases m) (simp_all add: emit_is_event client_event_def)
qed (simp_all add: submit_global_def spawn_job_def emit_job_def Let_def emit_is_event client_event_def
    set_phase_def cleanup_def cancel_job_def shutdown_jobs_def trip_def split: option.split)

lemma spots_beside:
  assumes "job_step r e r'" "beside (rn_threads r) e" "runner_ok r"
  shows "{x \<in> spots r. snd x \<noteq> None} \<subseteq> spots r'"
  using assms(1)
proof (cases rule: job_step.cases)
  case (submit_global i kd now)
  then show ?thesis by (auto simp: submit_global_def spawn_job_def Let_def spots_def emit_job_def)
next
  case (acquire t)
  then have "spots r' = spots (set_phase (jt_id t) (Working (jt_cancel t)) r)"
    by (simp add: spots_def set_phase_def)
  with acquire assms(3) show ?thesis by (simp add: spots_set_phase)
next
  case (work t tripped we)
  then have none: "jt_project t = None" using assms(2) by (simp add: list_all_iff)
  have same: "spots r' = spots (set_phase (jt_id t) (Ending (work_outcome tripped we)) r)"
    using work none by (simp add: spots_def set_phase_def cleanup_def)
  have gone: "(jt_id t, q) \<in> spots r \<Longrightarrow> q = None" for q
  proof -
    assume "(jt_id t, q) \<in> spots r"
    then obtain u where u: "u \<in> set (rn_threads r)" "jt_id u = jt_id t" "jt_project u = q"
      using in_place_subset [of "rn_threads r"] by (auto simp: spots_def)
    with work assms(2) show "q = None" by (auto simp: list_all_iff)
  qed
  show ?thesis unfolding same using work(3,4) assms(3) gone by (fastforce simp: spots_set_phase)
next
  case (report t out now)
  then have "spots r' = spots (r\<lparr>rn_threads := filter (\<lambda>u. jt_id u \<noteq> jt_id t) (rn_threads r)\<rparr>)"
    by (simp add: spots_def emit_job_def)
  with report assms(3) show ?thesis by (simp add: spots_report)
next
  case (elsewhere m)
  then show ?thesis by simp
qed (use assms(2) in \<open>simp_all add: spots_trip cancel_job_def shutdown_jobs_def\<close>)

section \<open>Changes of the records\<close>

definition apart :: "(project \<Rightarrow> 'a) \<Rightarrow> (project_id, project) btree \<Rightarrow> bool" where
  "apart f m \<longleftrightarrow> (\<forall>i j p q. bt_get m i = Some p \<longrightarrow> bt_get m j = Some q \<longrightarrow> f p = f q \<longrightarrow> i = j)"

definition place :: "project \<Rightarrow> string \<times> string" where
  "place p = (pj_slug p, pj_workspace p)"

definition well_placed :: "op_env \<Rightarrow> (project_id, project) btree \<Rightarrow> bool" where
  "well_placed ev m \<longleftrightarrow>
     filed pj_id m \<and> apart pj_slug m \<and>
     (\<forall>i p. bt_get m i = Some p \<longrightarrow>
        pj_workspace p = path_join (ev_workspaces ev) (pj_slug p) \<and> CHR ''/'' \<notin> set (pj_slug p))"

text \<open>Records are edited in place; only the projects in \<open>D\<close> may go and only those in \<open>S\<close> may move.\<close>

definition edited ::
  "project_id set \<Rightarrow> project_id set \<Rightarrow> (project_id, project) btree \<Rightarrow> (project_id, project) btree \<Rightarrow> bool" where
  "edited D S m m' \<longleftrightarrow>
     filed pj_id m' \<and>
     (\<forall>i q. bt_get m' i = Some q \<longrightarrow>
        (\<exists>p. bt_get m i = Some p \<and> place q = place p \<and> (i \<notin> S \<longrightarrow> pj_source q = pj_source p))) \<and>
     (\<forall>i. i \<notin> D \<longrightarrow> bt_get m i \<noteq> None \<longrightarrow> bt_get m' i \<noteq> None)"

lemma edited_refl: "filed pj_id m \<Longrightarrow> edited D S m m"
  by (auto simp: edited_def)

lemma edited_put:
  assumes "edited D S m m'" and "bt_get m (pj_id q) = Some p" and "place q = place p"
    and "pj_id q \<notin> S \<longrightarrow> pj_source q = pj_source p"
  shows "edited D S m (bt_insert (pj_id q) q m')"
  using assms by (auto simp: edited_def bt_get_insert filed_insert)

lemma edited_drop:
  assumes "edited D S m m'" and "i \<in> D"
  shows "edited D S m (bt_remove i m')"
  using assms by (auto simp: edited_def bt_get_remove filed_remove filed_def bt_ok_remove split: if_splits)

lemma edited_apart:
  assumes "edited D S m m'" and "apart f m" and "\<And>p q i. bt_get m i = Some p \<Longrightarrow> bt_get m' i = Some q \<Longrightarrow> f q = f p"
  shows "apart f m'"
  unfolding apart_def
proof (intro allI impI)
  fix i j p q assume at: "bt_get m' i = Some p" "bt_get m' j = Some q" and same: "f p = f q"
  from assms(1) at obtain p' q' where old: "bt_get m i = Some p'" "bt_get m j = Some q'"
    unfolding edited_def by blast
  with at assms(3) have "f p' = f q'" using same by metis
  with old assms(2) show "i = j" unfolding apart_def by blast
qed

lemma edited_well_placed:
  assumes "edited D S m m'" and "well_placed ev m"
  shows "well_placed ev m'"
proof -
  have slugs: "pj_slug q = pj_slug p" if "bt_get m i = Some p" "bt_get m' i = Some q" for i p q
    using assms(1) that by (force simp: edited_def place_def)
  have "apart pj_slug m'"
    using assms(2) slugs by (intro edited_apart [OF assms(1)]) (simp_all add: well_placed_def)
  moreover have "filed pj_id m'" using assms(1) by (simp add: edited_def)
  moreover have "pj_workspace q = path_join (ev_workspaces ev) (pj_slug q) \<and> CHR ''/'' \<notin> set (pj_slug q)"
    if "bt_get m' i = Some q" for i q
    using assms that unfolding edited_def well_placed_def place_def by (metis prod.inject)
  ultimately show ?thesis by (simp add: well_placed_def)
qed

definition mirrored :: "ctx \<Rightarrow> (project_id, project) btree" where
  "mirrored cx = st_projects (dm_state (cx_daemon cx))"

interpretation editing: mirror_property
  "\<lambda>cx. edited D S m (mirrored cx)"
  "\<lambda>q. \<exists>p. bt_get m (pj_id q) = Some p \<and> place q = place p \<and> (pj_id q \<notin> S \<longrightarrow> pj_source q = pj_source p)"
  "\<lambda>i. i \<in> D"
  for D S m
proof unfold_locales
  show "edited D S m (mirrored (called c cx)) \<longleftrightarrow> edited D S m (mirrored cx)" for c cx
    by (simp add: mirrored_def)
  show "edited D S m (mirrored (cx\<lparr>cx_daemon := emit (upsert_project q) (cx_daemon cx)\<rparr>))"
    if "edited D S m (mirrored cx)"
      "\<exists>p. bt_get m (pj_id q) = Some p \<and> place q = place p \<and> (pj_id q \<notin> S \<longrightarrow> pj_source q = pj_source p)" for cx q
  proof -
    from that(2) obtain p where "bt_get m (pj_id q) = Some p" "place q = place p"
      "pj_id q \<notin> S \<longrightarrow> pj_source q = pj_source p" by blast
    from edited_put [OF that(1) this] show ?thesis
      by (simp add: mirrored_def emit_is_event client_event_def)
  qed
  show "edited D S m (mirrored (cx\<lparr>cx_daemon := emit (remove_project i) (cx_daemon cx)\<rparr>))"
    if "edited D S m (mirrored cx)" "i \<in> D" for cx i
    using that edited_drop by (simp add: mirrored_def emit_is_event client_event_def)
qed

lemma edited_run_work:
  assumes "filed pj_id (mirrored cx)" and "bt_get (mirrored cx) (pj_id (work_project w)) = Some p"
    and "place p = place (work_project w)" and "pj_source p = pj_source (work_project w)"
  shows "edited {pj_id (work_project w)} (if moves_to w = None then {} else {pj_id (work_project w)})
    (mirrored cx) (mirrored (snd (run_work an w cx)))"
  by (rule editing.holds_run_work [OF edited_refl]) (use assms in \<open>auto simp: place_def\<close>)

lemma edited_presence:
  "filed pj_id (st_projects st) \<Longrightarrow> edited {} {} (st_projects st) (st_projects (apply_presence ps st))"
proof -
  have "edited {} {} m (st_projects (apply_presence ps st))" if "edited {} {} m (st_projects st)" for m
    using that
  proof (induction ps st rule: apply_presence.induct)
    case (2 i source present rest s)
    show ?case
    proof (cases "bt_get (st_projects s) i")
      case None
      with 2 show ?thesis by simp
    next
      case (Some p)
      with 2(2) have i: "pj_id p = i" by (simp add: edited_def filed_def)
      from 2(2) Some obtain p0 where "bt_get m i = Some p0" "place p = place p0" "pj_source p = pj_source p0"
        unfolding edited_def by blast
      with 2(2) i have "edited {} {} m (bt_insert i (p\<lparr>pj_source_present := present\<rparr>) (st_projects s))"
        using edited_put [of "{}" "{}" m "st_projects s" "p\<lparr>pj_source_present := present\<rparr>" p0]
        by (simp add: place_def)
      with 2 Some show ?thesis by simp
    qed
  qed simp
  then show "filed pj_id (st_projects st) \<Longrightarrow> ?thesis" using edited_refl by blast
qed

section \<open>The invariant\<close>

definition works_ok :: "ops \<Rightarrow> bool" where
  "works_ok s \<longleftrightarrow>
     distinct (map fst (op_works s)) \<and>
     (\<forall>(j, w) \<in> set (op_works s).
        (j, Some (pj_id (work_project w))) \<in> spots (op_runner s) \<and>
        (\<exists>p. bt_get (op_projects s) (pj_id (work_project w)) = Some p \<and>
             place p = place (work_project w) \<and> pj_source p = pj_source (work_project w)))"

definition ops_ok :: "op_env \<Rightarrow> ops \<Rightarrow> bool" where
  "ops_ok ev s \<longleftrightarrow> runner_ok (op_runner s) \<and> well_placed ev (op_projects s) \<and> works_ok s"

text \<open>A step that changes neither the runner nor the works in flight.\<close>

definition quiet :: "ops \<Rightarrow> ops \<Rightarrow> bool" where
  "quiet s s' \<longleftrightarrow> op_runner s' = op_runner s \<and> op_works s' = op_works s"

lemma quiet_refl [simp]: "quiet s s"
  by (simp add: quiet_def)

lemma quiet_trans: "quiet s s1 \<Longrightarrow> quiet s1 s2 \<Longrightarrow> quiet s s2"
  by (simp add: quiet_def)

lemma quiet_projects: "quiet s s' \<Longrightarrow> op_projects s' = op_projects s"
  by (simp add: quiet_def op_projects_def)

lemma quiet_ok: "quiet s s' \<Longrightarrow> ops_ok ev s' = ops_ok ev s"
  by (simp add: quiet_def ops_ok_def works_ok_def op_projects_def)

lemma quiet_with_ctx: "(\<And>cx. cx_daemon (snd (f cx)) = cx_daemon cx) \<Longrightarrow> quiet s (snd (with_ctx f s))"
  by (simp add: with_ctx_def quiet_def op_ctx_def split: prod.split) (metis snd_conv runner.surjective runner.update_convs(1) ctx.select_convs(2))

lemma op_works_ok_edit:
  assumes "ops_ok ev s" and "edited {} {} (op_projects s) (op_projects s')"
    and "runner_ok (op_runner s')" and "spots (op_runner s') = spots (op_runner s)" and "op_works s' = op_works s"
  shows "ops_ok ev s'"
proof -
  have "\<exists>q. bt_get (op_projects s') i = Some q \<and> place q = place p \<and> pj_source q = pj_source p"
    if "bt_get (op_projects s) i = Some p" for i p
    using assms(2) that unfolding edited_def by force
  then have "works_ok s'"
    using assms(1,4,5) unfolding ops_ok_def works_ok_def by fastforce
  with assms(1-3) edited_well_placed show ?thesis by (auto simp: ops_ok_def)
qed

lemma ops_ok_put:
  assumes "ops_ok ev s" and "bt_get (op_projects s) (pj_id q) = Some p" and "place q = place p"
    and "pj_source q = pj_source p"
  shows "ops_ok ev (put_project q s)"
proof (rule op_works_ok_edit [OF assms(1)])
  have "filed pj_id (op_projects s)" using assms(1) by (simp add: ops_ok_def well_placed_def)
  from edited_put [OF edited_refl [OF this] assms(2,3)] assms(4)
  show "edited {} {} (op_projects s) (op_projects (put_project q s))"
    by (simp add: op_projects_def put_project_def emit_is_event client_event_def)
qed (use assms(1) in \<open>simp_all add: put_project_def ops_ok_def\<close>)

lemma submit_daemon:
  "st_projects (dm_state (rn_daemon (snd (submit i kd p now r)))) = st_projects (dm_state (rn_daemon r))"
  by (simp add: submit_def spawn_job_def Let_def emit_job_def emit_is_event client_event_def)

lemma ops_ok_submit:
  assumes "ops_ok ev s" and "fr_job fr \<notin> jt_id ` set (rn_threads (op_runner s))"
    and "fr_job fr \<notin> fst ` set (op_works s)" and "bt_get (op_projects s) (pj_id (work_project w)) = Some p"
    and "place p = place (work_project w)" and "pj_source p = pj_source (work_project w)"
  shows "ops_ok ev (snd (submit_work (fr_job fr) kd now w s))"
proof -
  let ?r = "op_runner s" and ?r' = "snd (submit (fr_job fr) kd (pj_id (work_project w)) now (op_runner s))"
  have new: "fr_job fr \<notin> jt_id ` set (rn_threads ?r)" "fr_job fr \<notin> fst ` set (op_works s)"
    by (rule assms(2), rule assms(3))
  have ok: "runner_ok ?r'" using assms(1) new by (simp add: runner_ok_submit ops_ok_def)
  show ?thesis
  proof (cases "pj_id (work_project w) \<in> rn_busy ?r")
    case True
    then have "snd (submit_work (fr_job fr) kd now w s) = s"
      by (cases s) (simp add: submit_work_def submit_def case_unit_Unity)
    with assms(1) show ?thesis by simp
  next
    case False
    then have s': "snd (submit_work (fr_job fr) kd now w s) = s\<lparr>op_runner := ?r', op_works := (fr_job fr, w) # op_works s\<rparr>"
      by (simp add: submit_work_def submit_def)
    have "spots ?r' = insert (fr_job fr, Some (pj_id (work_project w))) (spots ?r)"
      using False by (simp add: spots_submit)
    then have "works_ok (s\<lparr>op_runner := ?r', op_works := (fr_job fr, w) # op_works s\<rparr>)"
      using assms(1,4-6) new(2) unfolding works_ok_def ops_ok_def op_projects_def
      by (auto simp: submit_daemon split: prod.splits) blast
    with ok assms(1) show ?thesis
      unfolding s' by (simp add: ops_ok_def op_projects_def submit_daemon)
  qed
qed

section \<open>Requests keep it\<close>

lemma after_andthen:
  assumes "\<And>s'. quiet s0 s' \<Longrightarrow> F s'" and "quiet s0 (snd m)"
    and "\<And>a s1. m = (Inr a, s1) \<Longrightarrow> quiet s0 s1 \<Longrightarrow> F (snd (f a s1))"
  shows "F (snd (andthen m f))"
proof (cases m)
  case (Pair r s1)
  with assms show ?thesis by (cases r) (simp_all add: andthen_def)
qed

lemma after_case:
  assumes "quiet s0 (snd m)" and "\<And>b s1. m = (b, s1) \<Longrightarrow> quiet s0 s1 \<Longrightarrow> F (snd (f b s1))"
  shows "F (snd (case m of (b, s1) \<Rightarrow> f b s1))"
  using assms by (cases m) simp

lemma quiet_steps:
  "quiet s0 s \<Longrightarrow> quiet s0 (snd (need_linux path s))"
  "quiet s0 s \<Longrightarrow> quiet s0 (snd (refuse_unless b e s))"
  "quiet s0 s \<Longrightarrow> quiet s0 (snd (get_project ev i s))"
  "quiet s0 s \<Longrightarrow> quiet s0 (snd (with_ctx (is_repo an path) s))"
  "quiet s0 s \<Longrightarrow> quiet s0 (snd (with_ctx (has_commits an path) s))"
  "quiet s0 s \<Longrightarrow> quiet s0 (snd (with_ctx (current_branch an path) s))"
  "quiet s0 s \<Longrightarrow> quiet s0 (snd (with_ctx (\<lambda>cx. (g cx, called c cx)) s))"
  "quiet s0 (snd m) \<Longrightarrow> quiet s0 (snd (git_err_to_op m))"
proof -
  show "quiet s0 s \<Longrightarrow> quiet s0 (snd (with_ctx (current_branch an path) s))"
    by (erule quiet_trans, rule quiet_with_ctx)
       (simp add: current_branch_def git_run_def split: prod.split sum.split)
qed (auto simp: need_linux_def refuse_unless_def get_project_def git_err_to_op_def is_repo_def has_commits_def
    git_succeeds_def split: option.split sum.split prod.split intro!: quiet_with_ctx elim!: quiet_trans)

lemma ops_ok_known:
  assumes "ops_ok ev s0" and "quiet s0 s" and "get_project ev i s0 = (Inr p, s1)"
  shows "bt_get (op_projects s) (pj_id p) = Some p" and "pj_id p = i"
proof -
  from assms(3) have "bt_get (op_projects s0) i = Some p"
    by (simp add: get_project_def split: option.splits)
  moreover from this have "pj_id p = i" using assms(1) by (simp add: ops_ok_def well_placed_def filed_def)
  ultimately show "bt_get (op_projects s) (pj_id p) = Some p" "pj_id p = i"
    using quiet_projects [OF assms(2)] by simp_all
qed

lemma ops_ok_submit_known:
  assumes "ops_ok ev st" "is_fresh fr st" "get_project ev i st = (Inr p, s1)" "quiet st s"
    and "work_project w = p"
  shows "ops_ok ev (snd (submit_work (fr_job fr) kd now w s))"
proof (rule ops_ok_submit [where p = p])
  show "ops_ok ev s" using assms(1) by (simp only: quiet_ok [OF assms(4)])
  show "fr_job fr \<notin> jt_id ` set (rn_threads (op_runner s))" "fr_job fr \<notin> fst ` set (op_works s)"
    using assms(2,4) by (simp_all add: is_fresh_def quiet_def)
  show "bt_get (op_projects s) (pj_id (work_project w)) = Some p"
    unfolding assms(5) by (rule ops_ok_known(1) [OF assms(1,4,3)])
qed (simp_all only: assms(5))

lemma ops_ok_submits:
  assumes "ops_ok ev s" and "is_fresh fr s"
  shows "ops_ok ev (snd (op_sync ev fr i s))" and "ops_ok ev (snd (op_update ev fr i s))"
    and "ops_ok ev (snd (op_remove ev fr i del force s))" and "ops_ok ev (snd (op_relocate ev fr i path s))"
proof -
  note begins = after_andthen [where ?s0.0 = s and F = "ops_ok ev"] after_case [where ?s0.0 = s and F = "ops_ok ev"]
  show "ops_ok ev (snd (op_sync ev fr i s))"
    unfolding op_sync_def using assms
    by (intro begins; (simp add: quiet_ok quiet_steps; fail)?) (rule ops_ok_submit_known, simp_all)
  show "ops_ok ev (snd (op_update ev fr i s))"
    unfolding op_update_def using assms
    by (intro begins; (simp add: quiet_ok quiet_steps; fail)?) (rule ops_ok_submit_known, simp_all)
  show "ops_ok ev (snd (op_remove ev fr i del force s))"
    unfolding op_remove_def using assms
    by (intro begins; (simp add: quiet_ok quiet_steps; fail)?) (rule ops_ok_submit_known, simp_all)
  show "ops_ok ev (snd (op_relocate ev fr i path s))"
    unfolding op_relocate_def using assms
    by (intro begins; (simp add: quiet_ok quiet_steps; fail)?) (rule ops_ok_submit_known, simp_all)
qed

lemma ops_ok_save_project:
  assumes "ops_ok ev s" and "bt_get (op_projects s) (pj_id q) = Some p" and "place q = place p"
    and "pj_source q = pj_source p"
  shows "ops_ok ev (snd (save_project ev q s))"
  unfolding save_project_def
proof (rule after_andthen [where ?s0.0 = s])
  have q: "quiet s (snd (with_ctx (\<lambda>cx. (an_save (ev_answers ev) (cx_calls cx) q, called (CSave q) cx)) s))"
    by (simp add: quiet_steps)
  then show "quiet s (snd (case with_ctx (\<lambda>cx. (an_save (ev_answers ev) (cx_calls cx) q, called (CSave q) cx)) s of
      (Some e, s) \<Rightarrow> (Inl (state_write_failed e), s) | (None, s) \<Rightarrow> (Inr (), s)))"
    by (auto split: prod.split option.split)
next
  fix s1 assume quiet: "quiet s s1"
  have "ops_ok ev (put_project q s1)"
    by (rule ops_ok_put [where p = p])
      (use assms quiet_ok [OF quiet] quiet_projects [OF quiet] in simp_all)
  then show "ops_ok ev (snd (Inr q, put_project q s1))" by simp
qed (simp add: quiet_ok assms(1))

lemma ops_ok_edits:
  assumes "ops_ok ev s"
  shows "ops_ok ev (snd (op_rename ev i name s))" and "ops_ok ev (snd (op_set_sandbox ev i profile s))"
proof -
  show "ops_ok ev (snd (op_rename ev i name s))"
    unfolding op_rename_def
  proof (rule after_andthen [where ?s0.0 = s])
    fix p s1 assume got: "get_project ev i s = (Inr p, s1)" and quiet: "quiet s s1"
    show "ops_ok ev (snd (save_project ev (p\<lparr>pj_name := name\<rparr>) s1))"
      by (rule ops_ok_save_project [where p = p])
        (use assms quiet_ok [OF quiet] ops_ok_known [OF assms quiet got] in \<open>simp_all add: place_def\<close>)
  qed (simp_all add: quiet_ok quiet_steps assms)
  show "ops_ok ev (snd (op_set_sandbox ev i profile s))"
    unfolding op_set_sandbox_def
  proof (rule after_andthen [where ?s0.0 = s])
    fix p s1 assume got: "get_project ev i s = (Inr p, s1)" and quiet: "quiet s s1"
    have "ops_ok ev (snd (save_project ev (p\<lparr>pj_sandbox := profile, pj_sandbox_problem := None\<rparr>) s1))"
      by (rule ops_ok_save_project [where p = p])
        (use assms quiet_ok [OF quiet] ops_ok_known [OF assms quiet got] in \<open>simp_all add: place_def\<close>)
    then show "ops_ok ev (snd (case resolve claude_default_capabilities profile (ev_home ev) of
        Inl e \<Rightarrow> (Inl (cap_op_error e), s1)
      | Inr caps \<Rightarrow> save_project ev (p\<lparr>pj_sandbox := profile, pj_sandbox_problem := None\<rparr>) s1))"
      using assms quiet_ok [OF quiet] by (simp split: sum.split)
  qed (simp_all add: quiet_ok quiet_steps assms)
qed

lemma compute_presence_daemon: "cx_daemon (snd (compute_presence an sources cx)) = cx_daemon cx"
  by (induction an sources cx rule: compute_presence.induct)
     (auto simp: is_repo_def split: prod.split option.split)

lemma ops_ok_refresh:
  assumes "ops_ok ev s"
  shows "ops_ok ev (op_refresh ev s)"
proof -
  define sources where "sources = map (\<lambda>(i, p). (i, pj_source p)) (op_projects s)"
  obtain ps s1 where got: "with_ctx (compute_presence (ev_answers ev) sources) s = (ps, s1)" by fastforce
  have quiet: "quiet s s1"
    using quiet_with_ctx [of "compute_presence (ev_answers ev) sources" s] by (simp add: got compute_presence_daemon)
  have "ops_ok ev (s1\<lparr>op_runner := (op_runner s1)\<lparr>rn_daemon := mutate (rn_daemon (op_runner s1)) (Presence ps)\<rparr>\<rparr>)"
  proof (rule op_works_ok_edit)
    show ok: "ops_ok ev s1" using assms by (simp only: quiet_ok [OF quiet])
    then have "filed pj_id (st_projects (dm_state (rn_daemon (op_runner s1))))"
      by (simp add: ops_ok_def well_placed_def op_projects_def)
    from edited_presence [OF this]
    show "edited {} {} (op_projects s1)
        (op_projects (s1\<lparr>op_runner := (op_runner s1)\<lparr>rn_daemon := mutate (rn_daemon (op_runner s1)) (Presence ps)\<rparr>\<rparr>))"
      by (simp add: op_projects_def)
    show "runner_ok (op_runner (s1\<lparr>op_runner := (op_runner s1)\<lparr>rn_daemon := mutate (rn_daemon (op_runner s1)) (Presence ps)\<rparr>\<rparr>))"
      using ok by (simp add: ops_ok_def)
  qed simp_all
  then show ?thesis by (simp only: op_refresh_def Let_def got case_prod_conv flip: sources_def)
qed

text \<open>A new project with a free slug, at the slug's directory.\<close>

lemma ops_ok_new:
  assumes "ops_ok ev s" and "bt_get (op_projects s) (pj_id q) = None" and "pj_id q \<notin> rn_busy (op_runner s)"
    and "pj_slug q \<notin> set (map pj_slug (bt_values (op_projects s)))" and "CHR ''/'' \<notin> set (pj_slug q)"
    and "pj_workspace q = path_join (ev_workspaces ev) (pj_slug q)"
  shows "ops_ok ev (put_project q s)"
proof -
  let ?m = "op_projects s"
  have m': "op_projects (put_project q s) = bt_insert (pj_id q) q ?m"
    by (simp add: op_projects_def put_project_def emit_is_event client_event_def)
  have free: "pj_slug p \<noteq> pj_slug q" if "bt_get ?m i = Some p" for i p
  proof -
    have "p \<in> set (bt_values ?m)"
      using that by (auto simp: bt_get_def bt_values_def image_iff dest: map_of_SomeD intro!: bexI)
    with assms(4) show ?thesis by (auto simp: image_iff)
  qed
  have old: "filed pj_id ?m" "apart pj_slug ?m"
    "\<And>i p. bt_get ?m i = Some p \<Longrightarrow> pj_workspace p = path_join (ev_workspaces ev) (pj_slug p) \<and> CHR ''/'' \<notin> set (pj_slug p)"
    using assms(1) by (simp_all add: ops_ok_def well_placed_def)
  have "apart pj_slug (bt_insert (pj_id q) q ?m)"
    using old(2) free unfolding apart_def by (simp add: bt_get_insert) metis
  moreover have "filed pj_id (bt_insert (pj_id q) q ?m)" using old(1) by (rule filed_insert)
  ultimately have "well_placed ev (bt_insert (pj_id q) q ?m)"
    using old(3) assms(5,6) by (auto simp: well_placed_def bt_get_insert)
  moreover have "works_ok (put_project q s)"
  proof -
    have "pj_id (work_project w) \<noteq> pj_id q" if "(j, w) \<in> set (op_works s)" for j w
      using assms(1,2) that unfolding ops_ok_def works_ok_def by fastforce
    then show ?thesis
      using assms(1) unfolding ops_ok_def works_ok_def m'
      by (fastforce simp: put_project_def bt_get_insert)
  qed
  ultimately show ?thesis using assms(1) by (simp add: ops_ok_def m') (simp add: put_project_def)
qed

lemma ops_ok_register:
  assumes "ops_ok ev s" and "is_fresh fr s" and "quiet s s1" and "pj_id q = fr_project fr"
    and "slug_for folder (map pj_slug (bt_values (op_projects s))) = Some (pj_slug q)"
    and "pj_workspace q = path_join (ev_workspaces ev) (pj_slug q)" and "work_project w = q"
  shows "ops_ok ev (snd (submit_work (fr_job fr) kd now w (put_project q s1)))"
proof (rule ops_ok_submit [where p = q])
  from slug_for_shape [of folder "map pj_slug (bt_values (op_projects s))"] assms(5)
  have slug: "pj_slug q \<notin> set (map pj_slug (bt_values (op_projects s1)))" "CHR ''/'' \<notin> set (pj_slug q)"
    unfolding quiet_projects [OF assms(3)] by simp_all
  show "ops_ok ev (put_project q s1)"
  proof (rule ops_ok_new)
    show "ops_ok ev s1" using assms(1) by (simp only: quiet_ok [OF assms(3)])
    show "bt_get (op_projects s1) (pj_id q) = None" "pj_id q \<notin> rn_busy (op_runner s1)"
      using assms(2,3) by (simp_all add: assms(4) is_fresh_def quiet_def op_projects_def)
  qed (rule slug assms(6))+
  show "fr_job fr \<notin> jt_id ` set (rn_threads (op_runner (put_project q s1)))"
    "fr_job fr \<notin> fst ` set (op_works (put_project q s1))"
    using assms(2,3) by (simp_all add: is_fresh_def quiet_def put_project_def)
  show "bt_get (op_projects (put_project q s1)) (pj_id (work_project w)) = Some q"
    unfolding assms(7) by (simp add: op_projects_def put_project_def emit_is_event client_event_def bt_get_insert)
qed (simp_all only: assms(7))

lemma slug_known:
  "quiet s s1 \<Longrightarrow>
   slug_for folder (map pj_slug (bt_values (op_projects s))) =
     Some (the (slug_for folder (map pj_slug (bt_values (op_projects s1)))))"
  using slug_for_shape [of folder "map pj_slug (bt_values (op_projects s))"] by (auto simp: quiet_projects)

lemma ops_ok_add:
  assumes "ops_ok ev s" and "is_fresh fr s"
  shows "ops_ok ev (snd (op_add ev fr path name s))"
proof -
  note begins = after_andthen [where ?s0.0 = s and F = "ops_ok ev"] after_case [where ?s0.0 = s and F = "ops_ok ev"]
  have ended: "ops_ok ev (snd (andthen (submit_work (fr_job fr) kd now w (put_project q s1)) (\<lambda>j s. (Inr (g j), s))))"
    if "ops_ok ev (snd (submit_work (fr_job fr) kd now w (put_project q s1)))" for kd now w q s1 and g :: "job_id \<Rightarrow> project_id \<times> job_id"
    using that by (auto simp: andthen_def split: prod.split sum.split)
  show ?thesis
    unfolding op_add_def Let_def
    apply ((rule ended | rule begins); (simp add: quiet_ok quiet_steps assms; fail)?)+
    apply (rule ops_ok_register [OF assms, where folder = "folder_name path"])
        apply (erule quiet_trans, rule quiet_with_ctx, simp add: save_or_log_def)
       apply simp
      apply (simp only: project.simps)
      apply (rule slug_known, assumption)
     apply simp_all
    done
qed

section \<open>Jobs keep it\<close>

lemma end_work_facts:
  assumes "runner_ok r" "t \<in> set (rn_threads r)" "jt_phase t = Working b"
  shows "runner_ok (set_phase (jt_id t) (Ending out) (cleanup t r))"
    and "spots (set_phase (jt_id t) (Ending out) (cleanup t r)) = {x \<in> spots r. fst x \<noteq> jt_id t}"
    and "rn_daemon (set_phase (jt_id t) (Ending out) (cleanup t r)) = rn_daemon r"
proof -
  have "spots (set_phase (jt_id t) (Ending out) (cleanup t r)) = spots (set_phase (jt_id t) (Ending out) r)"
    by (simp add: spots_def set_phase_def cleanup_def split: option.split)
  with assms show "spots (set_phase (jt_id t) (Ending out) (cleanup t r)) = {x \<in> spots r. fst x \<noteq> jt_id t}"
    by (simp add: spots_set_phase)
  show "runner_ok (set_phase (jt_id t) (Ending out) (cleanup t r))" using assms by (rule runner_ok_work)
  show "rn_daemon (set_phase (jt_id t) (Ending out) (cleanup t r)) = rn_daemon r"
    by (simp add: set_phase_def cleanup_def split: option.split)
qed

text \<open>A work ends; what it did to the records concerns its own project.\<close>

lemma ops_ok_end_work:
  assumes ok: "ops_ok ev s" and t: "t \<in> set (rn_threads (op_runner s))" "jt_phase t = Working b"
    and edit: "edited D S (op_projects s) (st_projects (dm_state d))"
    and own: "D \<union> S \<subseteq> {i. (jt_id t, Some i) \<in> spots (op_runner s)}"
  shows "ops_ok ev (end_work t out (s\<lparr>op_calls := cs, op_runner := (op_runner s)\<lparr>rn_daemon := d\<rparr>\<rparr>))"
    (is "ops_ok ev ?s'")
proof -
  let ?r = "(op_runner s)\<lparr>rn_daemon := d\<rparr>"
  have r: "runner_ok ?r" using ok by (simp add: ops_ok_def)
  have tr: "t \<in> set (rn_threads ?r)" using t by simp
  note facts = end_work_facts [OF r tr t(2), of out]
  have m': "op_projects ?s' = st_projects (dm_state d)"
    by (simp add: end_work_def op_projects_def facts(3))
  have "works_ok ?s'"
    unfolding works_ok_def
  proof (intro conjI)
    have works: "op_works ?s' = filter (\<lambda>(j, w). j \<noteq> jt_id t) (op_works s)" by (simp add: end_work_def)
    then show "distinct (map fst (op_works ?s'))"
      using ok by (auto simp: ops_ok_def works_ok_def distinct_map intro: inj_on_subset)
    show "\<forall>(j, w) \<in> set (op_works ?s').
        (j, Some (pj_id (work_project w))) \<in> spots (op_runner ?s') \<and>
        (\<exists>p. bt_get (op_projects ?s') (pj_id (work_project w)) = Some p \<and>
             place p = place (work_project w) \<and> pj_source p = pj_source (work_project w))"
    proof clarify
      fix j w assume "(j, w) \<in> set (op_works ?s')"
      then have jw: "(j, w) \<in> set (op_works s)" "j \<noteq> jt_id t" by (simp_all add: works)
      let ?i = "pj_id (work_project w)"
      from jw(1) ok obtain p where spot: "(j, Some ?i) \<in> spots (op_runner s)"
        and p: "bt_get (op_projects s) ?i = Some p" "place p = place (work_project w)"
          "pj_source p = pj_source (work_project w)"
        unfolding ops_ok_def works_ok_def by fastforce
      have "(jt_id t, Some ?i) \<notin> spots (op_runner s)"
        using spots_once [of "op_runner s" j "Some ?i" "jt_id t"] spot jw(2) ok by (auto simp: ops_ok_def)
      with own have "?i \<notin> D" "?i \<notin> S" by auto
      with edit p(1) obtain q where "bt_get (st_projects (dm_state d)) ?i = Some q" "place q = place p"
          "pj_source q = pj_source p"
        unfolding edited_def by (metis option.sel option.exhaust option.distinct(1))
      with p spot jw(2) show "(j, Some ?i) \<in> spots (op_runner ?s') \<and>
          (\<exists>p. bt_get (op_projects ?s') ?i = Some p \<and> place p = place (work_project w) \<and>
               pj_source p = pj_source (work_project w))"
        unfolding m' by (simp add: end_work_def facts(2))
    qed
  qed
  moreover have "well_placed ev (op_projects ?s')"
    unfolding m' using edited_well_placed [OF edit] ok by (simp add: ops_ok_def)
  moreover have "runner_ok (op_runner ?s')" using facts(1) by (simp add: end_work_def)
  ultimately show ?thesis by (simp add: ops_ok_def)
qed

lemma ops_ok_run:
  assumes ok: "ops_ok ev s" and t: "t \<in> set (rn_threads (op_runner s))" "jt_phase t = Working False"
    and w: "(jt_id t, w) \<in> set (op_works s)"
  shows "ops_ok ev (run_thread ev t w s)"
proof -
  obtain out cx where run: "run_work (ev_answers ev) w (op_ctx s) = (out, cx)" by fastforce
  let ?i = "pj_id (work_project w)"
  from w ok obtain p where spot: "(jt_id t, Some ?i) \<in> spots (op_runner s)"
    and p: "bt_get (op_projects s) ?i = Some p" "place p = place (work_project w)"
      "pj_source p = pj_source (work_project w)"
    unfolding ops_ok_def works_ok_def by fastforce
  have m: "mirrored (op_ctx s) = op_projects s" by (simp add: mirrored_def op_ctx_def op_projects_def)
  have "filed pj_id (op_projects s)" using ok by (simp add: ops_ok_def well_placed_def)
  with edited_run_work [of "op_ctx s" w p "ev_answers ev"] p
  have "edited {?i} (if moves_to w = None then {} else {?i}) (op_projects s) (mirrored cx)"
    unfolding m run by simp
  from ops_ok_end_work [OF ok t this [unfolded mirrored_def], where cs = "cx_calls cx" and out = out] spot
  show ?thesis by (simp add: run_thread_def with_ctx_def run)
qed

lemma ops_ok_step:
  assumes "ops_step ev s s'" and "ops_ok ev s"
  shows "ops_ok ev s'"
  using assms(1)
proof cases
  case (request fr rq)
  with assms(2) show ?thesis
    by (cases rq) (simp_all add: ops_ok_add ops_ok_submits ops_ok_edits ops_ok_refresh)
next
  case (run t w)
  with assms(2) show ?thesis by (simp add: ops_ok_run)
next
  case (skip t)
  have "edited {} {} (op_projects s) (st_projects (dm_state (rn_daemon (op_runner s))))"
    using assms(2) edited_refl [of "op_projects s"] by (simp add: ops_ok_def well_placed_def op_projects_def)
  from ops_ok_end_work [OF assms(2) skip(2,3) this, where cs = "op_calls s" and out = "Inl cancelled_outcome"]
  show ?thesis by (simp add: skip(1))
next
  case (runner e r)
  have "works_ok (s\<lparr>op_runner := r\<rparr>)"
    using assms(2) spots_beside [OF runner(2,3)] projects_beside [OF runner(2,3)]
    unfolding ops_ok_def works_ok_def op_projects_def by (auto split: prod.splits) blast+
  with runner assms(2) projects_beside [OF runner(2,3)] show ?thesis
    using runner_ok_step by (auto simp: ops_ok_def op_projects_def)
qed

section \<open>Every reachable state\<close>

lemma projects_get_map: "bt_get (map (\<lambda>(i, p). (i, f p)) m) i = map_option f (bt_get m i)"
  by (induction m) (auto simp: bt_get_def)

lemma interrupted_projects:
  "bt_get (st_projects (fst (interrupt_preparing st))) i =
     map_option (\<lambda>p. if pj_state p = ProjPreparing then p\<lparr>pj_state := interrupted_state\<rparr> else p)
       (bt_get (st_projects st) i)"
  by (simp add: interrupt_preparing_def Let_def projects_get_map)

text \<open>After a start no project is left preparing by a daemon that died.\<close>

lemma start_interrupts:
  "bt_get (op_projects (ops_new st)) i = Some p \<Longrightarrow> pj_state p \<noteq> ProjPreparing"
proof -
  assume "bt_get (op_projects (ops_new st)) i = Some p"
  then obtain p0 where "p = (if pj_state p0 = ProjPreparing then p0\<lparr>pj_state := interrupted_state\<rparr> else p0)"
    by (auto simp: ops_new_def op_projects_def runner_new_def interrupted_projects)
  then show ?thesis by (simp add: interrupted_state_def split: if_splits)
qed

lemma edited_interrupt:
  assumes "filed pj_id (st_projects st)"
  shows "edited {} {} (st_projects st) (st_projects (fst (interrupt_preparing st)))"
proof -
  have "map fst (st_projects (fst (interrupt_preparing st))) = map fst (st_projects st)"
    by (simp add: interrupt_preparing_def Let_def case_prod_beta)
  then have "bt_ok (st_projects (fst (interrupt_preparing st)))"
    using assms by (simp add: filed_def bt_ok_def)
  then show ?thesis
    using assms by (auto simp: edited_def filed_def interrupted_projects place_def split: if_splits)
qed

lemma ops_ok_start: "well_placed ev (st_projects st) \<Longrightarrow> ops_ok ev (ops_new st)"
  using edited_well_placed [OF edited_interrupt, of st ev]
  by (simp add: ops_ok_def works_ok_def ops_new_def op_projects_def runner_ok_new)
     (simp add: well_placed_def runner_new_def)

lemma ops_ok_reach: "ops_reach ev ps s \<Longrightarrow> well_placed ev (st_projects (state_load ps)) \<Longrightarrow> ops_ok ev s"
  by (induction rule: ops_reach.induct) (auto intro: ops_ok_start ops_ok_step)

lemma path_join_inject:
  "CHR ''/'' \<notin> set a \<Longrightarrow> CHR ''/'' \<notin> set b \<Longrightarrow> path_join d a = path_join d b \<Longrightarrow> a = b"
proof -
  have "\<not> starts_with s ''/''" if "CHR ''/'' \<notin> set s" for s
    using that by (cases s) (auto simp: starts_with_def)
  then show "CHR ''/'' \<notin> set a \<Longrightarrow> CHR ''/'' \<notin> set b \<Longrightarrow> path_join d a = path_join d b \<Longrightarrow> a = b"
    by (auto simp: path_join_def split: if_splits)
qed

definition works_at_home :: "ops \<Rightarrow> bool" where
  "works_at_home s \<longleftrightarrow>
     (\<forall>(j, w) \<in> set (op_works s). \<exists>p. bt_get (op_projects s) (pj_id (work_project w)) = Some p
        \<and> place p = place (work_project w) \<and> pj_source p = pj_source (work_project w))"


text \<open>The exception the runner makes: a job cancelled while it waited for its slot never runs its
  closure, so an add cancelled then leaves its project preparing, and no job is left that would end it.\<close>

lemma skipped_add_stays_preparing:
  assumes "ops_ok ev s" "t \<in> set (rn_threads (op_runner s))" "jt_phase t = Working True"
    and "(jt_id t, w) \<in> set (op_works s)"
    and "bt_get (op_projects s) (pj_id (work_project w)) = Some p" "pj_state p = ProjPreparing"
  shows "bt_get (op_projects (end_work t (Inl cancelled_outcome) s)) (pj_id (work_project w)) = Some p"
    and "(j, w') \<in> set (op_works (end_work t (Inl cancelled_outcome) s)) \<Longrightarrow>
      pj_id (work_project w') \<noteq> pj_id (work_project w)"
proof -
  have "rn_daemon (op_runner (end_work t (Inl cancelled_outcome) s)) = rn_daemon (op_runner s)"
    by (simp add: end_work_def set_phase_def cleanup_def split: option.split)
  with assms(5) show "bt_get (op_projects (end_work t (Inl cancelled_outcome) s)) (pj_id (work_project w)) = Some p"
    by (simp add: op_projects_def)
  assume "(j, w') \<in> set (op_works (end_work t (Inl cancelled_outcome) s))"
  then have jw: "(j, w') \<in> set (op_works s)" "j \<noteq> jt_id t" by (simp_all add: end_work_def)
  have spot: "(j, Some (pj_id (work_project w'))) \<in> spots (op_runner s)"
    "(jt_id t, Some (pj_id (work_project w))) \<in> spots (op_runner s)" "runner_ok (op_runner s)"
    using assms(1,4) jw(1) unfolding ops_ok_def works_ok_def by fastforce+
  show "pj_id (work_project w') \<noteq> pj_id (work_project w)"
  proof
    assume "pj_id (work_project w') = pj_id (work_project w)"
    with spots_once [OF spot(3,1)] spot(2) jw(2) show False by simp
  qed
qed

definition demo_env :: op_env where
  "demo_env =
     \<lparr>ev_answers = demo_answers False, ev_id_text = (\<lambda>i. ''p''), ev_lower = (\<lambda>s. s), ev_workspaces = ''/w'',
      ev_home = ''/h''\<rparr>"

definition demo_here :: project where
  "demo_here = demo_project\<lparr>pj_workspace := ''/w/demo'', pj_source := ''C:/demo''\<rparr>"

definition demo_fresh :: fresh where
  "demo_fresh = \<lparr>fr_project = 6, fr_job = 7, fr_now = ''t''\<rparr>"

definition demo_synced :: ops where
  "demo_synced = serve demo_env demo_fresh (RSync 5) (ops_new (state_load [demo_here]))"

lemma demo_placed: "well_placed demo_env (st_projects (state_load [demo_here]))"
  by (simp add: state_load_def well_placed_def apart_def filed_def bt_ok_def bt_get_def demo_here_def
      demo_project_def demo_env_def path_join_def starts_with_def)

lemma demo_synced_reach: "ops_reach demo_env [demo_here] demo_synced"
  unfolding demo_synced_def
  by (rule ops_reach.step [OF ops_reach.start ops_step.request])
     (simp add: is_fresh_def ops_new_def demo_fresh_def runner_new_def op_projects_def interrupt_preparing_def
       state_load_def bt_get_def demo_here_def demo_project_def)


section \<open>What an add registers\<close>

text \<open>If the request is accepted, \<open>P\<close> holds of its answer and the state.\<close>

definition accepts :: "('a \<Rightarrow> ops \<Rightarrow> bool) \<Rightarrow> (op_error + 'a) \<times> ops \<Rightarrow> bool" where
  "accepts P r \<longleftrightarrow> (\<forall>x s'. r = (Inr x, s') \<longrightarrow> P x s')"

lemma accepts_andthen:
  assumes "quiet s0 (snd m)" and "\<And>a s1. m = (Inr a, s1) \<Longrightarrow> quiet s0 s1 \<Longrightarrow> accepts P (f a s1)"
  shows "accepts P (andthen m f)"
proof (cases m)
  case (Pair r s1)
  with assms show ?thesis by (cases r) (simp_all add: andthen_def accepts_def)
qed

lemma accepts_case:
  assumes "quiet s0 (snd m)" and "\<And>b s1. m = (b, s1) \<Longrightarrow> quiet s0 s1 \<Longrightarrow> accepts P (f b s1)"
  shows "accepts P (case m of (b, s1) \<Rightarrow> f b s1)"
  using assms by (cases m) simp

lemma refuse_unless_Inr: "refuse_unless b e s = (Inr u, s') \<longleftrightarrow> b \<and> s' = s"
  by (auto simp: refuse_unless_def)

lemma need_linux_Inr: "need_linux path s = (Inr l, s') \<longleftrightarrow> source_to_linux path = Some l \<and> s' = s"
  by (auto simp: need_linux_def split: option.split)

lemma submit_work_accepts:
  "accepts (\<lambda>j s'. j = jid \<and> (jid, w) \<in> set (op_works s') \<and> op_projects s' = op_projects s)
     (submit_work jid kd now w s)"
proof (cases "pj_id (work_project w) \<in> rn_busy (op_runner s)")
  case True
  then have "submit_work jid kd now w s = (Inl busy_err, s)"
    by (cases s) (simp add: submit_work_def submit_def case_unit_Unity)
  then show ?thesis by (simp add: accepts_def)
next
  case False
  let ?r = "snd (submit jid kd (pj_id (work_project w)) now (op_runner s))"
  have "submit_work jid kd now w s = (Inr jid, s\<lparr>op_runner := ?r, op_works := (jid, w) # op_works s\<rparr>)"
    using False by (simp add: submit_work_def submit_def)
  moreover have "op_projects (s\<lparr>op_runner := ?r, op_works := (jid, w) # op_works s\<rparr>) = op_projects s"
    by (simp add: op_projects_def submit_daemon)
  ultimately show ?thesis by (simp add: accepts_def)
qed

definition registered :: "op_env \<Rightarrow> fresh \<Rightarrow> string \<Rightarrow> ops \<Rightarrow> project_id \<times> job_id \<Rightarrow> ops \<Rightarrow> bool" where
  "registered ev fr path s ij s' \<longleftrightarrow>
     (\<exists>p src. ij = (fr_project fr, fr_job fr)
      \<and> op_projects s' = bt_insert (fr_project fr) p (op_projects s)
      \<and> pj_id p = fr_project fr \<and> pj_state p = ProjPreparing \<and> pj_source p = path
      \<and> source_to_linux path = Some src
      \<and> pj_slug p \<notin> pj_slug ` set (bt_values (op_projects s))
      \<and> pj_workspace p = path_join (ev_workspaces ev) (pj_slug p)
      \<and> (\<forall>q \<in> set (bt_values (op_projects s)). source_key (ev_lower ev) (pj_source q) \<noteq> source_key (ev_lower ev) path)
      \<and> (fr_job fr, WAdd src (pj_workspace p) p) \<in> set (op_works s'))"

lemma registered_submit:
  assumes "quiet s s2" and "pj_id q = fr_project fr" "pj_state q = ProjPreparing" "pj_source q = path"
    and "slug_for folder (map pj_slug (bt_values (op_projects s))) = Some (pj_slug q)"
    and "pj_workspace q = path_join (ev_workspaces ev) (pj_slug q)" and "source_to_linux path = Some src"
    and "\<forall>q \<in> set (bt_values (op_projects s)). source_key (ev_lower ev) (pj_source q) \<noteq> source_key (ev_lower ev) path"
    and "ws = pj_workspace q"
  shows "accepts (registered ev fr path s)
    (andthen (submit_work (fr_job fr) JobAdd now (WAdd src ws q) (put_project q s2))
       (\<lambda>j s. (Inr (fr_project fr, j), s)))"
proof -
  have slug: "pj_slug q \<notin> pj_slug ` set (bt_values (op_projects s))"
    using slug_for_shape [of folder "map pj_slug (bt_values (op_projects s))"] assms(5) by auto
  have put: "op_projects (put_project q s2) = bt_insert (fr_project fr) q (op_projects s)"
    using quiet_projects [OF assms(1)] assms(2) by (simp add: op_projects_def put_project_def emit_is_event client_event_def)
  show ?thesis
    unfolding accepts_def
  proof (intro allI impI)
    fix x s' assume "andthen (submit_work (fr_job fr) JobAdd now (WAdd src ws q) (put_project q s2))
       (\<lambda>j s. (Inr (fr_project fr, j), s)) = (Inr x, s')"
    then obtain j where j: "submit_work (fr_job fr) JobAdd now (WAdd src ws q) (put_project q s2) = (Inr j, s')"
      and x: "x = (fr_project fr, j)"
      by (auto simp: andthen_def split: prod.splits sum.splits)
    with submit_work_accepts [of "fr_job fr" "WAdd src ws q" "put_project q s2" JobAdd now]
    have "j = fr_job fr" "(fr_job fr, WAdd src ws q) \<in> set (op_works s')"
      "op_projects s' = op_projects (put_project q s2)" by (auto simp: accepts_def)
    with x slug put assms(2-4,6-9) show "registered ev fr path s x s'"
      unfolding registered_def by (intro exI [of _ q] exI [of _ src]) simp
  qed
qed

lemma keys_known:
  "quiet s s1 \<Longrightarrow> \<not> list_ex (\<lambda>p. f p = k) (bt_values (op_projects s1)) \<Longrightarrow>
   \<forall>q \<in> set (bt_values (op_projects s)). f q \<noteq> k"
  by (simp add: quiet_projects list_ex_iff)

text \<open>An add that is accepted registers one project: its checkout was not registered before, under
  any spelling with the same key; the new record is preparing, has the requested source, a slug no other
  project has and the workspace of that slug; and the job that will clone the checkout there is in flight
  under the identifier the client gets. No other record is touched.\<close>
theorem add_registers:
  assumes "op_add ev fr path name s = (Inr ij, s')"
  shows "registered ev fr path s ij s'"
proof -
  note begins = accepts_andthen [where ?s0.0 = s] accepts_case [where ?s0.0 = s]
  have "accepts (registered ev fr path s) (op_add ev fr path name s)"
    unfolding op_add_def Let_def
    apply ((rule registered_submit | rule begins); (simp add: quiet_steps; fail)?)+
            apply (simp_all only: refuse_unless_Inr need_linux_Inr project.simps)
      apply (erule quiet_trans, rule quiet_with_ctx, simp add: save_or_log_def)
     apply (rule slug_known, assumption)
    apply (elim conjE, rule keys_known, assumption, assumption)
    done
  with assms show ?thesis by (simp add: accepts_def)
qed

definition bare_env :: op_env where
  "bare_env = demo_env\<lparr>ev_answers := (demo_answers False)\<lparr>an_exists := (\<lambda>h p. False)\<rparr>\<rparr>"

lemma demo_add: "fst (op_add bare_env demo_fresh ''/c'' None (ops_new (state_load []))) = Inr (6, 7)"
proof -
  have linux: "source_to_linux ''/c'' = Some ''/c''" by (simp add: source_to_linux_def starts_with_def)
  show ?thesis
    unfolding op_add_def
    by (simp add: andthen_def need_linux_def linux with_ctx_def is_repo_def has_commits_def git_succeeds_def
        current_branch_def git_run_def git_err_to_op_def refuse_unless_def Let_def bare_env_def demo_answers_def
        submit_work_def submit_def ops_new_def runner_new_def op_projects_def interrupt_preparing_def state_load_def
        op_ctx_def put_project_def demo_fresh_def bt_values_def)
qed

theorem add_registers_witness:
  "registered bare_env demo_fresh ''/c'' (ops_new (state_load [])) (6, 7)
     (snd (op_add bare_env demo_fresh ''/c'' None (ops_new (state_load []))))"
  by (rule add_registers [where name = None]) (simp add: prod_eq_iff demo_add)

end
