(* ===== verification/Control.thy ===== *)
theory Control
  imports Wire Session
begin

text \<open>
  The daemon's connection to a session supervisor (\<^verbatim>\<open>crates/willied/src/control.rs\<close>): asking for a
  status, then watching the supervisor's events. The socket is what its reads return, in order; reading
  JSON is a parameter.

  Shown: what the status request and the watcher after it deliver depends on the bytes the supervisor
  sent and not on how the reads cut them, so no event behind the status reply is lost in the hand-over.
\<close>

section \<open>The connection\<close>

text \<open>What one read returns: bytes, the end of the stream, or an error such as the timeout.\<close>

datatype sock_read = Got bytes | ReadEnds

record status =
  su_pid :: u32
  su_state :: string
  su_clients :: u32
  su_started_at :: string

text \<open>The frames the buffer holds, up to the status reply.\<close>

function pop_status :: "decoder \<Rightarrow> frame option \<times> decoder" where
  "pop_status d =
     (case dec_pop d of
        (None, d') \<Rightarrow> (None, d')
      | (Some fr, d') \<Rightarrow> if kind fr = STATUS then (Some fr, d') else pop_status d')"
  by pat_completeness auto
termination
  by (relation "measure (length \<circ> dbuf)") (auto dest: dec_pop_shrinks [OF sym])

declare pop_status.simps [simp del]

fun read_status_reply ::
  "(bytes \<Rightarrow> 'e + status) \<Rightarrow> decoder \<Rightarrow> sock_read list \<Rightarrow> status option \<times> decoder \<times> sock_read list" where
  "read_status_reply decode d reads =
     (case pop_status d of
        (Some fr, d) \<Rightarrow>
          (case decode_json decode (payload fr) of Inl e \<Rightarrow> None | Inr st \<Rightarrow> Some st, d, reads)
      | (None, d) \<Rightarrow>
          (case reads of
             Got bs # rest \<Rightarrow>
               if bs = [] then (None, d, rest) else read_status_reply decode (dec_push d bs) rest
           | ReadEnds # rest \<Rightarrow> (None, d, rest)
           | [] \<Rightarrow> (None, d, [])))"

text \<open>The events the buffer holds, and whether the supervisor closed.\<close>

function pop_events :: "(bytes \<Rightarrow> 'e + session_event) \<Rightarrow> decoder \<Rightarrow> session_event list \<times> bool \<times> decoder" where
  "pop_events decode d =
     (case dec_pop d of
        (None, d') \<Rightarrow> ([], False, d')
      | (Some fr, d') \<Rightarrow>
          (let now = (if kind fr = EVENT
                      then (case decode_json decode (payload fr) of Inr ev \<Rightarrow> [ev] | Inl e \<Rightarrow> []) else [])
           in if kind fr = CLOSED then (now, True, d')
              else (case pop_events decode d' of (evs, closed, d'') \<Rightarrow> (now @ evs, closed, d''))))"
  by pat_completeness auto
termination
  by (relation "measure (length \<circ> dbuf \<circ> snd)") (auto dest: dec_pop_shrinks [OF sym])

declare pop_events.simps [simp del]

text \<open>The reader thread: the events it folds, in order, until it ends.\<close>

fun control_watch :: "(bytes \<Rightarrow> 'e + session_event) \<Rightarrow> decoder \<Rightarrow> sock_read list \<Rightarrow> session_event list" where
  "control_watch decode d reads =
     (case pop_events decode d of
        (evs, True, d) \<Rightarrow> evs
      | (evs, False, d) \<Rightarrow>
          (case reads of
             Got bs # rest \<Rightarrow> if bs = [] then evs else evs @ control_watch decode (dec_push d bs) rest
           | ReadEnds # rest \<Rightarrow> evs
           | [] \<Rightarrow> evs))"

declare read_status_reply.simps [simp del] control_watch.simps [simp del]

section \<open>What it comes to\<close>

fun events_of :: "(bytes \<Rightarrow> 'e + session_event) \<Rightarrow> frame list \<Rightarrow> session_event list" where
  "events_of decode [] = []"
| "events_of decode (fr # frs) =
     (if kind fr = CLOSED then []
      else if kind fr = EVENT
      then (case decode_json decode (payload fr) of Inr ev \<Rightarrow> ev # events_of decode frs
                                                   | Inl e \<Rightarrow> events_of decode frs)
      else events_of decode frs)"

definition frames_in :: "bytes \<Rightarrow> frame list" where
  "frames_in bs = fst (dec_drain \<lparr>dbuf = bs\<rparr>)"

lemma dec_drain_push:
  assumes "dec_drain d = (as, d1)"
  shows "fst (dec_drain (dec_push d bs)) = as @ fst (dec_drain (dec_push d1 bs))"
proof -
  obtain cs d2 where b: "dec_drain (dec_push d1 bs) = (cs, d2)" by (cases "dec_drain (dec_push d1 bs)")
  have "dec_push d bs = \<lparr>dbuf = concat (map frame_bytes (as @ cs)) @ dbuf d2\<rparr>"
    using dec_drain_spec [OF assms] dec_drain_spec [OF b] by (cases d) (simp add: dec_push_def)
  moreover have "dec_drain \<lparr>dbuf = concat (map frame_bytes (as @ cs)) @ dbuf d2\<rparr> = (as @ cs, d2)"
    using dec_drain_spec [OF assms] dec_drain_spec [OF b]
    by (cases d2, subst dec_drain_encode [where d = d2]) auto
  ultimately show ?thesis using b by simp
qed

lemma dec_drain_pop:
  "dec_pop d = (None, e) \<Longrightarrow> dec_drain d = ([], e)"
  "dec_pop d = (Some fr, e) \<Longrightarrow> dec_drain d = (fr # fst (dec_drain e), snd (dec_drain e))"
  by (subst dec_drain.simps, simp split: prod.split)+

lemma pop_status_pop:
  "dec_pop d = (None, e) \<Longrightarrow> pop_status d = (None, e)"
  "dec_pop d = (Some fr, e) \<Longrightarrow> pop_status d = (if kind fr = STATUS then (Some fr, e) else pop_status e)"
  by (subst pop_status.simps, simp)+

lemma pop_events_pop:
  "dec_pop d = (None, e) \<Longrightarrow> pop_events decode d = ([], False, e)"
  "dec_pop d = (Some fr, e) \<Longrightarrow> kind fr = CLOSED \<Longrightarrow> pop_events decode d = ([], True, e)"
  "dec_pop d = (Some fr, e) \<Longrightarrow> kind fr \<noteq> CLOSED \<Longrightarrow> pop_events decode d =
     ((if kind fr = EVENT then (case decode_json decode (payload fr) of Inr ev \<Rightarrow> [ev] | Inl e \<Rightarrow> []) else [])
        @ fst (pop_events decode e), snd (pop_events decode e))"
  by (subst pop_events.simps, simp add: Let_def codes split: prod.split)+

text \<open>A buffer without a status reply is drained; otherwise what stays is what is behind the reply.\<close>

lemma pop_status_None:
  "pop_status d = (None, d1) \<Longrightarrow>
   snd (dec_drain d) = d1 \<and> list_all (\<lambda>fr. kind fr \<noteq> STATUS) (fst (dec_drain d))"
proof (induction d rule: pop_status.induct)
  case (1 d)
  obtain r e where pop: "dec_pop d = (r, e)" by fastforce
  show ?case
  proof (cases r)
    case None
    with pop 1(2) show ?thesis by (simp add: dec_drain_pop pop_status_pop)
  next
    case (Some fr)
    with 1(2) pop have "kind fr \<noteq> STATUS" "pop_status e = (None, d1)"
      by (simp_all add: pop_status_pop split: if_splits)
    with 1(1) [OF pop [symmetric] Some] Some pop show ?thesis by (simp add: dec_drain_pop)
  qed
qed

lemma pop_status_Some:
  "pop_status d = (Some fr, d1) \<Longrightarrow>
   dropWhile (\<lambda>fr. kind fr \<noteq> STATUS) (fst (dec_drain d)) = fr # fst (dec_drain d1)"
proof (induction d rule: pop_status.induct)
  case (1 d)
  obtain r e where pop: "dec_pop d = (r, e)" by fastforce
  show ?case
  proof (cases r)
    case None
    with pop 1(2) show ?thesis by (simp add: pop_status_pop)
  next
    case (Some g)
    show ?thesis
    proof (cases "kind g = STATUS")
      case True
      with 1(2) pop Some show ?thesis by (simp add: pop_status_pop dec_drain_pop)
    next
      case False
      with 1(2) pop Some have "pop_status e = (Some fr, d1)" by (simp add: pop_status_pop)
      with 1(1) [OF pop [symmetric] Some False] Some pop False show ?thesis by (simp add: dec_drain_pop)
    qed
  qed
qed

lemma pop_status_rest:
  "pop_status d = (Some fr, d1) \<Longrightarrow> snd (dec_drain d1) = snd (dec_drain d)"
proof (induction d rule: pop_status.induct)
  case (1 d)
  obtain r e where pop: "dec_pop d = (r, e)" by fastforce
  show ?case
  proof (cases r)
    case None
    with pop 1(2) show ?thesis by (simp add: pop_status_pop)
  next
    case (Some g)
    with 1(2) pop 1(1) [OF pop [symmetric] Some] show ?thesis
      by (auto simp: pop_status_pop dec_drain_pop split: if_splits)
  qed
qed

lemma pop_events_spec:
  "case pop_events decode d of (evs, closed, d1) \<Rightarrow>
     evs = events_of decode (fst (dec_drain d))
     \<and> (closed \<longleftrightarrow> list_ex (\<lambda>fr. kind fr = CLOSED) (fst (dec_drain d)))
     \<and> (\<not> closed \<longrightarrow> d1 = snd (dec_drain d))"
proof (induction decode d rule: pop_events.induct)
  case (1 decode d)
  obtain r e where pop: "dec_pop d = (r, e)" by fastforce
  show ?case
  proof (cases r)
    case None
    with pop show ?thesis by (simp add: dec_drain_pop pop_events_pop)
  next
    case (Some fr)
    show ?thesis
    proof (cases "kind fr = CLOSED")
      case True
      with pop Some show ?thesis by (simp add: dec_drain_pop pop_events_pop)
    next
      case False
      from 1 [OF pop [symmetric] Some refl False] pop Some False show ?thesis
        by (auto simp: dec_drain_pop pop_events_pop split: prod.splits sum.split)
    qed
  qed
qed

lemma events_of_append:
  "events_of decode (xs @ ys) =
     (if list_ex (\<lambda>fr. kind fr = CLOSED) xs then events_of decode xs
      else events_of decode xs @ events_of decode ys)"
  by (induction xs) (auto split: sum.split)

text \<open>A watcher over reads that end: the events of the frames in all the bytes.\<close>

lemma control_watch_events:
  assumes "list_all (\<lambda>bs. bs \<noteq> []) chunks"
  shows "control_watch decode d (map Got chunks @ ReadEnds # later) =
    events_of decode (fst (dec_drain (dec_push d (concat chunks))))"
  using assms
proof (induction chunks arbitrary: d)
  case Nil
  have "dec_push d [] = d" by (simp add: dec_push_def)
  with pop_events_spec [of decode d] show ?case
    by (subst control_watch.simps) (auto split: prod.splits bool.split)
next
  case (Cons bs chunks)
  obtain evs closed d1 where pop: "pop_events decode d = (evs, closed, d1)" by (cases "pop_events decode d") 
  obtain as d2 where drain: "dec_drain d = (as, d2)" by fastforce
  have all: "fst (dec_drain (dec_push d (bs @ concat chunks))) = as @ fst (dec_drain (dec_push d2 (bs @ concat chunks)))"
    using dec_drain_push [OF drain] .
  have push: "dec_push (dec_push d2 bs) (concat chunks) = dec_push d2 (bs @ concat chunks)"
    by (simp add: dec_push_def)
  from pop_events_spec [of decode d] pop drain
  have spec: "evs = events_of decode as" "closed \<longleftrightarrow> list_ex (\<lambda>fr. kind fr = CLOSED) as"
    "\<not> closed \<longrightarrow> d1 = d2" by simp_all
  show ?case
  proof (cases closed)
    case True
    with pop all spec show ?thesis
      by (subst control_watch.simps) (simp add: events_of_append)
  next
    case False
    with Cons.IH [of "dec_push d2 bs"] Cons.prems pop all spec show ?thesis
      by (subst control_watch.simps) (simp add: events_of_append push)
  qed
qed

lemma read_status_frames:
  assumes "list_all (\<lambda>bs. bs \<noteq> []) chunks"
  shows "case dropWhile (\<lambda>fr. kind fr \<noteq> STATUS) (fst (dec_drain (dec_push d (concat chunks)))) of
      [] \<Rightarrow> fst (read_status_reply decode d (map Got chunks @ [ReadEnds])) = None
    | fr # after \<Rightarrow> \<exists>d1 rest. list_all (\<lambda>bs. bs \<noteq> []) rest
        \<and> after = fst (dec_drain (dec_push d1 (concat rest)))
        \<and> read_status_reply decode d (map Got chunks @ [ReadEnds]) =
            (case decode_json decode (payload fr) of Inl e \<Rightarrow> None | Inr st \<Rightarrow> Some st, d1, map Got rest @ [ReadEnds])"
  using assms
proof (induction chunks arbitrary: d)
  case Nil
  have push: "dec_push d [] = d" by (simp add: dec_push_def)
  obtain r d1 where pop: "pop_status d = (r, d1)" by fastforce
  show ?case
  proof (cases r)
    case None
    with pop pop_status_None [of d d1] have none: "dropWhile (\<lambda>fr. kind fr \<noteq> STATUS) (fst (dec_drain d)) = []"
      by (simp add: list_all_iff)
    have "fst (read_status_reply decode d (map Got [] @ [ReadEnds])) = None"
      using None pop by (subst read_status_reply.simps) simp
    then show ?thesis by (simp only: concat.simps push none list.case)
  next
    case (Some fr)
    from pop_status_Some [OF pop [unfolded Some]] pop Some push show ?thesis
      by (subst read_status_reply.simps) (auto simp: dec_push_def intro!: exI [of _ "[]"])
  qed
next
  case (Cons bs chunks)
  obtain r d1 where pop: "pop_status d = (r, d1)" by fastforce
  obtain as d2 where drain: "dec_drain d = (as, d2)" by fastforce
  have all: "fst (dec_drain (dec_push d (bs @ concat chunks))) = as @ fst (dec_drain (dec_push d2 (bs @ concat chunks)))"
    using dec_drain_push [OF drain] .
  have push: "dec_push (dec_push e bs) (concat chunks) = dec_push e (bs @ concat chunks)" for e
    by (simp add: dec_push_def)
  show ?case
  proof (cases r)
    case None
    with pop pop_status_None [of d d1] drain
    have none: "d1 = d2" "dropWhile (\<lambda>fr. kind fr \<noteq> STATUS) (as @ ys) = dropWhile (\<lambda>fr. kind fr \<noteq> STATUS) ys" for ys
      by (simp_all add: list_all_iff dropWhile_append2)
    have step: "read_status_reply decode d (map Got (bs # chunks) @ [ReadEnds]) =
        read_status_reply decode (dec_push d2 bs) (map Got chunks @ [ReadEnds])"
      using pop None none(1) Cons.prems by (subst read_status_reply.simps) simp
    have "list_all (\<lambda>bs. bs \<noteq> []) chunks" using Cons.prems by simp
    from Cons.IH [OF this, of "dec_push d2 bs"] show ?thesis
      by (simp only: step concat.simps all none(2) push)
  next
    case (Some fr)
    have read: "read_status_reply decode d (map Got (bs # chunks) @ [ReadEnds]) =
        (case decode_json decode (payload fr) of Inl e \<Rightarrow> None | Inr st \<Rightarrow> Some st, d1, map Got (bs # chunks) @ [ReadEnds])"
      using pop Some by (subst read_status_reply.simps) simp
    obtain bs1 d3 where drain1: "dec_drain d1 = (bs1, d3)" by fastforce
    from pop_status_Some [OF pop [unfolded Some]] drain drain1
    have as: "dropWhile (\<lambda>fr. kind fr \<noteq> STATUS) as = fr # bs1" by simp
    have same: "d3 = d2" using pop_status_rest [OF pop [unfolded Some]] drain drain1 by simp
    have found: "\<exists>x \<in> set as. kind x = STATUS"
    proof (rule ccontr)
      assume "\<not> (\<exists>x \<in> set as. kind x = STATUS)"
      then have "dropWhile (\<lambda>fr. kind fr \<noteq> STATUS) as = []" by simp
      with as show False by simp
    qed
    then obtain x where x: "x \<in> set as" "\<not> kind x \<noteq> STATUS" by blast
    have dw: "dropWhile (\<lambda>fr. kind fr \<noteq> STATUS) (as @ ys) = fr # bs1 @ ys" for ys
      by (subst dropWhile_append1 [OF x(1)]) (simp_all only: x(2) as append.simps not_False_eq_True)
    have after: "bs1 @ fst (dec_drain (dec_push d2 (bs @ concat chunks))) =
        fst (dec_drain (dec_push d1 (concat (bs # chunks))))"
      using dec_drain_push [OF drain1, of "bs @ concat chunks"] same by simp
    show ?thesis
      unfolding concat.simps all dw list.case
      by (rule exI [of _ d1], rule exI [of _ "bs # chunks"]) (intro conjI, fact Cons.prems, fact after, fact read)
  qed
qed

text \<open>A connection that asks for the status and is then watched.\<close>

definition adopt_control ::
  "(bytes \<Rightarrow> 'e + status) \<Rightarrow> (bytes \<Rightarrow> 'e + session_event) \<Rightarrow> sock_read list \<Rightarrow> (status \<times> session_event list) option" where
  "adopt_control status_of event_of reads =
     (case read_status_reply status_of dec_new reads of
        (None, d, rest) \<Rightarrow> None
      | (Some st, d, rest) \<Rightarrow> Some (st, control_watch event_of d rest))"

text \<open>What a control connection delivers depends only on the bytes the supervisor sent before the
  stream ended, however they were cut into reads: the status is the first status frame's, and the events
  are those of the frames behind it up to the closing frame, none of them lost or repeated in the
  hand-over from the status request to the watcher.\<close>
theorem control_cut_independent:
  "adopt_control status_of event_of (map Got (filter (\<lambda>bs. bs \<noteq> []) chunks) @ [ReadEnds]) =
     (case dropWhile (\<lambda>fr. kind fr \<noteq> STATUS) (frames_in (concat chunks)) of
        [] \<Rightarrow> None
      | fr # after \<Rightarrow>
          (case decode_json status_of (payload fr) of
             Inl e \<Rightarrow> None
           | Inr st \<Rightarrow> Some (st, events_of event_of after)))"
proof -
  let ?cs = "filter (\<lambda>bs. bs \<noteq> []) chunks"
  have ne: "list_all (\<lambda>bs. bs \<noteq> []) ?cs" by (simp add: list_all_iff)
  have all: "concat ?cs = concat chunks" by (induction chunks) simp_all
  have new: "dec_push dec_new (concat ?cs) = \<lparr>dbuf = concat chunks\<rparr>"
    by (simp add: dec_push_def dec_new_def all)
  note spec = read_status_frames [OF ne, where d = dec_new and decode = status_of, unfolded new]
  show ?thesis
  proof (cases "dropWhile (\<lambda>fr. kind fr \<noteq> STATUS) (frames_in (concat chunks))")
    case Nil
    with spec have "fst (read_status_reply status_of dec_new (map Got ?cs @ [ReadEnds])) = None"
      unfolding frames_in_def by (simp only: list.case)
    then show ?thesis unfolding adopt_control_def Nil list.case
      by (cases "read_status_reply status_of dec_new (map Got ?cs @ [ReadEnds])") simp
  next
    case (Cons fr after)
    with spec obtain d1 rest where rest: "list_all (\<lambda>bs. bs \<noteq> []) rest"
      "after = fst (dec_drain (dec_push d1 (concat rest)))"
      and reply: "read_status_reply status_of dec_new (map Got ?cs @ [ReadEnds]) =
        (case decode_json status_of (payload fr) of Inl e \<Rightarrow> None | Inr st \<Rightarrow> Some st, d1, map Got rest @ [ReadEnds])"
      unfolding frames_in_def by (simp only: list.case) blast
    from control_watch_events [OF rest(1), of event_of d1 "[]"]
    have "control_watch event_of d1 (map Got rest @ [ReadEnds]) = events_of event_of after"
      using rest(2) by simp
    then show ?thesis unfolding adopt_control_def reply Cons by (simp split: sum.split)
  qed
qed

end
