(* ===== verification/Session_Title.thy ===== *)
theory Session_Title
  imports Sess_Sandbox Text
begin

text \<open>
  The title of a session (\<^verbatim>\<open>crates/willied/src/session_title.rs\<close>): the first prompt in the harness's own
  log. A JSON value is the datatype \<open>json\<close>; reading one from a line is a parameter, and so are the listing
  of a directory and the text of the first bytes of a file.

  Shown: a title is one line of at most eighty characters and an ellipsis, and the log it is read from is
  a newest one that is not older than the session.
\<close>

section \<open>JSON\<close>

datatype json =
    JNull
  | JBool bool
  | JNumber string
  | JString string
  | JArray "json list"
  | JObject "(string \<times> json) list"

fun as_str :: "json \<Rightarrow> string option" where
  "as_str (JString s) = Some s"
| "as_str _ = None"

fun as_array :: "json \<Rightarrow> json list option" where
  "as_array (JArray xs) = Some xs"
| "as_array _ = None"

fun json_get :: "json \<Rightarrow> string \<Rightarrow> json option" where
  "json_get (JObject m) k = map_of m k"
| "json_get _ k = None"

section \<open>The first prompt\<close>

definition TITLE_LIMIT :: nat where "TITLE_LIMIT = 80"

definition HEAD_BYTES :: nat where "HEAD_BYTES = 64 * 1024"

definition ellipsis :: string where
  "ellipsis = [CHR 0xE2, CHR 0x80, CHR 0xA6]"

definition str_at :: "json option \<Rightarrow> string option" where
  "str_at v = Option.bind v as_str"

definition is_user_record :: "json \<Rightarrow> bool" where
  "is_user_record record \<longleftrightarrow>
     str_at (json_get record ''type'') = Some ''user''
     \<or> str_at (Option.bind (json_get record ''message'') (\<lambda>m. json_get m ''role'')) = Some ''user''"

definition extract_text :: "json \<Rightarrow> string option" where
  "extract_text record =
     (let content = Option.bind (json_get record ''message'') (\<lambda>m. json_get m ''content'') in
      case str_at content of
        Some s \<Rightarrow> Some s
      | None \<Rightarrow>
          (case Option.bind (Option.bind content as_array) (\<lambda>items.
                  Option.bind (find (\<lambda>item. str_at (json_get item ''type'') = Some ''text'') items)
                    (\<lambda>item. str_at (json_get item ''text''))) of
             Some t \<Rightarrow> Some t
           | None \<Rightarrow> str_at (json_get record ''content'')))"

definition title_of :: "string \<Rightarrow> string option" where
  "title_of t =
     (let collapsed = join_with '' '' (split_ws [] t); trimmed = trim_ws collapsed in
      if trimmed = [] then None
      else if TITLE_LIMIT < length (utf8_chars trimmed)
      then Some (concat (take TITLE_LIMIT (utf8_chars trimmed)) @ ellipsis)
      else Some trimmed)"

fun is_object :: "json \<Rightarrow> bool" where
  "is_object (JObject m) = True"
| "is_object _ = False"

fun first_prompt_in :: "(string \<Rightarrow> json option) \<Rightarrow> string list \<Rightarrow> string option" where
  "first_prompt_in parse [] = None"
| "first_prompt_in parse (line # lines) =
     (let line = trim_ws line; next = first_prompt_in parse lines in
      if line = [] then next
      else case parse line of
        None \<Rightarrow> next
      | Some record \<Rightarrow>
          if \<not> is_object record then next
          else if \<not> is_user_record record then next
          else case extract_text record of
            None \<Rightarrow> next
          | Some t \<Rightarrow> (case title_of t of Some title \<Rightarrow> Some title | None \<Rightarrow> next))"

definition first_prompt :: "(string \<Rightarrow> json option) \<Rightarrow> string \<Rightarrow> string option" where
  "first_prompt parse head = first_prompt_in parse (rust_lines head)"

section \<open>The log\<close>

text \<open>\<open>Path::extension\<close> of a file name.\<close>

definition extension :: "string \<Rightarrow> string option" where
  "extension name =
     (let parts = split_on (CHR ''.'') name in
      if length parts < 2 \<or> (length parts = 2 \<and> hd parts = []) then None else Some (last parts))"

text \<open>A directory's entries, each with the seconds of its modification time if they can be read; of
  several newest the last listed.\<close>

fun newest :: "(string \<times> nat) list \<Rightarrow> (string \<times> nat) option" where
  "newest [] = None"
| "newest (e # es) =
     (case newest es of None \<Rightarrow> Some e | Some n \<Rightarrow> Some (if snd n < snd e then e else n))"

definition pick_log_for :: "(string \<times> nat option) list option \<Rightarrow> nat \<Rightarrow> string option" where
  "pick_log_for entries started_at_secs =
     Option.bind entries (\<lambda>es. map_option fst (newest
       (List.map_filter (\<lambda>(name, secs).
          if extension name = Some ''jsonl''
          then (case secs of Some t \<Rightarrow> if started_at_secs \<le> t then Some (name, t) else None | None \<Rightarrow> None)
          else None) es)))"

record log_reads =
  lr_entries :: "string \<Rightarrow> (string \<times> nat option) list option"
  lr_head :: "nat \<Rightarrow> string \<Rightarrow> string option"
  lr_parse :: "string \<Rightarrow> json option"

fun first_found :: "('a \<Rightarrow> 'b option) \<Rightarrow> 'a list \<Rightarrow> 'b option" where
  "first_found f [] = None"
| "first_found f (x # xs) = (case f x of Some y \<Rightarrow> Some y | None \<Rightarrow> first_found f xs)"

definition first_prompt_for :: "log_reads \<Rightarrow> string \<Rightarrow> string \<Rightarrow> nat \<Rightarrow> string option" where
  "first_prompt_for lr home workspace started_at_secs =
     first_found (\<lambda>h.
       Option.bind (h_session_logs_dir h home) (\<lambda>dir.
       (let logdir = path_join dir (escape_workspace workspace) in
       Option.bind (pick_log_for (lr_entries lr logdir) started_at_secs) (\<lambda>name.
       Option.bind (lr_head lr HEAD_BYTES (path_join logdir name)) (\<lambda>head.
       first_prompt (lr_parse lr) head))))) registry"

section \<open>A title is one line\<close>

lemma split_ws_lines: "newline \<notin> set cur \<Longrightarrow> list_all (\<lambda>w. newline \<notin> set w) (split_ws cur s)"
proof (induction cur s rule: split_ws.induct)
  case (1 cur s)
  show ?case
  proof (cases "s = []")
    case True
    with "1.prems" show ?thesis by (subst split_ws.simps) simp
  next
    case False
    show ?thesis
    proof (cases "ws_len s = 0")
      case True
      with False have "hd s \<noteq> newline" by (cases s) (auto simp: ws_len_def newline_def Let_def)
      with "1.IH"(1) [OF False True] "1.prems" True False show ?thesis
        by (subst split_ws.simps) simp
    next
      case ne: False
      with "1.IH"(2) [OF False ne] "1.prems" False show ?thesis
        by (subst split_ws.simps) simp
    qed
  qed
qed

lemma join_with_set: "set (join_with sep ws) \<subseteq> set sep \<union> (\<Union>w \<in> set ws. set w)"
  by (induction sep ws rule: join_with.induct) auto

lemma trim_ws_set: "set (trim_ws s) \<subseteq> set s"
proof -
  have "set (trim_ws_end s) \<subseteq> set s" for s by (induction s) auto
  moreover have "set (trim_ws_start s) \<subseteq> set s"
  proof (induction s rule: trim_ws_start.induct)
    case (1 s)
    show ?case
    proof (cases "s = [] \<or> ws_len s = 0")
      case True
      then show ?thesis by (subst trim_ws_start.simps) simp
    next
      case False
      then have "trim_ws_start s = trim_ws_start (drop (ws_len s) s)" by (simp only: trim_ws_start.simps [of s] if_False)
      then show ?thesis using 1 [OF False] set_drop_subset [of "ws_len s" s] by (simp only: subset_trans)
    qed
  qed
  ultimately show ?thesis unfolding trim_ws_def by blast
qed

lemma utf8_chars_cut:
  assumes "\<not> continuation c"
  shows "utf8_chars (concat (take n (utf8_chars s)) @ c # r) = take n (utf8_chars s) @ utf8_chars (c # r)"
proof (induction s arbitrary: n rule: utf8_chars.induct)
  case (2 d cs)
  show ?case
  proof (cases n)
    case (Suc m)
    have cont: "takeWhile continuation (takeWhile continuation cs @ x) = takeWhile continuation cs @ takeWhile continuation x"
      "dropWhile continuation (takeWhile continuation cs @ x) = dropWhile continuation x" for x
      by (induction cs) auto
    have stop: "takeWhile continuation (concat (take m (utf8_chars (dropWhile continuation cs))) @ c # r) = []"
    proof (cases "dropWhile continuation cs")
      case Nil
      show ?thesis unfolding Nil using assms by simp
    next
      case (Cons e es)
      then have "\<not> continuation e" using hd_dropWhile [of continuation cs] by simp
      with Cons assms show ?thesis by (cases m) simp_all
    qed
    then have "dropWhile continuation (concat (take m (utf8_chars (dropWhile continuation cs))) @ c # r)
        = concat (take m (utf8_chars (dropWhile continuation cs))) @ c # r"
      by (metis append_Nil takeWhile_dropWhile_id)
    with stop 2 [of m] Suc show ?thesis by (simp add: cont)
  qed simp
qed simp

lemma title_of_line:
  assumes "title_of t = Some title"
  shows "title \<noteq> []" and "length (utf8_chars title) \<le> TITLE_LIMIT + 1" and "newline \<notin> set title"
proof -
  let ?w = "trim_ws (join_with '' '' (split_ws [] t))"
  have one: "newline \<notin> set ?w"
    using trim_ws_set join_with_set [of "'' ''" "split_ws [] t"] split_ws_lines [of "[]" t]
    by (auto simp: list_all_iff newline_def)
  have dots: "utf8_chars ellipsis = [ellipsis]" "newline \<notin> set ellipsis" "ellipsis \<noteq> []"
    by (simp_all add: ellipsis_def continuation_def newline_def Let_def)
  have cut: "utf8_chars (concat (take n (utf8_chars s)) @ ellipsis) = take n (utf8_chars s) @ [ellipsis]" for n s
    using utf8_chars_cut [of "CHR 0xE2" n s] dots(1) by (simp add: ellipsis_def continuation_def Let_def)
  have part: "set (concat (take n (utf8_chars s))) \<subseteq> set s" for n s
  proof -
    have "set (concat (take n cs)) \<subseteq> set (concat cs)" for cs :: "string list"
      by (auto dest: in_set_takeD)
    from this [of "utf8_chars s"] show ?thesis by simp
  qed
  from assms have "?w \<noteq> []"
    and "title = (if TITLE_LIMIT < length (utf8_chars ?w) then concat (take TITLE_LIMIT (utf8_chars ?w)) @ ellipsis else ?w)"
    by (auto simp: title_of_def Let_def split: if_splits)
  then show "title \<noteq> []" "length (utf8_chars title) \<le> TITLE_LIMIT + 1" "newline \<notin> set title"
    using one dots cut part [of TITLE_LIMIT ?w] by auto
qed

lemma first_prompt_in_title: "first_prompt_in parse ls = Some title \<Longrightarrow> \<exists>t. title_of t = Some title"
  by (induction ls) (auto simp: Let_def split: if_splits option.splits)

section \<open>The log is the session's own\<close>

lemma newest_newest: "newest es = Some n \<Longrightarrow> n \<in> set es \<and> (\<forall>e \<in> set es. snd e \<le> snd n)"
proof (induction es arbitrary: n)
  case (Cons e es)
  show ?case
  proof (cases "newest es")
    case None
    then have "es = []" by (cases es) (auto split: option.splits if_splits)
    with Cons.prems show ?thesis by simp
  next
    case (Some m)
    with Cons.IH [OF Some] Cons.prems show ?thesis by (auto split: if_splits)
  qed
qed simp

text \<open>The log a title is read from is listed, has been written since the session started, and no other
  such log is newer.\<close>

lemma pick_log_for_newest:
  assumes "pick_log_for (Some es) since = Some name"
  obtains at where "(name, Some at) \<in> set es" "since \<le> at" "extension name = Some ''jsonl''"
    "\<And>other t. (other, Some t) \<in> set es \<Longrightarrow> extension other = Some ''jsonl'' \<Longrightarrow> t \<le> at"
proof -
  define own where "own = (\<lambda>(name, secs :: nat option).
      if extension name = Some ''jsonl''
      then (case secs of Some t \<Rightarrow> if since \<le> t then Some (name, t) else None | None \<Rightarrow> None) else None)"
  have own: "own (name, secs) = Some n \<longleftrightarrow>
      extension name = Some ''jsonl'' \<and> secs = Some (snd n) \<and> since \<le> snd n \<and> name = fst n" for name secs n
    by (cases n) (auto simp: own_def split: option.splits if_splits)
  from assms obtain at where "newest (List.map_filter own es) = Some (name, at)"
    unfolding pick_log_for_def own_def by (auto simp: bind_eq_Some_conv)
  from newest_newest [OF this] have at: "(name, at) \<in> set (List.map_filter own es)"
    and most: "\<forall>e \<in> set (List.map_filter own es). snd e \<le> at" by simp_all
  have mem: "e \<in> set (List.map_filter own es) \<longleftrightarrow> (\<exists>x \<in> set es. own x = Some e)" for e
    by (force simp: List.map_filter_def)
  show thesis
  proof (rule that)
    from at obtain f secs where "(f, secs) \<in> set es" "own (f, secs) = Some (name, at)" unfolding mem by auto
    then show "(name, Some at) \<in> set es" "since \<le> at" "extension name = Some ''jsonl''"
      unfolding own fst_conv snd_conv by blast+
    fix other t assume o: "(other, Some t) \<in> set es" "extension other = Some ''jsonl''"
    show "t \<le> at"
    proof (cases "since \<le> t")
      case True
      with o have "own (other, Some t) = Some (other, t)" by (simp add: own)
      with o(1) most mem show ?thesis by fastforce
    next
      case False
      with \<open>since \<le> at\<close> show ?thesis by simp
    qed
  qed
qed

text \<open>A title is never blank, is one line, and has at most eighty characters and an ellipsis,
  whatever the log holds and whoever wrote it.\<close>
theorem title_bounded:
  assumes "first_prompt_for lr home workspace since = Some title"
  shows "title \<noteq> [] \<and> length (utf8_chars title) \<le> 81 \<and> newline \<notin> set title"
proof -
  have "\<exists>x \<in> set xs. f x = Some y" if "first_found f xs = Some y" for f :: "harness \<Rightarrow> string option" and xs y
    using that by (induction xs) (auto split: option.splits)
  from this [OF assms [unfolded first_prompt_for_def]] obtain parse ls where "first_prompt_in parse ls = Some title"
    by (auto simp: Let_def first_prompt_def bind_eq_Some_conv)
  then obtain t where "title_of t = Some title" using first_prompt_in_title by blast
  from title_of_line [OF this] show ?thesis by (simp add: TITLE_LIMIT_def)
qed

end
