(* ===== verification/Session_Ops.thy ===== *)
theory Session_Ops
  imports Project_Ops Session_Title Control
begin

text \<open>
  The session requests (\<open>SessionOps\<close> in \<^verbatim>\<open>crates/willied/src/sessions.rs\<close>) with what they use:
  \<^verbatim>\<open>identity.rs\<close>, \<^verbatim>\<open>harness.rs\<close>, \<^verbatim>\<open>shell.rs\<close> and \<^verbatim>\<open>session_store.rs\<close>. Everything outside the daemon is a
  call: it is appended to the history of the state, and its answer may depend on the whole history.
  Sessions, projects and jobs share one mirror, the one of \<open>Project_Ops\<close>. A watched connection is an
  entry of \<open>ss_watches\<close>; what its reader thread and the thread that joins it do are operations of their
  own.

  Shown here: an open session's policy was accepted before anything was done, and every request leaves
  the session it is about finished, running or refused.
\<close>

section \<open>Calls\<close>

datatype core_event =
    SessionStarted session_id project_id
  | SessionExited session_id
  | ProjectRegistered project_id
  | Tick

text \<open>A tool the daemon installed (\<^verbatim>\<open>manifest.rs\<close>).\<close>

record tool_record =
  tr_version :: string
  tr_installed_at :: string
  tr_installer :: string

datatype sess_call =
    SDetect
  | SIsFile string
  | SGlobalGet string
  | SGlobalSet string string
  | SSourceGet string string
  | SWriteSpec session_spec
  | SMakeDir string
  | SSpawn string
  | SConnect string
  | SStatus string
  | SStop string
  | SAppend session_id session_event
  | SLoadAll
  | SRemoveSocket string
  | SReadTitle string nat
  | SNotify core_event
  | SInstall string
  | SLoadTools
  | SWriteTools "(string, tool_record) btree"

text \<open>How starting a supervisor ended: it could not be started, its output was missing, no line came in
  time, or the line it printed.\<close>

datatype spawn_end = CannotStart string | NoStdout | NoReply | Replied string

type_synonym config_answer = "(bool \<times> string) option"

record sess_answers =
  sa_is_file :: "sess_call list \<Rightarrow> string \<Rightarrow> bool"
  sa_version :: "sess_call list \<Rightarrow> string \<Rightarrow> bool option \<times> string"
  sa_global :: "sess_call list \<Rightarrow> string \<Rightarrow> config_answer"
  sa_set_global :: "sess_call list \<Rightarrow> string \<Rightarrow> string \<Rightarrow> bool option"
  sa_source :: "sess_call list \<Rightarrow> string \<Rightarrow> string \<Rightarrow> config_answer"
  sa_write_spec :: "sess_call list \<Rightarrow> session_spec \<Rightarrow> string option"
  sa_spawn :: "sess_call list \<Rightarrow> string \<Rightarrow> spawn_end"
  sa_connect :: "sess_call list \<Rightarrow> string \<Rightarrow> bool"
  sa_status :: "sess_call list \<Rightarrow> string \<Rightarrow> status option"
  sa_stop :: "sess_call list \<Rightarrow> string \<Rightarrow> bool"
  sa_append :: "sess_call list \<Rightarrow> session_id \<Rightarrow> session_event \<Rightarrow> string option"
  sa_load :: "sess_call list \<Rightarrow> (session_spec \<times> session_event list) list"
  sa_logs :: "sess_call list \<Rightarrow> log_reads"
  sa_now :: "sess_call list \<Rightarrow> string"
  sa_install :: "sess_call list \<Rightarrow> string \<Rightarrow> cmd_output"
  sa_tools :: "sess_call list \<Rightarrow> (string, tool_record) btree option"

record sess_env =
  se_answers :: sess_answers
  se_var :: "string \<Rightarrow> string option"
  se_home :: string
  se_state_dir :: string
  se_run_dir :: string
  se_version :: string
  se_session_text :: "session_id \<Rightarrow> string"
  se_project_text :: "project_id \<Rightarrow> string"

record sess =
  ss_ops :: ops
  ss_calls :: "sess_call list"
  ss_untitled :: "session_id list"
  ss_watches :: "(session_id \<times> string) list"

definition ss_state :: "sess \<Rightarrow> state" where
  "ss_state s = dm_state (rn_daemon (op_runner (ss_ops s)))"

definition ss_emit :: "(state \<Rightarrow> state_event \<times> state) \<Rightarrow> sess \<Rightarrow> sess" where
  "ss_emit m s =
     s\<lparr>ss_ops := (ss_ops s)\<lparr>op_runner := (op_runner (ss_ops s))
         \<lparr>rn_daemon := emit m (rn_daemon (op_runner (ss_ops s)))\<rparr>\<rparr>\<rparr>"

definition ask :: "sess_call \<Rightarrow> (sess_call list \<Rightarrow> 'a) \<Rightarrow> sess \<Rightarrow> 'a \<times> sess" where
  "ask c f s = (f (ss_calls s), s\<lparr>ss_calls := ss_calls s @ [c]\<rparr>)"

definition tell :: "sess_call \<Rightarrow> sess \<Rightarrow> sess" where
  "tell c s = s\<lparr>ss_calls := ss_calls s @ [c]\<rparr>"

text \<open>\<open>ok_or\<close>, and the requests' early returns.\<close>

definition need :: "'e \<Rightarrow> 'a option \<Rightarrow> 's \<Rightarrow> ('e + 'a) \<times> 's" where
  "need e r s = (case r of Some a \<Rightarrow> Inr a | None \<Rightarrow> Inl e, s)"

definition ensure_that :: "bool \<Rightarrow> 'e \<Rightarrow> 's \<Rightarrow> ('e + unit) \<times> 's" where
  "ensure_that b e s = (if b then Inr () else Inl e, s)"

section \<open>The git identity\<close>

record git_identity =
  gi_name :: string
  gi_email :: string

text \<open>What a \<open>git config\<close> that was run gave: a failed one, or a blank value, is no value.\<close>

definition config_value :: "config_answer \<Rightarrow> string option" where
  "config_value r =
     (case r of
        Some (True, out) \<Rightarrow> (let v = trim_ws out in if v = [] then None else Some v)
      | _ \<Rightarrow> None)"

definition global_config :: "sess_answers \<Rightarrow> string \<Rightarrow> sess \<Rightarrow> string option \<times> sess" where
  "global_config an key = ask (SGlobalGet key) (\<lambda>h. config_value (sa_global an h key))"

definition git_config :: "sess_answers \<Rightarrow> string \<Rightarrow> string \<Rightarrow> sess \<Rightarrow> string option \<times> sess" where
  "git_config an repo key = ask (SSourceGet repo key) (\<lambda>h. config_value (sa_source an h repo key))"

definition read_identity :: "sess_answers \<Rightarrow> sess \<Rightarrow> (string \<times> string) option \<times> sess" where
  "read_identity an s =
     (case global_config an ''user.name'' s of
        (None, s) \<Rightarrow> (None, s)
      | (Some name, s) \<Rightarrow>
          (case global_config an ''user.email'' s of
             (None, s) \<Rightarrow> (None, s)
           | (Some email, s) \<Rightarrow> (if name \<noteq> [] \<and> email \<noteq> [] then Some (name, email) else None, s)))"

definition set_global :: "sess_answers \<Rightarrow> string \<Rightarrow> string \<Rightarrow> sess \<Rightarrow> (op_error + unit) \<times> sess" where
  "set_global an key value s =
     (case ask (SGlobalSet key value) (\<lambda>h. sa_set_global an h key value) s of (answer, s) \<Rightarrow>
        ensure_that (case answer of Some ok \<Rightarrow> ok | None \<Rightarrow> False)
          (coded ''git_identity_missing'' (''could not write git '' @ key)) s)"

definition write_identity :: "sess_answers \<Rightarrow> string \<Rightarrow> string \<Rightarrow> sess \<Rightarrow> (op_error + unit) \<times> sess" where
  "write_identity an name email s =
     andthen (set_global an ''user.name'' name s) (\<lambda>_ s. set_global an ''user.email'' email s)"

definition identity_ensure ::
  "sess_answers \<Rightarrow> git_identity option \<Rightarrow> string option \<Rightarrow> sess \<Rightarrow> (op_error + unit) \<times> sess" where
  "identity_ensure an windows source s =
     (let missing = coded ''git_identity_missing'' ''no git identity for the workspace'' in
      case read_identity an s of
        (Some found, s) \<Rightarrow> (Inr (), s)
      | (None, s) \<Rightarrow>
          (case windows of
             Some i \<Rightarrow> write_identity an (gi_name i) (gi_email i) s
           | None \<Rightarrow>
               (case source of
                  None \<Rightarrow> (Inl missing, s)
                | Some src \<Rightarrow>
                    (case git_config an src ''user.name'' s of (name, s) \<Rightarrow>
                     case git_config an src ''user.email'' s of (email, s) \<Rightarrow>
                     (case (name, email) of
                        (Some n, Some e) \<Rightarrow> write_identity an n e s
                      | _ \<Rightarrow> (Inl missing, s))))))"

section \<open>What a session runs\<close>

text \<open>\<open>detect_claude\<close>: the binary, from the variable or from the session's path, and its version.\<close>

definition detect_claude :: "sess_env \<Rightarrow> sess \<Rightarrow> installed option \<times> sess" where
  "detect_claude env = ask SDetect (\<lambda>h.
     Option.bind
       (case se_var env ''WILLIE_HARNESS_BIN'' of
          Some explicit \<Rightarrow> Some explicit
        | None \<Rightarrow> locate (sa_is_file (se_answers env) h) claude_code (session_path (se_home env)))
       (\<lambda>binary. case sa_version (se_answers env) h binary of (status, out) \<Rightarrow>
          detect_output binary status out))"

definition ZSH_PATH :: string where [codes]: "ZSH_PATH = ''/usr/bin/zsh''"

definition zsh_path :: "sess_env \<Rightarrow> string" where
  "zsh_path env = (case se_var env ''WILLIE_ZSH_CHECK'' of Some p \<Rightarrow> p | None \<Rightarrow> ZSH_PATH)"

definition shell_launch :: "string option \<Rightarrow> string \<Rightarrow> string \<Rightarrow> launch" where
  "shell_launch tz workspace home =
     (let env = [];
          env = bt_insert ''PATH'' (join_with '':'' (session_path home)) env;
          env = bt_insert ''HOME'' home env;
          env = bt_insert ''USER'' (unwrap_or (file_name home) ''willie'') env;
          env = bt_insert ''TERM'' ''xterm-256color'' env;
          env = bt_insert ''COLORTERM'' ''truecolor'' env;
          env = bt_insert ''LANG'' ''C.UTF-8'' env;
          env = (case tz of
                   Some z \<Rightarrow> if z \<noteq> [] then bt_insert ''TZ'' z env else env
                 | None \<Rightarrow> env);
          env = bt_insert ''ZDOTDIR'' ''/etc/willie/zsh'' env;
          env = bt_insert ''WILLIE_WORKSPACE'' workspace env
      in \<lparr>la_argv = [''/usr/bin/zsh'', ''-l''], la_env = env\<rparr>)"

section \<open>Resuming\<close>

datatype resume_target =
    NoTarget
  | Latest "session_id option"
  | Named session_id "session_state option"

text \<open>\<open>max_by\<close> on the creation time: of several latest the last.\<close>

definition latest_finished :: "project_id \<Rightarrow> session list \<Rightarrow> session_id option" where
  "latest_finished i xs =
     map_option s_id
       (foldl (\<lambda>best x. case best of
            None \<Rightarrow> Some x
          | Some b \<Rightarrow> Some (if s_created_at x < s_created_at b then b else x))
          None (filter (\<lambda>x. s_project_id x = i \<and> is_terminal (s_state x)) xs))"

definition resume_decision ::
  "bool \<Rightarrow> resume \<Rightarrow> resume_target \<Rightarrow> op_error + launch_mode \<times> session_id option" where
  "resume_decision wanted harness_resume target =
     (if \<not> wanted then Inr (Fresh, None)
      else if harness_resume = ResumeNone then
        Inl (coded ''harness_cannot_resume'' ''this harness cannot resume a conversation'')
      else case target of
        Named i None \<Rightarrow>
          Inl \<lparr>oe_code = ''resume_target_not_found'', oe_message = ''no such session'',
               oe_remediation = ''choose a session from the Sessions panel''\<rparr>
      | Named i (Some st) \<Rightarrow>
          (if is_live st then
             Inl \<lparr>oe_code = ''resume_target_live'', oe_message = ''that session is already open'',
                  oe_remediation = ''it is already open; switch to its tab''\<rparr>
           else Inr (Continue, Some i))
      | Latest i \<Rightarrow> Inr (Continue, i)
      | NoTarget \<Rightarrow> Inr (Continue, None))"

section \<open>The supervisor\<close>

datatype ready = ReadyOk u32 | ReadyFail string string

definition parse_pid :: "string \<Rightarrow> u32 option" where
  "parse_pid s = Option.bind (parse_u64 s) (\<lambda>n. if n < 2 ^ 32 then Some (of_nat n) else None)"

definition parse_ready :: "string \<Rightarrow> ready" where
  "parse_ready line =
     (let unclear = ReadyFail ''supervisor_spawn_failed'' ''the supervisor did not report readiness'' in
      case strip_prefix ''ok '' line of
        Some pid \<Rightarrow> (case parse_pid (trim_ws pid) of Some n \<Rightarrow> ReadyOk n | None \<Rightarrow> unclear)
      | None \<Rightarrow>
          (case Option.bind (strip_prefix ''fail '' line) (split_once '': '') of
             Some (code, words) \<Rightarrow> ReadyFail code words
           | None \<Rightarrow> unclear))"

definition spawn_supervisor :: "sess_env \<Rightarrow> string \<Rightarrow> sess \<Rightarrow> (op_error + ready) \<times> sess" where
  "spawn_supervisor env dir s =
     (case ask (SSpawn dir) (\<lambda>h. sa_spawn (se_answers env) h dir) s of (r, s) \<Rightarrow>
        (case r of
           CannotStart e \<Rightarrow> Inl (coded ''supervisor_spawn_failed'' e)
         | NoStdout \<Rightarrow> Inl (coded ''supervisor_spawn_failed'' ''no supervisor stdout'')
         | NoReply \<Rightarrow> Inl (coded ''supervisor_timeout'' ''no readiness reply'')
         | Replied line \<Rightarrow> Inr (parse_ready (trim_ws line)), s))"

section \<open>Watching\<close>

definition placeholder :: "session_id \<Rightarrow> session" where
  "placeholder i =
     \<lparr>s_id = i, s_project_id = 0, s_harness = [], s_workspace = [], s_kind = Agent, s_state = Running,
      s_created_at = [], s_started_at = None, s_finished_at = None, s_pid = None, s_clients = 0,
      s_resumed_from = None, s_label = None, s_title = None, s_sandbox = sandbox_state_default\<rparr>"

definition ss_get :: "sess \<Rightarrow> session_id \<Rightarrow> session option" where
  "ss_get s i = bt_get (st_sessions (ss_state s)) i"

definition put_session :: "session \<Rightarrow> sess \<Rightarrow> sess" where
  "put_session x s = ss_emit (upsert_session x) s"

text \<open>Taking a watched connection, if the supervisor can be reached.\<close>

definition watch :: "sess_env \<Rightarrow> session_id \<Rightarrow> string \<Rightarrow> sess \<Rightarrow> sess" where
  "watch env i socket s =
     (case ask (SConnect socket) (\<lambda>h. sa_connect (se_answers env) h socket) s of
        (connected, s) \<Rightarrow> if connected then s\<lparr>ss_watches := (i, socket) # ss_watches s\<rparr> else s)"

text \<open>What the reader does with one event.\<close>

definition fold_event :: "session_id \<Rightarrow> session_event \<Rightarrow> sess \<Rightarrow> sess" where
  "fold_event i ev s =
     put_session (apply_event (case ss_get s i of Some x \<Rightarrow> x | None \<Rightarrow> placeholder i) ev) s"

definition finalise_lost :: "sess_env \<Rightarrow> session_id \<Rightarrow> sess \<Rightarrow> sess" where
  "finalise_lost env i s =
     (case ask SLoadAll (sa_load (se_answers env)) s of (logs, s) \<Rightarrow>
      case find (\<lambda>(sp, evs). sp_id sp = i) logs of
        None \<Rightarrow> s
      | Some (sp, evs) \<Rightarrow>
          (let x = from_log sp evs;
               x = (if is_terminal (s_state x) then x
                    else apply_event x
                      \<lparr>ev_at = sa_now (se_answers env) (ss_calls s),
                       ev_kind = EvFailed ''supervisor_lost'' ''the supervisor stopped answering''\<rparr>)
           in put_session x s))"

text \<open>A supervisor that answers a status request.\<close>

definition probe :: "sess_env \<Rightarrow> string \<Rightarrow> sess \<Rightarrow> status option \<times> sess" where
  "probe env socket s =
     (case ask (SConnect socket) (\<lambda>h. sa_connect (se_answers env) h socket) s of
        (False, s) \<Rightarrow> (None, s)
      | (True, s) \<Rightarrow> ask (SStatus socket) (\<lambda>h. sa_status (se_answers env) h socket) s)"

text \<open>The thread that waits for the reader to end.\<close>

definition watch_ends :: "sess_env \<Rightarrow> session_id \<Rightarrow> string \<Rightarrow> sess \<Rightarrow> sess" where
  "watch_ends env i socket s =
     (let s = s\<lparr>ss_watches := remove1 (i, socket) (ss_watches s)\<rparr>;
          over = (case ss_get s i of Some x \<Rightarrow> is_terminal (s_state x) | None \<Rightarrow> False)
      in case (if over then (True, s)
               else (case probe env socket s of
                       (None, s) \<Rightarrow> (True, finalise_lost env i s)
                     | (Some st, s) \<Rightarrow> (False, s))) of
           (exited, s) \<Rightarrow> if exited then tell (SNotify (SessionExited i)) s else s)"

section \<open>Requests\<close>

record create_params =
  cp_project :: project_id
  cp_identity :: "git_identity option"
  cp_resume :: bool
  cp_resume_from :: "session_id option"
  cp_kind :: session_kind

definition from_problem :: "sandbox_problem \<Rightarrow> op_error" where
  "from_problem p = \<lparr>oe_code = pb_code p, oe_message = pb_message p, oe_remediation = pb_remediation p\<rparr>"

definition session_capabilities ::
  "capability_set \<Rightarrow> sandbox_profile \<Rightarrow> string \<Rightarrow> op_error + capability_set" where
  "session_capabilities defaults profile home =
     (case resolve defaults profile home of Inl e \<Rightarrow> Inl (cap_op_error e) | Inr caps \<Rightarrow> Inr caps)"

definition resume_target_of :: "create_params \<Rightarrow> state \<Rightarrow> resume_target" where
  "resume_target_of params st =
     (case cp_resume_from params of
        Some i \<Rightarrow> Named i (map_option s_state (bt_get (st_sessions st) i))
      | None \<Rightarrow>
          if cp_resume params then Latest (latest_finished (cp_project params) (bt_values (st_sessions st)))
          else NoTarget)"

text \<open>The checks of a create, in their order; nothing has been asked of the system before they pass.\<close>

definition create_checks ::
  "sess_env \<Rightarrow> create_params \<Rightarrow> sess \<Rightarrow>
   (op_error + project \<times> capability_set \<times> launch_mode \<times> session_id option) \<times> sess" where
  "create_checks env params s =
     andthen (need (not_found_err (se_project_text env) (cp_project params))
                (bt_get (st_projects (ss_state s)) (cp_project params)) s) (\<lambda>p s.
     (case pj_sandbox_problem p of Some problem \<Rightarrow> (Inl (from_problem problem), s) | None \<Rightarrow>
     andthen (ensure_that (pj_state p = ProjReady)
                (coded ''project_not_ready'' ''the project is not ready'') s) (\<lambda>_ s.
     andthen (ensure_that (\<not> is_busy (cp_project params) (op_runner (ss_ops s))) busy_err s) (\<lambda>_ s.
     (case session_capabilities claude_default_capabilities (pj_sandbox p) (se_home env) of
        Inl e \<Rightarrow> (Inl e, s)
      | Inr caps \<Rightarrow>
          (case resume_decision (cp_resume params)
                  (case cp_kind params of Agent \<Rightarrow> hc_resume (h_capabilities claude_code) | Shell \<Rightarrow> ResumeNone)
                  (resume_target_of params (ss_state s)) of
             Inl e \<Rightarrow> (Inl e, s)
           | Inr (mode, resumed_from) \<Rightarrow> (Inr (p, caps, mode, resumed_from), s)))))))"

text \<open>The launch of the kind asked for, and the name of its harness.\<close>

definition create_launch ::
  "sess_env \<Rightarrow> session_kind \<Rightarrow> string \<Rightarrow> launch_mode \<Rightarrow> sess \<Rightarrow> (op_error + launch \<times> string) \<times> sess" where
  "create_launch env kd workspace mode s =
     (case kd of
        Agent \<Rightarrow>
          (case detect_claude env s of (found, s) \<Rightarrow>
           andthen (need (coded ''harness_not_installed'' ''Claude Code is not installed'') found s) (\<lambda>found s.
           (Inr (harness_launch (se_var env ''TZ'') (in_path found) workspace (se_home env) mode,
                 h_id claude_code), s)))
      | Shell \<Rightarrow>
          (case ask (SIsFile (zsh_path env)) (\<lambda>h. sa_is_file (se_answers env) h (zsh_path env)) s of
           (present, s) \<Rightarrow>
           andthen (ensure_that present (coded ''shell_unavailable'' ''zsh is not installed in the image'') s)
             (\<lambda>_ s. (Inr (shell_launch (se_var env ''TZ'') workspace (se_home env), SHELL_HARNESS), s))))"

definition sessions_run_dir :: "string \<Rightarrow> string" where
  "sessions_run_dir run_dir = path_join run_dir ''sessions''"

definition session_socket :: "string \<Rightarrow> string \<Rightarrow> string" where
  "session_socket run_dir i = path_join (sessions_run_dir run_dir) (i @ ''.sock'')"

definition session_dir :: "string \<Rightarrow> string \<Rightarrow> string" where
  "session_dir state_dir i = path_join (path_join state_dir ''sessions'') i"

definition write_spec :: "sess_env \<Rightarrow> session_spec \<Rightarrow> sess \<Rightarrow> (op_error + string) \<times> sess" where
  "write_spec env sp s =
     (case ask (SWriteSpec sp) (\<lambda>h. sa_write_spec (se_answers env) h sp) s of
        (Some e, s) \<Rightarrow> (Inl (coded ''supervisor_spawn_failed'' e), s)
      | (None, s) \<Rightarrow> (Inr (session_dir (se_state_dir env) (se_session_text env (sp_id sp))), s))"

text \<open>A session that is known by its spec, and one event of the daemon's own folded into it.\<close>

definition settle :: "sess_env \<Rightarrow> session \<Rightarrow> session_event_kind \<Rightarrow> sess \<Rightarrow> session \<times> sess" where
  "settle env x kd s =
     (let x = apply_event x \<lparr>ev_at = sa_now (se_answers env) (ss_calls s), ev_kind = kd\<rparr>
      in (x, put_session x s))"

definition create_spawn ::
  "sess_env \<Rightarrow> session_spec \<Rightarrow> string \<Rightarrow> sess \<Rightarrow> (op_error + session) \<times> sess" where
  "create_spawn env sp dir s =
     (let x = from_log sp []; s = put_session x s in
      case spawn_supervisor env dir s of
        (Inl e, s) \<Rightarrow> (Inl e, snd (settle env x (EvFailed (oe_code e) (oe_message e)) s))
      | (Inr (ReadyOk pid), s) \<Rightarrow>
          (case settle env x (EvStarted pid) s of (x, s) \<Rightarrow>
           (Inr x, tell (SNotify (SessionStarted (sp_id sp) (sp_project_id sp)))
                     (watch env (sp_id sp) (sp_socket sp) s)))
      | (Inr (ReadyFail code words), s) \<Rightarrow>
          (Inl (coded code words), snd (settle env x (EvFailed code words) s)))"

definition spec_of ::
  "sess_env \<Rightarrow> session_id \<Rightarrow> session_kind \<Rightarrow> project \<Rightarrow> capability_set \<Rightarrow> session_id option \<Rightarrow> launch \<Rightarrow> string \<Rightarrow>
   sess \<Rightarrow> session_spec" where
  "spec_of env i kd p caps resumed_from launch harness s =
     \<lparr>sp_id = i, sp_project_id = pj_id p, sp_harness = harness, sp_workspace = pj_workspace p,
      sp_socket = session_socket (se_run_dir env) (se_session_text env i), sp_argv = la_argv launch,
      sp_env = la_env launch, sp_created_at = sa_now (se_answers env) (ss_calls s),
      sp_willie_version = se_version env, sp_resumed_from = resumed_from, sp_kind = kd,
      sp_capabilities = caps\<rparr>"

text \<open>What a create does once it is cleared.\<close>

fun create_cleared ::
  "sess_env \<Rightarrow> session_id \<Rightarrow> create_params \<Rightarrow> project \<times> capability_set \<times> launch_mode \<times> session_id option \<Rightarrow>
   sess \<Rightarrow> (op_error + session) \<times> sess" where
  "create_cleared env i params (p, caps, mode, resumed_from) s =
     andthen (create_launch env (cp_kind params) (pj_workspace p) mode s) (\<lambda>(launch, harness) s.
     andthen (identity_ensure (se_answers env) (cp_identity params) (source_to_linux (pj_source p)) s) (\<lambda>_ s.
     (let sp = spec_of env i (cp_kind params) p caps resumed_from launch harness s
      in andthen (write_spec env sp s) (\<lambda>dir s.
         create_spawn env sp dir (tell (SMakeDir (sessions_run_dir (se_run_dir env))) s)))))"

definition create ::
  "sess_env \<Rightarrow> session_id \<Rightarrow> create_params \<Rightarrow> sess \<Rightarrow> (op_error + session) \<times> sess" where
  "create env i params s = andthen (create_checks env params s) (create_cleared env i params)"

definition stop_session :: "sess_env \<Rightarrow> session_id \<Rightarrow> sess \<Rightarrow> (op_error + unit) \<times> sess" where
  "stop_session env i s =
     (let socket = session_socket (se_run_dir env) (se_session_text env i) in
      case ask (SConnect socket) (\<lambda>h. sa_connect (se_answers env) h socket) s of (connected, s) \<Rightarrow>
      andthen (ensure_that connected (coded ''session_not_running'' ''the session is not running'') s) (\<lambda>_ s.
      (case ask (SStop socket) (\<lambda>h. sa_stop (se_answers env) h socket) s of (sent, s) \<Rightarrow>
       ensure_that sent (coded ''session_not_running'' ''the session is gone'') s)))"

definition wants_title :: "sess \<Rightarrow> session \<Rightarrow> bool" where
  "wants_title s x \<longleftrightarrow>
     s_kind x = Agent \<and> s_title x = None \<and> (is_live (s_state x) \<or> is_terminal (s_state x))
     \<and> s_id x \<notin> set (ss_untitled s)"

definition started_secs :: "session \<Rightarrow> nat" where
  "started_secs x =
     (case parse_u64 (case s_started_at x of Some t \<Rightarrow> t | None \<Rightarrow> s_created_at x) of Some n \<Rightarrow> n | None \<Rightarrow> 0)"

definition title_one :: "sess_env \<Rightarrow> session_id \<times> string \<times> nat \<times> bool \<Rightarrow> sess \<Rightarrow> sess" where
  "title_one env = (\<lambda>(i, workspace, since, finished) s.
     (case ask (SReadTitle workspace since)
             (\<lambda>h. first_prompt_for (sa_logs (se_answers env) h) (se_home env) workspace since) s of
        (None, s) \<Rightarrow> if finished then s\<lparr>ss_untitled := i # ss_untitled s\<rparr> else s
      | (Some title, s) \<Rightarrow>
          put_session ((case ss_get s i of Some x \<Rightarrow> x | None \<Rightarrow> placeholder i)\<lparr>s_title := Some title\<rparr>) s))"

definition title_untitled :: "sess_env \<Rightarrow> sess \<Rightarrow> sess" where
  "title_untitled env s =
     foldl (\<lambda>s c. title_one env c s) s
       (map (\<lambda>x. (s_id x, s_workspace x, started_secs x, is_terminal (s_state x)))
          (filter (wants_title s) (bt_values (st_sessions (ss_state s)))))"

definition list_sessions :: "sess_env \<Rightarrow> sess \<Rightarrow> session list \<times> sess" where
  "list_sessions env s = (let s = title_untitled env s in (bt_values (st_sessions (ss_state s)), s))"

definition rename_session ::
  "sess_env \<Rightarrow> session_id \<Rightarrow> string option \<Rightarrow> sess \<Rightarrow> (op_error + session) \<times> sess" where
  "rename_session env i label s =
     (let label = Option.bind label (\<lambda>l. let l = trim_ws l in if l = [] then None else Some l) in
      andthen (ensure_that (case label of None \<Rightarrow> True | Some l \<Rightarrow> length (utf8_chars l) \<le> 120)
                 \<lparr>oe_code = ''invalid_params'', oe_message = ''the label is longer than 120 characters'',
                  oe_remediation = ''shorten the name''\<rparr> s) (\<lambda>_ s.
      andthen (need (coded ''session_not_found'' ''no such session'') (ss_get s i) s) (\<lambda>x s.
      (let ev = \<lparr>ev_at = sa_now (se_answers env) (ss_calls s), ev_kind = EvRenamed label\<rparr> in
       case ask (SAppend i ev) (\<lambda>h. sa_append (se_answers env) h i ev) s of
         (Some e, s) \<Rightarrow> (Inl (state_write_failed e), s)
       | (None, s) \<Rightarrow> (let x = apply_event x ev in (Inr x, put_session x s))))))"

section \<open>At the start\<close>

text \<open>A finished session enters the mirror without an event.\<close>

definition load_session :: "session \<Rightarrow> sess \<Rightarrow> sess" where
  "load_session x s =
     s\<lparr>ss_ops := (ss_ops s)\<lparr>op_runner := (op_runner (ss_ops s))
         \<lparr>rn_daemon := (rn_daemon (op_runner (ss_ops s)))
            \<lparr>dm_state := (ss_state s)\<lparr>st_sessions := bt_insert (s_id x) x (st_sessions (ss_state s))\<rparr>\<rparr>\<rparr>\<rparr>\<rparr>"

definition scan_one :: "sess_env \<Rightarrow> session_spec \<times> session_event list \<Rightarrow> sess \<Rightarrow> sess" where
  "scan_one env = (\<lambda>(sp, evs) s.
     (let x = from_log sp evs in
      if is_terminal (s_state x) then load_session x s
      else case probe env (sp_socket sp) s of
        (Some st, s) \<Rightarrow>
          (let x = x\<lparr>s_state := Running, s_pid := Some (su_pid st), s_clients := su_clients st\<rparr>
           in watch env (s_id x) (sp_socket sp) (put_session x s))
      | (None, s) \<Rightarrow> finalise_lost env (s_id x) (tell (SRemoveSocket (sp_socket sp)) s)))"

definition scan :: "sess_env \<Rightarrow> sess \<Rightarrow> sess" where
  "scan env s =
     (case ask SLoadAll (sa_load (se_answers env)) s of (logs, s) \<Rightarrow>
        foldl (\<lambda>s l. scan_one env l s) s logs)"

end
