(* ===== verification/Session_Guard.thy ===== *)
theory Session_Guard
  imports Session_Ops
begin

text \<open>
  What the session requests of \<open>Session_Ops\<close> come to. A create asks nothing of the system before every
  check has passed, and the spec it writes carries the policy that was resolved; however it ends, the
  mirror shows the session as its answer says. The scan of a starting daemon leaves no session open whose
  supervisor does not answer. A rename is logged before it is shown.
\<close>

section \<open>What a stretch of a request asks\<close>

definition asked :: "sess \<Rightarrow> sess \<Rightarrow> sess_call list" where
  "asked s s' = drop (length (ss_calls s)) (ss_calls s')"

definition asks :: "(sess_call \<Rightarrow> bool) \<Rightarrow> sess \<Rightarrow> sess \<Rightarrow> bool" where
  "asks P s s' \<longleftrightarrow> (\<exists>cs. ss_calls s' = ss_calls s @ cs \<and> (\<forall>c \<in> set cs. P c))"

lemma asked_P: "asks P s s' \<Longrightarrow> c \<in> set (asked s s') \<Longrightarrow> P c"
  by (auto simp: asks_def asked_def)

lemma asks_refl [simp]: "asks P s s"
  by (simp add: asks_def)

lemma asks_trans: "asks P s s1 \<Longrightarrow> asks P s1 s2 \<Longrightarrow> asks P s s2"
  by (auto simp: asks_def)

lemma asks_ask: "P c \<Longrightarrow> asks P s (snd (ask c f s))"
  by (simp add: asks_def ask_def)

lemma asks_tell: "P c \<Longrightarrow> asks P s (tell c s)"
  by (simp add: asks_def tell_def)

lemma ss_calls_emit [simp]: "ss_calls (ss_emit m s) = ss_calls s"
  by (simp add: ss_emit_def)

lemma asks_emit [simp]: "asks P s (put_session x s') = asks P s s'" "asks P (put_session x s) s' = asks P s s'"
  by (simp_all add: asks_def put_session_def)

lemma asks_andthen:
  assumes "asks P s (snd m)" and "\<And>a s1. m = (Inr a, s1) \<Longrightarrow> asks P s1 (snd (f a s1))"
  shows "asks P s (snd (andthen m f))"
proof (cases m)
  case (Pair r s1)
  with assms show ?thesis by (cases r) (auto simp: andthen_def intro: asks_trans)
qed

lemma asks_case:
  assumes "asks P s (snd m)" and "\<And>a s1. m = (a, s1) \<Longrightarrow> asks P s1 (snd (f a s1))"
  shows "asks P s (snd (case m of (a, s1) \<Rightarrow> f a s1))"
  using assms by (cases m) (auto intro: asks_trans)

lemma snd_need [simp]: "snd (need e r s) = s" "snd (ensure_that b e s) = s"
  by (simp_all add: need_def ensure_that_def)

lemma ensure_that_Inr [simp]: "ensure_that b e s = (Inr u, s') \<longleftrightarrow> b \<and> s' = s"
  by (auto simp: ensure_that_def)

lemma need_Inr [simp]: "need e r s = (Inr a, s') \<longleftrightarrow> r = Some a \<and> s' = s"
  by (auto simp: need_def split: option.splits)

section \<open>A create is checked first\<close>

definition cleared ::
  "sess_env \<Rightarrow> create_params \<Rightarrow> sess \<Rightarrow> project \<Rightarrow> capability_set \<Rightarrow> launch_mode \<Rightarrow> session_id option \<Rightarrow> bool" where
  "cleared env params s p caps mode prev \<longleftrightarrow>
     bt_get (st_projects (ss_state s)) (cp_project params) = Some p
     \<and> pj_sandbox_problem p = None
     \<and> pj_state p = ProjReady
     \<and> \<not> is_busy (cp_project params) (op_runner (ss_ops s))
     \<and> resolve claude_default_capabilities (pj_sandbox p) (se_home env) = Inr caps
     \<and> resume_decision (cp_resume params)
         (case cp_kind params of Agent \<Rightarrow> hc_resume (h_capabilities claude_code) | Shell \<Rightarrow> ResumeNone)
         (resume_target_of params (ss_state s)) = Inr (mode, prev)"

lemma create_checks_state: "snd (create_checks env params s) = s"
  by (simp add: create_checks_def andthen_def need_def ensure_that_def split: option.split sum.split prod.split)

lemma create_checks_Inr:
  "create_checks env params s = (Inr (p, caps, mode, prev), s') \<longleftrightarrow> s' = s \<and> cleared env params s p caps mode prev"
  by (auto simp: create_checks_def cleared_def andthen_def need_def ensure_that_def session_capabilities_def
      split: option.splits sum.splits prod.splits if_splits)

text \<open>The spec carries what was decided.\<close>

fun carries :: "project \<Rightarrow> capability_set \<Rightarrow> session_id option \<Rightarrow> sess_call \<Rightarrow> bool" where
  "carries p caps prev (SWriteSpec sp) \<longleftrightarrow>
     sp_project_id sp = pj_id p \<and> sp_workspace sp = pj_workspace p \<and> sp_capabilities sp = caps
     \<and> sp_resumed_from sp = prev"
| "carries p caps prev _ = True"

lemma asks_identity:
  assumes "\<And>k. P (SGlobalGet k)" "\<And>k v. P (SGlobalSet k v)" "\<And>r k. P (SSourceGet r k)"
  shows "asks P s (snd (identity_ensure an windows source s))"
proof -
  have set: "asks P s (snd (write_identity an n e s))" for n e s
    unfolding write_identity_def set_global_def
    by (intro asks_andthen asks_case) (simp_all add: asks_ask assms)
  show ?thesis
    unfolding identity_ensure_def Let_def read_identity_def global_config_def git_config_def
    by (intro asks_case) (auto simp: asks_ask assms set split: option.split
        intro!: asks_case intro: asks_trans [OF asks_ask])
qed

lemma asks_launch:
  "P SDetect \<Longrightarrow> (\<And>f. P (SIsFile f)) \<Longrightarrow> asks P s (snd (create_launch env kd ws mode s))"
  unfolding create_launch_def detect_claude_def
  by (cases kd) (auto simp: asks_ask intro!: asks_case asks_andthen)

lemma asks_watch: "(\<And>sk. P (SConnect sk)) \<Longrightarrow> asks P s (watch env i socket s)"
  by (simp add: watch_def ask_def asks_def)

lemma asks_create_spawn:
  assumes "\<And>d. P (SSpawn d)" "\<And>sk. P (SConnect sk)" "\<And>e. P (SNotify e)"
  shows "asks P s (snd (create_spawn env sp dir s))"
proof -
  have start: "asks P s (snd (spawn_supervisor env dir s))" for s
    unfolding spawn_supervisor_def by (intro asks_case) (simp_all add: asks_ask assms)
  have settle: "asks P s (snd (settle env x kd s))" for x kd s by (simp add: settle_def Let_def)
  have running: "asks P s (tell (SNotify e) (watch env i sk s))" for e i sk s
    by (rule asks_trans [OF asks_watch asks_tell]) (simp_all add: assms)
  obtain r s1 where sp: "spawn_supervisor env dir (put_session (from_log sp []) s) = (r, s1)" by fastforce
  from start [of "put_session (from_log sp []) s"] have "asks P s s1" by (simp add: sp)
  moreover have "asks P s1 (snd (create_spawn env sp dir s))"
    by (auto simp: create_spawn_def sp Let_def settle running split: sum.split ready.split prod.split)
       (metis asks_trans running settle snd_conv)
  ultimately show ?thesis by (rule asks_trans)
qed

lemma asks_write_spec: "P (SWriteSpec sp) \<Longrightarrow> asks P s (snd (write_spec env sp s))"
  by (simp add: write_spec_def ask_def asks_def split: option.split)

text \<open>(C8) A create that asks anything of the system - even the version of the agent - has been cleared:
  the project exists, its stored policy is readable, it is ready and no job is in flight for it, its
  profile resolves to capabilities, and the conversation asked for can be resumed. A spec that is written
  names that project and its workspace and carries exactly the capabilities that were resolved.\<close>
theorem create_guarded:
  assumes "c \<in> set (asked s (snd (create env i params s)))"
  shows "\<exists>p caps mode prev. cleared env params s p caps mode prev \<and> carries p caps prev c"
proof (cases "create_checks env params s")
  case (Pair r s1)
  show ?thesis
  proof (cases r)
    case (Inl e)
    with Pair create_checks_state [of env params s] have "snd (create env i params s) = s"
      by (simp add: create_def andthen_def)
    with assms show ?thesis by (simp add: asked_def)
  next
    case (Inr d)
    obtain p caps mode prev where d: "d = (p, caps, mode, prev)" by (cases d)
    with Pair Inr have ok: "s1 = s" "cleared env params s p caps mode prev"
      by (simp_all add: create_checks_Inr)
    have spawned: "asks (carries p caps prev) s (snd (create_spawn env sp dir (tell (SMakeDir d) s)))" for sp dir d s
      by (rule asks_trans [OF asks_tell asks_create_spawn]) simp_all
    have "asks (carries p caps prev) s (snd (create_cleared env i params (p, caps, mode, prev) s))"
      unfolding create_cleared.simps Let_def
      by (auto simp: spec_of_def split: prod.split
          intro!: asks_andthen asks_launch asks_identity asks_write_spec spawned)
    then have "asks (carries p caps prev) s (snd (create env i params s))"
      by (simp add: create_def andthen_def Pair Inr d ok(1))
    from asked_P [OF this assms] ok(2) show ?thesis by blast
  qed
qed

section \<open>The mirror\<close>

text \<open>What the calls of a request leave alone: the records and the watched connections.\<close>

definition core :: "sess \<Rightarrow> ops \<times> (session_id \<times> string) list" where
  "core s = (ss_ops s, ss_watches s)"

lemma core_ask [simp]: "core (snd (ask c f s)) = core s"
  by (simp add: core_def ask_def)

lemma core_tell [simp]: "core (tell c s) = core s"
  by (simp add: core_def tell_def)

lemma core_andthen: "core (snd m) = os \<Longrightarrow> (\<And>a s1. core s1 = os \<Longrightarrow> core (snd (f a s1)) = os) \<Longrightarrow> core (snd (andthen m f)) = os"
  by (cases m; cases "fst m") (simp_all add: andthen_def)

lemma core_case: "core (snd m) = os \<Longrightarrow> (\<And>a s1. core s1 = os \<Longrightarrow> core (snd (f a s1)) = os) \<Longrightarrow>
  core (snd (case m of (a, s1) \<Rightarrow> f a s1)) = os"
  by (cases m) simp

lemma core_launch: "core (snd (create_launch env kd ws mode s)) = core s"
  unfolding create_launch_def detect_claude_def
  by (cases kd) (auto intro!: core_case core_andthen)

lemma core_identity: "core (snd (identity_ensure an windows source s)) = core s"
proof -
  have set: "core (snd (write_identity an n e s)) = core s" for n e s
    unfolding write_identity_def set_global_def by (auto intro!: core_case core_andthen)
  show ?thesis
    unfolding identity_ensure_def Let_def read_identity_def global_config_def git_config_def
    by (auto simp: set intro!: core_case split: option.split)
qed

lemma core_write_spec: "core (snd (write_spec env sp s)) = core s"
  by (simp add: core_def write_spec_def ask_def split: option.split)

lemma core_spawn: "core (snd (spawn_supervisor env dir s)) = core s"
  by (simp add: core_def spawn_supervisor_def ask_def)

lemma ss_ops_watch [simp]: "ss_ops (watch env i socket s) = ss_ops s"
  by (simp add: watch_def ask_def)

text \<open>What writing a session does to the mirror: only its own entry changes.\<close>

lemma ss_state_put [simp]:
  "st_sessions (ss_state (put_session x s)) = bt_insert (s_id x) x (st_sessions (ss_state s))"
  "st_projects (ss_state (put_session x s)) = st_projects (ss_state s)"
  "st_jobs (ss_state (put_session x s)) = st_jobs (ss_state s)"
  by (simp_all add: ss_state_def put_session_def ss_emit_def emit_is_event client_event_def)

lemma core_state: "core s' = core s \<Longrightarrow> ss_state s' = ss_state s"
  by (simp add: core_def ss_state_def)

lemma ss_state_ops: "ss_ops s' = ss_ops s \<Longrightarrow> ss_state s' = ss_state s"
  by (simp add: ss_state_def)

lemma bt_insert_twice: "bt_insert k v (bt_insert k w m) = bt_insert k v m"
  by (induction k w m rule: bt_insert.induct) auto

lemma s_id_apply [simp]: "s_id (apply_event x ev) = s_id x" "s_project_id (apply_event x ev) = s_project_id x"
  "s_workspace (apply_event x ev) = s_workspace x"
  by (cases "ev_kind ev"; simp add: apply_event_def)+

lemma from_log_Nil [simp]: "from_log sp [] = session_init sp"
  by (simp add: from_log_def)

definition reports :: "(op_error + session) \<times> sess \<Rightarrow> session_spec \<Rightarrow> state \<Rightarrow> bool" where
  "reports r sp st \<longleftrightarrow>
     (case r of
        (Inr x, s') \<Rightarrow> st_sessions (ss_state s') = bt_insert (sp_id sp) x (st_sessions st) \<and> s_state x = Running
          \<and> st_projects (ss_state s') = st_projects st
      | (Inl e, s') \<Rightarrow> (\<exists>x. st_sessions (ss_state s') = bt_insert (sp_id sp) x (st_sessions st)
          \<and> s_state x = Failed (oe_code e) (oe_message e) (oe_remediation e))
          \<and> st_projects (ss_state s') = st_projects st)"

lemma spawn_refused: "spawn_supervisor env dir s = (Inl e, s') \<Longrightarrow> oe_remediation e = Session.remediation_for (oe_code e)"
  by (auto simp: spawn_supervisor_def coded_def ask_def split: spawn_end.splits)

lemma settled_event [simp]:
  "apply_event (session_init sp) \<lparr>ev_at = t, ev_kind = EvFailed c m\<rparr> =
     (session_init sp)\<lparr>s_state := Failed c m (Session.remediation_for c), s_finished_at := Some t\<rparr>"
  "apply_event (session_init sp) \<lparr>ev_at = t, ev_kind = EvStarted pid\<rparr> =
     (session_init sp)\<lparr>s_state := Running, s_pid := Some pid, s_started_at := Some t\<rparr>"
  by (simp_all add: apply_event_def session_init_def)

lemma create_spawn_reports: "reports (create_spawn env sp dir s) sp (ss_state s)"
proof -
  let ?s = "put_session (session_init sp) s"
  obtain r s1 where sp: "spawn_supervisor env dir ?s = (r, s1)" by fastforce
  then have "core s1 = core ?s" using core_spawn [of env dir ?s] by simp
  from core_state [OF this] have st: "ss_state s1 = ss_state ?s" .
  have i: "s_id (session_init sp) = sp_id sp" by (simp add: session_init_def)
  have w: "ss_state (tell c (watch env j sk s)) = ss_state s" for c j sk s
    by (rule ss_state_ops) (simp add: tell_def)
  show ?thesis
  proof (cases r)
    case (Inl e)
    with spawn_refused [of env dir ?s e s1] sp show ?thesis
      by (auto simp: reports_def create_spawn_def settle_def Let_def st bt_insert_twice i)
  next
    case (Inr rd)
    with sp show ?thesis
      by (cases rd) (auto simp: reports_def create_spawn_def settle_def Let_def st bt_insert_twice i coded_def w)
  qed
qed

text \<open>A create either ends before its session is recorded, or it is the spawning of a cleared session.\<close>

lemma create_cases:
  obtains e s' where "create env i params s = (Inl e, s')" "core s' = core s"
  | p caps mode prev sp dir s1 where "create env i params s = create_spawn env sp dir s1" "core s1 = core s"
      "sp_id sp = i" "sp_project_id sp = pj_id p" "sp_workspace sp = pj_workspace p"
      "cleared env params s p caps mode prev"
proof -
  define good where "good p r \<longleftrightarrow>
     (\<exists>e s'. r = (Inl e, s') \<and> core s' = core s)
     \<or> (\<exists>sp dir s1. r = create_spawn env sp dir s1 \<and> core s1 = core s \<and> sp_id sp = i
          \<and> sp_project_id sp = pj_id p \<and> sp_workspace sp = pj_workspace p)" for p :: project and r :: "(op_error + session) \<times> sess"
  have step: "good p (andthen m f)" if "core (snd m) = core s" "\<And>a s1. core s1 = core s \<Longrightarrow> good p (f a s1)"
    for p :: project and m :: "(op_error + 'a) \<times> sess" and f
    using that by (cases m; cases "fst m") (auto simp: andthen_def good_def)
  have spawn: "good p (create_spawn env sp dir (tell c s1))"
    if "sp_id sp = i" "sp_project_id sp = pj_id p" "sp_workspace sp = pj_workspace p" "core s1 = core s"
    for p :: project and sp dir c and s1 :: sess
    using that unfolding good_def by (metis core_tell)
  have cleared: "good p (create_cleared env i params (p, caps, mode, prev) s)"
    for p :: project and caps mode prev
    unfolding create_cleared.simps Let_def
    by (auto simp: core_launch core_identity core_write_spec spec_of_def split: prod.split intro!: step spawn)
  show thesis
  proof (cases "create_checks env params s")
    case (Pair r s1)
    then have same: "s1 = s" using create_checks_state [of env params s] by simp
    show thesis
    proof (cases r)
      case (Inl e)
      with Pair same that(1) [of e s] show thesis by (simp add: create_def andthen_def)
    next
      case (Inr d)
      obtain p caps mode prev where d: "d = (p, caps, mode, prev)" by (cases d)
      with Pair Inr have "cleared env params s p caps mode prev" by (simp add: create_checks_Inr)
      moreover have "create env i params s = create_cleared env i params (p, caps, mode, prev) s"
        by (simp add: create_def andthen_def Pair Inr d same)
      ultimately show thesis using cleared [of p caps mode prev] that unfolding good_def by metis
    qed
  qed
qed

text \<open>However a create ends, the mirror agrees with its answer. A session it returns is running and is
  the mirror's entry for the new id. With an error either the mirror's sessions are those before, or the
  new session is there, failed with exactly the code, the message and the hint of the answer: none is left
  being created. Other sessions and the projects are untouched.\<close>
theorem create_settles:
  "case create env i params s of
     (Inr x, s') \<Rightarrow> st_sessions (ss_state s') = bt_insert i x (st_sessions (ss_state s)) \<and> s_state x = Running
       \<and> st_projects (ss_state s') = st_projects (ss_state s)
   | (Inl e, s') \<Rightarrow>
       (st_sessions (ss_state s') = st_sessions (ss_state s)
        \<or> (\<exists>x. st_sessions (ss_state s') = bt_insert i x (st_sessions (ss_state s))
             \<and> s_state x = Failed (oe_code e) (oe_message e) (oe_remediation e)))
       \<and> st_projects (ss_state s') = st_projects (ss_state s)"
proof (cases rule: create_cases [of env i params s])
  case (1 e s')
  with core_state [OF 1(2)] show ?thesis by simp
next
  case (2 p caps mode prev sp dir s1)
  from create_spawn_reports [of env sp dir s1] core_state [OF 2(2)] 2(3) show ?thesis
    by (auto simp: 2(1) reports_def split: prod.splits sum.splits)
qed

section \<open>Renaming\<close>

lemma ws_len_longer: "0 < ws_len r \<Longrightarrow> ws_len (r @ t) = ws_len r"
  by (cases r; cases "tl r"; cases "tl (tl r)")
     (auto simp: ws_len_def Let_def nth_append nth_Cons split: if_splits nat.splits)

lemma ws_len_short: "ws_len r \<le> length r"
  by (cases r; cases "tl r"; cases "tl (tl r)")
     (auto simp: ws_len_def Let_def nth_Cons split: if_splits nat.splits)

lemma trim_ws_end_Nil: "trim_ws_end s = [] \<longleftrightarrow> is_blank s"
  by (cases s) simp_all

lemma trim_ws_end_drop: "k \<le> length (trim_ws_end s) \<Longrightarrow> drop k (trim_ws_end s) = trim_ws_end (drop k s)"
  by (induction s arbitrary: k) (auto simp: drop_Cons' split: if_splits)

lemma trim_ws_end_prefix: "\<exists>t. s = trim_ws_end s @ t"
  by (induction s) auto

lemma trim_ws_end_not_blank: "is_blank (trim_ws_end s) \<Longrightarrow> is_blank s"
proof (induction "length s" arbitrary: s rule: less_induct)
  case less
  let ?r = "trim_ws_end s"
  show ?case
  proof (cases "?r = []")
    case True
    then show ?thesis by (simp only: trim_ws_end_Nil)
  next
    case False
    then have k: "0 < ws_len ?r" "is_blank (drop (ws_len ?r) ?r)"
      using less.prems by (metis is_blank.simps gr0I)+
    note short = ws_len_short [of ?r]
    obtain t where "s = ?r @ t" using trim_ws_end_prefix by blast
    with k(1) ws_len_longer [of ?r t] have same: "ws_len s = ws_len ?r" by simp
    have "is_blank (trim_ws_end (drop (ws_len ?r) s))" using k(2) trim_ws_end_drop [OF short] by simp
    moreover have "length (drop (ws_len ?r) s) < length s" using k(1) False by (cases s) auto
    ultimately have "is_blank (drop (ws_len s) s)" using less.hyps same by simp
    then show ?thesis using k(1) same by (subst is_blank.simps) simp
  qed
qed

lemma trim_ws_blank: "is_blank (trim_ws l) \<Longrightarrow> trim_ws l = []"
  unfolding trim_ws_def using trim_ws_end_not_blank trim_ws_end_Nil by blast

definition clean_label :: "string option \<Rightarrow> string option" where
  "clean_label label = Option.bind label (\<lambda>l. if trim_ws l = [] then None else Some (trim_ws l))"

text \<open>A rename that is refused changes nothing in the mirror. One that is accepted was written to the
  session's log first, and its answer is the mirror's entry: the old session with that event folded in.
  An open session then shows the trimmed label, or none if it was blank; a finished session keeps the
  label it had, although the request succeeds.\<close>
theorem rename_settles:
  "case rename_session env i label s of
     (Inl e, s') \<Rightarrow> ss_state s' = ss_state s
   | (Inr x, s') \<Rightarrow> \<exists>old at.
       ss_get s i = Some old
       \<and> SAppend i \<lparr>ev_at = at, ev_kind = EvRenamed (clean_label label)\<rparr> \<in> set (asked s s')
       \<and> x = apply_event old \<lparr>ev_at = at, ev_kind = EvRenamed (clean_label label)\<rparr>
       \<and> st_sessions (ss_state s') = bt_insert (s_id old) x (st_sessions (ss_state s))
       \<and> s_label x = (if is_terminal (s_state old) then s_label old else clean_label label)"
proof -
  have l: "Option.bind label (\<lambda>l. let l = trim_ws l in if l = [] then None else Some l) = clean_label label"
    by (simp add: clean_label_def Let_def)
  have shown: "s_label (apply_event old \<lparr>ev_at = at, ev_kind = EvRenamed (clean_label label)\<rparr>) =
      (if is_terminal (s_state old) then s_label old else clean_label label)" for old at
    using trim_ws_blank by (cases label) (auto simp: apply_event_def clean_label_def)
  have state: "ss_state (s\<lparr>ss_calls := cs\<rparr>) = ss_state s" for cs by (simp add: ss_state_def)
  have calls: "ss_calls (put_session x s) = ss_calls s" for x s by (simp add: put_session_def)
  show ?thesis
  proof (cases "ss_get s i")
    case None
    then show ?thesis unfolding rename_session_def Let_def [of "Option.bind _ _"] l
      by (simp add: andthen_def ensure_that_def need_def Let_def)
  next
    case (Some old)
    let ?at = "sa_now (se_answers env) (ss_calls s)"
    let ?ev = "\<lparr>ev_at = ?at, ev_kind = EvRenamed (clean_label label)\<rparr>"
    let ?s = "s\<lparr>ss_calls := ss_calls s @ [SAppend i ?ev]\<rparr>"
    consider e where "rename_session env i label s = (Inl e, s)"
      | e where "rename_session env i label s = (Inl e, ?s)"
      | "rename_session env i label s = (Inr (apply_event old ?ev), put_session (apply_event old ?ev) ?s)"
    proof (cases "rename_session env i label s")
      case (Pair r s')
      with Some that show thesis unfolding rename_session_def l
        by (auto simp: andthen_def ensure_that_def need_def ask_def Let_def split: if_splits option.splits)
    qed
    then show ?thesis
    proof cases
      case 3
      have "ss_get s i = Some old
         \<and> SAppend i ?ev \<in> set (asked s (put_session (apply_event old ?ev) ?s))
         \<and> apply_event old ?ev = apply_event old ?ev
         \<and> st_sessions (ss_state (put_session (apply_event old ?ev) ?s)) =
             bt_insert (s_id old) (apply_event old ?ev) (st_sessions (ss_state s))
         \<and> s_label (apply_event old ?ev) = (if is_terminal (s_state old) then s_label old else clean_label label)"
        by (simp only: shown ss_state_put s_id_apply state) (simp add: Some asked_def calls)
      then show ?thesis unfolding 3 by (simp only: prod.case sum.case) blast
    qed (simp_all add: state)
  qed
qed

section \<open>Lost supervisors\<close>

lemma from_log_id [simp]: "s_id (from_log sp evs) = sp_id sp" "s_project_id (from_log sp evs) = sp_project_id sp"
proof -
  have "s_id (foldl apply_event x evs) = s_id x \<and> s_project_id (foldl apply_event x evs) = s_project_id x" for x
    by (induction evs arbitrary: x) simp_all
  then show "s_id (from_log sp evs) = sp_id sp" "s_project_id (from_log sp evs) = sp_project_id sp"
    by (simp_all add: from_log_def session_init_def)
qed

lemma apply_failed_terminal: "is_terminal (s_state (apply_event x \<lparr>ev_at = at, ev_kind = EvFailed c m\<rparr>))"
  by (simp add: apply_event_def)

text \<open>Finalising a session either finds no spec of it, or leaves it finished.\<close>

lemma finalise_lost_cases:
  obtains "core (finalise_lost env i s) = core s"
      "find (\<lambda>(sp, evs). sp_id sp = i) (sa_load (se_answers env) (ss_calls s)) = None"
  | x s1 where "finalise_lost env i s = put_session x s1" "core s1 = core s" "is_terminal (s_state x)" "s_id x = i"
proof -
  let ?found = "find (\<lambda>(sp, evs). sp_id sp = i) (sa_load (se_answers env) (ss_calls s))"
  let ?s = "s\<lparr>ss_calls := ss_calls s @ [SLoadAll]\<rparr>"
  show thesis
  proof (cases ?found)
    case None
    then show thesis using that(1) by (simp add: finalise_lost_def ask_def core_def)
  next
    case (Some l)
    obtain sp evs where l: "l = (sp, evs)" by fastforce
    from find_Some_P [OF Some] have i: "sp_id sp = i" by (simp add: l)
    define x where "x = (if is_terminal (s_state (from_log sp evs)) then from_log sp evs
      else apply_event (from_log sp evs)
        \<lparr>ev_at = sa_now (se_answers env) (ss_calls s @ [SLoadAll]),
         ev_kind = EvFailed ''supervisor_lost'' ''the supervisor stopped answering''\<rparr>)"
    have "finalise_lost env i s = put_session x ?s"
      using Some by (simp add: finalise_lost_def ask_def l x_def Let_def)
    moreover have "is_terminal (s_state x)" "s_id x = i"
      by (simp_all add: x_def apply_failed_terminal i)
    ultimately show thesis using that(2) [of x ?s] by (simp add: core_def)
  qed
qed

text \<open>The supervisor of an open session answered a status request, with the pid the session shows.\<close>

definition answered :: "sess_env \<Rightarrow> session \<Rightarrow> bool" where
  "answered env x \<longleftrightarrow>
     s_state x = Running
     \<and> (\<exists>h socket st. sa_status (se_answers env) h socket = Some st \<and> s_pid x = Some (su_pid st))"

definition none_hanging :: "sess_env \<Rightarrow> sess \<Rightarrow> bool" where
  "none_hanging env s \<longleftrightarrow> (\<forall>i x. ss_get s i = Some x \<longrightarrow> is_terminal (s_state x) \<or> answered env x)"

lemma none_hanging_insert:
  assumes "none_hanging env s" and "is_terminal (s_state x) \<or> answered env x"
    and "st_sessions (ss_state s') = bt_insert i x (st_sessions (ss_state s))"
  shows "none_hanging env s'"
  using assms by (auto simp: none_hanging_def ss_get_def bt_get_insert)

lemma none_hanging_state: "ss_state s' = ss_state s \<Longrightarrow> none_hanging env s' = none_hanging env s"
  by (simp add: none_hanging_def ss_get_def)

lemma probe_state: "core (snd (probe env socket s)) = core s"
  by (simp add: core_def probe_def ask_def split: bool.split)

lemma probe_answer: "probe env socket s = (Some st, s') \<Longrightarrow> \<exists>h. sa_status (se_answers env) h socket = Some st"
  by (auto simp: probe_def ask_def split: bool.splits)

lemma scan_one_hanging:
  assumes "none_hanging env s"
  shows "none_hanging env (scan_one env l s)"
proof -
  obtain sp evs where l: "l = (sp, evs)" by fastforce
  let ?x = "from_log sp evs"
  show ?thesis
  proof (cases "is_terminal (s_state ?x)")
    case True
    have "st_sessions (ss_state (load_session ?x s)) = bt_insert (s_id ?x) ?x (st_sessions (ss_state s))"
      by (simp add: load_session_def ss_state_def)
    note none_hanging_insert [OF assms disjI1 [OF True] this]
    moreover have "scan_one env l s = load_session ?x s" using True by (simp add: scan_one_def l Let_def)
    ultimately show ?thesis by simp
  next
    case False
    obtain r s1 where pr: "probe env (sp_socket sp) s = (r, s1)" by fastforce
    with probe_state [of env "sp_socket sp" s] have "core s1 = core s" by simp
    note st = core_state [OF this]
    from assms have h1: "none_hanging env s1" using none_hanging_state [OF st] by blast
    show ?thesis
    proof (cases r)
      case None
      let ?s = "tell (SRemoveSocket (sp_socket sp)) s1"
      have h2: "none_hanging env ?s" using h1 none_hanging_state [OF core_state [OF core_tell]] by blast
      have "none_hanging env (finalise_lost env (sp_id sp) ?s)"
      proof (cases rule: finalise_lost_cases [of env "sp_id sp" ?s])
        case 1
        then show ?thesis using h2 none_hanging_state core_state by blast
      next
        case (2 x s2)
        from none_hanging_insert [OF h2, of x "put_session x s2" "s_id x"] 2(3) core_state [OF 2(2)]
        show ?thesis by (simp only: 2(1) ss_state_put) simp
      qed
      with False pr None show ?thesis by (simp add: scan_one_def l Let_def)
    next
      case (Some st')
      let ?y = "?x\<lparr>s_state := Running, s_pid := Some (su_pid st'), s_clients := su_clients st'\<rparr>"
      have "answered env ?y" using probe_answer [of env "sp_socket sp" s st' s1] pr Some by (auto simp: answered_def)
      with none_hanging_insert [OF h1, of ?y "put_session ?y s1"] have "none_hanging env (put_session ?y s1)" by simp
      then have "none_hanging env (watch env (sp_id sp) (sp_socket sp) (put_session ?y s1))"
        using none_hanging_state [OF ss_state_ops [OF ss_ops_watch]] by blast
      with False pr Some show ?thesis by (simp add: scan_one_def l Let_def)
    qed
  qed
qed


section \<open>Witnesses\<close>

definition demo_sess_answers :: sess_answers where
  "demo_sess_answers =
     \<lparr>sa_is_file = (\<lambda>h f. True), sa_version = (\<lambda>h b. (None, [])), sa_global = (\<lambda>h k. None),
      sa_set_global = (\<lambda>h k v. Some True), sa_source = (\<lambda>h r k. None), sa_write_spec = (\<lambda>h sp. None),
      sa_spawn = (\<lambda>h d. CannotStart ''no such file''), sa_connect = (\<lambda>h sk. True),
      sa_status = (\<lambda>h sk. Some \<lparr>su_pid = 41, su_state = ''running'', su_clients = 0, su_started_at = ''1''\<rparr>),
      sa_stop = (\<lambda>h sk. True), sa_append = (\<lambda>h i ev. None),
      sa_load = (\<lambda>h. [(demo_spec, [\<lparr>ev_at = ''2'', ev_kind = EvStarted 7\<rparr>])]),
      sa_logs = (\<lambda>h. \<lparr>lr_entries = (\<lambda>d. None), lr_head = (\<lambda>n f. None), lr_parse = (\<lambda>l. None)\<rparr>),
      sa_now = (\<lambda>h. ''7''), sa_install = (\<lambda>h c. Inl ''no network''), sa_tools = (\<lambda>h. None)\<rparr>"

definition demo_sess_env :: sess_env where
  "demo_sess_env =
     \<lparr>se_answers = demo_sess_answers, se_var = (\<lambda>v. None), se_home = ''/home/w'', se_state_dir = ''/s'',
      se_run_dir = ''/r'', se_version = ''0'', se_session_text = (\<lambda>i. ''01S''), se_project_text = (\<lambda>i. ''01P'')\<rparr>"

definition demo_ready :: project where
  "demo_ready = demo_project\<lparr>pj_state := ProjReady\<rparr>"

definition demo_sess :: sess where
  "demo_sess =
     \<lparr>ss_ops = \<lparr>op_calls = [], op_runner = runner_new \<lparr>dm_state = state_load [demo_ready], dm_out = []\<rparr>, op_works = []\<rparr>,
      ss_calls = [], ss_untitled = [], ss_watches = []\<rparr>"

definition demo_create :: create_params where
  "demo_create =
     \<lparr>cp_project = 5, cp_identity = Some \<lparr>gi_name = ''me'', gi_email = ''me@w''\<rparr>, cp_resume = False,
      cp_resume_from = None, cp_kind = Shell\<rparr>"

definition demo_written :: session_spec where
  "demo_written =
     \<lparr>sp_id = 9, sp_project_id = 5, sp_harness = SHELL_HARNESS, sp_workspace = pj_workspace demo_ready,
      sp_socket = session_socket ''/r'' ''01S'', sp_argv = [''/usr/bin/zsh'', ''-l''],
      sp_env = la_env (shell_launch None (pj_workspace demo_ready) ''/home/w''), sp_created_at = ''7'',
      sp_willie_version = ''0'', sp_resumed_from = None, sp_kind = Shell,
      sp_capabilities = claude_default_capabilities\<rparr>"

lemma demo_resolve: "resolve claude_default_capabilities sandbox_profile_default ''/home/w'' = Inr claude_default_capabilities"
  by (simp add: resolve_def sandbox_profile_default_def unwrap_or_def claude_default_capabilities_def)

lemma demo_cleared: "create_checks demo_sess_env demo_create demo_sess =
    (Inr (demo_ready, claude_default_capabilities, Fresh, None), demo_sess)"
  unfolding create_checks_Inr cleared_def
  by (simp add: demo_resolve demo_sess_env_def demo_create_def demo_sess_def ss_state_def runner_new_def
      state_load_def demo_ready_def demo_project_def bt_get_def is_busy_def resume_decision_def)

lemma demo_identity: "identity_ensure demo_sess_answers (Some i) source s =
    (Inr (), s\<lparr>ss_calls := ss_calls s @ [SGlobalGet ''user.name'', SGlobalSet ''user.name'' (gi_name i), SGlobalSet ''user.email'' (gi_email i)]\<rparr>)"
  by (simp add: identity_ensure_def read_identity_def global_config_def config_value_def write_identity_def
      set_global_def ask_def andthen_def ensure_that_def demo_sess_answers_def Let_def)

lemma demo_asked: "SWriteSpec demo_written \<in> set (asked demo_sess (snd (create demo_sess_env 9 demo_create demo_sess)))"
proof -
  have parts: "se_answers demo_sess_env = demo_sess_answers" "se_var demo_sess_env v = None"
    "se_home demo_sess_env = ''/home/w''" "cp_kind demo_create = Shell" "ss_calls demo_sess = []"
    "cp_identity demo_create = Some \<lparr>gi_name = ''me'', gi_email = ''me@w''\<rparr>"
    "sa_is_file demo_sess_answers h f" "sa_write_spec demo_sess_answers h sp = None"
    "sa_spawn demo_sess_answers h d = CannotStart ''no such file''" "sa_now demo_sess_answers h = ''7''"
    "spec_of demo_sess_env 9 Shell demo_ready claude_default_capabilities None
       (shell_launch None (pj_workspace demo_ready) ''/home/w'') SHELL_HARNESS s = demo_written" for v h f sp d s
    by (simp_all add: demo_sess_env_def demo_create_def demo_sess_answers_def demo_sess_def spec_of_def
        demo_written_def demo_ready_def demo_project_def shell_launch_def Let_def)
  show ?thesis
    by (simp add: create_def demo_cleared andthen_def create_launch_def ask_def parts ensure_that_def
        demo_identity write_spec_def create_spawn_def spawn_supervisor_def settle_def tell_def asked_def
        put_session_def Let_def)
qed

theorem create_guarded_witness:
  "\<exists>p caps mode prev. cleared demo_sess_env demo_create demo_sess p caps mode prev
     \<and> carries p caps prev (SWriteSpec demo_written)"
  by (rule create_guarded [OF demo_asked])

lemma demo_scan: "ss_get (scan demo_sess_env demo_sess) 1 =
    Some ((from_log demo_spec [\<lparr>ev_at = ''2'', ev_kind = EvStarted 7\<rparr>])\<lparr>s_state := Running, s_pid := Some 41, s_clients := 0\<rparr>)"
proof -
  have parts: "se_answers demo_sess_env = demo_sess_answers" "sa_connect demo_sess_answers h sk"
    "sa_load demo_sess_answers h = [(demo_spec, [\<lparr>ev_at = ''2'', ev_kind = EvStarted 7\<rparr>])]"
    "sa_status demo_sess_answers h sk = Some \<lparr>su_pid = 41, su_state = ''running'', su_clients = 0, su_started_at = ''1''\<rparr>"
    "sp_id demo_spec = 1" for h sk
    by (simp_all add: demo_sess_env_def demo_sess_answers_def demo_spec_def)
  have st: "ss_state (s\<lparr>ss_calls := cs\<rparr>) = ss_state s" "ss_state (s\<lparr>ss_watches := ws\<rparr>) = ss_state s" for s cs ws
    by (simp_all add: ss_state_def)
  have "\<not> is_terminal (s_state (from_log demo_spec [\<lparr>ev_at = ''2'', ev_kind = EvStarted 7\<rparr>]))"
    by (simp add: from_log_def apply_event_def session_init_def)
  then show ?thesis
    by (simp add: scan_def scan_one_def probe_def watch_def ask_def parts ss_get_def st bt_get_insert Let_def)
qed


end
