(* ===== verification/Daemon_System.thy ===== *)
theory Daemon_System
  imports Project_System Session_Guard
begin

text \<open>
  The daemon as a whole: the project and the session requests, the job threads, the threads that watch
  supervisors, over one mirror. One dispatcher serves the requests, so each is one step; the threads'
  steps come between them in any order. It starts over the projects on disk and scans the session
  directories before it serves.

  Shown: no removal job that has yet to run is about a project with an open session, and every session
  opened since the start works in the workspace of a registered project.
\<close>

section \<open>Steps\<close>

record daemon_env =
  de_ops :: op_env
  de_sess :: sess_env

definition on_ops :: "(ops \<Rightarrow> ops) \<Rightarrow> sess \<Rightarrow> sess" where
  "on_ops f s = s\<lparr>ss_ops := f (ss_ops s)\<rparr>"

text \<open>A step of the runner that is none of the sessions'; looking around is a step of its own.\<close>

fun writes_session :: "job_event \<Rightarrow> bool" where
  "writes_session (Elsewhere (PutSession x)) = True"
| "writes_session _ = False"

inductive daemon_step :: "daemon_env \<Rightarrow> sess \<Rightarrow> sess \<Rightarrow> bool" for env where
  request: "is_fresh fr (ss_ops s) \<Longrightarrow> daemon_step env s (on_ops (serve (de_ops env) fr rq) s)"
| run: "t \<in> set (rn_threads (op_runner (ss_ops s))) \<Longrightarrow> jt_phase t = Working False \<Longrightarrow>
     (jt_id t, w) \<in> set (op_works (ss_ops s)) \<Longrightarrow>
     daemon_step env s (on_ops (run_thread (de_ops env) t w) s)"
| skip: "t \<in> set (rn_threads (op_runner (ss_ops s))) \<Longrightarrow> jt_phase t = Working True \<Longrightarrow>
     daemon_step env s (on_ops (end_work t (Inl cancelled_outcome)) s)"
| runner: "job_step (op_runner (ss_ops s)) e r \<Longrightarrow> beside (rn_threads (op_runner (ss_ops s))) e \<Longrightarrow>
     \<not> writes_session e \<Longrightarrow> daemon_step env s (on_ops (\<lambda>o'. o'\<lparr>op_runner := r\<rparr>) s)"
| create: "ss_get s i = None \<Longrightarrow> daemon_step env s (snd (create (de_sess env) i params s))"
| stop: "daemon_step env s (snd (stop_session (de_sess env) i s))"
| list: "daemon_step env s (snd (list_sessions (de_sess env) s))"
| rename: "daemon_step env s (snd (rename_session (de_sess env) i label s))"
| event: "(i, socket) \<in> set (ss_watches s) \<Longrightarrow> daemon_step env s (fold_event i ev s)"
| looks: "quiet (ss_ops s) (ss_ops s') \<Longrightarrow> ss_watches s' = ss_watches s \<Longrightarrow> daemon_step env s s'"
| over: "(i, socket) \<in> set (ss_watches s) \<Longrightarrow> daemon_step env s (watch_ends (de_sess env) i socket s)"

definition daemon_start :: "daemon_env \<Rightarrow> project list \<Rightarrow> sess" where
  "daemon_start env ps =
     scan (de_sess env)
       \<lparr>ss_ops = ops_new (state_load ps), ss_calls = [], ss_untitled = [], ss_watches = []\<rparr>"

inductive daemon_reach :: "daemon_env \<Rightarrow> project list \<Rightarrow> sess \<Rightarrow> bool" for env ps where
  start: "daemon_reach env ps (daemon_start env ps)"
| step: "daemon_reach env ps s \<Longrightarrow> daemon_step env s s' \<Longrightarrow> daemon_reach env ps s'"

section \<open>What is to be shown\<close>

definition open_on :: "sess \<Rightarrow> project_id \<Rightarrow> bool" where
  "open_on s p \<longleftrightarrow> (\<exists>i x. ss_get s i = Some x \<and> is_live (s_state x) \<and> s_project_id x = p)"

definition spared :: "sess \<Rightarrow> bool" where
  "spared s \<longleftrightarrow> (\<forall>(j, w) \<in> set (op_works (ss_ops s)). is_remove w \<longrightarrow> \<not> open_on s (pj_id (work_project w)))"

definition homed :: "session_id set \<Rightarrow> sess \<Rightarrow> bool" where
  "homed old s \<longleftrightarrow>
     (\<forall>i x. ss_get s i = Some x \<longrightarrow> is_live (s_state x) \<longrightarrow> i \<notin> old \<longrightarrow>
        (\<exists>p. bt_get (op_projects (ss_ops s)) (s_project_id x) = Some p \<and> s_workspace x = pj_workspace p))"

section \<open>The project side leaves the sessions alone\<close>

definition op_sessions :: "ops \<Rightarrow> (session_id, session) btree" where
  "op_sessions o' = st_sessions (dm_state (rn_daemon (op_runner o')))"

definition kept :: "(project_id, project) btree \<Rightarrow> (project_id, project) btree \<Rightarrow> bool" where
  "kept m m' \<longleftrightarrow> (\<forall>i p. bt_get m i = Some p \<longrightarrow> (\<exists>q. bt_get m' i = Some q \<and> place q = place p))"

definition idle :: "ops \<Rightarrow> project_id \<Rightarrow> bool" where
  "idle o' i \<longleftrightarrow> live_session_ids_for i (dm_state (rn_daemon (op_runner o'))) = []"

text \<open>A request writes no session, drops and moves no project, and submits a removal only for a project
  without open sessions.\<close>

definition apart_from_sessions :: "ops \<Rightarrow> ops \<Rightarrow> bool" where
  "apart_from_sessions o1 o2 \<longleftrightarrow>
     op_sessions o2 = op_sessions o1 \<and> kept (op_projects o1) (op_projects o2)
     \<and> (\<forall>(j, w) \<in> set (op_works o2). (j, w) \<in> set (op_works o1) \<or> (is_remove w \<longrightarrow> idle o1 (pj_id (work_project w))))"

lemma kept_refl: "kept m m"
  by (simp add: kept_def)

lemma quiet_apart: "quiet o1 o2 \<Longrightarrow> apart_from_sessions o1 o2"
  by (auto simp: apart_from_sessions_def quiet_def op_sessions_def op_projects_def kept_def)

lemma idle_quiet: "quiet o1 o2 \<Longrightarrow> idle o2 i = idle o1 i"
  by (simp add: idle_def quiet_def)

lemma submit_sessions:
  "st_sessions (dm_state (rn_daemon (snd (submit i kd p now r)))) = st_sessions (dm_state (rn_daemon r))"
  by (simp add: submit_def spawn_job_def Let_def emit_job_def emit_is_event client_event_def)

lemma apart_submit:
  assumes "apart_from_sessions o1 o2" and "is_remove w \<longrightarrow> idle o1 (pj_id (work_project w))"
  shows "apart_from_sessions o1 (snd (submit_work j kd now w o2))"
proof -
  show ?thesis
  proof (cases "pj_id (work_project w) \<in> rn_busy (op_runner o2)")
    case True
    then have "snd (submit_work j kd now w o2) = o2"
      by (cases o2) (simp add: submit_work_def submit_def case_unit_Unity)
    with assms(1) show ?thesis by simp
  next
    case False
    let ?o = "snd (submit_work j kd now w o2)"
    from False have "?o = o2\<lparr>op_runner := snd (submit j kd (pj_id (work_project w)) now (op_runner o2)),
        op_works := (j, w) # op_works o2\<rparr>"
      by (simp add: submit_work_def submit_def)
    then have "op_sessions ?o = op_sessions o2" "op_projects ?o = op_projects o2" "op_works ?o = (j, w) # op_works o2"
      by (simp_all add: op_sessions_def op_projects_def submit_daemon submit_sessions)
    with assms show ?thesis by (auto simp: apart_from_sessions_def)
  qed
qed

lemma apart_put:
  assumes "quiet o1 o2"
    and "\<And>p. bt_get (op_projects o1) (pj_id q) = Some p \<Longrightarrow> place q = place p"
  shows "apart_from_sessions o1 (put_project q o2)"
proof -
  have "op_sessions (put_project q o2) = op_sessions o2" "op_works (put_project q o2) = op_works o2"
    "op_projects (put_project q o2) = bt_insert (pj_id q) q (op_projects o2)"
    by (simp_all add: op_sessions_def op_projects_def put_project_def emit_is_event client_event_def)
  with assms quiet_projects [OF assms(1)] show ?thesis
    by (auto simp: apart_from_sessions_def quiet_def op_sessions_def kept_def bt_get_insert)
qed

lemma apart_submits:
  assumes "filed pj_id (op_projects o1)"
  shows "apart_from_sessions o1 (snd (op_sync ev fr i o1))" "apart_from_sessions o1 (snd (op_update ev fr i o1))"
    "apart_from_sessions o1 (snd (op_remove ev fr i del force o1))"
    "apart_from_sessions o1 (snd (op_relocate ev fr i path o1))"
proof -
  note begins = after_andthen [where ?s0.0 = o1 and F = "apart_from_sessions o1"]
    after_case [where ?s0.0 = o1 and F = "apart_from_sessions o1"]
  show "apart_from_sessions o1 (snd (op_sync ev fr i o1))"
    unfolding op_sync_def
    by (intro begins; (simp add: quiet_apart quiet_steps; fail)?) (simp add: apart_submit quiet_apart)
  show "apart_from_sessions o1 (snd (op_update ev fr i o1))"
    unfolding op_update_def
    by (intro begins; (simp add: quiet_apart quiet_steps; fail)?) (simp add: apart_submit quiet_apart)
  show "apart_from_sessions o1 (snd (op_relocate ev fr i path o1))"
    unfolding op_relocate_def
    by (intro begins; (simp add: quiet_apart quiet_steps; fail)?) (simp add: apart_submit quiet_apart)
  show "apart_from_sessions o1 (snd (op_remove ev fr i del force o1))"
    unfolding op_remove_def
  proof (rule begins(1))
    fix p o2 assume got: "get_project ev i o1 = (Inr p, o2)" and quiet: "quiet o1 o2"
    from got have "bt_get (op_projects o1) i = Some p" by (simp add: get_project_def split: option.splits)
    with assms have id: "pj_id p = i" by (simp add: filed_def)
    show "apart_from_sessions o1 (snd (andthen
        (refuse_unless (live_session_ids_for i (dm_state (rn_daemon (op_runner o2))) = [])
          (coded ''sessions_running'' ''the project has a running session'') o2)
        (\<lambda>_ s. submit_work (fr_job fr) JobRemove (fr_now fr) (WRemove (pj_workspace p) del force p) s)))"
    proof (rule begins(1))
      fix a o3
      assume "refuse_unless (live_session_ids_for i (dm_state (rn_daemon (op_runner o2))) = [])
          (coded ''sessions_running'' ''the project has a running session'') o2 = (Inr a, o3)"
      then have "idle o2 i" "o3 = o2" by (simp_all add: refuse_unless_Inr idle_def)
      with quiet idle_quiet [OF quiet] id show "apart_from_sessions o1
          (snd (submit_work (fr_job fr) JobRemove (fr_now fr) (WRemove (pj_workspace p) del force p) o3))"
        by (simp add: apart_submit quiet_apart)
    qed (simp_all add: quiet_apart quiet_steps quiet)
  qed (simp_all add: quiet_apart quiet_steps)
qed

lemma apart_save:
  assumes "quiet o1 o2" and "\<And>p. bt_get (op_projects o1) (pj_id q) = Some p \<Longrightarrow> place q = place p"
  shows "apart_from_sessions o1 (snd (save_project ev q o2))"
  unfolding save_project_def
proof (rule after_andthen [where ?s0.0 = o1])
  have q: "quiet o1 (snd (with_ctx (\<lambda>cx. (an_save (ev_answers ev) (cx_calls cx) q, called (CSave q) cx)) o2))"
    using assms(1) by (simp add: quiet_steps)
  then show "quiet o1 (snd (case with_ctx (\<lambda>cx. (an_save (ev_answers ev) (cx_calls cx) q, called (CSave q) cx)) o2 of
      (Some e, s) \<Rightarrow> (Inl (state_write_failed e), s) | (None, s) \<Rightarrow> (Inr (), s)))"
    by (auto split: prod.split option.split)
  fix o3 assume "quiet o1 o3"
  with assms(2) show "apart_from_sessions o1 (snd (Inr q, put_project q o3))" by (simp add: apart_put)
qed (simp add: quiet_apart)

lemma apart_edits:
  assumes "filed pj_id (op_projects o1)"
  shows "apart_from_sessions o1 (snd (op_rename ev i name o1))"
    and "apart_from_sessions o1 (snd (op_set_sandbox ev i profile o1))"
proof -
  have own: "pj_id p = i \<and> bt_get (op_projects o1) i = Some p" if "get_project ev i o1 = (Inr p, o2)" for p o2
    using that assms by (auto simp: get_project_def filed_def split: option.splits)
  show "apart_from_sessions o1 (snd (op_rename ev i name o1))"
    unfolding op_rename_def
    by (rule after_andthen [where ?s0.0 = o1]; (simp add: quiet_apart quiet_steps; fail)?)
       (rule apart_save, assumption, drule own, simp add: place_def)
  show "apart_from_sessions o1 (snd (op_set_sandbox ev i profile o1))"
    unfolding op_set_sandbox_def
  proof (rule after_andthen [where ?s0.0 = o1])
    fix p o2 assume got: "get_project ev i o1 = (Inr p, o2)" and quiet: "quiet o1 o2"
    have "apart_from_sessions o1 (snd (save_project ev (p\<lparr>pj_sandbox := profile, pj_sandbox_problem := None\<rparr>) o2))"
      by (rule apart_save [OF quiet]) (use own [OF got] in \<open>simp add: place_def\<close>)
    with quiet show "apart_from_sessions o1 (snd (case resolve claude_default_capabilities profile (ev_home ev) of
        Inl e \<Rightarrow> (Inl (cap_op_error e), o2)
      | Inr caps \<Rightarrow> save_project ev (p\<lparr>pj_sandbox := profile, pj_sandbox_problem := None\<rparr>) o2))"
      by (simp add: quiet_apart split: sum.split)
  qed (simp_all add: quiet_apart quiet_steps)
qed

lemma apart_add:
  assumes "is_fresh fr o1"
  shows "apart_from_sessions o1 (snd (op_add ev fr path name o1))"
proof -
  note begins = after_andthen [where ?s0.0 = o1 and F = "apart_from_sessions o1"]
    after_case [where ?s0.0 = o1 and F = "apart_from_sessions o1"]
  have ended: "apart_from_sessions o1
      (snd (andthen (submit_work (fr_job fr) kd now (WAdd src ws q) (put_project q o2)) (\<lambda>j s. (Inr (g j), s))))"
    if "quiet o1 o2" "pj_id q = fr_project fr" for kd now src ws q o2 and g :: "job_id \<Rightarrow> project_id \<times> job_id"
  proof -
    have "apart_from_sessions o1 (snd (submit_work (fr_job fr) kd now (WAdd src ws q) (put_project q o2)))"
      using assms that by (intro apart_submit apart_put) (simp_all add: is_fresh_def)
    then show ?thesis by (auto simp: andthen_def split: prod.split sum.split)
  qed
  show ?thesis
    unfolding op_add_def Let_def
    apply ((rule ended | rule begins); (simp add: quiet_apart quiet_steps; fail)?)+
    apply (erule quiet_trans, rule quiet_with_ctx, simp add: save_or_log_def)
    done
qed

lemma kept_edited: "edited {} S m m' \<Longrightarrow> kept m m'"
  unfolding edited_def kept_def by (metis empty_iff option.distinct(1) option.exhaust option.sel)

lemma apart_refresh:
  assumes "filed pj_id (op_projects o1)"
  shows "apart_from_sessions o1 (op_refresh ev o1)"
proof -
  obtain ps o2 where w: "with_ctx (compute_presence (ev_answers ev) (map (\<lambda>(i, p). (i, pj_source p)) (op_projects o1))) o1 = (ps, o2)"
    by fastforce
  have "quiet o1 (snd (with_ctx (compute_presence (ev_answers ev) (map (\<lambda>(i, p). (i, pj_source p)) (op_projects o1))) o1))"
    by (rule quiet_with_ctx [OF compute_presence_daemon])
  then have "quiet o1 o2" by (simp only: w snd_conv)
  then have same: "op_runner o2 = op_runner o1" "op_works o2 = op_works o1" by (simp_all add: quiet_def)
  have sess: "st_sessions (apply_presence ps st) = st_sessions st" for st
    by (induction ps st rule: apply_presence.induct) (auto split: option.split)
  let ?o = "op_refresh ev o1" and ?st = "dm_state (rn_daemon (op_runner o1))"
  have o3: "?o = o2\<lparr>op_runner := (op_runner o2)\<lparr>rn_daemon := mutate (rn_daemon (op_runner o2)) (Presence ps)\<rparr>\<rparr>"
    by (simp add: op_refresh_def Let_def w)
  have "op_sessions ?o = op_sessions o1" "op_works ?o = op_works o1"
    "op_projects ?o = st_projects (apply_presence ps ?st)"
    unfolding o3 by (simp_all add: op_sessions_def op_projects_def same sess)
  moreover have "kept (op_projects o1) (st_projects (apply_presence ps ?st))"
    using kept_edited [OF edited_presence] assms unfolding op_projects_def by blast
  ultimately show ?thesis unfolding apart_from_sessions_def by auto
qed

lemma apart_serve:
  assumes "filed pj_id (op_projects o1)" and "is_fresh fr o1"
  shows "apart_from_sessions o1 (serve ev fr rq o1)"
  using assms by (cases rq) (simp_all add: apart_submits apart_edits apart_add apart_refresh)

text \<open>A job writes no session, and only a removal drops a project: its own.\<close>

interpretation sessions_kept: mirror_property
  "\<lambda>cx. st_sessions (dm_state (cx_daemon cx)) = m" "\<lambda>q. True" "\<lambda>i. True" for m
  by unfold_locales (simp_all add: called_def emit_is_event client_event_def)

lemma run_thread_sessions: "op_sessions (run_thread ev t w o1) = op_sessions o1"
proof -
  obtain out cx where run: "run_work (ev_answers ev) w (op_ctx o1) = (out, cx)" by fastforce
  have "st_sessions (dm_state (cx_daemon (snd (run_work (ev_answers ev) w (op_ctx o1))))) = op_sessions o1"
    by (rule sessions_kept.holds_run_work) (simp_all add: op_ctx_def op_sessions_def)
  then show ?thesis
    by (simp add: run_thread_def with_ctx_def run end_work_def op_sessions_def set_phase_def cleanup_def
        split: option.split)
qed

lemma end_work_same:
  "op_sessions (end_work t out o1) = op_sessions o1" "op_projects (end_work t out o1) = op_projects o1"
  "set (op_works (end_work t out o1)) \<subseteq> set (op_works o1)"
  by (auto simp: end_work_def op_sessions_def op_projects_def set_phase_def cleanup_def split: option.split)

lemma run_thread_works: "set (op_works (run_thread ev t w o1)) \<subseteq> set (op_works o1)"
  by (auto simp: run_thread_def with_ctx_def end_work_def split: prod.split)

lemma run_thread_keeps:
  assumes "ops_ok ev o1" and "(jt_id t, w) \<in> set (op_works o1)"
    and "bt_get (op_projects o1) i = Some p" and "\<not> (is_remove w \<and> i = pj_id (work_project w))"
  shows "\<exists>q. bt_get (op_projects (run_thread ev t w o1)) i = Some q \<and> place q = place p"
proof -
  obtain out cx where run: "run_work (ev_answers ev) w (op_ctx o1) = (out, cx)" by fastforce
  let ?i = "pj_id (work_project w)" and ?D = "if is_remove w then {pj_id (work_project w)} else {}"
  from assms(1,2) obtain r where r: "bt_get (op_projects o1) ?i = Some r" "place r = place (work_project w)"
    unfolding ops_ok_def works_ok_def by fastforce
  have m: "mirrored (op_ctx o1) = op_projects o1" by (simp add: mirrored_def op_ctx_def op_projects_def)
  have "filed pj_id (op_projects o1)" using assms(1) by (simp add: ops_ok_def well_placed_def)
  then have "edited ?D UNIV (op_projects o1) (mirrored (snd (run_work (ev_answers ev) w (op_ctx o1))))"
    by (intro editing.holds_run_work) (use r in \<open>auto simp: m place_def edited_refl\<close>)
  moreover have "op_projects (run_thread ev t w o1) = mirrored cx"
    by (simp add: run_thread_def with_ctx_def run end_work_def op_projects_def mirrored_def set_phase_def
        cleanup_def split: option.split)
  ultimately have e: "edited ?D UNIV (op_projects o1) (op_projects (run_thread ev t w o1))" by (simp add: run)
  have "i \<notin> ?D" using assms(4) by auto
  with e assms(3) obtain q where "bt_get (op_projects (run_thread ev t w o1)) i = Some q"
    unfolding edited_def by (metis option.distinct(1) option.exhaust)
  moreover from this e assms(3) have "place q = place p" unfolding edited_def by fastforce
  ultimately show ?thesis by blast
qed

lemma runner_same:
  assumes "job_step r e r'" and "beside (rn_threads r) e" and "\<not> writes_session e"
  shows "st_sessions (dm_state (rn_daemon r')) = st_sessions (dm_state (rn_daemon r))"
  using assms(1)
proof cases
  case (elsewhere m)
  with assms(2,3) show ?thesis by (cases m) simp_all
qed (use assms in \<open>simp_all add: submit_def submit_global_def spawn_job_def emit_job_def emit_is_event
      client_event_def Let_def set_phase_def cleanup_def trip_def cancel_job_def shutdown_jobs_def split: option.split\<close>)

section \<open>The session side leaves the projects alone\<close>

text \<open>The records of projects and jobs, the runner and the works in flight are as before; a session that
  is open was open before, in the same place.\<close>

definition beside_projects :: "ops \<Rightarrow> ops \<Rightarrow> bool" where
  "beside_projects o1 o2 \<longleftrightarrow>
     op_works o2 = op_works o1 \<and> op_projects o2 = op_projects o1
     \<and> (\<exists>d. op_runner o2 = (op_runner o1)\<lparr>rn_daemon := d\<rparr>)"

definition opens_none :: "sess \<Rightarrow> sess \<Rightarrow> bool" where
  "opens_none s s' \<longleftrightarrow>
     beside_projects (ss_ops s) (ss_ops s')
     \<and> (\<forall>i x'. ss_get s' i = Some x' \<longrightarrow> is_live (s_state x') \<longrightarrow>
          (\<exists>x. ss_get s i = Some x \<and> is_live (s_state x) \<and> s_project_id x' = s_project_id x
               \<and> s_workspace x' = s_workspace x))"

lemma beside_refl [simp]: "beside_projects o1 o1"
  by (auto simp: beside_projects_def intro: exI [of _ "rn_daemon (op_runner o1)"])

lemma beside_trans: "beside_projects o1 o2 \<Longrightarrow> beside_projects o2 o3 \<Longrightarrow> beside_projects o1 o3"
  by (auto simp: beside_projects_def)

lemma opens_refl: "ss_ops s' = ss_ops s \<Longrightarrow> opens_none s s'"
  by (auto simp: opens_none_def ss_get_def ss_state_def)

lemma opens_trans: "opens_none s s1 \<Longrightarrow> opens_none s1 s2 \<Longrightarrow> opens_none s s2"
proof -
  assume a: "opens_none s s1" "opens_none s1 s2"
  have "\<exists>x. ss_get s i = Some x \<and> is_live (s_state x) \<and> s_project_id z = s_project_id x \<and> s_workspace z = s_workspace x"
    if z: "ss_get s2 i = Some z" "is_live (s_state z)" for i z
  proof -
    from a(2) z obtain y where y: "ss_get s1 i = Some y" "is_live (s_state y)" "s_project_id z = s_project_id y"
      "s_workspace z = s_workspace y" unfolding opens_none_def by blast
    with a(1) show ?thesis unfolding opens_none_def y(3,4) by blast
  qed
  moreover have "beside_projects (ss_ops s) (ss_ops s2)"
    using a beside_trans unfolding opens_none_def by blast
  ultimately show ?thesis unfolding opens_none_def by blast
qed

lemma beside_put: "beside_projects (ss_ops s) (ss_ops (put_session x s))"
  by (auto simp: beside_projects_def put_session_def ss_emit_def op_projects_def emit_is_event client_event_def)

lemma ops_ok_beside: "beside_projects o1 o2 \<Longrightarrow> ops_ok ev o2 = ops_ok ev o1"
  by (auto simp: beside_projects_def ops_ok_def works_ok_def)

lemma ss_get_put [simp]: "ss_get (put_session x s) i = (if i = s_id x then Some x else ss_get s i)"
  by (simp add: ss_get_def bt_get_insert)

lemma opens_put:
  assumes "is_live (s_state x') \<Longrightarrow> \<exists>x. ss_get s (s_id x') = Some x \<and> is_live (s_state x)
      \<and> s_project_id x' = s_project_id x \<and> s_workspace x' = s_workspace x"
  shows "opens_none s (put_session x' s)"
  using assms by (auto simp: opens_none_def beside_put)

text \<open>The records are filed by their ids, and a watched session is known and no longer being created.\<close>

definition mirror_fit :: "sess \<Rightarrow> bool" where
  "mirror_fit s \<longleftrightarrow>
     filed s_id (st_sessions (ss_state s))
     \<and> (\<forall>(i, socket) \<in> set (ss_watches s). \<exists>x. ss_get s i = Some x \<and> s_state x \<noteq> Creating)"

lemma mirror_fit_core: "core s' = core s \<Longrightarrow> mirror_fit s' = mirror_fit s"
  by (simp add: mirror_fit_def core_def ss_get_def ss_state_def)

lemma mirror_fit_put:
  assumes "mirror_fit s"
    and "s_state x = Creating \<Longrightarrow> \<exists>y. ss_get s (s_id x) = Some y \<and> s_state y = Creating"
  shows "mirror_fit (put_session x s)"
proof -
  have w: "ss_watches (put_session x s) = ss_watches s" by (simp add: put_session_def ss_emit_def)
  have "filed s_id (st_sessions (ss_state (put_session x s)))"
    using assms(1) by (simp add: mirror_fit_def filed_insert)
  moreover have "\<exists>y. ss_get (put_session x s) i = Some y \<and> s_state y \<noteq> Creating"
    if "(i, socket) \<in> set (ss_watches s)" for i socket
  proof -
    from assms(1) that obtain y where y: "ss_get s i = Some y" "s_state y \<noteq> Creating"
      unfolding mirror_fit_def by blast
    show ?thesis
    proof (cases "i = s_id x")
      case True
      with assms(2) y show ?thesis by auto
    qed (use y in simp)
  qed
  ultimately show ?thesis unfolding mirror_fit_def w by blast
qed

lemma mirror_fit_watch:
  assumes "mirror_fit s" and "ss_get s i = Some x" and "s_state x \<noteq> Creating"
  shows "mirror_fit (watch env i socket s)"
  using assms by (auto simp: mirror_fit_def watch_def ask_def ss_get_def ss_state_def split: bool.split)

lemma mirror_fit_id: "mirror_fit s \<Longrightarrow> ss_get s i = Some x \<Longrightarrow> s_id x = i"
  by (simp add: mirror_fit_def filed_def ss_get_def)

definition sound :: "sess \<Rightarrow> sess \<Rightarrow> bool" where
  "sound s s' \<longleftrightarrow> mirror_fit s' \<and> opens_none s s'"

lemma sound_core: "mirror_fit s \<Longrightarrow> core s' = core s \<Longrightarrow> sound s s'"
  unfolding sound_def using mirror_fit_core [of s' s] opens_refl [of s' s] by (simp add: core_def)

lemma sound_trans: "sound s s1 \<Longrightarrow> sound s1 s2 \<Longrightarrow> sound s s2"
  unfolding sound_def by (blast intro: opens_trans)

text \<open>Writing prior a session whose state is the one it had, or is closer to the end.\<close>

lemma sound_put_old:
  assumes "mirror_fit s" and "ss_get s i = Some y" and "s_id x = i" and "s_project_id x = s_project_id y"
    and "s_workspace x = s_workspace y" and "is_live (s_state x) \<longrightarrow> is_live (s_state y)"
    and "s_state x = Creating \<longrightarrow> s_state y = Creating"
  shows "sound s (put_session x s)"
  unfolding sound_def using assms by (auto intro!: mirror_fit_put opens_put)

lemma sound_over:
  assumes "mirror_fit s" and "is_terminal (s_state x)"
  shows "sound s (put_session x s)"
proof -
  have "\<not> is_live (s_state x)" "s_state x \<noteq> Creating" using assms(2) by (cases "s_state x"; simp)+
  with assms(1) show ?thesis unfolding sound_def by (auto intro!: mirror_fit_put opens_put)
qed

lemma sound_after_core:
  assumes "mirror_fit s" and "core s1 = core s" and "mirror_fit s1 \<Longrightarrow> sound s1 s'"
  shows "sound s s'"
  using assms mirror_fit_core [OF assms(2)] sound_core [OF assms(1,2)] by (blast intro: sound_trans)

lemma sound_finalise:
  assumes "mirror_fit s"
  shows "sound s (finalise_lost env i s)"
proof (cases rule: finalise_lost_cases [of env i s])
  case 1
  with assms show ?thesis by (blast intro: sound_core)
next
  case (2 x s1)
  show ?thesis unfolding 2(1) by (rule sound_after_core [OF assms 2(2)]) (rule sound_over, assumption, rule 2(3))
qed

lemma sound_watch_ends:
  assumes "mirror_fit s"
  shows "sound s (watch_ends env i socket s)"
proof -
  let ?s = "s\<lparr>ss_watches := remove1 (i, socket) (ss_watches s)\<rparr>"
  have "ss_get ?s = ss_get s" by (simp add: ss_get_def ss_state_def fun_eq_iff)
  moreover have "ss_state ?s = ss_state s" by (simp add: ss_state_def)
  moreover have "set (ss_watches ?s) \<subseteq> set (ss_watches s)" by (simp add: set_remove1_subset)
  ultimately have "mirror_fit ?s" using assms unfolding mirror_fit_def by auto
  then have start: "sound s ?s" by (auto simp: sound_def intro: opens_refl)
  have tells: "sound s1 (tell c s1)" if "mirror_fit s1" for c s1 using that by (simp add: sound_core)
  have "sound ?s (watch_ends env i socket s)"
  proof (cases "case ss_get ?s i of Some x \<Rightarrow> is_terminal (s_state x) | None \<Rightarrow> False")
    case True
    then have "watch_ends env i socket s = tell (SNotify (SessionExited i)) ?s"
      by (simp add: watch_ends_def Let_def)
    with tells \<open>mirror_fit ?s\<close> show ?thesis by simp
  next
    case False
    obtain r s1 where pr: "probe env socket ?s = (r, s1)" by fastforce
    with probe_state [of env socket ?s] have c: "core s1 = core ?s" by simp
    show ?thesis
    proof (rule sound_after_core [OF \<open>mirror_fit ?s\<close> c])
      assume fit: "mirror_fit s1"
      show "sound s1 (watch_ends env i socket s)"
      proof (cases r)
        case None
        with False pr have "watch_ends env i socket s = tell (SNotify (SessionExited i)) (finalise_lost env i s1)"
          by (simp add: watch_ends_def Let_def)
        moreover from sound_finalise [OF fit, of env i] have "sound s1 (finalise_lost env i s1)" .
        ultimately show ?thesis using tells sound_trans unfolding sound_def by metis
      next
        case (Some st)
        with False pr have "watch_ends env i socket s = s1" by (simp add: watch_ends_def Let_def)
        with fit show ?thesis by (simp add: sound_core)
      qed
    qed
  qed
  with start show ?thesis by (rule sound_trans)
qed

lemma apply_event_live:
  "s_state y \<noteq> Creating \<Longrightarrow> is_live (s_state (apply_event y ev)) \<Longrightarrow> is_live (s_state y)"
  "s_state y \<noteq> Creating \<Longrightarrow> s_state (apply_event y ev) \<noteq> Creating"
  by (cases "ev_kind ev"; cases "s_state y"; simp add: apply_event_def)+

lemma sound_event:
  assumes "mirror_fit s" and "(i, socket) \<in> set (ss_watches s)"
  shows "sound s (fold_event i ev s)"
proof -
  from assms obtain y where y: "ss_get s i = Some y" "s_state y \<noteq> Creating" unfolding mirror_fit_def by blast
  have "sound s (put_session (apply_event y ev) s)"
    using assms(1) y mirror_fit_id [OF assms(1) y(1)] apply_event_live [OF y(2)] by (intro sound_put_old) auto
  with y show ?thesis by (simp add: fold_event_def)
qed

lemma rename_keeps_state: "s_state (apply_event y \<lparr>ev_at = t, ev_kind = EvRenamed l\<rparr>) = s_state y"
  by (simp add: apply_event_def)

lemma sound_rename:
  assumes "mirror_fit s"
  shows "sound s (snd (rename_session env i label s))"
proof -
  have put: "sound s (put_session (apply_event y \<lparr>ev_at = t, ev_kind = EvRenamed l\<rparr>) (s\<lparr>ss_calls := cs\<rparr>))"
    if "ss_get s i = Some y" for y t l cs
  proof (rule sound_after_core [OF assms])
    assume fit: "mirror_fit (s\<lparr>ss_calls := cs\<rparr>)"
    have y: "ss_get (s\<lparr>ss_calls := cs\<rparr>) i = Some y" using that by (simp add: ss_get_def ss_state_def)
    show "sound (s\<lparr>ss_calls := cs\<rparr>) (put_session (apply_event y \<lparr>ev_at = t, ev_kind = EvRenamed l\<rparr>) (s\<lparr>ss_calls := cs\<rparr>))"
      using mirror_fit_id [OF fit y] by (intro sound_put_old [OF fit y]) (simp_all add: rename_keeps_state)
  qed (simp add: core_def)
  have "core s' = core s \<Longrightarrow> sound s s'" for s' using sound_core [OF assms] by blast
  then show ?thesis
    unfolding rename_session_def
    by (auto simp: andthen_def ensure_that_def need_def ask_def Let_def core_def put
        split: option.split sum.split prod.split)
qed

lemma sound_stop: "mirror_fit s \<Longrightarrow> sound s (snd (stop_session env i s))"
  by (rule sound_core) (auto simp: stop_session_def Let_def core_def ask_def andthen_def ensure_that_def)

text \<open>Titles are written to sessions that are there.\<close>

lemma sound_title_one:
  assumes "mirror_fit s" and "ss_get s (fst c) \<noteq> None"
  shows "sound s (title_one env c s)" and "ss_get s i \<noteq> None \<Longrightarrow> ss_get (title_one env c s) i \<noteq> None"
proof -
  obtain j ws since fin where c: "c = (j, ws, since, fin)" by (cases c)
  obtain r s1 where asked: "ask (SReadTitle ws since)
      (\<lambda>h. first_prompt_for (sa_logs (se_answers env) h) (se_home env) ws since) s = (r, s1)" by fastforce
  then have core: "core s1 = core s" using core_ask by (metis snd_conv)
  then have get: "ss_get s1 = ss_get s" by (simp add: core_def ss_get_def ss_state_def fun_eq_iff)
  from assms(2) obtain y where y: "ss_get s1 j = Some y" by (auto simp: c get)
  have "sound s (title_one env c s) \<and> (ss_get s i \<noteq> None \<longrightarrow> ss_get (title_one env c s) i \<noteq> None)" for i
  proof (cases r)
    case None
    have "core (s1\<lparr>ss_untitled := j # ss_untitled s1\<rparr>) = core s1" by (simp add: core_def)
    moreover have "ss_get (s1\<lparr>ss_untitled := j # ss_untitled s1\<rparr>) = ss_get s1"
      by (simp add: ss_get_def ss_state_def fun_eq_iff)
    moreover have "title_one env c s = (if fin then s1\<lparr>ss_untitled := j # ss_untitled s1\<rparr> else s1)"
      using None asked by (simp add: title_one_def c)
    ultimately show ?thesis using core sound_core [OF assms(1)] get by simp
  next
    case (Some t)
    then have one: "title_one env c s = put_session (y\<lparr>s_title := Some t\<rparr>) s1"
      using asked y by (simp add: title_one_def c)
    have "sound s (put_session (y\<lparr>s_title := Some t\<rparr>) s1)"
    proof (rule sound_after_core [OF assms(1) core])
      assume "mirror_fit s1"
      with y show "sound s1 (put_session (y\<lparr>s_title := Some t\<rparr>) s1)"
        by (intro sound_put_old [where y = y and i = j]) (simp_all add: mirror_fit_id)
    qed
    with one get show ?thesis by simp
  qed
  then show "sound s (title_one env c s)" "ss_get s i \<noteq> None \<Longrightarrow> ss_get (title_one env c s) i \<noteq> None" by blast+
qed

lemma sound_titles:
  assumes "mirror_fit s" and "\<forall>c \<in> set cs. ss_get s (fst c) \<noteq> None"
  shows "sound s (foldl (\<lambda>s c. title_one env c s) s cs)"
  using assms
proof (induction cs arbitrary: s)
  case (Cons c cs)
  have first: "sound s (title_one env c s)" using Cons.prems by (intro sound_title_one) simp_all
  have "sound (title_one env c s) (foldl (\<lambda>s c. title_one env c s) (title_one env c s) cs)"
  proof (rule Cons.IH)
    show "mirror_fit (title_one env c s)" using first by (simp add: sound_def)
    show "\<forall>d \<in> set cs. ss_get (title_one env c s) (fst d) \<noteq> None"
      using Cons.prems sound_title_one(2) [of s c] by auto
  qed
  with first show ?case by (simp only: foldl.simps) (rule sound_trans)
qed (simp add: sound_core)

lemma sound_list:
  assumes "mirror_fit s"
  shows "sound s (snd (list_sessions env s))"
proof -
  have "ss_get s (s_id x) \<noteq> None" if "x \<in> set (bt_values (st_sessions (ss_state s)))" for x
  proof -
    from that obtain k where "(k, x) \<in> set (st_sessions (ss_state s))" unfolding bt_values_def by auto
    with assms have "ss_get s k = Some x" by (simp add: mirror_fit_def filed_def bt_entries_get ss_get_def)
    with mirror_fit_id [OF assms this] show ?thesis by simp
  qed
  then show ?thesis
    unfolding list_sessions_def title_untitled_def Let_def
    by (simp only: snd_conv) (rule sound_titles [OF assms], auto)
qed

section \<open>A create opens one session\<close>

lemma ss_watches_put [simp]: "ss_watches (put_session x s) = ss_watches s"
  by (simp add: put_session_def ss_emit_def)

text \<open>Recording one session and perhaps watching it.\<close>

definition records :: "session \<Rightarrow> sess \<Rightarrow> sess \<Rightarrow> bool" where
  "records x s s' \<longleftrightarrow>
     beside_projects (ss_ops s) (ss_ops s') \<and> (\<forall>i. ss_get s' i = (if i = s_id x then Some x else ss_get s i))
     \<and> (filed s_id (st_sessions (ss_state s)) \<longrightarrow> filed s_id (st_sessions (ss_state s')))
     \<and> fst ` set (ss_watches s') \<subseteq> insert (s_id x) (fst ` set (ss_watches s))"

lemma records_put: "records x s (put_session x s)"
  by (auto simp: records_def beside_put filed_insert)

lemma records_core: "records x s s1 \<Longrightarrow> core s2 = core s1 \<Longrightarrow> records x s s2"
  by (simp add: records_def core_def ss_get_def ss_state_def)

lemma records_again: "records y s s1 \<Longrightarrow> s_id y = s_id x \<Longrightarrow> records x s1 s2 \<Longrightarrow> records x s s2"
proof -
  have sets: "C \<subseteq> insert a B \<Longrightarrow> B \<subseteq> insert a A \<Longrightarrow> C \<subseteq> insert a A" for a :: session_id and A B C by blast
  assume "records y s s1" "s_id y = s_id x" "records x s1 s2"
  then show "records x s s2"
    unfolding records_def using beside_trans sets by (metis (no_types, lifting))
qed

lemma records_watch: "records x s s1 \<Longrightarrow> records x s (watch env (s_id x) socket s1)"
  by (auto simp: records_def watch_def ask_def ss_get_def ss_state_def split: bool.split)

lemma create_spawn_records:
  obtains x where "records x s (snd (create_spawn env sp dir s))" "s_id x = sp_id sp"
    "s_project_id x = sp_project_id sp" "s_workspace x = sp_workspace sp" "s_state x \<noteq> Creating"
proof -
  let ?x = "session_init sp"
  let ?s = "put_session ?x s"
  obtain r s1 where sp: "spawn_supervisor env dir ?s = (r, s1)" by fastforce
  then have "core s1 = core ?s" using core_spawn [of env dir ?s] by simp
  then have first: "records ?x s s1" using records_core [OF records_put] by blast
  have init: "s_id ?x = sp_id sp" "s_project_id ?x = sp_project_id sp" "s_workspace ?x = sp_workspace sp"
    by (simp_all add: session_init_def)
  have last: "records (apply_event ?x ev) s (put_session (apply_event ?x ev) s1)" for ev
    by (rule records_again [OF first _ records_put]) simp
  have tells: "core (tell c s2) = core s2" for c s2 by simp
  consider ev where "snd (create_spawn env sp dir s) = put_session (apply_event ?x ev) s1"
      "s_state (apply_event ?x ev) \<noteq> Creating"
    | ev c where "snd (create_spawn env sp dir s) =
        tell c (watch env (sp_id sp) (sp_socket sp) (put_session (apply_event ?x ev) s1))"
      "s_state (apply_event ?x ev) \<noteq> Creating"
  proof (cases r)
    case (Inl e)
    with sp have "snd (create_spawn env sp dir s) = put_session (apply_event ?x
        \<lparr>ev_at = sa_now (se_answers env) (ss_calls s1), ev_kind = EvFailed (oe_code e) (oe_message e)\<rparr>) s1"
      by (simp del: settled_event add: create_spawn_def settle_def Let_def)
    then show thesis by (rule that(1)) simp
  next
    case (Inr rd)
    show thesis
    proof (cases rd)
      case (ReadyOk pid)
      with sp Inr have "snd (create_spawn env sp dir s) =
          tell (SNotify (SessionStarted (sp_id sp) (sp_project_id sp)))
            (watch env (sp_id sp) (sp_socket sp) (put_session (apply_event ?x
              \<lparr>ev_at = sa_now (se_answers env) (ss_calls s1), ev_kind = EvStarted pid\<rparr>) s1))"
        by (simp del: settled_event add: create_spawn_def settle_def Let_def)
      then show thesis by (rule that(2)) simp
    next
      case (ReadyFail code words)
      with sp Inr have "snd (create_spawn env sp dir s) = put_session (apply_event ?x
          \<lparr>ev_at = sa_now (se_answers env) (ss_calls s1), ev_kind = EvFailed code words\<rparr>) s1"
        by (simp del: settled_event add: create_spawn_def settle_def Let_def)
      then show thesis by (rule that(1)) simp
    qed
  qed
  then show thesis
  proof cases
    case (1 ev)
    with last [of ev] init that [of "apply_event ?x ev"] show thesis by simp
  next
    case (2 ev c)
    from records_watch [OF last [of ev], of env "sp_socket sp"] init
    have "records (apply_event ?x ev) s (watch env (sp_id sp) (sp_socket sp) (put_session (apply_event ?x ev) s1))"
      by simp
    from records_core [OF this tells] 2 init that [of "apply_event ?x ev"] show thesis by simp
  qed
qed

section \<open>The invariant\<close>

definition daemon_ok :: "daemon_env \<Rightarrow> session_id set \<Rightarrow> sess \<Rightarrow> bool" where
  "daemon_ok env old s \<longleftrightarrow>
     ops_ok (de_ops env) (ss_ops s) \<and> mirror_fit s \<and> spared s \<and> homed old s"

lemma daemon_ok_sound:
  assumes "daemon_ok env old s" and "sound s s'"
  shows "daemon_ok env old s'"
proof -
  from assms(2) have fit: "mirror_fit s'" and b: "beside_projects (ss_ops s) (ss_ops s')"
    and prior: "\<And>i x'. ss_get s' i = Some x' \<Longrightarrow> is_live (s_state x') \<Longrightarrow>
      \<exists>x. ss_get s i = Some x \<and> is_live (s_state x) \<and> s_project_id x' = s_project_id x \<and> s_workspace x' = s_workspace x"
    unfolding sound_def opens_none_def by blast+
  from b have same: "op_works (ss_ops s') = op_works (ss_ops s)" "op_projects (ss_ops s') = op_projects (ss_ops s)"
    by (simp_all add: beside_projects_def)
  have "open_on s' p \<Longrightarrow> open_on s p" for p using prior unfolding open_on_def by metis
  with assms(1) have "spared s'" unfolding daemon_ok_def spared_def same by blast
  moreover have "homed old s'"
    unfolding homed_def same
  proof (intro allI impI)
    fix i x' assume x': "ss_get s' i = Some x'" "is_live (s_state x')" "i \<notin> old"
    from prior [OF x'(1,2)] obtain x where "ss_get s i = Some x" "is_live (s_state x)"
      "s_project_id x' = s_project_id x" "s_workspace x' = s_workspace x" by blast
    with assms(1) x'(3) show "\<exists>p. bt_get (op_projects (ss_ops s)) (s_project_id x') = Some p \<and> s_workspace x' = pj_workspace p"
      unfolding daemon_ok_def homed_def by simp
  qed
  moreover have "ops_ok (de_ops env) (ss_ops s')"
    using assms(1) ops_ok_beside [OF b] by (simp add: daemon_ok_def)
  ultimately show ?thesis using fit by (simp add: daemon_ok_def)
qed

lemma busy_works:
  assumes "ops_ok ev o1" and "(j, w) \<in> set (op_works o1)"
  shows "is_busy (pj_id (work_project w)) (op_runner o1)"
proof -
  from assms have "(j, Some (pj_id (work_project w))) \<in> spots (op_runner o1)"
    unfolding ops_ok_def works_ok_def by fastforce
  with assms(1) show ?thesis by (force simp: is_busy_def rn_busy_spots ops_ok_def)
qed

lemma daemon_ok_create:
  assumes "daemon_ok env old s"
  shows "daemon_ok env old (snd (create (de_sess env) i params s))"
proof (cases rule: create_cases [of "de_sess env" i params s])
  case (1 e s')
  from sound_core [OF _ 1(2)] assms have "sound s s'" by (simp add: daemon_ok_def)
  with assms 1(1) show ?thesis by (simp add: daemon_ok_sound)
next
  case (2 p caps mode prev sp dir s1)
  let ?s' = "snd (create_spawn (de_sess env) sp dir s1)"
  from sound_core [OF _ 2(2)] assms have "sound s s1" by (simp add: daemon_ok_def)
  with assms have ok: "daemon_ok env old s1" by (rule daemon_ok_sound)
  have p: "bt_get (op_projects (ss_ops s1)) (cp_project params) = Some p"
    and free: "\<not> is_busy (cp_project params) (op_runner (ss_ops s1))"
    using 2(2,6) by (simp_all add: cleared_def core_def op_projects_def ss_state_def)
  have id: "pj_id p = cp_project params"
    using p ok by (simp add: daemon_ok_def ops_ok_def well_placed_def filed_def)
  obtain x where r: "records x s1 ?s'" and x: "s_id x = i" "s_project_id x = pj_id p" "s_workspace x = pj_workspace p"
    "s_state x \<noteq> Creating"
    using create_spawn_records [of s1 "de_sess env" sp dir] 2(3-5) by metis
  from r have same: "op_works (ss_ops ?s') = op_works (ss_ops s1)" "op_projects (ss_ops ?s') = op_projects (ss_ops s1)"
    and b: "beside_projects (ss_ops s1) (ss_ops ?s')"
    and get: "\<And>j. ss_get ?s' j = (if j = i then Some x else ss_get s1 j)"
    by (simp_all add: records_def beside_projects_def x(1))
  have "mirror_fit ?s'"
    unfolding mirror_fit_def
  proof (intro conjI)
    show "filed s_id (st_sessions (ss_state ?s'))" using r ok by (simp add: records_def daemon_ok_def mirror_fit_def)
    show "\<forall>(j, socket) \<in> set (ss_watches ?s'). \<exists>y. ss_get ?s' j = Some y \<and> s_state y \<noteq> Creating"
    proof clarify
      fix j socket assume "(j, socket) \<in> set (ss_watches ?s')"
      then have "j = i \<or> j \<in> fst ` set (ss_watches s1)" using r x(1) unfolding records_def by force
      then show "\<exists>y. ss_get ?s' j = Some y \<and> s_state y \<noteq> Creating"
        using ok x(4) get unfolding daemon_ok_def mirror_fit_def by fastforce
    qed
  qed
  moreover have "spared ?s'"
    unfolding spared_def same
  proof clarify
    fix j w assume w: "(j, w) \<in> set (op_works (ss_ops s1))" "is_remove w" and on: "open_on ?s' (pj_id (work_project w))"
    from busy_works [OF _ w(1)] ok free have "pj_id (work_project w) \<noteq> cp_project params" by (auto simp: daemon_ok_def)
    with on get x(2) id have "open_on s1 (pj_id (work_project w))"
      unfolding open_on_def by (metis option.sel)
    with ok w show False unfolding daemon_ok_def spared_def by blast
  qed
  moreover have "homed old ?s'"
    unfolding homed_def same
  proof (intro allI impI)
    fix j y assume y: "ss_get ?s' j = Some y" "is_live (s_state y)" "j \<notin> old"
    show "\<exists>q. bt_get (op_projects (ss_ops s1)) (s_project_id y) = Some q \<and> s_workspace y = pj_workspace q"
    proof (cases "j = i")
      case True
      with y(1) get x p id show ?thesis by simp
    next
      case False
      with y get ok show ?thesis unfolding daemon_ok_def homed_def by simp
    qed
  qed
  moreover have "ops_ok (de_ops env) (ss_ops ?s')" using ok ops_ok_beside [OF b] by (simp add: daemon_ok_def)
  ultimately show ?thesis using 2(1) by (simp add: daemon_ok_def)
qed

section \<open>Every step keeps it\<close>

lemma daemon_ok_projects:
  assumes ok: "daemon_ok env old s" and o2: "ops_ok (de_ops env) o2"
    and sessions: "op_sessions o2 = op_sessions (ss_ops s)"
    and works: "\<forall>(j, w) \<in> set (op_works o2).
      (j, w) \<in> set (op_works (ss_ops s)) \<or> (is_remove w \<longrightarrow> idle (ss_ops s) (pj_id (work_project w)))"
    and stay: "\<And>i p. bt_get (op_projects (ss_ops s)) i = Some p \<Longrightarrow> open_on s i \<Longrightarrow>
      \<exists>q. bt_get (op_projects o2) i = Some q \<and> place q = place p"
  shows "daemon_ok env old (s\<lparr>ss_ops := o2\<rparr>)"
proof -
  let ?s = "s\<lparr>ss_ops := o2\<rparr>"
  have st: "st_sessions (ss_state ?s) = st_sessions (ss_state s)" using sessions by (simp add: ss_state_def op_sessions_def)
  then have get: "ss_get ?s = ss_get s" by (simp add: ss_get_def fun_eq_iff)
  then have on: "open_on ?s = open_on s" by (simp add: open_on_def fun_eq_iff)
  have not_idle: "\<not> idle (ss_ops s) i" if "open_on s i" for i
  proof -
    from that obtain k x where "bt_get (st_sessions (ss_state s)) k = Some x" "is_live (s_state x)" "s_project_id x = i"
      unfolding open_on_def ss_get_def by blast
    then have "x \<in> set (bt_values (st_sessions (ss_state s)))"
      by (force simp: bt_get_def bt_values_def dest: map_of_SomeD)
    with \<open>is_live (s_state x)\<close> \<open>s_project_id x = i\<close> show ?thesis
      by (auto simp: idle_def live_session_ids_for_def ss_state_def filter_empty_conv)
  qed
  have "spared ?s"
    unfolding spared_def
  proof clarify
    fix j w assume "(j, w) \<in> set (op_works (ss_ops ?s))" and r: "is_remove w" and open_p: "open_on ?s (pj_id (work_project w))"
    then have "(j, w) \<in> set (op_works (ss_ops s))" using works not_idle on by auto
    with ok r open_p on show False unfolding daemon_ok_def spared_def by auto
  qed
  moreover have "homed old ?s"
    unfolding homed_def
  proof (intro allI impI)
    fix i x assume x: "ss_get ?s i = Some x" "is_live (s_state x)" "i \<notin> old"
    with ok get obtain p where p: "bt_get (op_projects (ss_ops s)) (s_project_id x) = Some p" "s_workspace x = pj_workspace p"
      unfolding daemon_ok_def homed_def by auto
    have "open_on s (s_project_id x)" using x get unfolding open_on_def by auto
    from stay [OF p(1) this] p(2) show "\<exists>p. bt_get (op_projects (ss_ops ?s)) (s_project_id x) = Some p \<and> s_workspace x = pj_workspace p"
      by (auto simp: place_def)
  qed
  moreover have "mirror_fit ?s" using ok st get by (simp add: daemon_ok_def mirror_fit_def)
  ultimately show ?thesis using o2 by (simp add: daemon_ok_def)
qed

lemma daemon_ok_step:
  assumes "daemon_step env s s'" and ok: "daemon_ok env old s"
  shows "daemon_ok env old s'"
proof -
  from ok have o1: "ops_ok (de_ops env) (ss_ops s)" and fit: "mirror_fit s" by (simp_all add: daemon_ok_def)
  then have filed: "filed pj_id (op_projects (ss_ops s))" by (simp add: ops_ok_def well_placed_def)
  note sound = daemon_ok_sound [OF ok]
  from assms(1) show ?thesis
  proof cases
    case (request fr rq)
    let ?o = "serve (de_ops env) fr rq (ss_ops s)"
    have ap: "apart_from_sessions (ss_ops s) ?o" using filed request(2) by (rule apart_serve)
    have "ops_ok (de_ops env) ?o" using ops_ok_step [OF ops_step.request [OF request(2)] o1] .
    with ok ap show ?thesis unfolding request(1) on_ops_def apart_from_sessions_def kept_def
      by (intro daemon_ok_projects) blast+
  next
    case (run t w)
    let ?o = "run_thread (de_ops env) t w (ss_ops s)"
    have ok2: "ops_ok (de_ops env) ?o" using ops_ok_step [OF ops_step.run [OF run(2-4)] o1] .
    have "\<exists>q. bt_get (op_projects ?o) i = Some q \<and> place q = place p"
      if "bt_get (op_projects (ss_ops s)) i = Some p" "open_on s i" for i p
      using run_thread_keeps [OF o1 run(4) that(1)] ok run(4) that(2) unfolding daemon_ok_def spared_def by blast
    with ok ok2 show ?thesis unfolding run(1) on_ops_def
      by (intro daemon_ok_projects) (use run_thread_sessions run_thread_works in blast)+
  next
    case (skip t)
    let ?o = "end_work t (Inl cancelled_outcome) (ss_ops s)"
    have "ops_ok (de_ops env) ?o" using ops_ok_step [OF ops_step.skip [OF skip(2,3)] o1] .
    moreover have sub: "set (op_works ?o) \<subseteq> set (op_works (ss_ops s))" by (rule end_work_same(3))
    ultimately show ?thesis using ok unfolding skip(1) on_ops_def
      by (intro daemon_ok_projects) (auto simp: end_work_same(1,2) dest: subsetD [OF sub])
  next
    case (runner e r)
    let ?o = "(ss_ops s)\<lparr>op_runner := r\<rparr>"
    have "ops_ok (de_ops env) ?o" using ops_ok_step [OF ops_step.runner [OF runner(2,3)] o1] .
    moreover have "op_sessions ?o = op_sessions (ss_ops s)"
      using runner_same [OF runner(2-4)] by (simp add: op_sessions_def)
    moreover have "op_projects ?o = op_projects (ss_ops s)"
      using projects_beside [OF runner(2,3)] by (simp add: op_projects_def)
    ultimately show ?thesis using ok unfolding runner(1) on_ops_def
      by (intro daemon_ok_projects) auto
  next
    case (create i params)
    with daemon_ok_create [OF ok] show ?thesis by simp
  next
    case (stop i)
    with sound sound_stop [OF fit] show ?thesis by simp
  next
    case list
    with sound sound_list [OF fit] show ?thesis by simp
  next
    case (rename i label)
    with sound sound_rename [OF fit] show ?thesis by simp
  next
    case (event i socket ev)
    with sound sound_event [OF fit] show ?thesis by simp
  next
    case looks
    then have "beside_projects (ss_ops s) (ss_ops s')"
      by (auto simp: quiet_def beside_projects_def op_projects_def intro: exI [of _ "rn_daemon (op_runner (ss_ops s))"])
    moreover have "ss_get s' = ss_get s" "ss_state s' = ss_state s"
      using looks(1) by (simp_all add: ss_get_def ss_state_def quiet_def fun_eq_iff)
    ultimately have "sound s s'"
      using fit looks(2) unfolding sound_def opens_none_def mirror_fit_def by auto
    then show ?thesis by (rule sound)
  next
    case (over i socket)
    with sound sound_watch_ends [OF fit] show ?thesis by simp
  qed
qed

section \<open>The start\<close>

lemma scan_one_fit:
  assumes "mirror_fit s"
  shows "mirror_fit (scan_one env l s)" and "beside_projects (ss_ops s) (ss_ops (scan_one env l s))"
proof -
  obtain sp evs where l: "l = (sp, evs)" by fastforce
  let ?x = "from_log sp evs"
  have "mirror_fit (scan_one env l s) \<and> beside_projects (ss_ops s) (ss_ops (scan_one env l s))"
  proof (cases "is_terminal (s_state ?x)")
    case True
    have get: "ss_get (load_session ?x s) i = (if i = s_id ?x then Some ?x else ss_get s i)" for i
      by (simp add: ss_get_def load_session_def ss_state_def bt_get_insert)
    have "filed s_id (st_sessions (ss_state (load_session ?x s)))"
      using assms filed_insert [of s_id "st_sessions (ss_state s)" ?x]
      by (simp add: mirror_fit_def load_session_def ss_state_def)
    moreover have "s_state ?x \<noteq> Creating" using True by auto
    ultimately have "mirror_fit (load_session ?x s)"
      using assms get by (auto simp: mirror_fit_def load_session_def)
    moreover have "beside_projects (ss_ops s) (ss_ops (load_session ?x s))"
      by (auto simp: beside_projects_def load_session_def op_projects_def ss_state_def)
    ultimately show ?thesis using True by (simp add: scan_one_def l Let_def)
  next
    case False
    obtain r s1 where pr: "probe env (sp_socket sp) s = (r, s1)" by fastforce
    with probe_state [of env "sp_socket sp" s] have c: "core s1 = core s" by simp
    with assms have fit: "mirror_fit s1" by (simp only: mirror_fit_core [OF c])
    have same: "ss_ops s1 = ss_ops s" using c by (simp add: core_def)
    show ?thesis
    proof (cases r)
      case None
      have "mirror_fit (tell (SRemoveSocket (sp_socket sp)) s1)"
        using fit by (simp only: mirror_fit_core [OF core_tell])
      from sound_finalise [OF this, of env "sp_id sp"] False pr None same show ?thesis
        by (simp add: scan_one_def l Let_def sound_def opens_none_def tell_def)
    next
      case (Some st)
      let ?y = "?x\<lparr>s_state := Running, s_pid := Some (su_pid st), s_clients := su_clients st\<rparr>"
      have "mirror_fit (put_session ?y s1)" using fit by (rule mirror_fit_put) simp
      then have "mirror_fit (watch env (s_id ?y) (sp_socket sp) (put_session ?y s1))"
        by (rule mirror_fit_watch [where x = ?y]) simp_all
      then show ?thesis using False pr Some same beside_put [of s1 ?y] by (simp add: scan_one_def l Let_def)
    qed
  qed
  then show "mirror_fit (scan_one env l s)" "beside_projects (ss_ops s) (ss_ops (scan_one env l s))" by simp_all
qed

lemma scan_fit:
  assumes "mirror_fit s"
  shows "mirror_fit (scan env s) \<and> beside_projects (ss_ops s) (ss_ops (scan env s))"
proof -
  have fold: "mirror_fit s0 \<Longrightarrow> mirror_fit (foldl (\<lambda>s l. scan_one env l s) s0 ls)
      \<and> beside_projects (ss_ops s0) (ss_ops (foldl (\<lambda>s l. scan_one env l s) s0 ls))" for s0 ls
  proof (induction ls arbitrary: s0)
    case (Cons l ls)
    from scan_one_fit [OF Cons.prems, of env l] Cons.IH [of "scan_one env l s0"] show ?case
      by (auto intro: beside_trans)
  qed simp
  obtain logs s1 where load: "ask SLoadAll (sa_load (se_answers env)) s = (logs, s1)" by fastforce
  then have c: "core s1 = core s" using core_ask by (metis snd_conv)
  have "mirror_fit s1" using assms by (simp only: mirror_fit_core [OF c])
  from fold [OF this, of logs] load c show ?thesis by (simp add: scan_def core_def)
qed

definition sessions_of :: "sess \<Rightarrow> session_id set" where
  "sessions_of s = dom (ss_get s)"

lemma start_fit: "mirror_fit (daemon_start env ps)"
  "beside_projects (ops_new (state_load ps)) (ss_ops (daemon_start env ps))"
proof -
  let ?s = "\<lparr>ss_ops = ops_new (state_load ps), ss_calls = [], ss_untitled = [], ss_watches = []\<rparr>"
  have "mirror_fit ?s"
    by (simp add: mirror_fit_def ss_state_def ops_new_def runner_new_def interrupt_preparing_def Let_def state_load_def)
  from scan_fit [OF this, of "de_sess env"] show "mirror_fit (daemon_start env ps)"
    "beside_projects (ops_new (state_load ps)) (ss_ops (daemon_start env ps))" by (simp_all add: daemon_start_def)
qed

lemma daemon_ok_start:
  assumes "well_placed (de_ops env) (st_projects (state_load ps))"
  shows "daemon_ok env (sessions_of (daemon_start env ps)) (daemon_start env ps)"
proof -
  note fit = start_fit(1) [of env ps] and b = start_fit(2) [of ps env]
  have "ops_ok (de_ops env) (ss_ops (daemon_start env ps))"
    using ops_ok_beside [OF b] ops_ok_start [OF assms] by simp
  moreover have "spared (daemon_start env ps)"
    using b by (simp add: spared_def beside_projects_def ops_new_def)
  moreover have "homed (sessions_of (daemon_start env ps)) (daemon_start env ps)"
    by (auto simp: homed_def sessions_of_def)
  ultimately show ?thesis using fit by (simp add: daemon_ok_def)
qed

section \<open>Properties\<close>


definition demo_daemon :: daemon_env where
  "demo_daemon = \<lparr>de_ops = demo_env, de_sess = demo_sess_env\<rparr>"

definition demo_removing :: sess where
  "demo_removing = on_ops (serve demo_env demo_fresh (RRemove 5 True False)) (daemon_start demo_daemon [demo_here])"

lemma demo_removing_reach: "daemon_reach demo_daemon [demo_here] demo_removing"
proof -
  have "is_fresh demo_fresh (ops_new (state_load [demo_here]))"
    by (simp add: is_fresh_def ops_new_def demo_fresh_def runner_new_def op_projects_def interrupt_preparing_def
       state_load_def bt_get_def demo_here_def demo_project_def)
  then have "is_fresh demo_fresh (ss_ops (daemon_start demo_daemon [demo_here]))"
    using start_fit(2) [of "[demo_here]" demo_daemon] by (auto simp: is_fresh_def beside_projects_def)
  from daemon_reach.step [OF daemon_reach.start daemon_step.request [OF this]] show ?thesis
    by (simp add: demo_removing_def demo_daemon_def)
qed


end
