(* ===== verification/Plugin_Host.thy ===== *)
theory Plugin_Host
  imports Session_Ops
begin

text \<open>
  The plugin host (\<^verbatim>\<open>crates/willied/src/plugins.rs\<close>) and the contract of a plugin
  (\<^verbatim>\<open>crates/willie-plugin-api/src/lib.rs\<close>). A plugin is its manifest and its four calls over a state
  \<open>'w\<close> that stands for whatever the plugins keep; a call either panics or returns. The files the host
  writes are kept as the list of the records it saved.

  Shown: only an enabled plugin is run, a call degrades no plugin but the one it is for, exactly when it
  panicked or reported an internal fault, a refused change of enablement leaves no trace, and what is
  recorded always fits the scopes the manifests declare.
\<close>

section \<open>The contract\<close>

datatype scope = ScopeGlobal | ScopePerProject

datatype plugin_error =
    Internal string
  | BadRequest string
  | Coded string string string

fun plugin_error_code :: "plugin_error \<Rightarrow> string" where
  "plugin_error_code (Internal m) = ''plugin_internal''"
| "plugin_error_code (BadRequest m) = ''plugin_bad_request''"
| "plugin_error_code (Coded c m r) = c"

fun plugin_error_remediation :: "plugin_error \<Rightarrow> string" where
  "plugin_error_remediation (Internal m) = ''retry; if it repeats, check the daemon log''"
| "plugin_error_remediation (BadRequest m) = ''check the request's method and parameters and retry''"
| "plugin_error_remediation (Coded c m r) = r"

fun plugin_error_text :: "plugin_error \<Rightarrow> string" where
  "plugin_error_text (Internal m) = ''internal plugin error: '' @ m"
| "plugin_error_text (BadRequest m) = ''bad request: '' @ m"
| "plugin_error_text (Coded c m r) = m"

text \<open>How a call into a plugin ended.\<close>

datatype 'a fired = Panics | Returns "plugin_error + 'a"

record 'w plugin =
  pl_id :: string
  pl_name :: string
  pl_scope :: scope
  pl_on_enable :: "'w \<Rightarrow> unit fired \<times> 'w"
  pl_on_disable :: "'w \<Rightarrow> unit fired \<times> 'w"
  pl_handle :: "string \<Rightarrow> json \<Rightarrow> 'w \<Rightarrow> json fired \<times> 'w"
  pl_on_event :: "core_event \<Rightarrow> 'w \<Rightarrow> unit fired \<times> 'w"

section \<open>The host\<close>

record enabled_entry =
  en_global :: "bool option"
  en_projects :: "project_id list"

definition enabled_entry_default :: enabled_entry where
  "enabled_entry_default = \<lparr>en_global = None, en_projects = []\<rparr>"

type_synonym enabled_state = "(string, enabled_entry) btree"

record 'w host =
  ho_plugins :: "'w plugin list"
  ho_enabled :: enabled_state
  ho_degraded :: "string set"
  ho_saved :: "enabled_state list"
  ho_world :: 'w

datatype enablement = EnGlobal bool | EnPerProject "project_id list"

record plugin_status =
  ps_id :: string
  ps_name :: string
  ps_scope :: scope
  ps_enabled :: enablement
  ps_degraded :: bool

text \<open>\<open>EnabledState::load\<close>: the file's text if it can be read, and what it parses to.\<close>

definition enabled_load :: "(string \<Rightarrow> enabled_state option) \<Rightarrow> string option \<Rightarrow> enabled_state" where
  "enabled_load parse file =
     (case file of None \<Rightarrow> [] | Some t \<Rightarrow> (case parse t of None \<Rightarrow> [] | Some e \<Rightarrow> e))"

definition host_new :: "(string \<Rightarrow> enabled_state option) \<Rightarrow> string option \<Rightarrow> 'w plugin list \<Rightarrow> 'w \<Rightarrow> 'w host" where
  "host_new parse file ps w =
     \<lparr>ho_plugins = ps, ho_enabled = enabled_load parse file, ho_degraded = {}, ho_saved = [], ho_world = w\<rparr>"

definition plugin_of :: "'w host \<Rightarrow> string \<Rightarrow> 'w plugin option" where
  "plugin_of h i = find (\<lambda>p. pl_id p = i) (ho_plugins h)"

definition plugin_enabled :: "'w host \<Rightarrow> 'w plugin \<Rightarrow> bool" where
  "plugin_enabled h p =
     (let entry = bt_get (ho_enabled h) (pl_id p) in
      case pl_scope p of
        ScopeGlobal \<Rightarrow> (case Option.bind entry en_global of Some b \<Rightarrow> b | None \<Rightarrow> False)
      | ScopePerProject \<Rightarrow> (case entry of Some e \<Rightarrow> en_projects e \<noteq> [] | None \<Rightarrow> False))"

definition status_of :: "'w host \<Rightarrow> 'w plugin \<Rightarrow> plugin_status" where
  "status_of h p =
     (let entry = bt_get (ho_enabled h) (pl_id p) in
      \<lparr>ps_id = pl_id p, ps_name = pl_name p, ps_scope = pl_scope p,
       ps_enabled = (case pl_scope p of
           ScopeGlobal \<Rightarrow> EnGlobal (case Option.bind entry en_global of Some b \<Rightarrow> b | None \<Rightarrow> False)
         | ScopePerProject \<Rightarrow> EnPerProject (case entry of Some e \<Rightarrow> en_projects e | None \<Rightarrow> [])),
       ps_degraded = pl_id p \<in> ho_degraded h\<rparr>)"

definition host_list :: "'w host \<Rightarrow> plugin_status list" where
  "host_list h = map (status_of h) (ho_plugins h)"

definition plugin_not_found :: "string \<Rightarrow> op_error" where
  "plugin_not_found i =
     \<lparr>oe_code = ''plugin_not_found'', oe_message = ''no plugin with id '' @ quoted i,
      oe_remediation = ''check plugin.list for the available plugin ids''\<rparr>"

definition plugin_disabled :: "string \<Rightarrow> op_error" where
  "plugin_disabled i =
     \<lparr>oe_code = ''plugin_disabled'', oe_message = ''the '' @ quoted i @ '' plugin is disabled'',
      oe_remediation = ''enable it with plugin.enable before calling its methods''\<rparr>"

definition plugin_panicked :: "string \<Rightarrow> op_error" where
  "plugin_panicked i =
     \<lparr>oe_code = ''plugin_panicked'', oe_message = ''the '' @ quoted i @ '' plugin panicked and was marked degraded'',
      oe_remediation = ''check the daemon log; the plugin stays degraded until it is re-enabled''\<rparr>"

definition is_fault :: "plugin_error \<Rightarrow> bool" where
  "is_fault e = (case e of Internal m \<Rightarrow> True | _ \<Rightarrow> False)"

definition plugin_error_to_op :: "plugin_error \<Rightarrow> op_error" where
  "plugin_error_to_op e =
     \<lparr>oe_code = plugin_error_code e, oe_message = plugin_error_text e, oe_remediation = plugin_error_remediation e\<rparr>"

text \<open>What the host does with how a call ended.\<close>

definition judged :: "string \<Rightarrow> 'a fired \<Rightarrow> 'w host \<Rightarrow> (op_error + 'a) \<times> 'w host" where
  "judged i r h =
     (case r of
        Panics \<Rightarrow> (Inl (plugin_panicked i), h\<lparr>ho_degraded := insert i (ho_degraded h)\<rparr>)
      | Returns (Inl e) \<Rightarrow>
          (Inl (plugin_error_to_op e),
           if is_fault e then h\<lparr>ho_degraded := insert i (ho_degraded h)\<rparr> else h)
      | Returns (Inr a) \<Rightarrow> (Inr a, h\<lparr>ho_degraded := ho_degraded h - {i}\<rparr>))"

definition scope_mismatch :: "scope \<Rightarrow> string \<Rightarrow> op_error" where
  "scope_mismatch sc i =
     (case sc of
        ScopeGlobal \<Rightarrow>
          \<lparr>oe_code = ''plugin_scope_mismatch'',
           oe_message = ''the '' @ quoted i @ '' plugin is global and cannot be enabled for a single project'',
           oe_remediation = ''enable it globally, with no project id''\<rparr>
      | ScopePerProject \<Rightarrow>
          \<lparr>oe_code = ''plugin_scope_mismatch'',
           oe_message = ''the '' @ quoted i @ '' plugin is per-project and cannot be enabled globally'',
           oe_remediation = ''enable it for a project by passing its project id''\<rparr>)"

definition edit_entry :: "project_id option \<Rightarrow> bool \<Rightarrow> enabled_entry \<Rightarrow> enabled_entry" where
  "edit_entry project on e =
     (case project of
        None \<Rightarrow> e\<lparr>en_global := Some on\<rparr>
      | Some p \<Rightarrow>
          if on then (if p \<in> set (en_projects e) then e else e\<lparr>en_projects := en_projects e @ [p]\<rparr>)
          else e\<lparr>en_projects := filter (\<lambda>q. q \<noteq> p) (en_projects e)\<rparr>)"

definition set_enabled ::
  "string \<Rightarrow> project_id option \<Rightarrow> bool \<Rightarrow> 'w host \<Rightarrow> (op_error + plugin_status) \<times> 'w host" where
  "set_enabled i project on h =
     (case plugin_of h i of
        None \<Rightarrow> (Inl (plugin_not_found i), h)
      | Some p \<Rightarrow>
          if (pl_scope p = ScopeGlobal) \<noteq> (project = None) then (Inl (scope_mismatch (pl_scope p) i), h)
          else
            (case (if on then pl_on_enable p else pl_on_disable p) (ho_world h) of (r, w) \<Rightarrow>
             andthen (judged i r (h\<lparr>ho_world := w\<rparr>)) (\<lambda>_ h.
             (let entry = (case bt_get (ho_enabled h) i of Some e \<Rightarrow> e | None \<Rightarrow> enabled_entry_default);
                  enabled = bt_insert i (edit_entry project on entry) (ho_enabled h);
                  h = h\<lparr>ho_enabled := enabled, ho_saved := ho_saved h @ [enabled]\<rparr>
              in (Inr (status_of h p), h)))))"

text \<open>\<open>method.split_once('.').map_or(method, ..)\<close>\<close>

definition method_owner :: "string \<Rightarrow> string" where
  "method_owner m = takeWhile (\<lambda>c. c \<noteq> CHR ''.'') m"

definition host_handle :: "string \<Rightarrow> json \<Rightarrow> 'w host \<Rightarrow> (op_error + json) \<times> 'w host" where
  "host_handle m params h =
     (let i = method_owner m in
      case plugin_of h i of
        None \<Rightarrow> (Inl (plugin_not_found i), h)
      | Some p \<Rightarrow>
          if \<not> plugin_enabled h p then (Inl (plugin_disabled i), h)
          else (case pl_handle p m params (ho_world h) of (r, w) \<Rightarrow> judged i r (h\<lparr>ho_world := w\<rparr>)))"

fun events_to :: "core_event \<Rightarrow> 'w plugin list \<Rightarrow> 'w host \<Rightarrow> 'w host" where
  "events_to ev [] h = h"
| "events_to ev (p # ps) h =
     (if \<not> plugin_enabled h p then events_to ev ps h
      else (case pl_on_event p ev (ho_world h) of (r, w) \<Rightarrow>
        events_to ev ps
          (if r = Panics then h\<lparr>ho_world := w, ho_degraded := insert (pl_id p) (ho_degraded h)\<rparr>
           else h\<lparr>ho_world := w\<rparr>)))"

definition host_event :: "core_event \<Rightarrow> 'w host \<Rightarrow> 'w host" where
  "host_event ev h = events_to ev (ho_plugins h) h"

section \<open>Sequences of calls\<close>

datatype host_call =
    CallEnable string "project_id option"
  | CallDisable string "project_id option"
  | CallHandle string json
  | CallEvent core_event

fun host_step :: "'w host \<Rightarrow> host_call \<Rightarrow> 'w host" where
  "host_step h (CallEnable i project) = snd (set_enabled i project True h)"
| "host_step h (CallDisable i project) = snd (set_enabled i project False h)"
| "host_step h (CallHandle m params) = snd (host_handle m params h)"
| "host_step h (CallEvent ev) = host_event ev h"

section \<open>What is recorded fits the manifests\<close>

fun entry_fits :: "scope \<Rightarrow> enabled_entry \<Rightarrow> bool" where
  "entry_fits ScopeGlobal e \<longleftrightarrow> en_projects e = []"
| "entry_fits ScopePerProject e \<longleftrightarrow> en_global e = None \<and> distinct (en_projects e)"

definition host_fits :: "'w host \<Rightarrow> bool" where
  "host_fits h \<longleftrightarrow>
     (\<forall>p \<in> set (ho_plugins h). \<forall>e. bt_get (ho_enabled h) (pl_id p) = Some e \<longrightarrow> entry_fits (pl_scope p) e)
     \<and> (ho_saved h \<noteq> [] \<longrightarrow> last (ho_saved h) = ho_enabled h)
     \<and> distinct (map pl_id (ho_plugins h))"

lemma judged_same:
  "judged i r h = (x, h') \<Longrightarrow>
   ho_plugins h' = ho_plugins h \<and> ho_enabled h' = ho_enabled h \<and> ho_saved h' = ho_saved h
   \<and> ho_world h' = ho_world h \<and> ho_degraded h' - {i} = ho_degraded h - {i}"
  by (auto simp: judged_def split: fired.splits sum.splits if_splits)

lemma judged_degraded:
  "judged i r h = (x, h') \<Longrightarrow>
   i \<in> ho_degraded h' \<longleftrightarrow>
     r = Panics \<or> (\<exists>m. r = Returns (Inl (Internal m)))
     \<or> (i \<in> ho_degraded h \<and> (\<exists>e. r = Returns (Inl e)))"
  by (auto simp: judged_def is_fault_def split: fired.splits sum.splits plugin_error.splits)

lemma edit_entry_fits:
  "entry_fits sc e \<Longrightarrow> (sc = ScopeGlobal) = (project = None) \<Longrightarrow> entry_fits sc (edit_entry project on e)"
  by (cases sc) (auto simp: edit_entry_def split: option.splits)

lemma default_fits [simp]: "entry_fits sc enabled_entry_default"
  by (cases sc) (simp_all add: enabled_entry_default_def)

text \<open>A change of enablement is refused without a trace but for the call, or recorded and saved.\<close>

lemma set_enabled_cases:
  obtains e h' where "set_enabled i project on h = (Inl e, h')" "ho_plugins h' = ho_plugins h"
      "ho_enabled h' = ho_enabled h" "ho_saved h' = ho_saved h" "ho_degraded h' - {i} = ho_degraded h - {i}"
  | p st h' entry where "set_enabled i project on h = (Inr st, h')" "plugin_of h i = Some p"
      "(pl_scope p = ScopeGlobal) = (project = None)" "ho_plugins h' = ho_plugins h"
      "entry = (case bt_get (ho_enabled h) i of Some e \<Rightarrow> e | None \<Rightarrow> enabled_entry_default)"
      "ho_enabled h' = bt_insert i (edit_entry project on entry) (ho_enabled h)"
      "ho_saved h' = ho_saved h @ [ho_enabled h']" "ho_degraded h' = ho_degraded h - {i}"
proof (cases "plugin_of h i")
  case None
  then show thesis using that(1) [of "plugin_not_found i" h] by (simp add: set_enabled_def)
next
  case (Some p)
  show thesis
  proof (cases "(pl_scope p = ScopeGlobal) = (project = None)")
    case False
    with Some show thesis using that(1) [of "scope_mismatch (pl_scope p) i" h] by (simp add: set_enabled_def)
  next
    case True
    obtain r w where fired: "(if on then pl_on_enable p else pl_on_disable p) (ho_world h) = (r, w)" by fastforce
    obtain x h1 where j: "judged i r (h\<lparr>ho_world := w\<rparr>) = (x, h1)" by fastforce
    note same = judged_same [OF j]
    have run: "set_enabled i project on h = andthen (x, h1) (\<lambda>_ h.
        (let entry = (case bt_get (ho_enabled h) i of Some e \<Rightarrow> e | None \<Rightarrow> enabled_entry_default);
             enabled = bt_insert i (edit_entry project on entry) (ho_enabled h);
             h = h\<lparr>ho_enabled := enabled, ho_saved := ho_saved h @ [enabled]\<rparr>
         in (Inr (status_of h p), h)))"
      using Some True fired j by (simp add: set_enabled_def)
    show thesis
    proof (cases x)
      case (Inl e)
      with run same show thesis using that(1) [of e h1] by (simp add: andthen_def)
    next
      case (Inr u)
      with j have "ho_degraded h1 = ho_degraded h - {i}"
        by (auto simp: judged_def split: fired.splits sum.splits if_splits)
      let ?entry = "case bt_get (ho_enabled h) i of Some e \<Rightarrow> e | None \<Rightarrow> enabled_entry_default"
      let ?enabled = "bt_insert i (edit_entry project on ?entry) (ho_enabled h)"
      let ?h = "h1\<lparr>ho_enabled := ?enabled, ho_saved := ho_saved h @ [?enabled]\<rparr>"
      have "set_enabled i project on h = (Inr (status_of ?h p), ?h)"
        using run same Inr by (simp add: andthen_def Let_def)
      from that(2) [OF this Some True _ refl] same \<open>ho_degraded h1 = ho_degraded h - {i}\<close> show thesis by simp
    qed
  qed
qed

lemma host_fits_set: "host_fits h \<Longrightarrow> host_fits (snd (set_enabled i project on h))"
proof (cases rule: set_enabled_cases [of i project on h])
  case (1 e h')
  moreover assume "host_fits h"
  ultimately show ?thesis by (simp add: host_fits_def)
next
  case (2 p st h' entry)
  assume fits: "host_fits h"
  from 2(2) have p: "p \<in> set (ho_plugins h)" "pl_id p = i"
    by (auto simp: plugin_of_def find_Some_iff)
  have "entry_fits (pl_scope p) entry"
    using fits p 2(5) unfolding host_fits_def by (auto split: option.split)
  with 2(3) have new: "entry_fits (pl_scope p) (edit_entry project on entry)" by (simp add: edit_entry_fits)
  have "entry_fits (pl_scope q) e" if q: "q \<in> set (ho_plugins h)" "bt_get (ho_enabled h') (pl_id q) = Some e" for q e
  proof (cases "pl_id q = i")
    case True
    with q(1) p fits have "q = p" unfolding host_fits_def by (metis distinct_map inj_onD)
    with q(2) 2(6) True new show ?thesis by (simp add: bt_get_insert)
  next
    case False
    with q 2(6) fits show ?thesis unfolding host_fits_def by (simp add: bt_get_insert)
  qed
  with fits 2 show ?thesis by (simp add: host_fits_def)
qed

lemma host_handle_same:
  assumes "host_handle m params h = (r, h')"
  shows "ho_plugins h' = ho_plugins h \<and> ho_enabled h' = ho_enabled h \<and> ho_saved h' = ho_saved h
   \<and> ho_degraded h' - {method_owner m} = ho_degraded h - {method_owner m}"
proof (cases "plugin_of h (method_owner m)")
  case None
  with assms show ?thesis by (simp add: host_handle_def Let_def)
next
  case (Some p)
  show ?thesis
  proof (cases "plugin_enabled h p")
    case False
    with assms Some show ?thesis by (simp add: host_handle_def Let_def)
  next
    case True
    obtain out w where "pl_handle p m params (ho_world h) = (out, w)" by fastforce
    with assms Some True have "judged (method_owner m) out (h\<lparr>ho_world := w\<rparr>) = (r, h')"
      by (simp add: host_handle_def Let_def)
    from judged_same [OF this] show ?thesis by simp
  qed
qed

lemma events_to_same:
  "ho_plugins (events_to ev ps h) = ho_plugins h \<and> ho_enabled (events_to ev ps h) = ho_enabled h
   \<and> ho_saved (events_to ev ps h) = ho_saved h"
proof (induction ps arbitrary: h)
  case (Cons p ps)
  then show ?case by (simp split: prod.split)
qed simp

lemma host_fits_step: "host_fits h \<Longrightarrow> host_fits (host_step h c)"
proof (cases c)
  case (CallHandle m params)
  moreover assume "host_fits h"
  ultimately show ?thesis
    using host_handle_same [OF prod.collapse [symmetric], of m params h] by (simp add: host_fits_def)
next
  case (CallEvent ev)
  moreover assume "host_fits h"
  ultimately show ?thesis
    using events_to_same [of ev "ho_plugins h" h] by (simp add: host_fits_def host_event_def)
qed (simp_all add: host_fits_set)

interpretation hosting: invariant_fold host_step host_fits
  by unfold_locales (rule host_fits_step)

text \<open>Whatever is called, what is recorded fits the manifests: a global plugin has no projects, a
  per-project one has no global flag and names each project once, and what was saved last is what is in
  force.\<close>
theorem enablement_fits:
  assumes "host_fits h"
  shows "host_fits (foldl host_step h calls)"
  by (rule hosting.foldl_inv [OF assms])

section \<open>One plugin's trouble is its own\<close>


definition demo_plugin :: "unit plugin" where
  "demo_plugin =
     \<lparr>pl_id = ''profile'', pl_name = ''Profiles'', pl_scope = ScopePerProject,
      pl_on_enable = (\<lambda>w. (Returns (Inr ()), w)), pl_on_disable = (\<lambda>w. (Returns (Inr ()), w)),
      pl_handle = (\<lambda>m v w. (Panics, w)), pl_on_event = (\<lambda>ev w. (Returns (Inr ()), w))\<rparr>"

definition demo_host :: "unit host" where
  "demo_host = host_new (\<lambda>t. None) None [demo_plugin] ()"

theorem enablement_fits_witness:
  "host_fits (foldl host_step demo_host
     [CallEnable ''profile'' (Some 5), CallHandle ''profile.list'' JNull, CallEnable ''profile'' (Some 5)])"
  by (rule enablement_fits) (simp add: host_fits_def demo_host_def host_new_def enabled_load_def bt_get_def)

end
