(* ===== verification/Workspace_Files.thy ===== *)
theory Workspace_Files
  imports Sess_Sandbox Text
begin

text \<open>
  Reading a workspace on a client's behalf (\<^verbatim>\<open>crates/willied/src/workspace.rs\<close>): the one place where a
  client's path becomes a path of the file system, the git flags of a tree, one level of it, and the text
  of one file. The file system is what its calls return; lower-casing and the replacement of invalid UTF-8
  are parameters.

  Shown: a path that is resolved stays inside the workspace after its links are followed; what is read is
  the file's first half megabyte and the mark of a cut is exact; a listing shows every entry but
  \<open>.git\<close> once, directories first.
\<close>

section \<open>Containment\<close>

datatype ws_error = Outside | NotText | Io string

fun ws_code :: "ws_error \<Rightarrow> string" where
  "ws_code Outside = ''path_outside_workspace''"
| "ws_code NotText = ''file_not_text''"
| "ws_code (Io e) = ''workspace_read_failed''"

fun ws_message :: "ws_error \<Rightarrow> string" where
  "ws_message Outside = ''the path is outside the project's workspace''"
| "ws_message NotText = ''the file is not text''"
| "ws_message (Io e) = e"

fun ws_remediation :: "ws_error \<Rightarrow> string" where
  "ws_remediation Outside = ''name a path inside the project's workspace''"
| "ws_remediation NotText = ''this file is binary; open it in VS Code instead''"
| "ws_remediation (Io e) = ''check the workspace and try again''"

definition resolve_within :: "(string \<Rightarrow> string + string) \<Rightarrow> string \<Rightarrow> string \<Rightarrow> ws_error + string" where
  "resolve_within canonicalize workspace rel =
     (if starts_with rel ''/'' then Inl Outside
      else if ''..'' \<in> set (path_comps rel) then Inl Outside
      else case canonicalize workspace of
        Inl e \<Rightarrow> Inl (Io e)
      | Inr root \<Rightarrow>
          (case canonicalize (path_join workspace rel) of
             Inl e \<Rightarrow> Inl (Io e)
           | Inr target \<Rightarrow>
               if prefix (path_comps root) (path_comps target) \<and> starts_with target ''/'' = starts_with root ''/''
               then Inr target else Inl Outside))"

section \<open>The flags of git\<close>

definition char_boundary :: "string \<Rightarrow> nat \<Rightarrow> bool" where
  "char_boundary s n \<longleftrightarrow> n = length s \<or> (n < length s \<and> \<not> continuation (s ! n))"

definition porcelain_line :: "string \<Rightarrow> (string \<times> string) option" where
  "porcelain_line line =
     (if \<not> char_boundary line 2 \<or> \<not> char_boundary line 3 then None
      else
        (let xy = take 2 line; rest = drop 3 line in
         if xy = ''??'' then Some (rest, ''?'')
         else if hd xy = CHR ''R'' \<or> last xy = CHR ''R'' then
           Some (case split_once '' -> '' rest of Some (old, new) \<Rightarrow> new | None \<Rightarrow> rest, ''R'')
         else Some (rest, case find (\<lambda>c. c \<noteq> '' '') (utf8_chars xy) of Some c \<Rightarrow> c | None \<Rightarrow> ''M'')))"

definition parse_porcelain :: "string \<Rightarrow> (string, string) btree" where
  "parse_porcelain out =
     foldl (\<lambda>m (p, f). bt_insert p f m) [] (List.map_filter porcelain_line (rust_lines out))"

section \<open>One level of the tree\<close>

datatype entry_kind = DirEntry | FileEntry

record tree_entry =
  te_name :: string
  te_kind :: entry_kind
  te_git :: "string option"

definition tree_entry_of :: "(string, string) btree \<Rightarrow> string \<Rightarrow> string \<Rightarrow> bool \<Rightarrow> tree_entry" where
  "tree_entry_of flags rel_prefix name is_dir =
     (let rel = (if rel_prefix = [] then name else rel_prefix @ ''/'' @ name) in
      if is_dir then
        \<lparr>te_name = name, te_kind = DirEntry,
         te_git = (if list_ex (\<lambda>(p, f). starts_with p (rel @ ''/'')) flags then Some ''M'' else None)\<rparr>
      else \<lparr>te_name = name, te_kind = FileEntry, te_git = bt_get flags rel\<rparr>)"

text \<open>The directory's entries, each with whether it is a directory if that can be told.\<close>

definition list_dir ::
  "(string \<Rightarrow> string) \<Rightarrow> (string \<times> bool option) list option \<Rightarrow> (string, string) btree \<Rightarrow> string \<Rightarrow> tree_entry list" where
  "list_dir lower entries flags rel_prefix =
     (case entries of
        None \<Rightarrow> []
      | Some es \<Rightarrow>
          (let shown = List.map_filter (\<lambda>(name, ty).
                 if name = ''.git'' then None else map_option (tree_entry_of flags rel_prefix name) ty) es
           in sort_key (\<lambda>e. lower (te_name e)) (filter (\<lambda>e. te_kind e = DirEntry) shown)
              @ sort_key (\<lambda>e. lower (te_name e)) (filter (\<lambda>e. te_kind e = FileEntry) shown)))"

section \<open>The text of a file\<close>

definition READ_CAP :: nat where "READ_CAP = 512 * 1024"

definition SNIFF_LEN :: nat where "SNIFF_LEN = 8 * 1024"

text \<open>The file as it can be opened and read: whether it is a regular file, and its bytes.\<close>

record file_reads =
  fr_is_file :: "string + bool"
  fr_bytes :: "string + string"

definition read_text :: "(string \<Rightarrow> string) \<Rightarrow> file_reads \<Rightarrow> ws_error + string \<times> bool" where
  "read_text lossy f =
     (case fr_is_file f of
        Inl e \<Rightarrow> Inl (Io e)
      | Inr regular \<Rightarrow>
          if \<not> regular then Inl NotText
          else case fr_bytes f of
            Inl e \<Rightarrow> Inl (Io e)
          | Inr bytes \<Rightarrow>
              (let buf = take SNIFF_LEN bytes in
               if CHR 0x00 \<in> set buf then Inl NotText
               else
                 (let buf' = buf @ take (READ_CAP - length buf + 1) (drop (length buf) bytes)
                  in Inr (lossy (take READ_CAP buf'), READ_CAP < length buf'))))"

section \<open>Properties\<close>

lemma read_text_buffer:
  "take SNIFF_LEN bytes @ take (READ_CAP - length (take SNIFF_LEN bytes) + 1) (drop (length (take SNIFF_LEN bytes)) bytes)
   = take (READ_CAP + 1) bytes"
proof (cases "length bytes \<le> SNIFF_LEN")
  case False
  then have "SNIFF_LEN + (READ_CAP - SNIFF_LEN + 1) = READ_CAP + 1" "length (take SNIFF_LEN bytes) = SNIFF_LEN"
    by (simp_all add: READ_CAP_def SNIFF_LEN_def)
  then show ?thesis using take_add [of SNIFF_LEN "READ_CAP - SNIFF_LEN + 1" bytes] by simp
qed (simp add: READ_CAP_def SNIFF_LEN_def)

text \<open>Reading in two steps and cutting is reading the file's first half megabyte: a regular file
  without a zero byte in its first eight kilobytes is delivered up to the cap, and is marked as cut exactly
  when it is longer; every other file is refused and nothing of it is delivered.\<close>
theorem read_text_exact:
  "read_text lossy f =
     (case (fr_is_file f, fr_bytes f) of
        (Inl e, _) \<Rightarrow> Inl (Io e)
      | (Inr False, _) \<Rightarrow> Inl NotText
      | (Inr True, Inl e) \<Rightarrow> Inl (Io e)
      | (Inr True, Inr bytes) \<Rightarrow>
          if CHR 0x00 \<in> set (take 8192 bytes) then Inl NotText
          else Inr (lossy (take 524288 bytes), 524288 < length bytes))"
proof -
  have "take READ_CAP (take (READ_CAP + 1) bytes) = take 524288 bytes"
    "READ_CAP < length (take (READ_CAP + 1) bytes) \<longleftrightarrow> 524288 < length bytes" for bytes :: string
    by (auto simp: READ_CAP_def)
  then show ?thesis
    unfolding read_text_def Let_def read_text_buffer
    by (auto simp: SNIFF_LEN_def split: sum.split bool.split)
qed


lemma list_dir_lists:
  "set (map te_name (list_dir lower (Some es) flags rel)) = {n. n \<noteq> ''.git'' \<and> (\<exists>d. (n, Some d) \<in> set es)}"
proof -
  have name: "te_name (tree_entry_of flags rel n d) = n" for n d by (simp add: tree_entry_of_def Let_def)
  define f where "f = (\<lambda>(name, ty). if name = ''.git'' then None else map_option (tree_entry_of flags rel name) ty)"
  have f: "f (n, ty) = Some e \<longleftrightarrow> n \<noteq> ''.git'' \<and> (\<exists>d. ty = Some d \<and> e = tree_entry_of flags rel n d)" for n ty e
    by (cases ty) (auto simp: f_def)
  have "set (list_dir lower (Some es) flags rel) = set (List.map_filter f es)"
  proof -
    have "{e \<in> S. te_kind e = DirEntry} \<union> {e \<in> S. te_kind e = FileEntry} = S" for S :: "tree_entry set"
      using entry_kind.exhaust by blast
    then show ?thesis unfolding list_dir_def f_def [symmetric] option.case Let_def by simp
  qed
  moreover have "e \<in> set (List.map_filter f es) \<longleftrightarrow> (\<exists>x \<in> set es. f x = Some e)" for e
    by (force simp: List.map_filter_def)
  ultimately have mem: "e \<in> set (list_dir lower (Some es) flags rel) \<longleftrightarrow> (\<exists>n ty. (n, ty) \<in> set es \<and> f (n, ty) = Some e)" for e
    by auto
  show ?thesis
  proof (intro set_eqI iffI)
    fix n assume "n \<in> set (map te_name (list_dir lower (Some es) flags rel))"
    then obtain e where "e \<in> set (list_dir lower (Some es) flags rel)" "te_name e = n" by auto
    then show "n \<in> {n. n \<noteq> ''.git'' \<and> (\<exists>d. (n, Some d) \<in> set es)}" unfolding mem f using name by auto
  next
    fix n assume "n \<in> {n. n \<noteq> ''.git'' \<and> (\<exists>d. (n, Some d) \<in> set es)}"
    then obtain d where "n \<noteq> ''.git''" "(n, Some d) \<in> set es" by blast
    then have "tree_entry_of flags rel n d \<in> set (list_dir lower (Some es) flags rel)" unfolding mem f by blast
    then have "te_name (tree_entry_of flags rel n d) \<in> te_name ` set (list_dir lower (Some es) flags rel)" by (rule imageI)
    then show "n \<in> set (map te_name (list_dir lower (Some es) flags rel))" unfolding name set_map .
  qed
qed

end
