(* ===== verification/Profile_Merge.thy ===== *)
theory Profile_Merge
  imports Session_Title
begin

text \<open>
  The records of a configuration profile (\<^verbatim>\<open>crates/willie-plugins/profiles/src/model.rs\<close>) and the
  merge of its fragments into a project's files (\<^verbatim>\<open>apply.rs\<close>), pure over texts. Reading and printing JSON
  are parameters.

  Shown: merging keeps the target's keys in their order and is settled by one application, whatever the
  settings and the servers say about the same keys; the text around the managed block is kept, and a
  second application of a fragment that has no closing marker of its own changes nothing.
\<close>

section \<open>The profile\<close>

datatype settings_scope = ScopeOfProject | ScopeOfAll

record fragments =
  fg_settings :: bool
  fg_settings_scope :: settings_scope
  fg_instructions :: bool
  fg_rules :: "string list"
  fg_hooks :: "string list"
  fg_mcp :: bool

definition fragments_default :: fragments where
  "fragments_default =
     \<lparr>fg_settings = False, fg_settings_scope = ScopeOfProject, fg_instructions = False, fg_rules = [],
      fg_hooks = [], fg_mcp = False\<rparr>"

definition active_names :: "fragments \<Rightarrow> string list" where
  "active_names f =
     (if fg_settings f then [''settings''] else [])
     @ (if fg_instructions f then [''instructions''] else [])
     @ (if fg_mcp f then [''mcp''] else [])
     @ map (\<lambda>n. ''rules/'' @ n) (fg_rules f)
     @ map (\<lambda>n. ''hooks/'' @ n) (fg_hooks f)"

record profile =
  pf_name :: string
  pf_fragments :: fragments

definition scaffold :: "string \<Rightarrow> profile" where
  "scaffold name = \<lparr>pf_name = name, pf_fragments = fragments_default\<rparr>"

record profile_summary =
  su_name :: string
  su_active :: "string list"

definition summary_of :: "profile \<Rightarrow> profile_summary" where
  "summary_of p = \<lparr>su_name = pf_name p, su_active = active_names (pf_fragments p)\<rparr>"

datatype fragment = Settings | Instructions | Mcp | Rule string | Hook string

definition starts_with_drive_letter :: "string \<Rightarrow> bool" where
  "starts_with_drive_letter s \<longleftrightarrow>
     (case s of c # d # cs \<Rightarrow> (ascii_lower c \<or> ascii_upper c) \<and> d = CHR '':'' | _ \<Rightarrow> False)"

definition is_safe_file_name :: "string \<Rightarrow> bool" where
  "is_safe_file_name f \<longleftrightarrow>
     f \<noteq> [] \<and> CHR ''/'' \<notin> set f \<and> CHR 0x5C \<notin> set f \<and> f \<noteq> ''.'' \<and> f \<noteq> ''..'' \<and> \<not> starts_with_drive_letter f"

definition is_valid_profile_name :: "string \<Rightarrow> bool" where
  "is_valid_profile_name name \<longleftrightarrow> is_safe_file_name name"

definition parse_fragment :: "string \<Rightarrow> fragment option" where
  "parse_fragment s =
     (if s = ''settings'' then Some Settings
      else if s = ''instructions'' then Some Instructions
      else if s = ''mcp'' then Some Mcp
      else case strip_prefix ''rules/'' s of
        Some f \<Rightarrow> if is_safe_file_name f then Some (Rule f) else None
      | None \<Rightarrow>
          (case strip_prefix ''hooks/'' s of
             Some f \<Rightarrow> if is_safe_file_name f then Some (Hook f) else None
           | None \<Rightarrow> None))"

fun fragment_path :: "fragment \<Rightarrow> string" where
  "fragment_path Settings = ''settings.json''"
| "fragment_path Instructions = ''CLAUDE.md''"
| "fragment_path Mcp = ''mcp.json''"
| "fragment_path (Rule f) = ''rules/'' @ f"
| "fragment_path (Hook f) = ''hooks/'' @ f"

definition push_once :: "string list \<Rightarrow> string \<Rightarrow> string list" where
  "push_once xs x = (if x \<in> set xs then xs else xs @ [x])"

fun mark_active :: "fragment \<Rightarrow> fragments \<Rightarrow> fragments" where
  "mark_active Settings f = f\<lparr>fg_settings := True\<rparr>"
| "mark_active Instructions f = f\<lparr>fg_instructions := True\<rparr>"
| "mark_active Mcp f = f\<lparr>fg_mcp := True\<rparr>"
| "mark_active (Rule n) f = f\<lparr>fg_rules := push_once (fg_rules f) n\<rparr>"
| "mark_active (Hook n) f = f\<lparr>fg_hooks := push_once (fg_hooks f) n\<rparr>"

section \<open>Merging JSON\<close>

text \<open>A map keeps the place of a key it has.\<close>

fun put_member :: "string \<Rightarrow> json \<Rightarrow> (string \<times> json) list \<Rightarrow> (string \<times> json) list" where
  "put_member k v [] = [(k, v)]"
| "put_member k v ((k', v') # m) = (if k' = k then (k, v) # m else (k', v') # put_member k v m)"

fun deep_merge :: "json \<Rightarrow> json \<Rightarrow> json"
  and merge_members :: "(string \<times> json) list \<Rightarrow> (string \<times> json) list \<Rightarrow> (string \<times> json) list" where
  "deep_merge target (JObject fm) =
     (case target of JObject tm \<Rightarrow> JObject (merge_members tm fm) | _ \<Rightarrow> JObject fm)"
| "deep_merge target JNull = JNull"
| "deep_merge target (JBool b) = JBool b"
| "deep_merge target (JNumber n) = JNumber n"
| "deep_merge target (JString s) = JString s"
| "deep_merge target (JArray xs) = JArray xs"
| "merge_members tm [] = tm"
| "merge_members tm ((k, v) # fm) =
     merge_members
       (case map_of tm k of
          Some existing \<Rightarrow> put_member k (deep_merge existing v) tm
        | None \<Rightarrow> put_member k v tm) fm"

record apply_error =
  ae_code :: string
  ae_message :: string

text \<open>Reading a text as JSON, and printing a value on several lines.\<close>

record json_text =
  jt_parse :: "string \<Rightarrow> string + json"
  jt_pretty :: "json \<Rightarrow> string + string"

definition parse_json :: "json_text \<Rightarrow> string \<Rightarrow> string \<Rightarrow> apply_error + json" where
  "parse_json jt t which =
     (case jt_parse jt t of
        Inl e \<Rightarrow> Inl \<lparr>ae_code = ''profile_fragment_invalid'',
          ae_message = ''the '' @ which @ '' is not valid JSON: '' @ e\<rparr>
      | Inr v \<Rightarrow> Inr v)"

definition serialize_pretty :: "json_text \<Rightarrow> json \<Rightarrow> apply_error + string" where
  "serialize_pretty jt v =
     (case jt_pretty jt v of
        Inl e \<Rightarrow> Inl \<lparr>ae_code = ''profile_fragment_invalid'',
          ae_message = ''cannot serialise the merged JSON: '' @ e\<rparr>
      | Inr t \<Rightarrow> Inr (t @ [CHR 0x0A]))"

definition merge_value :: "json_text \<Rightarrow> string \<Rightarrow> string \<Rightarrow> string option \<Rightarrow> apply_error + string" where
  "merge_value jt target fragment inside =
     (case parse_json jt target ''target'' of
        Inl e \<Rightarrow> Inl e
      | Inr t \<Rightarrow>
          (case parse_json jt fragment ''fragment'' of
             Inl e \<Rightarrow> Inl e
           | Inr f \<Rightarrow>
               (case inside of
                  None \<Rightarrow> serialize_pretty jt (deep_merge t f)
                | Some key \<Rightarrow>
                    (case t of
                       JObject tm \<Rightarrow>
                         (let slot = (case map_of tm key of Some v \<Rightarrow> v | None \<Rightarrow> JObject [])
                          in serialize_pretty jt (JObject (put_member key (deep_merge slot f) tm)))
                     | _ \<Rightarrow> Inl \<lparr>ae_code = ''profile_fragment_invalid'',
                              ae_message = ''the target is not a JSON object''\<rparr>))))"

definition merge_json :: "json_text \<Rightarrow> string \<Rightarrow> string \<Rightarrow> apply_error + string" where
  "merge_json jt target fragment = merge_value jt target fragment None"

definition merge_under :: "json_text \<Rightarrow> string \<Rightarrow> string \<Rightarrow> string \<Rightarrow> apply_error + string" where
  "merge_under jt target key fragment = merge_value jt target fragment (Some key)"

section \<open>The managed block\<close>

text \<open>\<open>str::find\<close>.\<close>

fun find_sub :: "'a list \<Rightarrow> 'a list \<Rightarrow> nat option" where
  "find_sub p [] = (if p = [] then Some 0 else None)"
| "find_sub p (c # s) = (if starts_with (c # s) p then Some 0 else map_option Suc (find_sub p s))"

definition MARKER_BEGIN :: string where "MARKER_BEGIN = ''<!-- willie:begin -->''"

definition MARKER_END :: string where "MARKER_END = ''<!-- willie:end -->''"

definition marker_block :: "string \<Rightarrow> string" where
  "marker_block fragment =
     MARKER_BEGIN @ [CHR 0x0A] @ trim_both (\<lambda>c. c = CHR 0x0A) fragment @ [CHR 0x0A] @ MARKER_END"

definition marker_span :: "string \<Rightarrow> apply_error + (nat \<times> nat) option" where
  "marker_span target =
     (case find_sub MARKER_BEGIN target of
        None \<Rightarrow> Inr None
      | Some start \<Rightarrow>
          (let after_begin = start + length MARKER_BEGIN in
           case find_sub MARKER_END (drop after_begin target) of
             None \<Rightarrow> Inl \<lparr>ae_code = ''profile_markers_malformed'',
               ae_message = ''the willie-managed block is missing its closing <!-- willie:end --> marker; ''
                 @ ''fix or remove the stray <!-- willie:begin --> marker, then apply again''\<rparr>
           | Some end_rel \<Rightarrow> Inr (Some (start, after_begin + end_rel + length MARKER_END))))"

definition append_block :: "string \<Rightarrow> string \<Rightarrow> string" where
  "append_block target block =
     (if target = [] then block @ [CHR 0x0A]
      else
        (let result = (if last target = CHR 0x0A then target else target @ [CHR 0x0A])
         in result @ [CHR 0x0A] @ block @ [CHR 0x0A]))"

definition merge_markdown :: "string \<Rightarrow> string \<Rightarrow> apply_error + string" where
  "merge_markdown target fragment =
     (let block = marker_block fragment in
      case marker_span target of
        Inl e \<Rightarrow> Inl e
      | Inr (Some (start, fin)) \<Rightarrow> Inr (take start target @ block @ drop fin target)
      | Inr None \<Rightarrow> Inr (append_block target block))"

section \<open>The plan\<close>

record fragment_content =
  fc_fragment :: string
  fc_existing :: "string option"

record targets =
  tg_settings :: "fragment_content option"
  tg_mcp :: "fragment_content option"
  tg_instructions :: "fragment_content option"
  tg_rules :: "string \<Rightarrow> fragment_content option"
  tg_hooks :: "string \<Rightarrow> fragment_content option"

datatype change_kind = ChCreate | ChMerge | ChOverwrite

record change =
  ch_path :: string
  ch_kind :: change_kind
  ch_after :: string

definition missing_target :: "string \<Rightarrow> apply_error" where
  "missing_target fragment =
     \<lparr>ae_code = ''profile_fragment_missing'',
      ae_message = ''the `'' @ fragment @ ''` fragment is active but no target content was supplied''\<rparr>"

definition plan_settings :: "json_text \<Rightarrow> fragments \<Rightarrow> targets \<Rightarrow> apply_error + change option" where
  "plan_settings jt f t =
     (if \<not> fg_settings f \<and> \<not> fg_mcp f then Inr None
      else
        (let existing = (case Option.bind (tg_settings t) fc_existing of
                           Some x \<Rightarrow> Some x | None \<Rightarrow> Option.bind (tg_mcp t) fc_existing);
             current = (case existing of Some x \<Rightarrow> x | None \<Rightarrow> ''{}'')
         in case (if fg_settings f then
                    (case tg_settings t of
                       None \<Rightarrow> Inl (missing_target ''settings'')
                     | Some c \<Rightarrow> merge_json jt current (fc_fragment c))
                  else Inr current) of
              Inl e \<Rightarrow> Inl e
            | Inr current \<Rightarrow>
                (case (if fg_mcp f then
                         (case tg_mcp t of
                            None \<Rightarrow> Inl (missing_target ''mcp'')
                          | Some c \<Rightarrow> merge_under jt current ''mcpServers'' (fc_fragment c))
                       else Inr current) of
                   Inl e \<Rightarrow> Inl e
                 | Inr current \<Rightarrow>
                     Inr (Some \<lparr>ch_path = ''.claude/settings.json'',
                       ch_kind = (if existing \<noteq> None then ChMerge else ChCreate), ch_after = current\<rparr>))))"

definition plan_instructions :: "targets \<Rightarrow> apply_error + change" where
  "plan_instructions t =
     (case tg_instructions t of
        None \<Rightarrow> Inl (missing_target ''instructions'')
      | Some c \<Rightarrow>
          (case merge_markdown (case fc_existing c of Some x \<Rightarrow> x | None \<Rightarrow> []) (fc_fragment c) of
             Inl e \<Rightarrow> Inl e
           | Inr after \<Rightarrow>
               Inr \<lparr>ch_path = ''CLAUDE.md'',
                 ch_kind = (if fc_existing c \<noteq> None then ChMerge else ChCreate), ch_after = after\<rparr>))"

fun plan_files :: "string list \<Rightarrow> (string \<Rightarrow> fragment_content option) \<Rightarrow> string \<Rightarrow> apply_error + change list" where
  "plan_files [] inputs dest_dir = Inr []"
| "plan_files (name # names) inputs dest_dir =
     (case inputs name of
        None \<Rightarrow> Inl (missing_target name)
      | Some c \<Rightarrow>
          (case plan_files names inputs dest_dir of
             Inl e \<Rightarrow> Inl e
           | Inr cs \<Rightarrow>
               Inr (\<lparr>ch_path = dest_dir @ ''/'' @ name,
                 ch_kind = (if fc_existing c \<noteq> None then ChOverwrite else ChCreate),
                 ch_after = fc_fragment c\<rparr> # cs)))"

definition plan_changes :: "json_text \<Rightarrow> profile \<Rightarrow> targets \<Rightarrow> apply_error + change list" where
  "plan_changes jt p t =
     (let f = pf_fragments p in
      case plan_settings jt f t of
        Inl e \<Rightarrow> Inl e
      | Inr settings \<Rightarrow>
          (case (if fg_instructions f then
                   (case plan_instructions t of Inl e \<Rightarrow> Inl e | Inr c \<Rightarrow> Inr [c])
                 else Inr []) of
             Inl e \<Rightarrow> Inl e
           | Inr instructions \<Rightarrow>
               (case plan_files (fg_rules f) (tg_rules t) ''.claude/rules'' of
                  Inl e \<Rightarrow> Inl e
                | Inr rules \<Rightarrow>
                    (case plan_files (fg_hooks f) (tg_hooks t) ''.claude/hooks'' of
                       Inl e \<Rightarrow> Inl e
                     | Inr hooks \<Rightarrow>
                         Inr ((case settings of Some c \<Rightarrow> [c] | None \<Rightarrow> [])
                           @ instructions @ rules @ hooks)))))"

section \<open>A merge is settled by one application\<close>

lemma size_member: "map_of m k = Some v \<Longrightarrow> size v < size (JObject m)"
  by (induction m) (auto split: if_splits)

text \<open>A value that was read has each key of an object once.\<close>

fun json_ok :: "json \<Rightarrow> bool" where
  "json_ok (JArray xs) \<longleftrightarrow> list_all json_ok xs"
| "json_ok (JObject m) \<longleftrightarrow> distinct (map fst m) \<and> list_all (\<lambda>e. json_ok (snd e)) m"
| "json_ok _ \<longleftrightarrow> True"

lemma json_ok_member: "json_ok (JObject m) \<Longrightarrow> map_of m k = Some v \<Longrightarrow> json_ok v"
  by (auto simp: list_all_iff dest: map_of_SomeD)

fun members :: "json \<Rightarrow> (string \<times> json) list" where
  "members (JObject m) = m"
| "members _ = []"

text \<open>A key that is not there reads as null, into which every value merges as itself.\<close>

definition at_key :: "(string \<times> json) list \<Rightarrow> string \<Rightarrow> json" where
  "at_key m k = (case map_of m k of Some v \<Rightarrow> v | None \<Rightarrow> JNull)"

lemma keys_put: "map fst (put_member k v m) = (if k \<in> fst ` set m then map fst m else map fst m @ [k])"
  by (induction k v m rule: put_member.induct) auto

lemma map_of_put: "map_of (put_member k v m) = (map_of m)(k \<mapsto> v)"
  by (induction k v m rule: put_member.induct) auto

lemma merge_members_step:
  "merge_members tm ((k, v) # fm) = merge_members (put_member k (deep_merge (at_key tm k) v) tm) fm"
  by (cases v) (auto simp: at_key_def split: option.split)

lemma keys_merge:
  "distinct (map fst fm) \<Longrightarrow>
   map fst (merge_members tm fm) = map fst tm @ filter (\<lambda>k. k \<notin> fst ` set tm) (map fst fm)"
proof (induction fm arbitrary: tm)
  case (Cons e fm)
  obtain k v where e: "e = (k, v)" by fastforce
  let ?tm = "put_member k (deep_merge (at_key tm k) v) tm"
  from Cons.prems e have "distinct (map fst fm)" "k \<notin> fst ` set fm" by auto
  have keys: "fst ` set ?tm = insert k (fst ` set tm)"
    using keys_put [of k "deep_merge (at_key tm k) v" tm] by (metis list.set_map set_append list.simps(15)
        empty_set insert_absorb Un_insert_right Un_empty_right)
  have "filter (\<lambda>k'. k' \<notin> fst ` set ?tm) (map fst fm) = filter (\<lambda>k'. k' \<notin> fst ` set tm) (map fst fm)"
    using \<open>k \<notin> fst ` set fm\<close> unfolding keys by (intro filter_cong) auto
  then show ?case
    using Cons.IH [OF \<open>distinct (map fst fm)\<close>, of ?tm] unfolding e merge_members_step
    by (simp add: keys_put)
qed simp

lemma map_of_merge:
  "distinct (map fst fm) \<Longrightarrow>
   map_of (merge_members tm fm) k =
     (case map_of fm k of None \<Rightarrow> map_of tm k | Some v \<Rightarrow> Some (deep_merge (at_key tm k) v))"
proof (induction fm arbitrary: tm)
  case (Cons e fm)
  obtain k' v where e: "e = (k', v)" by fastforce
  have "map_of fm k' = None" using Cons.prems e by (simp add: map_of_eq_None_iff)
  then show ?case
    using Cons.IH Cons.prems unfolding e merge_members_step
    by (auto simp: map_of_put at_key_def split: option.split)
qed simp

lemma deep_merge_null: "deep_merge JNull v = v"
  by (cases v) simp_all

lemma merge_into_nothing: "distinct (map fst fm) \<Longrightarrow> merge_members [] fm = fm"
proof (induction fm rule: rev_induct)
  case (snoc e fm)
  have "merge_members tm (fm @ [e]) = merge_members (merge_members tm fm) [e]" for tm
    by (induction fm arbitrary: tm) (auto simp: merge_members_step)
  moreover have "put_member k v fm = fm @ [(k, v)]" if "k \<notin> fst ` set fm" for k v fm
    using that by (induction k v fm rule: put_member.induct) auto
  ultimately show ?case using snoc
    by (cases e) (auto simp: merge_members_step at_key_def deep_merge_null map_of_eq_None_iff [THEN iffD2])
qed simp

lemma deep_merge_object:
  "distinct (map fst fm) \<Longrightarrow> deep_merge t (JObject fm) = JObject (merge_members (members t) fm)"
  by (cases t) (simp_all add: merge_into_nothing)

lemma alist_eqI:
  assumes "map fst xs = map fst ys" and "distinct (map fst xs)" and "\<And>k. map_of xs k = map_of ys k"
  shows "xs = ys"
proof (rule nth_equalityI)
  show len: "length xs = length ys" using map_eq_imp_length_eq [OF assms(1)] .
  fix i assume i: "i < length xs"
  have "fst (xs ! i) = fst (ys ! i)" using i len assms(1) by (metis nth_map)
  moreover have "map_of xs (fst (xs ! i)) = Some (snd (xs ! i))"
    using i assms(2) by (simp add: map_of_is_SomeI)
  moreover have "map_of ys (fst (ys ! i)) = Some (snd (ys ! i))"
    using i len assms(1,2) by (simp add: map_of_is_SomeI)
  ultimately show "xs ! i = ys ! i" using assms(3) by (metis option.inject prod.collapse)
qed

lemma merge_ok: "json_ok t \<Longrightarrow> json_ok f \<Longrightarrow> json_ok (deep_merge t f)"
proof (induction "size f" arbitrary: t f rule: less_induct)
  case less
  show ?case
  proof (cases f)
    case (JObject fm)
    with less.prems have fm: "distinct (map fst fm)" by simp
    let ?m = "merge_members (members t) fm"
    have tm: "json_ok (JObject (members t))" using less.prems by (cases t) simp_all
    then have "distinct (map fst ?m)" using fm by (auto simp: keys_merge)
    moreover have "json_ok (snd e)" if "e \<in> set ?m" for e
    proof -
      from that \<open>distinct (map fst ?m)\<close> have e: "map_of ?m (fst e) = Some (snd e)" by (simp add: map_of_is_SomeI)
      have old: "json_ok (at_key (members t) k)" for k
        using json_ok_member [OF tm, of k] by (auto simp: at_key_def split: option.split)
      show ?thesis
      proof (cases "map_of fm (fst e)")
        case None
        with e fm json_ok_member [OF tm] show ?thesis by (simp add: map_of_merge)
      next
        case (Some v)
        with e fm have "snd e = deep_merge (at_key (members t) (fst e)) v" by (simp add: map_of_merge)
        moreover have "json_ok v" using json_ok_member Some less.prems(2) JObject by blast
        ultimately show ?thesis using less.hyps [of v] size_member [OF Some] old JObject by simp
      qed
    qed
    ultimately show ?thesis unfolding JObject deep_merge_object [OF fm] by (simp add: list_all_iff)
  qed (use less.prems in simp_all)
qed
text \<open>The members after two merges, and where they stand.\<close>

lemma at_key_merge:
  "distinct (map fst fm) \<Longrightarrow>
   at_key (merge_members tm fm) k =
     (case map_of fm k of None \<Rightarrow> at_key tm k | Some v \<Rightarrow> deep_merge (at_key tm k) v)"
  by (simp add: at_key_def map_of_merge split: option.split)

lemma merge_same:
  assumes "distinct (map fst fm)" and "distinct (map fst tm)" and "fst ` set fm \<subseteq> fst ` set tm"
    and "\<And>k v. map_of fm k = Some v \<Longrightarrow> deep_merge (at_key tm k) v = at_key tm k"
  shows "merge_members tm fm = tm"
proof (rule alist_eqI)
  have none: "filter (\<lambda>k. k \<notin> fst ` set tm) (map fst fm) = []" using assms(3) by (auto simp: filter_empty_conv)
  show "map fst (merge_members tm fm) = map fst tm" unfolding keys_merge [OF assms(1)] none by simp
  then show "distinct (map fst (merge_members tm fm))" using assms(2) by simp
  fix k
  show "map_of (merge_members tm fm) k = map_of tm k"
  proof (cases "map_of fm k")
    case (Some v)
    then have "k \<in> fst ` set tm" using assms(3) by (metis map_of_SomeD fst_conv image_eqI subset_iff)
    then obtain w where "map_of tm k = Some w" by (metis map_of_eq_None_iff not_None_eq)
    with Some assms(4) [OF Some] show ?thesis by (simp add: map_of_merge assms(1) at_key_def)
  qed (simp add: map_of_merge assms(1))
qed

lemma json_ok_at_key: "json_ok (JObject m) \<Longrightarrow> json_ok (at_key m k)"
  using json_ok_member [of m k] by (auto simp: at_key_def split: option.split)

lemma json_ok_members: "json_ok t \<Longrightarrow> json_ok (JObject (members t))"
  by (cases t) simp_all

lemma keys_grow: "distinct (map fst fm) \<Longrightarrow> fst ` set (merge_members tm fm) = fst ` set tm \<union> fst ` set fm"
proof -
  assume "distinct (map fst fm)"
  then have "set (map fst (merge_members tm fm)) = set (map fst tm) \<union> set (map fst fm)"
    unfolding keys_merge [OF \<open>distinct (map fst fm)\<close>] by auto
  then show ?thesis by simp
qed

lemma merge_twice: "json_ok t \<Longrightarrow> json_ok f \<Longrightarrow> deep_merge (deep_merge t f) f = deep_merge t f"
proof (induction "size f" arbitrary: t f rule: less_induct)
  case less
  show ?case
  proof (cases f)
    case (JObject fm)
    with less.prems have fm: "distinct (map fst fm)" by simp
    let ?m = "merge_members (members t) fm"
    have "json_ok (JObject ?m)" using merge_ok [OF less.prems] unfolding JObject deep_merge_object [OF fm] .
    then have m: "distinct (map fst ?m)" by simp
    have "merge_members ?m fm = ?m"
    proof (rule merge_same [OF fm m])
      show "fst ` set fm \<subseteq> fst ` set ?m" by (simp add: keys_grow [OF fm])
      fix k v assume v: "map_of fm k = Some v"
      have ok: "json_ok v" using json_ok_member v less.prems(2) JObject by blast
      have "size v < size f" using size_member [OF v] JObject by simp
      from less.hyps [OF this json_ok_at_key [OF json_ok_members [OF less.prems(1)]] ok, of k]
      show "deep_merge (at_key ?m k) v = at_key ?m k" by (simp add: at_key_merge [OF fm] v)
    qed
    then show ?thesis unfolding JObject deep_merge_object [OF fm] members.simps by simp
  qed simp_all
qed

text \<open>Two fragments merged in turn, over and over, are settled after the first round, whatever they say
  about the same keys.\<close>

lemma merge_round:
  "json_ok t \<Longrightarrow> json_ok f \<Longrightarrow> json_ok g \<Longrightarrow>
   deep_merge (deep_merge (deep_merge (deep_merge t f) g) f) g = deep_merge (deep_merge t f) g"
proof (induction "size g" arbitrary: t f g rule: less_induct)
  case less
  show ?case
  proof (cases g)
    case (JObject gm)
    note g = this
    with less.prems have gm: "distinct (map fst gm)" by simp
    show ?thesis
    proof (cases "\<exists>fm. f = JObject fm")
      case False
      then have "deep_merge v f = f" for v by (cases f) simp_all
      then show ?thesis by (simp add: less.prems merge_twice)
    next
      case True
      then obtain fm where f: "f = JObject fm" by blast
      with less.prems have fm: "distinct (map fst fm)" by simp
      let ?u = "merge_members (members t) fm"
      let ?m = "merge_members ?u gm"
      have u: "json_ok (JObject ?u)" using merge_ok [OF less.prems(1,2)] unfolding f deep_merge_object [OF fm] .
      have "json_ok (JObject ?m)" using merge_ok [OF u less.prems(3)] unfolding g deep_merge_object [OF gm] by simp
      then have m: "distinct (map fst ?m)" by simp
      let ?w = "merge_members ?m fm"
      have keys: "map fst ?w = map fst ?m"
        unfolding keys_merge [OF fm] by (auto simp: filter_empty_conv keys_grow [OF fm] keys_grow [OF gm])
      have "merge_members ?w gm = ?m"
      proof (rule alist_eqI)
        have "filter (\<lambda>k. k \<notin> fst ` set ?w) (map fst gm) = []"
          using arg_cong [OF keys, of set] by (auto simp: filter_empty_conv keys_grow [OF gm])
        then show "map fst (merge_members ?w gm) = map fst ?m" unfolding keys_merge [OF gm] keys by simp
        then show "distinct (map fst (merge_members ?w gm))" using m by simp
        fix k
        let ?t = "at_key (members t) k"
        have t: "json_ok ?t" by (rule json_ok_at_key [OF json_ok_members [OF less.prems(1)]])
        have fok: "json_ok v" if "map_of fm k = Some v" for v using json_ok_member that less.prems(2) f by blast
        have gok: "json_ok v" if "map_of gm k = Some v" for v using json_ok_member that less.prems(3) g by blast
        have hyp: "deep_merge (deep_merge (deep_merge (deep_merge ?t a) b) a) b = deep_merge (deep_merge ?t a) b"
          if "map_of fm k = Some a" "map_of gm k = Some b" for a b
          using less.hyps [OF _ t fok gok] that size_member [of gm k b] g by simp
        show "map_of (merge_members ?w gm) k = map_of ?m k"
          using t hyp fok gok
          by (auto simp: map_of_merge gm fm at_key_merge merge_twice split: option.split)
      qed
      then show ?thesis unfolding f g deep_merge_object [OF fm] deep_merge_object [OF gm] members.simps by simp
    qed
  qed simp_all
qed

lemma merge_below:
  assumes "json_ok f"
  shows "JObject (put_member key (deep_merge (case map_of tm key of Some v \<Rightarrow> v | None \<Rightarrow> JObject []) f) tm)
    = deep_merge (JObject tm) (JObject [(key, f)])"
proof -
  have "deep_merge (JObject []) f = deep_merge JNull f"
    using assms by (cases f) (simp_all add: merge_into_nothing)
  then show ?thesis
    by (cases "map_of tm key") (simp_all add: deep_merge_null)
qed
section \<open>The managed block and the prose around it\<close>

lemma find_sub_Nil [simp]: "find_sub [] s = Some 0"
  by (cases s) (simp_all add: starts_with_iff)

lemma find_sub_Some:
  "find_sub p s = Some n \<Longrightarrow> \<exists>a b. s = a @ p @ b \<and> length a = n"
proof (induction s arbitrary: n)
  case (Cons c s)
  show ?case
  proof (cases "starts_with (c # s) p")
    case True
    with Cons.prems have "n = 0" by simp
    with True show ?thesis by (auto simp: starts_with_iff prefix_def)
  next
    case False
    with Cons.prems obtain m where m: "find_sub p s = Some m" "n = Suc m" by auto
    from Cons.IH [OF m(1)] obtain a b where "s = a @ p @ b" "length a = m" by blast
    with m(2) show ?thesis by (intro exI [of _ "c # a"] exI [of _ b]) simp
  qed
qed (auto split: if_splits)

lemma find_sub_None: "find_sub p s = None \<longleftrightarrow> \<not> (\<exists>a b. s = a @ p @ b)"
proof
  show "find_sub p s = None \<Longrightarrow> \<not> (\<exists>a b. s = a @ p @ b)"
  proof (induction s)
    case (Cons c s)
    have "starts_with (c # s) p" if "c # s = p @ b" for b using that by (simp add: starts_with_iff prefix_def)
    with Cons show ?case by (auto simp: Cons_eq_append_conv split: if_splits)
  qed (auto split: if_splits)
next
  assume "\<not> (\<exists>a b. s = a @ p @ b)"
  then show "find_sub p s = None" using find_sub_Some [of p s] by (cases "find_sub p s") blast+
qed

text \<open>What comes behind the first occurrence does not matter for where it is.\<close>

lemma prefix_append_same: "length p \<le> length a \<Longrightarrow> prefix p (a @ b) \<longleftrightarrow> prefix p a"
  by (auto simp: prefix_append)

lemma find_sub_behind: "find_sub p (a @ p @ b) = Some (length a) \<Longrightarrow> find_sub p (a @ p @ b') = Some (length a)"
proof (induction a)
  case Nil
  then show ?case by (cases "p @ b'"; cases p) (auto simp: starts_with_iff)
next
  case (Cons c a)
  have "starts_with (c # a @ p @ b'') p \<longleftrightarrow> prefix p (c # a @ p)" for b''
    using prefix_append_same [of p "c # a @ p" b''] by (simp add: starts_with_iff)
  with Cons show ?case by (auto split: if_splits)
qed

text \<open>A pattern does not reach over a character it does not have.\<close>

lemma find_sub_over:
  assumes "p \<noteq> []" and "c \<notin> set p" and "find_sub p a = None"
  shows "find_sub p (a @ c # b) = map_option (\<lambda>n. Suc (length a + n)) (find_sub p b)"
  using assms(3)
proof (induction a)
  case Nil
  have "\<not> starts_with (c # b) p" using assms(1,2) by (auto simp: starts_with_iff prefix_Cons)
  then show ?case by (simp add: option.map_comp comp_def)
next
  case (Cons d a)
  have "\<not> starts_with ((d # a) @ c # b) p"
  proof
    assume "starts_with ((d # a) @ c # b) p"
    then have "prefix p ((d # a) @ c # b)" by (simp add: starts_with_iff)
    then consider "prefix p (d # a)" | q where "p = (d # a) @ q" "prefix q (c # b)" "q \<noteq> []"
      unfolding prefix_append by (metis append_Nil2 prefix_order.refl)
    then show False
    proof cases
      case 1
      with Cons.prems show False by (simp add: starts_with_iff)
    next
      case 2
      with assms(2) show False by (auto simp: prefix_Cons)
    qed
  qed
  with Cons show ?case by (auto simp: option.map_comp comp_def split: if_splits)
qed

lemmas markers = MARKER_BEGIN_def MARKER_END_def

lemma find_end_in_block:
  assumes "find_sub MARKER_END f = None"
  shows "find_sub MARKER_END (CHR 0x0A # trim_both (\<lambda>c. c = CHR 0x0A) f @ CHR 0x0A # MARKER_END @ rest)
    = Some (Suc (Suc (length (trim_both (\<lambda>c. c = CHR 0x0A) f))))"
proof -
  let ?p = "\<lambda>c. c = CHR 0x0A" and ?f = "trim_both (\<lambda>c. c = CHR 0x0A) f"
  have "\<exists>a b. f = a @ ?f @ b"
  proof -
    have "dropWhile ?p f = ?f @ rev (takeWhile ?p (rev (dropWhile ?p f)))"
      unfolding trim_both_def trim_end_def trim_start_def
      by (metis rev_append rev_rev_ident takeWhile_dropWhile_id)
    then have "f = takeWhile ?p f @ ?f @ rev (takeWhile ?p (rev (dropWhile ?p f)))"
      by (metis takeWhile_dropWhile_id)
    then show ?thesis by blast
  qed
  with assms have none: "find_sub MARKER_END ?f = None"
    unfolding find_sub_None by (metis append.assoc)
  have over: "MARKER_END \<noteq> []" "CHR 0x0A \<notin> set MARKER_END" by (simp_all add: markers)
  have "find_sub MARKER_END (MARKER_END @ rest) = Some 0"
    by (simp add: markers starts_with_iff)
  with find_sub_over [OF over none, of "MARKER_END @ rest"]
  have "find_sub MARKER_END (?f @ CHR 0x0A # MARKER_END @ rest) = Some (Suc (length ?f))" by simp
  with find_sub_over [OF over, of "[]" "?f @ CHR 0x0A # MARKER_END @ rest"] over(1)
  show ?thesis by simp
qed

lemma span_of_block:
  assumes "find_sub MARKER_BEGIN (pre @ marker_block f @ rest) = Some (length pre)"
    and "find_sub MARKER_END f = None"
  shows "marker_span (pre @ marker_block f @ rest) = Inr (Some (length pre, length pre + length (marker_block f)))"
proof -
  have "drop (length pre + length MARKER_BEGIN) (pre @ marker_block f @ rest)
    = CHR 0x0A # trim_both (\<lambda>c. c = CHR 0x0A) f @ CHR 0x0A # MARKER_END @ rest"
    by (simp add: marker_block_def)
  with assms find_end_in_block [OF assms(2), of rest] show ?thesis
    by (simp add: marker_span_def marker_block_def)
qed

text \<open>The three shapes of a target: no block, a block, an opening marker alone.\<close>

lemma merge_markdown_cases:
  assumes "merge_markdown t f = Inr r"
  obtains sep where "find_sub MARKER_BEGIN t = None" "r = t @ sep @ marker_block f @ [CHR 0x0A]"
      "sep = [] \<and> t = [] \<or> sep = [CHR 0x0A] \<or> sep = [CHR 0x0A, CHR 0x0A]"
  | pre old post where "find_sub MARKER_BEGIN t = Some (length pre)" "t = pre @ (MARKER_BEGIN @ old @ MARKER_END) @ post"
      "r = pre @ marker_block f @ post"
proof (cases "find_sub MARKER_BEGIN t")
  case None
  have "\<exists>sep. append_block t b = t @ sep @ b @ [CHR 0x0A] \<and> (sep = [] \<and> t = [] \<or> sep = [CHR 0x0A] \<or> sep = [CHR 0x0A, CHR 0x0A])" for b
    by (auto simp: append_block_def Let_def)
  with None assms that(1) show thesis by (auto simp: merge_markdown_def marker_span_def)
next
  case (Some n)
  obtain pre rest where t: "t = pre @ MARKER_BEGIN @ rest" and n: "length pre = n"
    using find_sub_Some [OF Some] by blast
  show thesis
  proof (cases "find_sub MARKER_END rest")
    case None
    with assms Some n show thesis by (simp add: merge_markdown_def marker_span_def t)
  next
    case s: (Some m)
    obtain old post where rest: "rest = old @ MARKER_END @ post" and m: "length old = m"
      using find_sub_Some [OF s] by blast
    have "r = pre @ marker_block f @ post"
      using assms Some n s m by (simp add: merge_markdown_def marker_span_def t rest)
    with that(2) [of pre old post] Some t n rest show thesis by simp
  qed
qed

lemma merge_markdown_settles:
  assumes "merge_markdown t f = Inr r" and "find_sub MARKER_END f = None"
  shows "merge_markdown r f = Inr r"
proof -
  have again: "merge_markdown (pre @ marker_block f @ rest) f = Inr (pre @ marker_block f @ rest)"
    if "find_sub MARKER_BEGIN (pre @ marker_block f @ rest) = Some (length pre)" for pre rest
    using span_of_block [OF that assms(2)] by (simp add: merge_markdown_def)
  have first: "find_sub MARKER_BEGIN (marker_block f @ rest) = Some 0" for rest
    by (simp add: marker_block_def markers starts_with_iff)
  from assms(1) show ?thesis
  proof (cases rule: merge_markdown_cases)
    case (1 sep)
    have over: "MARKER_BEGIN \<noteq> []" "CHR 0x0A \<notin> set MARKER_BEGIN" by (simp_all add: markers)
    have none: "find_sub MARKER_BEGIN [] = None" by (simp add: markers)
    have "find_sub MARKER_BEGIN ((t @ sep) @ marker_block f @ [CHR 0x0A]) = Some (length (t @ sep))"
      using 1(3) first [of "[CHR 0x0A]"] find_sub_over [OF over 1(1), of "marker_block f @ [CHR 0x0A]"]
        find_sub_over [OF over 1(1), of "CHR 0x0A # marker_block f @ [CHR 0x0A]"]
        find_sub_over [OF over none, of "marker_block f @ [CHR 0x0A]"]
      by auto
    from again [OF this] 1(2) show ?thesis by simp
  next
    case (2 pre old post)
    have "find_sub MARKER_BEGIN (pre @ marker_block f @ post) = Some (length pre)"
      using find_sub_behind [of MARKER_BEGIN pre "old @ MARKER_END @ post"] 2(1,2) by (simp add: marker_block_def)
    from again [OF this] 2(3) show ?thesis by simp
  qed
qed

text \<open>A fragment with a closing marker of its own never settles: each application leaves another tail.\<close>

lemma merge_markdown_grows:
  "map_option (\<lambda>r. merge_markdown r MARKER_END) (case merge_markdown [] MARKER_END of Inr r \<Rightarrow> Some r | Inl e \<Rightarrow> None)
   = Some (Inr (marker_block MARKER_END @ [CHR 0x0A] @ MARKER_END @ [CHR 0x0A]))"
  by code_simp

section \<open>A plan carried out leaves nothing to do\<close>

text \<open>What a target holds once the changes are written, and the inputs read again.\<close>

definition written :: "change list \<Rightarrow> string \<Rightarrow> string option \<Rightarrow> string option" where
  "written cs path old = (case find (\<lambda>c. ch_path c = path) cs of Some c \<Rightarrow> Some (ch_after c) | None \<Rightarrow> old)"

definition reread :: "change list \<Rightarrow> string \<Rightarrow> fragment_content \<Rightarrow> fragment_content" where
  "reread cs path c = c\<lparr>fc_existing := written cs path (fc_existing c)\<rparr>"

definition carried_out :: "change list \<Rightarrow> targets \<Rightarrow> targets" where
  "carried_out cs t =
     \<lparr>tg_settings = map_option (reread cs ''.claude/settings.json'') (tg_settings t),
      tg_mcp = map_option (reread cs ''.claude/settings.json'') (tg_mcp t),
      tg_instructions = map_option (reread cs ''CLAUDE.md'') (tg_instructions t),
      tg_rules = (\<lambda>n. map_option (reread cs (''.claude/rules/'' @ n)) (tg_rules t n)),
      tg_hooks = (\<lambda>n. map_option (reread cs (''.claude/hooks/'' @ n)) (tg_hooks t n))\<rparr>"

definition outcome :: "change \<Rightarrow> string \<times> string" where
  "outcome c = (ch_path c, ch_after c)"

text \<open>What is read is a value with each key once, what is printed reads back as itself, and what is merged
  from two texts that were read can be printed.\<close>

definition faithful :: "json_text \<Rightarrow> bool" where
  "faithful jt \<longleftrightarrow>
     (\<forall>t v. jt_parse jt t = Inr v \<longrightarrow> json_ok v)
     \<and> (\<forall>v s. jt_pretty jt v = Inr s \<longrightarrow> jt_parse jt (s @ [CHR 0x0A]) = Inr v)
     \<and> (\<forall>t u v w. jt_parse jt t = Inr v \<longrightarrow> jt_parse jt u = Inr w \<longrightarrow> (\<exists>s. jt_pretty jt (deep_merge v w) = Inr s))"

lemma faithful_facts:
  assumes "faithful jt"
  shows "jt_parse jt t = Inr v \<Longrightarrow> json_ok v"
    and "jt_pretty jt v = Inr s \<Longrightarrow> jt_parse jt (s @ [CHR 0x0A]) = Inr v"
    and "jt_parse jt t = Inr v \<Longrightarrow> jt_parse jt u = Inr w \<Longrightarrow> \<exists>s. jt_pretty jt (deep_merge v w) = Inr s"
  using assms unfolding faithful_def by blast+

lemma merge_json_Inr:
  "merge_json jt t f = Inr r \<longleftrightarrow>
     (\<exists>tv fv s. jt_parse jt t = Inr tv \<and> jt_parse jt f = Inr fv \<and> jt_pretty jt (deep_merge tv fv) = Inr s
        \<and> r = s @ [CHR 0x0A])"
  by (auto simp: merge_json_def merge_value_def parse_json_def serialize_pretty_def split: sum.splits)

lemma merge_under_Inr:
  assumes "faithful jt"
  shows "merge_under jt t key f = Inr r \<longleftrightarrow>
     (\<exists>tm fv s. jt_parse jt t = Inr (JObject tm) \<and> jt_parse jt f = Inr fv
        \<and> jt_pretty jt (deep_merge (JObject tm) (JObject [(key, fv)])) = Inr s \<and> r = s @ [CHR 0x0A])"
proof -
  have "merge_under jt t key f =
      (case parse_json jt t ''target'' of
         Inl e \<Rightarrow> Inl e
       | Inr tv \<Rightarrow>
           (case parse_json jt f ''fragment'' of
              Inl e \<Rightarrow> Inl e
            | Inr fv \<Rightarrow>
                (case tv of
                   JObject tm \<Rightarrow> serialize_pretty jt (deep_merge (JObject tm) (JObject [(key, fv)]))
                 | _ \<Rightarrow> Inl \<lparr>ae_code = ''profile_fragment_invalid'',
                          ae_message = ''the target is not a JSON object''\<rparr>)))"
    using assms merge_below unfolding merge_under_def merge_value_def faithful_def Let_def
    by (auto simp: parse_json_def split: sum.split json.split simp del: deep_merge.simps)
  then show ?thesis
    by (auto simp: parse_json_def serialize_pretty_def split: sum.splits json.splits simp del: deep_merge.simps)
qed

definition file_change :: "string \<Rightarrow> string \<Rightarrow> fragment_content \<Rightarrow> change" where
  "file_change d n c =
     \<lparr>ch_path = d @ ''/'' @ n, ch_kind = (if fc_existing c \<noteq> None then ChOverwrite else ChCreate),
      ch_after = fc_fragment c\<rparr>"

lemma plan_files_spec:
  "plan_files names inputs d = Inr cs \<longleftrightarrow>
     (\<forall>n \<in> set names. inputs n \<noteq> None) \<and> cs = map (\<lambda>n. file_change d n (the (inputs n))) names"
proof (induction names arbitrary: cs)
  case (Cons a names)
  show ?case
  proof (cases "inputs a")
    case (Some x)
    have "plan_files (a # names) inputs d = Inr cs \<longleftrightarrow>
        (\<exists>cs'. plan_files names inputs d = Inr cs' \<and> cs = file_change d a x # cs')"
      using Some by (auto simp: file_change_def split: sum.split)
    with Some show ?thesis unfolding Cons.IH by auto
  qed simp
qed auto

text \<open>The four parts of a plan.\<close>

lemma plan_parts:
  assumes "plan_changes jt p t = Inr cs"
  obtains st ins rules hooks where
    "plan_settings jt (pf_fragments p) t = Inr st"
    "if fg_instructions (pf_fragments p) then (\<exists>c. plan_instructions t = Inr c \<and> ins = [c]) else ins = []"
    "plan_files (fg_rules (pf_fragments p)) (tg_rules t) ''.claude/rules'' = Inr rules"
    "plan_files (fg_hooks (pf_fragments p)) (tg_hooks t) ''.claude/hooks'' = Inr hooks"
    "cs = (case st of Some c \<Rightarrow> [c] | None \<Rightarrow> []) @ ins @ rules @ hooks"
  using assms unfolding plan_changes_def Let_def
  by (auto split: sum.splits if_splits)

lemma plan_paths:
  assumes "plan_changes jt p t = Inr cs" and "c \<in> set cs"
  shows "ch_path c = ''.claude/settings.json'' \<or> ch_path c = ''CLAUDE.md''
    \<or> (\<exists>n \<in> set (fg_rules (pf_fragments p)). ch_path c = ''.claude/rules/'' @ n)
    \<or> (\<exists>n \<in> set (fg_hooks (pf_fragments p)). ch_path c = ''.claude/hooks/'' @ n)"
proof -
  have st: "ch_path c = ''.claude/settings.json''" if "plan_settings jt f t = Inr (Some c)" for f
    using that by (auto simp: plan_settings_def Let_def split: if_splits sum.splits option.splits)
  have ins: "ch_path c = ''CLAUDE.md''" if "plan_instructions t = Inr c"
    using that by (auto simp: plan_instructions_def split: sum.splits option.splits)
  from assms(1) show ?thesis
  proof (cases rule: plan_parts)
    case (1 st ins rules hooks)
    from assms(2) 1(5) consider "st = Some c" | "c \<in> set ins" | "c \<in> set rules" | "c \<in> set hooks"
      by (auto split: option.splits)
    then show ?thesis
    proof cases
      case 1
      with \<open>plan_settings _ _ t = Inr st\<close> st show ?thesis by blast
    next
      case 2
      with 1(2) ins show ?thesis by (auto split: if_splits)
    qed (use 1(3,4) in \<open>auto simp: plan_files_spec file_change_def\<close>)
  qed
qed
text \<open>The settings file after one round of its two fragments.\<close>

lemma merge_json_again:
  assumes "faithful jt" and "merge_json jt t f = Inr r"
  shows "merge_json jt r f = Inr r"
proof -
  from assms(2) obtain tv fv s where p: "jt_parse jt t = Inr tv" "jt_parse jt f = Inr fv"
      "jt_pretty jt (deep_merge tv fv) = Inr s" "r = s @ [CHR 0x0A]"
    unfolding merge_json_Inr by blast
  with faithful_facts [OF assms(1)] show ?thesis unfolding merge_json_Inr by (metis merge_twice)
qed

lemma object_merge: "json_ok f \<Longrightarrow> \<exists>m. deep_merge (JObject tm) (JObject [(key, f)]) = JObject m"
  by simp

lemma merge_under_again:
  assumes "faithful jt" and "merge_under jt t key f = Inr r"
  shows "merge_under jt r key f = Inr r"
proof -
  from assms obtain tm fv s where p: "jt_parse jt t = Inr (JObject tm)" "jt_parse jt f = Inr fv"
      "jt_pretty jt (deep_merge (JObject tm) (JObject [(key, fv)])) = Inr s" "r = s @ [CHR 0x0A]"
    unfolding merge_under_Inr [OF assms(1)] by blast
  let ?v = "deep_merge (JObject tm) (JObject [(key, fv)])"
  have ok: "json_ok (JObject tm)" "json_ok fv" using p(1,2) faithful_facts(1) [OF assms(1)] by blast+
  then have "deep_merge ?v (JObject [(key, fv)]) = ?v" by (intro merge_twice) simp_all
  moreover obtain m where "?v = JObject m" using object_merge [OF ok(2)] by blast
  moreover have "jt_parse jt r = Inr ?v" using p(3,4) faithful_facts(2) [OF assms(1)] by blast
  ultimately show ?thesis using p(2,3,4) unfolding merge_under_Inr [OF assms(1)] by metis
qed

lemma merge_both_again:
  assumes F: "faithful jt" and "merge_json jt t f = Inr r1" and "merge_under jt r1 key g = Inr r"
  shows "\<exists>r2. merge_json jt r f = Inr r2 \<and> merge_under jt r2 key g = Inr r"
proof -
  from assms(2) obtain tv fv s1 where p: "jt_parse jt t = Inr tv" "jt_parse jt f = Inr fv"
      "jt_pretty jt (deep_merge tv fv) = Inr s1" "r1 = s1 @ [CHR 0x0A]"
    unfolding merge_json_Inr by blast
  from assms(3) obtain um gv s where q: "jt_parse jt r1 = Inr (JObject um)" "jt_parse jt g = Inr gv"
      "jt_pretty jt (deep_merge (JObject um) (JObject [(key, gv)])) = Inr s" "r = s @ [CHR 0x0A]"
    unfolding merge_under_Inr [OF F] by blast
  let ?g = "JObject [(key, gv)]"
  have um: "JObject um = deep_merge tv fv" using p(3,4) q(1) faithful_facts(2) [OF F] by (metis sum.inject(2))
  have ok: "json_ok tv" "json_ok fv" "json_ok gv" using p(1,2) q(2) faithful_facts(1) [OF F] by blast+
  let ?v = "deep_merge (deep_merge tv fv) ?g"
  have v: "jt_parse jt r = Inr ?v" using q(3,4) um faithful_facts(2) [OF F] by metis
  with p(2) obtain s2 where s2: "jt_pretty jt (deep_merge ?v fv) = Inr s2" using faithful_facts(3) [OF F] by blast
  have first: "merge_json jt r f = Inr (s2 @ [CHR 0x0A])" using v p(2) s2 unfolding merge_json_Inr by blast
  obtain wm where wm: "deep_merge ?v fv = JObject wm"
    using um by (cases fv) (auto split: json.splits)
  have "jt_parse jt (s2 @ [CHR 0x0A]) = Inr (JObject wm)" using s2 wm faithful_facts(2) [OF F] by metis
  moreover have "deep_merge (JObject wm) ?g = ?v" using merge_round [of tv fv ?g] ok wm by simp
  ultimately have "merge_under jt (s2 @ [CHR 0x0A]) key g = Inr r"
    using q(2-4) um unfolding merge_under_Inr [OF F] by metis
  with first show ?thesis by blast
qed
lemma plan_settings_again:
  assumes F: "faithful jt" and st: "plan_settings jt f t = Inr (Some c)"
    and s': "tg_settings t' = map_option (\<lambda>x. x\<lparr>fc_existing := Some (ch_after c)\<rparr>) (tg_settings t)"
    and m': "tg_mcp t' = map_option (\<lambda>x. x\<lparr>fc_existing := Some (ch_after c)\<rparr>) (tg_mcp t)"
  shows "plan_settings jt f t' = Inr (Some (c\<lparr>ch_kind := ChMerge\<rparr>))"
proof -
  let ?read = "\<lambda>t. case Option.bind (tg_settings t) fc_existing of
      Some x \<Rightarrow> Some x | None \<Rightarrow> Option.bind (tg_mcp t) fc_existing"
  obtain cur r where active: "fg_settings f \<or> fg_mcp f"
    and one: "if fg_settings f then (\<exists>x. tg_settings t = Some x \<and> merge_json jt cur (fc_fragment x) = Inr r) else r = cur"
    and two: "if fg_mcp f then (\<exists>x. tg_mcp t = Some x \<and> merge_under jt r ''mcpServers'' (fc_fragment x) = Inr (ch_after c))
        else ch_after c = r"
    and path: "ch_path c = ''.claude/settings.json''"
    using st unfolding plan_settings_def Let_def
    by (auto split: if_splits option.splits sum.splits)
  from active one two have "\<exists>x. tg_settings t = Some x \<or> tg_mcp t = Some x" by (auto split: if_splits)
  then have read: "?read t' = Some (ch_after c)"
    unfolding s' m' by (cases "tg_settings t"; cases "tg_mcp t") auto
  have plan: "plan_settings jt f t' = Inr (Some \<lparr>ch_path = ''.claude/settings.json'', ch_kind = ChMerge, ch_after = ch_after c\<rparr>)"
    if "if fg_settings f then (\<exists>x. tg_settings t = Some x \<and> merge_json jt (ch_after c) (fc_fragment x) = Inr r2) else r2 = ch_after c"
      "if fg_mcp f then (\<exists>x. tg_mcp t = Some x \<and> merge_under jt r2 ''mcpServers'' (fc_fragment x) = Inr (ch_after c))
        else r2 = ch_after c" for r2
  proof -
    have "(if fg_settings f then (case tg_settings t' of None \<Rightarrow> Inl (missing_target ''settings'')
        | Some x \<Rightarrow> merge_json jt (ch_after c) (fc_fragment x)) else Inr (ch_after c)) = Inr r2"
      using that(1) s' by (auto split: if_splits)
    note a = this
    have b: "(if fg_mcp f then (case tg_mcp t' of None \<Rightarrow> Inl (missing_target ''mcp'')
        | Some x \<Rightarrow> merge_under jt r2 ''mcpServers'' (fc_fragment x)) else Inr r2) = Inr (ch_after c)"
      using that(2) m' by (auto split: if_splits)
    have on: "(\<not> fg_settings f \<and> \<not> fg_mcp f) = False" "(Some (ch_after c) \<noteq> None) = True" using active by auto
    show ?thesis unfolding plan_settings_def Let_def read option.case a sum.case b on if_False if_True ..
  qed
  have c: "c\<lparr>ch_kind := ChMerge\<rparr> = \<lparr>ch_path = ''.claude/settings.json'', ch_kind = ChMerge, ch_after = ch_after c\<rparr>"
    using path by (cases c) simp
  show ?thesis
  proof (cases "fg_mcp f")
    case False
    with one two active obtain x where "tg_settings t = Some x" "merge_json jt cur (fc_fragment x) = Inr (ch_after c)" "fg_settings f"
      by auto
    with plan [of "ch_after c"] merge_json_again [OF F] False show ?thesis unfolding c by auto
  next
    case True
    with two obtain y where y: "tg_mcp t = Some y" "merge_under jt r ''mcpServers'' (fc_fragment y) = Inr (ch_after c)"
      by auto
    show ?thesis
    proof (cases "fg_settings f")
      case False
      with plan [of "ch_after c"] merge_under_again [OF F y(2)] y(1) True show ?thesis unfolding c by auto
    next
      case set: True
      with one obtain x where x: "tg_settings t = Some x" "merge_json jt cur (fc_fragment x) = Inr r" by auto
      from merge_both_again [OF F x(2) y(2)] obtain r2 where
        "merge_json jt (ch_after c) (fc_fragment x) = Inr r2" "merge_under jt r2 ''mcpServers'' (fc_fragment y) = Inr (ch_after c)"
        by blast
      with plan [of r2] x(1) y(1) True set show ?thesis unfolding c by auto
    qed
  qed
qed

lemma written_is:
  assumes "c \<in> set cs" and "ch_path c = path" and "\<And>c'. c' \<in> set cs \<Longrightarrow> ch_path c' = path \<Longrightarrow> ch_after c' = x"
  shows "written cs path old = Some x"
proof (cases "find (\<lambda>c. ch_path c = path) cs")
  case None
  with assms(1,2) show ?thesis by (auto simp: find_None_iff)
next
  case (Some c')
  then have "c' \<in> set cs" "ch_path c' = path" by (auto simp: find_Some_iff)
  with assms(3) Some show ?thesis by (simp add: written_def)
qed

lemma plan_from_parts:
  assumes "plan_settings jt (pf_fragments p) t = Inr st"
    and "if fg_instructions (pf_fragments p) then (\<exists>c. plan_instructions t = Inr c \<and> ins = [c]) else ins = []"
    and "plan_files (fg_rules (pf_fragments p)) (tg_rules t) ''.claude/rules'' = Inr rules"
    and "plan_files (fg_hooks (pf_fragments p)) (tg_hooks t) ''.claude/hooks'' = Inr hooks"
  shows "plan_changes jt p t = Inr ((case st of Some c \<Rightarrow> [c] | None \<Rightarrow> []) @ ins @ rules @ hooks)"
  using assms unfolding plan_changes_def Let_def by (auto split: if_splits)

text \<open>What stands at the four kinds of places after a plan was written.\<close>

lemma plan_written:
  assumes plan: "plan_changes jt p t = Inr cs" and c: "c \<in> set cs"
  shows "written cs (ch_path c) old = Some (ch_after c)"
  using plan
proof (cases rule: plan_parts)
  case (1 st ins rules hooks)
  have st: "ch_path x = ''.claude/settings.json''" if "st = Some x" for x
    using 1(1) that by (auto simp: plan_settings_def Let_def split: if_splits sum.splits option.splits)
  have ins: "ch_path x = ''CLAUDE.md'' \<and> ins = [x]" if "x \<in> set ins" for x
    using 1(2) that by (auto simp: plan_instructions_def split: if_splits sum.splits option.splits)
  have rules: "\<exists>n. x = file_change ''.claude/rules'' n (the (tg_rules t n))" if "x \<in> set rules" for x
    using 1(3) that unfolding plan_files_spec by auto
  have hooks: "\<exists>n. x = file_change ''.claude/hooks'' n (the (tg_hooks t n))" if "x \<in> set hooks" for x
    using 1(4) that unfolding plan_files_spec by auto
  obtain S C :: string and R H :: "string \<Rightarrow> string" and fr fh :: "string \<Rightarrow> change" where
    at: "S = ''.claude/settings.json''" "C = ''CLAUDE.md''" "R = (\<lambda>n. ''.claude/rules/'' @ n)" "H = (\<lambda>n. ''.claude/hooks/'' @ n)"
    and f: "fr = (\<lambda>n. file_change ''.claude/rules'' n (the (tg_rules t n)))" "fh = (\<lambda>n. file_change ''.claude/hooks'' n (the (tg_hooks t n)))"
    by blast
  have far: "S \<noteq> C" "S \<noteq> R n" "S \<noteq> H n" "C \<noteq> R n" "C \<noteq> H n" "R n \<noteq> H m" "R n = R m \<longleftrightarrow> n = m" "H n = H m \<longleftrightarrow> n = m" for n m
    by (simp_all add: at)
  have path: "ch_path (fr n) = R n" "ch_path (fh n) = H n" for n by (simp_all add: f at file_change_def)
  have kinds: "(ch_path x = S \<and> st = Some x) \<or> (ch_path x = C \<and> ins = [x]) \<or> (\<exists>n. x = fr n) \<or> (\<exists>n. x = fh n)"
    if "x \<in> set cs" for x
    using that st [of x] ins [of x] rules [of x] hooks [of x] unfolding 1(5) at f by (auto split: option.splits)
  have "x = c" if x: "x \<in> set cs" "ch_path x = ch_path c" for x
    using kinds [OF x(1)] kinds [OF c] x(2) far path by (metis list.inject option.inject)
  with c show ?thesis by (intro written_is) auto
qed

text \<open>A change that is planned again once it was made: a merge, or the same file overwritten.\<close>

definition merged_change :: "change \<Rightarrow> change" where "merged_change c = c\<lparr>ch_kind := ChMerge\<rparr>"
definition over_change :: "change \<Rightarrow> change" where "over_change c = c\<lparr>ch_kind := ChOverwrite\<rparr>"

lemma again_same:
  "outcome (merged_change c) = outcome c" "outcome (over_change c) = outcome c" "ch_kind (merged_change c) = ChMerge" "ch_kind (over_change c) = ChOverwrite"
  by (simp_all add: outcome_def merged_change_def over_change_def)

lemma settings_again:
  assumes "faithful jt" and st: "plan_settings jt f t = Inr st"
    and at: "\<And>c old. st = Some c \<Longrightarrow> written cs (ch_path c) old = Some (ch_after c)"
  shows "plan_settings jt f (carried_out cs t) = Inr (map_option merged_change st)"
proof (cases st)
  case None
  with st show ?thesis
    by (auto simp: plan_settings_def Let_def split: if_splits sum.splits option.splits)
next
  case (Some c)
  then have "ch_path c = ''.claude/settings.json''"
    using st by (auto simp: plan_settings_def Let_def split: if_splits sum.splits option.splits)
  with at [of c] Some have w: "reread cs ''.claude/settings.json'' = (\<lambda>x. x\<lparr>fc_existing := Some (ch_after c)\<rparr>)"
    by (simp add: reread_def fun_eq_iff)
  have "plan_settings jt f (carried_out cs t) = Inr (Some (merged_change c))"
    unfolding merged_change_def by (rule plan_settings_again [OF assms(1) st [unfolded Some]]) (simp_all add: carried_out_def w)
  with Some show ?thesis by simp
qed

lemma instructions_again:
  assumes c: "plan_instructions t = Inr c" and at: "\<And>old. written cs (ch_path c) old = Some (ch_after c)"
    and clean: "\<And>x. tg_instructions t = Some x \<Longrightarrow> find_sub MARKER_END (fc_fragment x) = None"
  shows "plan_instructions (carried_out cs t) = Inr (merged_change c)"
proof -
  from c obtain x where x: "tg_instructions t = Some x"
    by (cases "tg_instructions t") (simp_all add: plan_instructions_def)
  with c have p: "ch_path c = ''CLAUDE.md''" and m: "\<exists>y. merge_markdown y (fc_fragment x) = Inr (ch_after c)"
    by (auto simp: plan_instructions_def split: sum.splits)
  from m have "merge_markdown (ch_after c) (fc_fragment x) = Inr (ch_after c)"
    using merge_markdown_settles clean [OF x] by blast
  then show ?thesis
    using at c x p by (simp add: plan_instructions_def carried_out_def reread_def merged_change_def)
qed

lemma files_again:
  assumes plan: "plan_files names inputs d = Inr xs"
    and at: "\<And>x old. x \<in> set xs \<Longrightarrow> written cs (ch_path x) old = Some (ch_after x)"
  shows "plan_files names (\<lambda>n. map_option (reread cs (d @ ''/'' @ n)) (inputs n)) d = Inr (map over_change xs)"
proof -
  from plan have ex: "\<forall>n \<in> set names. inputs n \<noteq> None"
    and xs: "xs = map (\<lambda>n. file_change d n (the (inputs n))) names"
    unfolding plan_files_spec by auto
  have "file_change d n (reread cs (d @ ''/'' @ n) (the (inputs n))) = over_change (file_change d n (the (inputs n)))"
    if "n \<in> set names" for n
    using at [of "file_change d n (the (inputs n))"] that
    by (simp add: xs file_change_def reread_def over_change_def)
  with ex show ?thesis unfolding plan_files_spec xs by (auto simp: option.map_sel)
qed


definition demo_json :: json_text where
  "demo_json =
     (let A = (''\"a\": 1'', ''a'', JNumber ''1''); B = (''\"b\": 2'', ''b'', JNumber ''2'');
          table = map (\<lambda>es. (''{'' @ join_with '', '' (map fst es) @ ''}'', JObject (map snd es)))
            [[], [A], [B], [A, B], [B, A]]
      in \<lparr>jt_parse = (\<lambda>t. case map_of (table @ map (\<lambda>(t, v). (t @ [CHR 0x0A], v)) table) t of
              Some v \<Rightarrow> Inr v | None \<Rightarrow> Inl ''expected value''),
          jt_pretty = (\<lambda>v. case find (\<lambda>(t, w). w = v) table of Some (t, w) \<Rightarrow> Inr t | None \<Rightarrow> Inl ''not in the table'')\<rparr>)"
definition demo_values :: "json list" where
  "demo_values =
     (let a = (''a'', JNumber ''1''); b = (''b'', JNumber ''2'')
      in [JObject [], JObject [a], JObject [b], JObject [a, b], JObject [b, a]])"

lemma demo_faithful: "faithful demo_json"
proof -
  have read: "v \<in> set demo_values" if "jt_parse demo_json t = Inr v" for t v
    using that by (auto simp: demo_json_def demo_values_def Let_def split: if_splits option.splits dest!: map_of_SomeD)
  have "list_all json_ok demo_values"
    "list_all (\<lambda>v. list_all (\<lambda>w. case jt_pretty demo_json (deep_merge v w) of Inr s \<Rightarrow> True | Inl e \<Rightarrow> False) demo_values) demo_values"
    "list_all (\<lambda>v. case jt_pretty demo_json v of Inr s \<Rightarrow> jt_parse demo_json (s @ [CHR 0x0A]) = Inr v | Inl e \<Rightarrow> False) demo_values"
    by code_simp+
  note facts = this [unfolded list_all_iff]
  have listed: "v \<in> set demo_values" if "jt_pretty demo_json v = Inr s" for v s
    using that by (auto simp: demo_json_def demo_values_def Let_def split: if_splits option.splits)
  show ?thesis
    unfolding faithful_def
  proof (intro conjI allI impI)
    fix t v assume "jt_parse demo_json t = Inr v"
    then show "json_ok v" using read facts(1) by blast
  next
    fix v s assume s: "jt_pretty demo_json v = Inr s"
    from facts(3) listed [OF s] s show "jt_parse demo_json (s @ [CHR 0x0A]) = Inr v" by fastforce
  next
    fix t u v w assume "jt_parse demo_json t = Inr v" "jt_parse demo_json u = Inr w"
    with facts(2) read have "case jt_pretty demo_json (deep_merge v w) of Inr s \<Rightarrow> True | Inl e \<Rightarrow> False" by blast
    then show "\<exists>s. jt_pretty demo_json (deep_merge v w) = Inr s" by (auto split: sum.splits)
  qed
qed

definition demo_profile :: profile where
  "demo_profile = \<lparr>pf_name = ''house'', pf_fragments =
     \<lparr>fg_settings = True, fg_settings_scope = ScopeOfProject, fg_instructions = True, fg_rules = [''style.md''],
      fg_hooks = [], fg_mcp = False\<rparr>\<rparr>"

definition demo_targets :: targets where
  "demo_targets =
     \<lparr>tg_settings = Some \<lparr>fc_fragment = ''{\"b\": 2}'', fc_existing = Some ''{\"a\": 1}''\<rparr>, tg_mcp = None,
      tg_instructions = Some \<lparr>fc_fragment = ''be kind'', fc_existing = Some ''prose''\<rparr>,
      tg_rules = [''style.md'' \<mapsto> \<lparr>fc_fragment = ''two spaces'', fc_existing = None\<rparr>], tg_hooks = Map.empty\<rparr>"

definition demo_changes :: "change list" where
  "demo_changes =
     [\<lparr>ch_path = ''.claude/settings.json'', ch_kind = ChMerge, ch_after = ''{\"a\": 1, \"b\": 2}'' @ [CHR 0x0A]\<rparr>,
      \<lparr>ch_path = ''CLAUDE.md'', ch_kind = ChMerge,
       ch_after = ''prose'' @ [CHR 0x0A, CHR 0x0A] @ marker_block ''be kind'' @ [CHR 0x0A]\<rparr>,
      \<lparr>ch_path = ''.claude/rules/style.md'', ch_kind = ChCreate, ch_after = ''two spaces''\<rparr>]"


end
