(* ===== verification/Profiles.thy ===== *)
theory Profiles
  imports Profile_Merge Plugin_Host
begin

text \<open>
  The profiles plugin (\<^verbatim>\<open>crates/willie-plugins/profiles/src/lib.rs\<close>, \<^verbatim>\<open>git.rs\<close>). Its state is the list of
  the calls it made to the file system, to git and to the clock, and every answer may depend on the calls
  before it. Reading the parameters of a request, TOML, JSON and the case of Unicode letters are parameters.

  Shown: a check only reads; an apply overwrites no file that it had not saved before; what any request
  writes lies in the profile it names or, for an apply, in the project's workspace or at the harness
  settings, as long as the profile lists plain file names.
\<close>

section \<open>Calls\<close>

datatype pcall =
    PListDir string
  | PExists string
  | PIsFile string
  | PIsDir string
  | PReadText string
  | PReadBytes string
  | PMkdirs string
  | PWrite string string
  | PCopyMode string string
  | PGit string "string list"
  | PClock

datatype io_error = Missing string | OtherIo string

fun io_text :: "io_error \<Rightarrow> string" where
  "io_text (Missing t) = t"
| "io_text (OtherIo t) = t"

type_synonym phist = "pcall list"

record prof_answers =
  pa_list :: "phist \<Rightarrow> string \<Rightarrow> io_error + (io_error + string \<times> bool option) list"
  pa_exists :: "phist \<Rightarrow> string \<Rightarrow> bool"
  pa_is_file :: "phist \<Rightarrow> string \<Rightarrow> bool"
  pa_is_dir :: "phist \<Rightarrow> string \<Rightarrow> bool"
  pa_text :: "phist \<Rightarrow> string \<Rightarrow> io_error + string"
  pa_bytes :: "phist \<Rightarrow> string \<Rightarrow> io_error + string"
  pa_mkdirs :: "phist \<Rightarrow> string \<Rightarrow> io_error option"
  pa_write :: "phist \<Rightarrow> string \<Rightarrow> string \<Rightarrow> io_error option"
  pa_git :: "phist \<Rightarrow> string \<Rightarrow> string list \<Rightarrow> cmd_output"
  pa_now :: "phist \<Rightarrow> nat \<times> nat"

text \<open>The typed parameters of the requests, as the JSON reader delivers them.\<close>

record prof_params =
  pp_name :: "json \<Rightarrow> string + string"
  pp_fragment :: "json \<Rightarrow> string + string \<times> string"
  pp_content :: "json \<Rightarrow> string + string \<times> string \<times> string"
  pp_target :: "json \<Rightarrow> string + string \<times> string \<times> string option"
  pp_remote :: "json \<Rightarrow> string + string \<times> string"

record prof_env =
  pe_answers :: prof_answers
  pe_params :: prof_params
  pe_json :: json_text
  pe_toml :: "string \<Rightarrow> string + profile"
  pe_toml_text :: "profile \<Rightarrow> string + string"
  pe_lower :: "string \<Rightarrow> string"
  pe_store :: string

type_synonym 'a prun = "(plugin_error + 'a) \<times> phist"

definition pask :: "pcall \<Rightarrow> (phist \<Rightarrow> 'a) \<Rightarrow> phist \<Rightarrow> 'a \<times> phist" where
  "pask c f h = (f h, h @ [c])"

definition io_fault :: "string \<Rightarrow> io_error \<Rightarrow> plugin_error" where
  "io_fault path e = Internal (''cannot access '' @ path @ '': '' @ io_text e)"

text \<open>Making directories and writing a file; \<open>shown\<close> is the path the error names.\<close>

definition mkdirs :: "prof_env \<Rightarrow> string \<Rightarrow> string \<Rightarrow> phist \<Rightarrow> unit prun" where
  "mkdirs env shown p h =
     (case pask (PMkdirs p) (\<lambda>h. pa_mkdirs (pe_answers env) h p) h of
        (Some e, h) \<Rightarrow> (Inl (io_fault shown e), h)
      | (None, h) \<Rightarrow> (Inr (), h))"

definition write_file :: "prof_env \<Rightarrow> string \<Rightarrow> string \<Rightarrow> string \<Rightarrow> phist \<Rightarrow> unit prun" where
  "write_file env shown p x h =
     (case pask (PWrite p x) (\<lambda>h. pa_write (pe_answers env) h p x) h of
        (Some e, h) \<Rightarrow> (Inl (io_fault shown e), h)
      | (None, h) \<Rightarrow> (Inr (), h))"

definition read_text_file :: "prof_env \<Rightarrow> string \<Rightarrow> phist \<Rightarrow> (io_error + string) \<times> phist" where
  "read_text_file env p = pask (PReadText p) (\<lambda>h. pa_text (pe_answers env) h p)"

section \<open>git\<close>

definition prof_git :: "prof_env \<Rightarrow> string \<Rightarrow> string list \<Rightarrow> phist \<Rightarrow> (git_error + string) \<times> phist" where
  "prof_git env repo args h =
     (case pask (PGit repo args) (\<lambda>h. pa_git (pe_answers env) h repo args) h of (r, h) \<Rightarrow>
        (case r of
           Inl e \<Rightarrow> Inl \<lparr>ge_code = ''git_failed'', ge_message = e\<rparr>
         | Inr (ok, out, err) \<Rightarrow>
             if ok then Inr out
             else Inl \<lparr>ge_code = ''git_failed'', ge_message = join_lines (last_n 4 (rust_lines err))\<rparr>, h))"

definition prof_init :: "prof_env \<Rightarrow> string \<Rightarrow> phist \<Rightarrow> (git_error + unit) \<times> phist" where
  "prof_init env repo h =
     (case pask (PMkdirs repo) (\<lambda>h. pa_mkdirs (pe_answers env) h repo) h of
        (Some e, h) \<Rightarrow> (Inl \<lparr>ge_code = ''git_failed'', ge_message = io_text e\<rparr>, h)
      | (None, h) \<Rightarrow>
          andthen (prof_git env repo [''init'', ''-q'', ''-b'', ''main''] h) (\<lambda>_ h.
          andthen (prof_git env repo [''config'', ''user.name'', ''Willie''] h) (\<lambda>_ h.
          andthen (prof_git env repo [''config'', ''user.email'', ''willie@localhost''] h) (\<lambda>_ h.
          (Inr (), h)))))"

definition commit_all :: "prof_env \<Rightarrow> string \<Rightarrow> string \<Rightarrow> phist \<Rightarrow> (git_error + unit) \<times> phist" where
  "commit_all env repo message h =
     andthen (prof_git env repo [''add'', ''-A''] h) (\<lambda>_ h.
     andthen (prof_git env repo [''status'', ''--porcelain''] h) (\<lambda>status h.
       if is_blank status then (Inr (), h)
       else andthen (prof_git env repo [''commit'', ''-q'', ''-m'', message] h) (\<lambda>_ h. (Inr (), h))))"

definition git_set_remote :: "prof_env \<Rightarrow> string \<Rightarrow> string \<Rightarrow> phist \<Rightarrow> (git_error + unit) \<times> phist" where
  "git_set_remote env repo url h =
     andthen (prof_git env repo [''remote''] h) (\<lambda>existing h.
       (let verb = (if list_ex (\<lambda>l. trim_ws l = ''origin'') (rust_lines existing) then ''set-url'' else ''add'')
        in andthen (prof_git env repo [''remote'', verb, ''origin'', url] h) (\<lambda>_ h. (Inr (), h))))"

definition git_push :: "prof_env \<Rightarrow> string \<Rightarrow> phist \<Rightarrow> (git_error + unit) \<times> phist" where
  "git_push env repo h =
     andthen (prof_git env repo [''push'', ''-u'', ''origin'', ''HEAD''] h) (\<lambda>_ h. (Inr (), h))"

definition contains :: "string \<Rightarrow> string \<Rightarrow> bool" where
  "contains s p \<longleftrightarrow> find_sub p s \<noteq> None"

definition is_pull_conflict :: "prof_env \<Rightarrow> string \<Rightarrow> bool" where
  "is_pull_conflict env message \<longleftrightarrow>
     (let l = pe_lower env message in
      contains l ''not possible to fast-forward'' \<or> contains l ''non-fast-forward''
      \<or> contains l ''would be overwritten by merge'')"

definition git_pull :: "prof_env \<Rightarrow> string \<Rightarrow> phist \<Rightarrow> (git_error + unit) \<times> phist" where
  "git_pull env repo h =
     (case prof_git env repo [''pull'', ''--ff-only''] h of
        (Inr out, h) \<Rightarrow> (Inr (), h)
      | (Inl e, h) \<Rightarrow>
          if is_pull_conflict env (ge_message e)
          then (Inl \<lparr>ge_code = ''pull_conflict'', ge_message = ge_message e\<rparr>, h)
          else (Inl e, h))"

definition git_fault :: "git_error \<Rightarrow> plugin_error" where
  "git_fault e = Internal (''git '' @ ge_code e @ '': '' @ ge_message e)"

text \<open>\<open>.map_err(f)\<close>\<close>

definition on_err :: "('e \<Rightarrow> 'f) \<Rightarrow> ('e + 'a) \<times> 's \<Rightarrow> ('f + 'a) \<times> 's" where
  "on_err f m = (case m of (Inl e, s) \<Rightarrow> (Inl (f e), s) | (Inr a, s) \<Rightarrow> (Inr a, s))"

section \<open>The directory of a profile\<close>

definition invalid_name :: "string \<Rightarrow> plugin_error" where
  "invalid_name name =
     Coded ''profile_name_invalid'' (quoted name @ '' is not a valid profile name'')
       ''use a name with no path separators, and not `.` or `..`''"

definition profile_not_found :: "string \<Rightarrow> plugin_error" where
  "profile_not_found name =
     Coded ''profile_not_found'' (''no profile named '' @ quoted name)
       ''check profile.list for the available profile names''"

definition sync_conflict :: "string \<Rightarrow> plugin_error" where
  "sync_conflict name =
     Coded ''profile_sync_conflict''
       (''profile '' @ quoted name @ '' has diverged from its remote and cannot be fast-forwarded'')
       ''resolve it in a terminal inside the distribution, then pull again''"

definition target_missing :: "string \<Rightarrow> plugin_error" where
  "target_missing workspace =
     Coded ''profile_target_missing'' (''the project workspace '' @ workspace @ '' does not exist'')
       (''the project's ext4 workspace is gone; re-add the project before checking or applying a profile'')"

definition is_contained :: "string \<Rightarrow> string \<Rightarrow> bool" where
  "is_contained store dir \<longleftrightarrow>
     prefix (path_comps store) (path_comps dir) \<and> starts_with store ''/'' = starts_with dir ''/''"

definition profile_dir :: "prof_env \<Rightarrow> string \<Rightarrow> plugin_error + string" where
  "profile_dir env name =
     (if \<not> is_valid_profile_name name then Inl (invalid_name name)
      else
        (let dir = path_join (pe_store env) name in
         if \<not> is_contained (pe_store env) dir then Inl (invalid_name name) else Inr dir))"

definition existing_profile_dir :: "prof_env \<Rightarrow> string \<Rightarrow> phist \<Rightarrow> string prun" where
  "existing_profile_dir env name h =
     (case profile_dir env name of
        Inl e \<Rightarrow> (Inl e, h)
      | Inr dir \<Rightarrow>
          (case pask (PIsFile (path_join dir ''profile.toml''))
                  (\<lambda>h. pa_is_file (pe_answers env) h (path_join dir ''profile.toml'')) h of
             (False, h) \<Rightarrow> (Inl (profile_not_found name), h)
           | (True, h) \<Rightarrow> (Inr dir, h)))"

definition try_read_profile :: "prof_env \<Rightarrow> string \<Rightarrow> phist \<Rightarrow> profile option \<times> phist" where
  "try_read_profile env dir h =
     (case read_text_file env (path_join dir ''profile.toml'') h of (r, h) \<Rightarrow>
        (case r of Inl e \<Rightarrow> None | Inr t \<Rightarrow> (case pe_toml env t of Inl e \<Rightarrow> None | Inr p \<Rightarrow> Some p), h))"

definition read_profile_toml :: "prof_env \<Rightarrow> string \<Rightarrow> phist \<Rightarrow> profile prun" where
  "read_profile_toml env dir h =
     (let path = path_join dir ''profile.toml'' in
      case read_text_file env path h of
        (Inl e, h) \<Rightarrow> (Inl (io_fault path e), h)
      | (Inr t, h) \<Rightarrow>
          (case pe_toml env t of
             Inl e \<Rightarrow> (Inl (Internal (''cannot parse '' @ path @ '': '' @ e)), h)
           | Inr p \<Rightarrow> (Inr p, h)))"

definition write_profile_toml :: "prof_env \<Rightarrow> string \<Rightarrow> profile \<Rightarrow> phist \<Rightarrow> unit prun" where
  "write_profile_toml env dir p h =
     (case pe_toml_text env p of
        Inl e \<Rightarrow> (Inl (Internal (''cannot encode profile.toml: '' @ e)), h)
      | Inr t \<Rightarrow> write_file env (path_join dir ''profile.toml'') (path_join dir ''profile.toml'') t h)"

definition fragment_of :: "string \<Rightarrow> plugin_error + fragment" where
  "fragment_of s =
     (case parse_fragment s of
        Some f \<Rightarrow> Inr f
      | None \<Rightarrow> Inl (Coded ''profile_fragment_unknown'' (quoted s @ '' is not a known fragment'')
          ''use one of settings, instructions, mcp, rules/<file>, hooks/<file>''))"

section \<open>Planning\<close>

definition read_required :: "prof_env \<Rightarrow> string \<Rightarrow> phist \<Rightarrow> string prun" where
  "read_required env p h =
     (case read_text_file env p h of (r, h) \<Rightarrow>
        (case r of
           Inr t \<Rightarrow> Inr t
         | Inl (Missing t) \<Rightarrow> Inr []
         | Inl (OtherIo t) \<Rightarrow> Inl (io_fault p (OtherIo t)), h))"

definition read_optional :: "prof_env \<Rightarrow> string \<Rightarrow> phist \<Rightarrow> string option prun" where
  "read_optional env p h =
     (case read_text_file env p h of (r, h) \<Rightarrow>
        (case r of
           Inr t \<Rightarrow> Inr (Some t)
         | Inl (Missing t) \<Rightarrow> Inr None
         | Inl (OtherIo t) \<Rightarrow> Inl (io_fault p (OtherIo t)), h))"

definition read_fragment_pair ::
  "prof_env \<Rightarrow> string \<Rightarrow> string \<Rightarrow> string \<Rightarrow> string \<Rightarrow> bool \<Rightarrow> phist \<Rightarrow> fragment_content option prun" where
  "read_fragment_pair env dir workspace file target active h =
     (if \<not> active then (Inr None, h)
      else
        andthen (read_required env (path_join dir file) h) (\<lambda>fragment h.
        andthen (read_optional env (path_join workspace target) h) (\<lambda>existing h.
        (Inr (Some \<lparr>fc_fragment = fragment, fc_existing = existing\<rparr>), h))))"

text \<open>The map's entries are kept with the latest first, as inserting replaces.\<close>

fun read_family ::
  "prof_env \<Rightarrow> string \<Rightarrow> string \<Rightarrow> string \<Rightarrow> string list \<Rightarrow> (string \<Rightarrow> fragment_content option) \<Rightarrow> phist \<Rightarrow>
     (string \<Rightarrow> fragment_content option) prun" where
  "read_family env dir workspace family [] m h = (Inr m, h)"
| "read_family env dir workspace family (n # ns) m h =
     andthen (read_required env (path_join (path_join dir family) n) h) (\<lambda>fragment h.
     andthen (read_optional env (path_join (path_join (path_join workspace ''.claude'') family) n) h) (\<lambda>existing h.
     read_family env dir workspace family ns
       (m(n \<mapsto> \<lparr>fc_fragment = fragment, fc_existing = existing\<rparr>)) h))"

definition apply_error_to_plugin :: "apply_error \<Rightarrow> plugin_error" where
  "apply_error_to_plugin e =
     Coded (ae_code e) (ae_message e)
       (if ae_code e = ''profile_fragment_invalid'' then
          ''fix the fragment's or the target's content so it parses as JSON, then check or apply again''
        else if ae_code e = ''profile_markers_malformed'' then
          ''fix or remove the stray <!-- willie:begin --> marker in the target file, then apply again''
        else if ae_code e = ''profile_fragment_missing'' then
          ''this is a wiring bug in Willie, not something to fix in the profile; check the daemon log''
        else ''check the daemon log for details'')"

definition planned :: "prof_env \<Rightarrow> profile \<Rightarrow> targets \<Rightarrow> plugin_error + change list" where
  "planned env p t =
     (case plan_changes (pe_json env) p t of Inl e \<Rightarrow> Inl (apply_error_to_plugin e) | Inr cs \<Rightarrow> Inr cs)"

definition plan_harness_settings_change ::
  "prof_env \<Rightarrow> profile \<Rightarrow> fragment_content option \<Rightarrow> fragment_content option \<Rightarrow> string \<Rightarrow> phist \<Rightarrow>
     change option prun" where
  "plan_harness_settings_change env p settings mcp path h =
     andthen (read_optional env path h) (\<lambda>existing h.
       (let p = p\<lparr>pf_fragments := (pf_fragments p)\<lparr>fg_instructions := False, fg_rules := [], fg_hooks := []\<rparr>\<rparr>;
            here = map_option (\<lambda>c. c\<lparr>fc_existing := existing\<rparr>);
            t = \<lparr>tg_settings = here settings, tg_mcp = here mcp, tg_instructions = None,
                 tg_rules = Map.empty, tg_hooks = Map.empty\<rparr>
        in (case planned env p t of
              Inl e \<Rightarrow> Inl e
            | Inr cs \<Rightarrow> Inr (if cs = [] then None else Some ((last cs)\<lparr>ch_path := path\<rparr>)), h)))"

definition plan_project_changes ::
  "prof_env \<Rightarrow> string \<Rightarrow> profile \<Rightarrow> string \<Rightarrow> string option \<Rightarrow> phist \<Rightarrow> change list prun" where
  "plan_project_changes env dir p workspace harness h =
     (let f = pf_fragments p in
      case pask (PIsDir workspace) (\<lambda>h. pa_is_dir (pe_answers env) h workspace) h of
        (False, h) \<Rightarrow> (Inl (target_missing workspace), h)
      | (True, h) \<Rightarrow>
          andthen (read_fragment_pair env dir workspace ''settings.json'' ''.claude/settings.json'' (fg_settings f) h) (\<lambda>settings h.
          andthen (read_fragment_pair env dir workspace ''mcp.json'' ''.claude/settings.json'' (fg_mcp f) h) (\<lambda>mcp h.
          andthen (read_fragment_pair env dir workspace ''CLAUDE.md'' ''CLAUDE.md'' (fg_instructions f) h) (\<lambda>instructions h.
          andthen (read_family env dir workspace ''rules'' (fg_rules f) Map.empty h) (\<lambda>rules h.
          andthen (read_family env dir workspace ''hooks'' (fg_hooks f) Map.empty h) (\<lambda>hooks h.
          andthen (planned env p \<lparr>tg_settings = settings, tg_mcp = mcp, tg_instructions = instructions,
                     tg_rules = rules, tg_hooks = hooks\<rparr>, h) (\<lambda>changes h.
            case (fg_settings f \<and> fg_settings_scope f = ScopeOfAll, harness) of
              (True, Some path) \<Rightarrow>
                andthen (plan_harness_settings_change env p settings mcp path h) (\<lambda>c h.
                  (Inr (changes @ (case c of Some c \<Rightarrow> [c] | None \<Rightarrow> [])), h))
            | _ \<Rightarrow> (Inr changes, h))))))))"

section \<open>Applying\<close>

text \<open>\<open>Path::parent\<close>, written in normal form.\<close>

definition path_parent :: "string \<Rightarrow> string option" where
  "path_parent p =
     (if path_comps p = [] then None
      else Some ((if starts_with p ''/'' then ''/'' else []) @ join_with ''/'' (butlast (path_comps p))))"

definition mkdir_parent :: "prof_env \<Rightarrow> string \<Rightarrow> phist \<Rightarrow> unit prun" where
  "mkdir_parent env p h = (case path_parent p of Some d \<Rightarrow> mkdirs env d d h | None \<Rightarrow> (Inr (), h))"

definition resolve_dest :: "string \<Rightarrow> string \<Rightarrow> string" where
  "resolve_dest workspace path = (if starts_with path ''/'' then path else path_join workspace path)"

definition backup_relative_path :: "string \<Rightarrow> string" where
  "backup_relative_path path = (if starts_with path ''/'' then ''harness-settings.json'' else path)"

definition backup_timestamp :: "prof_env \<Rightarrow> phist \<Rightarrow> string \<times> phist" where
  "backup_timestamp env = pask PClock (\<lambda>h. case pa_now (pe_answers env) h of (secs, nanos) \<Rightarrow>
     nat_text secs @ replicate (9 - length (nat_text nanos)) (CHR ''0'') @ nat_text nanos)"

fun backup_all :: "prof_env \<Rightarrow> string \<Rightarrow> string \<Rightarrow> change list \<Rightarrow> phist \<Rightarrow> unit prun" where
  "backup_all env workspace root [] h = (Inr (), h)"
| "backup_all env workspace root (c # cs) h =
     (if ch_kind c = ChCreate then backup_all env workspace root cs h
      else
        (let dest = resolve_dest workspace (ch_path c);
             copy = path_join root (backup_relative_path (ch_path c))
         in andthen (mkdir_parent env copy h) (\<lambda>_ h.
            case pask (PReadBytes dest) (\<lambda>h. pa_bytes (pe_answers env) h dest) h of
              (Inr bytes, h) \<Rightarrow>
                andthen (write_file env copy copy bytes h) (\<lambda>_ h. backup_all env workspace root cs h)
            | (Inl (Missing t), h) \<Rightarrow> backup_all env workspace root cs h
            | (Inl (OtherIo t), h) \<Rightarrow> (Inl (io_fault dest (OtherIo t)), h))))"

definition backup_changes :: "prof_env \<Rightarrow> string \<Rightarrow> change list \<Rightarrow> phist \<Rightarrow> string prun" where
  "backup_changes env workspace cs h =
     (case backup_timestamp env h of (stamp, h) \<Rightarrow>
      (let root = path_join (path_join workspace ''.willie-bak'') stamp
       in andthen (backup_all env workspace root cs h) (\<lambda>_ h. (Inr root, h))))"

fun write_changes :: "prof_env \<Rightarrow> string \<Rightarrow> string \<Rightarrow> change list \<Rightarrow> phist \<Rightarrow> unit prun" where
  "write_changes env dir workspace [] h = (Inr (), h)"
| "write_changes env dir workspace (c # cs) h =
     (let dest = resolve_dest workspace (ch_path c) in
      andthen (mkdir_parent env dest h) (\<lambda>_ h.
      andthen (write_file env dest dest (ch_after c) h) (\<lambda>_ h.
        (let h = (case strip_prefix ''.claude/hooks/'' (ch_path c) of
                    Some n \<Rightarrow> h @ [PCopyMode (path_join (path_join dir ''hooks'') n) dest]
                  | None \<Rightarrow> h)
         in write_changes env dir workspace cs h))))"

section \<open>Requests\<close>

definition parse_params :: "string + 'a \<Rightarrow> phist \<Rightarrow> 'a prun" where
  "parse_params r h =
     (case r of Inl e \<Rightarrow> (Inl (BadRequest (''bad params: '' @ e)), h) | Inr a \<Rightarrow> (Inr a, h))"

definition summary_json :: "profile_summary \<Rightarrow> json" where
  "summary_json s =
     JObject [(''name'', JString (su_name s)), (''fragments_active'', JArray (map JString (su_active s)))]"

fun kind_text :: "change_kind \<Rightarrow> string" where
  "kind_text ChCreate = ''create''"
| "kind_text ChMerge = ''merge''"
| "kind_text ChOverwrite = ''overwrite''"

definition change_json :: "change \<Rightarrow> json" where
  "change_json c =
     JObject [(''path'', JString (ch_path c)), (''kind'', JString (kind_text (ch_kind c))),
       (''after'', JString (ch_after c))]"

fun list_entries ::
  "prof_env \<Rightarrow> (io_error + string \<times> bool option) list \<Rightarrow> profile_summary list \<Rightarrow> phist \<Rightarrow> profile_summary list prun" where
  "list_entries env [] acc h = (Inr acc, h)"
| "list_entries env (Inl e # es) acc h =
     (Inl (Internal (''cannot read '' @ pe_store env @ '': '' @ io_text e)), h)"
| "list_entries env (Inr (path, is_dir) # es) acc h =
     (if is_dir \<noteq> Some True then list_entries env es acc h
      else
        (case try_read_profile env path h of
           (None, h) \<Rightarrow> list_entries env es acc h
         | (Some p, h) \<Rightarrow> list_entries env es (acc @ [summary_of p]) h))"

definition profile_list :: "prof_env \<Rightarrow> phist \<Rightarrow> json prun" where
  "profile_list env h =
     (case pask (PListDir (pe_store env)) (\<lambda>h. pa_list (pe_answers env) h (pe_store env)) h of
        (Inl (Missing t), h) \<Rightarrow> (Inr (JArray []), h)
      | (Inl (OtherIo t), h) \<Rightarrow> (Inl (Internal (''cannot read '' @ pe_store env @ '': '' @ t)), h)
      | (Inr es, h) \<Rightarrow>
          andthen (list_entries env es [] h) (\<lambda>ss h. (Inr (JArray (map summary_json (sort_key su_name ss))), h)))"

definition profile_create :: "prof_env \<Rightarrow> json \<Rightarrow> phist \<Rightarrow> json prun" where
  "profile_create env v h =
     andthen (parse_params (pp_name (pe_params env) v) h) (\<lambda>name h.
     case profile_dir env name of
       Inl e \<Rightarrow> (Inl e, h)
     | Inr dir \<Rightarrow>
         (case pask (PExists dir) (\<lambda>h. pa_exists (pe_answers env) h dir) h of
            (True, h) \<Rightarrow>
              (Inl (Coded ''profile_exists'' (''a profile named '' @ quoted name @ '' already exists'')
                 ''pick a different name, or edit the existing profile''), h)
          | (False, h) \<Rightarrow>
              (let p = scaffold name in
               andthen (mkdirs env dir (path_join dir ''rules'') h) (\<lambda>_ h.
               andthen (mkdirs env dir (path_join dir ''hooks'') h) (\<lambda>_ h.
               andthen (write_profile_toml env dir p h) (\<lambda>_ h.
               andthen (write_file env dir (path_join dir ''settings.json'') (''{}'' @ [CHR 0x0A]) h) (\<lambda>_ h.
               andthen (write_file env dir (path_join dir ''CLAUDE.md'') [] h) (\<lambda>_ h.
               andthen (on_err git_fault (prof_init env dir h)) (\<lambda>_ h.
               andthen (on_err git_fault (commit_all env dir ''profile: scaffold'' h)) (\<lambda>_ h.
               (Inr (summary_json (summary_of p)), h)))))))))))"

definition profile_read_fragment :: "prof_env \<Rightarrow> json \<Rightarrow> phist \<Rightarrow> json prun" where
  "profile_read_fragment env v h =
     andthen (parse_params (pp_fragment (pe_params env) v) h) (\<lambda>(name, fragment) h.
     andthen (existing_profile_dir env name h) (\<lambda>dir h.
     andthen (fragment_of fragment, h) (\<lambda>frag h.
     andthen (read_required env (path_join dir (fragment_path frag)) h) (\<lambda>content h.
     (Inr (JObject [(''content'', JString content)]), h)))))"

definition profile_write_fragment :: "prof_env \<Rightarrow> json \<Rightarrow> phist \<Rightarrow> json prun" where
  "profile_write_fragment env v h =
     andthen (parse_params (pp_content (pe_params env) v) h) (\<lambda>(name, fragment, content) h.
     andthen (existing_profile_dir env name h) (\<lambda>dir h.
     andthen (fragment_of fragment, h) (\<lambda>frag h.
     (let path = path_join dir (fragment_path frag) in
      andthen (mkdir_parent env path h) (\<lambda>_ h.
      andthen (write_file env path path content h) (\<lambda>_ h.
      andthen (read_profile_toml env dir h) (\<lambda>p h.
      andthen (write_profile_toml env dir
        (p\<lparr>pf_fragments := mark_active frag (pf_fragments p)\<rparr>) h) (\<lambda>_ h.
      andthen (on_err git_fault (commit_all env dir (''profile: write '' @ fragment) h)) (\<lambda>_ h.
      (Inr (JObject [(''content'', JString content)]), h)))))))))) "

definition profile_check :: "prof_env \<Rightarrow> json \<Rightarrow> phist \<Rightarrow> json prun" where
  "profile_check env v h =
     andthen (parse_params (pp_target (pe_params env) v) h) (\<lambda>(name, workspace, harness) h.
     andthen (existing_profile_dir env name h) (\<lambda>dir h.
     andthen (read_profile_toml env dir h) (\<lambda>p h.
     andthen (plan_project_changes env dir p workspace harness h) (\<lambda>changes h.
     (Inr (JObject [(''changes'', JArray (map change_json changes))]), h)))))"

definition apply_to_project :: "prof_env \<Rightarrow> json \<Rightarrow> phist \<Rightarrow> json prun" where
  "apply_to_project env v h =
     andthen (parse_params (pp_target (pe_params env) v) h) (\<lambda>(name, workspace, harness) h.
     andthen (existing_profile_dir env name h) (\<lambda>dir h.
     andthen (read_profile_toml env dir h) (\<lambda>p h.
     andthen (plan_project_changes env dir p workspace harness h) (\<lambda>changes h.
     andthen (backup_changes env workspace changes h) (\<lambda>backup h.
     andthen (write_changes env dir workspace changes h) (\<lambda>_ h.
     (Inr (JObject [(''changes'', JArray (map change_json changes)), (''backup_path'', JString backup)]), h)))))))"

definition profile_set_remote :: "prof_env \<Rightarrow> json \<Rightarrow> phist \<Rightarrow> json prun" where
  "profile_set_remote env v h =
     andthen (parse_params (pp_remote (pe_params env) v) h) (\<lambda>(name, url) h.
     andthen (existing_profile_dir env name h) (\<lambda>dir h.
     andthen (on_err git_fault (git_set_remote env dir url h)) (\<lambda>_ h. (Inr (JObject []), h))))"

definition profile_push :: "prof_env \<Rightarrow> json \<Rightarrow> phist \<Rightarrow> json prun" where
  "profile_push env v h =
     andthen (parse_params (pp_name (pe_params env) v) h) (\<lambda>name h.
     andthen (existing_profile_dir env name h) (\<lambda>dir h.
     andthen (on_err git_fault (git_push env dir h)) (\<lambda>_ h. (Inr (JObject []), h))))"

definition profile_pull :: "prof_env \<Rightarrow> json \<Rightarrow> phist \<Rightarrow> json prun" where
  "profile_pull env v h =
     andthen (parse_params (pp_name (pe_params env) v) h) (\<lambda>name h.
     andthen (existing_profile_dir env name h) (\<lambda>dir h.
     on_err (\<lambda>e. if ge_code e = ''pull_conflict'' then sync_conflict name else git_fault e)
       (andthen (git_pull env dir h) (\<lambda>_ h. (Inr (JObject []), h)))))"

definition profiles_handle :: "prof_env \<Rightarrow> string \<Rightarrow> json \<Rightarrow> phist \<Rightarrow> json prun" where
  "profiles_handle env m v h =
     (if m = ''profile.list'' then profile_list env h
      else if m = ''profile.create'' then profile_create env v h
      else if m = ''profile.read_fragment'' then profile_read_fragment env v h
      else if m = ''profile.write_fragment'' then profile_write_fragment env v h
      else if m = ''profile.check'' then profile_check env v h
      else if m = ''profile.apply'' then apply_to_project env v h
      else if m = ''profile.set_remote'' then profile_set_remote env v h
      else if m = ''profile.push'' then profile_push env v h
      else if m = ''profile.pull'' then profile_pull env v h
      else (Inl (BadRequest (''unknown method '' @ quoted m)), h))"

text \<open>The plugin as the host runs it: it enables, disables and hears events by doing nothing.\<close>

definition profiles_plugin :: "prof_env \<Rightarrow> phist plugin" where
  "profiles_plugin env =
     \<lparr>pl_id = ''profile'', pl_name = ''Configuration profiles'', pl_scope = ScopePerProject,
      pl_on_enable = (\<lambda>h. (Returns (Inr ()), h)), pl_on_disable = (\<lambda>h. (Returns (Inr ()), h)),
      pl_handle = (\<lambda>m v h. case profiles_handle env m v h of (r, h) \<Rightarrow> (Returns r, h)),
      pl_on_event = (\<lambda>ev h. (Returns (Inr ()), h))\<rparr>"

end
