(* ===== verification/Profile_Guard.thy ===== *)
theory Profile_Guard
  imports Profiles
begin

text \<open>
  What the requests of the profiles plugin do to files: where they write, and what an apply saved before it
  overwrote it.
\<close>

section \<open>Runs add calls\<close>

definition adds :: "(pcall \<Rightarrow> bool) \<Rightarrow> phist \<Rightarrow> 'x \<times> phist \<Rightarrow> bool" where
  "adds P h m \<longleftrightarrow> (\<exists>new. snd m = h @ new \<and> list_all P new)"

named_theorems runs \<open>what a run adds\<close>

lemma adds_refl [runs]: "adds P h (x, h)"
  by (simp add: adds_def)

lemma adds_trans: "adds P h (x, h1) \<Longrightarrow> adds P h1 m \<Longrightarrow> adds P h m"
  unfolding adds_def by (metis append.assoc list_all_append snd_conv)

lemma adds_andthen [runs]:
  assumes "adds P h m" and "\<And>a h1. m = (Inr a, h1) \<Longrightarrow> adds P h1 (f a h1)"
  shows "adds P h (andthen m f)"
proof -
  obtain x h1 where m: "m = (x, h1)" by fastforce
  show ?thesis
  proof (cases x)
    case (Inl e)
    with assms(1) m show ?thesis by (simp add: andthen_def adds_def)
  next
    case (Inr a)
    with adds_trans [of P h "Inr a" h1 "f a h1"] assms m show ?thesis by (simp add: andthen_def)
  qed
qed

lemma adds_on_err [runs]: "adds P h m \<Longrightarrow> adds P h (on_err f m)"
  by (cases m; cases "fst m") (auto simp: on_err_def adds_def)

lemma adds_weaken: "adds P h m \<Longrightarrow> (\<And>c. P c \<Longrightarrow> Q c) \<Longrightarrow> adds Q h m"
  unfolding adds_def by (metis list.pred_mono_strong)

lemma adds_pask: "P c \<Longrightarrow> adds P h (pask c f h)"
  by (simp add: adds_def pask_def)

lemma adds_ask [runs]:
  "P c \<Longrightarrow> (\<And>x. adds P (h @ [c]) (g x (h @ [c]))) \<Longrightarrow> adds P h (case pask c f h of (x, h1) \<Rightarrow> g x h1)"
  unfolding pask_def prod.case by (rule adds_trans [where x = "f h" and ?h1.0 = "h @ [c]"]) (simp add: adds_def, assumption)

lemma adds_mkdirs [runs]: "P (PMkdirs p) \<Longrightarrow> adds P h (mkdirs env shown p h)"
  by (simp add: mkdirs_def adds_def pask_def split: option.split)

lemma adds_write [runs]: "P (PWrite p x) \<Longrightarrow> adds P h (write_file env shown p x h)"
  by (simp add: write_file_def adds_def pask_def split: option.split)

lemma adds_read [runs]: "P (PReadText p) \<Longrightarrow> adds P h (read_text_file env p h)"
  by (simp add: read_text_file_def adds_pask)

lemma adds_git [runs]: "P (PGit repo args) \<Longrightarrow> adds P h (prof_git env repo args h)"
  by (simp add: prof_git_def adds_def pask_def)

lemma adds_gits [runs]:
  assumes "\<And>args. P (PGit repo args)"
  shows "adds P h (commit_all env repo message h)" "adds P h (git_set_remote env repo url h)"
    "adds P h (git_push env repo h)" "adds P h (git_pull env repo h)"
    "P (PMkdirs repo) \<Longrightarrow> adds P h (prof_init env repo h)"
proof -
  show "adds P h (commit_all env repo message h)" "adds P h (git_set_remote env repo url h)"
    "adds P h (git_push env repo h)"
    using assms by (auto simp: commit_all_def git_set_remote_def git_push_def Let_def intro!: runs)
  show "adds P h (git_pull env repo h)"
    using adds_git [of P repo "[''pull'', ''--ff-only'']" h env] assms
    by (auto simp: git_pull_def adds_def split: prod.split sum.split)
  assume "P (PMkdirs repo)"
  then show "adds P h (prof_init env repo h)"
    unfolding prof_init_def by (intro runs) (auto split: option.split intro!: runs assms)
qed

lemma adds_reading [runs]:
  assumes "\<And>p. P (PReadText p)"
  shows "adds P h (read_required env p h)" "adds P h (read_optional env p h)"
    "adds P h (read_profile_toml env d h)" "adds P h (try_read_profile env d h)"
  using assms
  by (auto simp: read_required_def read_optional_def read_profile_toml_def try_read_profile_def Let_def
      adds_def read_text_file_def pask_def split: sum.split io_error.split)

lemma adds_dir [runs]: "(\<And>p. P (PIsFile p)) \<Longrightarrow> adds P h (existing_profile_dir env name h)"
  by (auto simp: existing_profile_dir_def adds_def pask_def split: sum.split bool.split)

lemma adds_pure [runs]: "adds P h (parse_params r h)" "adds P h (x, h)"
  by (auto simp: parse_params_def adds_def split: sum.split)

section \<open>A check only reads\<close>

fun is_read :: "pcall \<Rightarrow> bool" where
  "is_read (PMkdirs p) = False"
| "is_read (PWrite p x) = False"
| "is_read (PCopyMode s d) = False"
| "is_read (PGit r a) = False"
| "is_read _ = True"

lemma read_pair_reads [runs]: "adds is_read h (read_fragment_pair env dir ws file target active h)"
  by (auto simp: read_fragment_pair_def intro!: runs)

lemma read_family_reads [runs]: "adds is_read h (read_family env dir ws family ns m h)"
  by (induction ns arbitrary: m h) (auto intro!: runs)

lemma harness_reads [runs]: "adds is_read h (plan_harness_settings_change env p s m path h)"
  by (auto simp: plan_harness_settings_change_def Let_def intro!: runs)

lemma plan_reads [runs]: "adds is_read h (plan_project_changes env dir p ws harness h)"
  unfolding plan_project_changes_def Let_def
  by (intro runs) (auto split: bool.split option.split intro!: runs)

lemma check_reads: "adds is_read h (profile_check env v h)"
  by (auto simp: profile_check_def intro!: runs)
section \<open>An apply saves what it overwrites\<close>

text \<open>In a run that began after \<open>h\<close> and made the calls \<open>pre\<close>: the file was found missing, or its bytes were
  read and a copy of them was written.\<close>

definition saved :: "prof_answers \<Rightarrow> phist \<Rightarrow> pcall list \<Rightarrow> string \<Rightarrow> bool" where
  "saved an h pre d \<longleftrightarrow>
     (\<exists>a b t. pre = a @ PReadText d # b \<and> pa_text an (h @ a) d = Inl (Missing t))
     \<or> (\<exists>a b t. pre = a @ PReadBytes d # b \<and> pa_bytes an (h @ a) d = Inl (Missing t))
     \<or> (\<exists>a b b' bytes copy. pre = a @ PReadBytes d # b @ PWrite copy bytes # b'
          \<and> pa_bytes an (h @ a) d = Inr bytes \<and> pa_write an (h @ a @ PReadBytes d # b) copy bytes = None)"

lemma saved_later: "saved an h pre d \<Longrightarrow> saved an h (pre @ q) d"
  unfolding saved_def by (elim disjE exE conjE) (simp; blast)+

lemma saved_before: "saved an (h @ q) pre d \<Longrightarrow> saved an h (q @ pre) d"
proof -
  assume "saved an (h @ q) pre d"
  then consider
      a b t where "pre = a @ PReadText d # b" "pa_text an ((h @ q) @ a) d = Inl (Missing t)"
    | a b t where "pre = a @ PReadBytes d # b" "pa_bytes an ((h @ q) @ a) d = Inl (Missing t)"
    | a b b' bytes copy where "pre = a @ PReadBytes d # b @ PWrite copy bytes # b'"
        "pa_bytes an ((h @ q) @ a) d = Inr bytes" "pa_write an ((h @ q) @ a @ PReadBytes d # b) copy bytes = None"
    unfolding saved_def by blast
  then show ?thesis
  proof cases
    case 1
    then have "q @ pre = (q @ a) @ PReadText d # b" "pa_text an (h @ (q @ a)) d = Inl (Missing t)" by simp_all
    then show ?thesis unfolding saved_def by blast
  next
    case 2
    then have "q @ pre = (q @ a) @ PReadBytes d # b" "pa_bytes an (h @ (q @ a)) d = Inl (Missing t)" by simp_all
    then show ?thesis unfolding saved_def by blast
  next
    case 3
    then have "q @ pre = (q @ a) @ PReadBytes d # b @ PWrite copy bytes # b'"
      "pa_bytes an (h @ (q @ a)) d = Inr bytes" "pa_write an (h @ (q @ a) @ PReadBytes d # b) copy bytes = None"
      by simp_all
    then show ?thesis unfolding saved_def by blast
  qed
qed

definition under :: "string \<Rightarrow> string \<Rightarrow> bool" where
  "under root d \<longleftrightarrow> (\<exists>rel. \<not> starts_with rel ''/'' \<and> d = path_join root rel)"

lemma under_backup: "under root (path_join root (backup_relative_path path))"
  unfolding under_def by (intro exI [of _ "backup_relative_path path"]) (simp add: backup_relative_path_def starts_with_iff)

text \<open>Every way of the backup to go for one change.\<close>

lemma mkdir_parent_adds: "\<exists>new r. mkdir_parent env p h = (r, h @ new) \<and> (\<forall>d x. PWrite d x \<notin> set new)"
  by (auto simp: mkdir_parent_def mkdirs_def pask_def split: option.split)

lemma backup_step:
  assumes "ch_kind c \<noteq> ChCreate"
  obtains (stop) new e where "backup_all env ws root (c # cs) h = (Inl e, h @ new)" "\<forall>d x. PWrite d x \<in> set new \<longrightarrow> under root d"
  | (go) new where "backup_all env ws root (c # cs) h = backup_all env ws root cs (h @ new)"
      "\<forall>d x. PWrite d x \<in> set new \<longrightarrow> under root d" "saved (pe_answers env) h new (resolve_dest ws (ch_path c))"
proof -
  let ?an = "pe_answers env" and ?d = "resolve_dest ws (ch_path c)" and ?copy = "path_join root (backup_relative_path (ch_path c))"
  obtain n1 r1 where mk: "mkdir_parent env ?copy h = (r1, h @ n1)" "\<forall>d x. PWrite d x \<notin> set n1"
    using mkdir_parent_adds by blast
  have run: "backup_all env ws root (c # cs) h = andthen (r1, h @ n1) (\<lambda>_ h.
      case pask (PReadBytes ?d) (\<lambda>h. pa_bytes ?an h ?d) h of
        (Inr bytes, h) \<Rightarrow> andthen (write_file env ?copy ?copy bytes h) (\<lambda>_ h. backup_all env ws root cs h)
      | (Inl (Missing t), h) \<Rightarrow> backup_all env ws root cs h
      | (Inl (OtherIo t), h) \<Rightarrow> (Inl (io_fault ?d (OtherIo t)), h))"
    using assms by (simp only: backup_all.simps Let_def mk(1) if_False)
  let ?read = "n1 @ [PReadBytes ?d]"
  consider e where "r1 = Inl e" | t where "r1 = Inr ()" "pa_bytes ?an (h @ n1) ?d = Inl (OtherIo t)"
    | t where "r1 = Inr ()" "pa_bytes ?an (h @ n1) ?d = Inl (Missing t)"
    | bytes where "r1 = Inr ()" "pa_bytes ?an (h @ n1) ?d = Inr bytes"
    by (metis (full_types) io_error.exhaust old.unit.exhaust sum.exhaust)
  then show thesis
  proof cases
    case 1
    with run mk(2) show thesis by (intro stop [of e n1]) (simp_all add: andthen_def)
  next
    case 2
    with run mk(2) show thesis
      by (intro stop [of "io_fault ?d (OtherIo t)" ?read]) (simp_all add: andthen_def pask_def)
  next
    case 3
    have "saved ?an h ?read ?d" unfolding saved_def using 3(2) by blast
    with 3 run mk(2) show thesis by (intro go [of ?read]) (simp_all add: andthen_def pask_def)
  next
    case 4
    let ?new = "n1 @ PReadBytes ?d # [] @ PWrite ?copy bytes # []"
    show thesis
    proof (cases "pa_write ?an (h @ n1 @ PReadBytes ?d # []) ?copy bytes")
      case (Some e)
      with 4 run mk(2) show thesis
        by (intro stop [of "io_fault ?copy e" ?new]) (auto simp: andthen_def pask_def write_file_def under_backup)
    next
      case None
      then have "saved ?an h ?new ?d" unfolding saved_def using 4(2) by blast
      with None 4 run mk(2) show thesis
        by (intro go [of ?new]) (auto simp: andthen_def pask_def write_file_def under_backup)
    qed
  qed
qed

lemma backup_saves:
  "\<exists>new r. backup_all env ws root cs h = (r, h @ new) \<and> (\<forall>d x. PWrite d x \<in> set new \<longrightarrow> under root d)
     \<and> (r = Inr () \<longrightarrow> (\<forall>c \<in> set cs. ch_kind c \<noteq> ChCreate \<longrightarrow>
          saved (pe_answers env) h new (resolve_dest ws (ch_path c))))"
proof (induction cs arbitrary: h)
  case (Cons c cs)
  show ?case
  proof (cases "ch_kind c = ChCreate")
    case True
    with Cons.IH [of h] show ?thesis by auto
  next
    case False
    then show ?thesis
    proof (cases rule: backup_step [of c env ws root cs h])
      case (stop new e)
      then show ?thesis by blast
    next
      case (go new)
      obtain n2 r2 where ih: "backup_all env ws root cs (h @ new) = (r2, (h @ new) @ n2)"
          "\<forall>d x. PWrite d x \<in> set n2 \<longrightarrow> under root d"
          "r2 = Inr () \<longrightarrow> (\<forall>c \<in> set cs. ch_kind c \<noteq> ChCreate \<longrightarrow>
             saved (pe_answers env) (h @ new) n2 (resolve_dest ws (ch_path c)))"
        using Cons.IH [of "h @ new"] by blast
      show ?thesis
        using go ih saved_later [OF go(3), of n2] saved_before [of "pe_answers env" h new n2]
        by (intro exI [of _ "new @ n2"] exI [of _ r2]) auto
    qed
  qed
qed simp

lemma write_changes_writes:
  "\<exists>new r. write_changes env dir ws cs h = (r, h @ new)
     \<and> (\<forall>d x. PWrite d x \<in> set new \<longrightarrow> d \<in> (\<lambda>c. resolve_dest ws (ch_path c)) ` set cs)"
proof (induction cs arbitrary: h)
  case (Cons c cs)
  let ?d = "resolve_dest ws (ch_path c)"
  obtain n1 r1 where mk: "mkdir_parent env ?d h = (r1, h @ n1)" "\<forall>d x. PWrite d x \<notin> set n1"
    using mkdir_parent_adds by blast
  obtain r2 where wr: "write_file env ?d ?d (ch_after c) (h @ n1) = (r2, h @ n1 @ [PWrite ?d (ch_after c)])"
    by (cases "pa_write (pe_answers env) (h @ n1) ?d (ch_after c)") (simp_all add: write_file_def pask_def)
  obtain n3 where mode: "(case strip_prefix ''.claude/hooks/'' (ch_path c) of
        Some n \<Rightarrow> x @ [PCopyMode (path_join (path_join dir ''hooks'') n) ?d] | None \<Rightarrow> x) = x @ n3"
      "\<forall>d x. PWrite d x \<notin> set n3" for x :: phist
    by (cases "strip_prefix ''.claude/hooks/'' (ch_path c)") auto
  let ?h = "h @ n1 @ [PWrite ?d (ch_after c)] @ n3"
  obtain n4 r4 where ih: "write_changes env dir ws cs ?h = (r4, ?h @ n4)"
      "\<forall>d x. PWrite d x \<in> set n4 \<longrightarrow> d \<in> (\<lambda>c. resolve_dest ws (ch_path c)) ` set cs"
    using Cons.IH [of ?h] by blast
  have run: "write_changes env dir ws (c # cs) h = andthen (r1, h @ n1) (\<lambda>_ h.
      andthen (write_file env ?d ?d (ch_after c) h) (\<lambda>_ h. write_changes env dir ws cs (h @ n3)))"
    by (simp only: write_changes.simps Let_def mk(1) mode(1))
  show ?case
    using run mk(2) mode(2) wr ih by (cases r1; cases r2) (auto simp: andthen_def)
qed simp
section \<open>What a plan is to create was found missing\<close>

lemma andthen_Inr_iff: "andthen m f = (Inr b, h') \<longleftrightarrow> (\<exists>a h1. m = (Inr a, h1) \<and> f a h1 = (Inr b, h'))"
  by (auto simp: andthen_def split: prod.splits sum.splits)

definition told :: "prof_env \<Rightarrow> phist \<Rightarrow> phist \<Rightarrow> string \<Rightarrow> bool" where
  "told env h h' d \<longleftrightarrow> (\<exists>new. h' = h @ new \<and> saved (pe_answers env) h new d)"

definition onward :: "phist \<Rightarrow> phist \<Rightarrow> bool" where
  "onward h h' \<longleftrightarrow> adds is_read h ((), h')"

lemma onward_refl [simp]: "onward h h"
  by (simp add: onward_def adds_def)

lemma onward_trans: "onward h h1 \<Longrightarrow> onward h1 h2 \<Longrightarrow> onward h h2"
  unfolding onward_def by (rule adds_trans)

lemma onward_run: "adds is_read h m \<Longrightarrow> m = (x, h') \<Longrightarrow> onward h h'"
  by (simp add: onward_def adds_def)

lemma told_later: "told env h h1 d \<Longrightarrow> onward h1 h2 \<Longrightarrow> told env h h2 d"
  unfolding told_def onward_def adds_def using saved_later by fastforce

lemma told_before: "onward h h1 \<Longrightarrow> told env h1 h2 d \<Longrightarrow> told env h h2 d"
  unfolding told_def onward_def adds_def using saved_before by fastforce

lemma read_optional_told:
  assumes "read_optional env p h = (Inr None, h')"
  shows "told env h h' p"
proof -
  from assms obtain t where "pa_text (pe_answers env) (h @ []) p = Inl (Missing t)" and h': "h' = h @ [PReadText p]"
    by (auto simp: read_optional_def read_text_file_def pask_def split: sum.splits io_error.splits)
  moreover have "[PReadText p] = [] @ PReadText p # []" by simp
  ultimately have "saved (pe_answers env) h [PReadText p] p" unfolding saved_def by blast
  with h' show ?thesis by (auto simp: told_def)
qed

text \<open>The inputs that were read: a file that is not there was found missing.\<close>

lemma pair_told:
  assumes "read_fragment_pair env dir ws file target active h = (Inr r, h')"
  shows "(r \<noteq> None) = active" and "r = Some x \<Longrightarrow> fc_existing x = None \<Longrightarrow> told env h h' (path_join ws target)"
proof -
  show "(r \<noteq> None) = active"
    using assms by (auto simp: read_fragment_pair_def andthen_Inr_iff split: if_splits)
  assume "r = Some x" "fc_existing x = None"
  with assms obtain h1 y where "read_required env (path_join dir file) h = (Inr y, h1)"
      "read_optional env (path_join ws target) h1 = (Inr None, h')"
    by (auto simp: read_fragment_pair_def andthen_Inr_iff split: if_splits)
  then show "told env h h' (path_join ws target)"
    using read_optional_told told_before onward_run adds_reading(1) by (metis is_read.simps(9))
qed

lemma family_told:
  assumes "read_family env dir ws family ns m h = (Inr r, h')" and "r n = Some x" "fc_existing x = None"
  shows "m n = Some x \<or> told env h h' (path_join (path_join (path_join ws ''.claude'') family) n)"
  using assms
proof (induction ns arbitrary: m h)
  case (Cons k ns)
  let ?at = "\<lambda>n. path_join (path_join (path_join ws ''.claude'') family) n"
  from Cons.prems(1) obtain h1 h2 y z where run:
      "read_required env (path_join (path_join dir family) k) h = (Inr y, h1)"
      "read_optional env (?at k) h1 = (Inr z, h2)"
      "read_family env dir ws family ns (m(k \<mapsto> \<lparr>fc_fragment = y, fc_existing = z\<rparr>)) h2 = (Inr r, h')"
    by (auto simp: andthen_Inr_iff)
  have on: "onward h h1" "onward h1 h2" "onward h2 h'"
    using run onward_run adds_reading(1,2) [of is_read] read_family_reads by (metis is_read.simps(9))+
  from Cons.IH [OF run(3) Cons.prems(2,3)]
  consider "(m(k \<mapsto> \<lparr>fc_fragment = y, fc_existing = z\<rparr>)) n = Some x" | "told env h2 h' (?at n)" by blast
  then show ?case
  proof cases
    case 1
    show ?thesis
    proof (cases "n = k")
      case True
      with 1 Cons.prems(3) have "z = None" by auto
      with run(2) True have "told env h1 h2 (?at n)" using read_optional_told by blast
      with on show ?thesis using told_later told_before by blast
    qed (use 1 in simp)
  next
    case 2
    with on show ?thesis using told_before by blast
  qed
qed simp

lemma plan_creates:
  assumes "plan_changes jt p t = Inr cs" and "c \<in> set cs" and "ch_kind c = ChCreate"
  shows "(ch_path c = ''.claude/settings.json'' \<and>
        (fg_settings (pf_fragments p) \<or> fg_mcp (pf_fragments p))
        \<and> (\<forall>x. tg_settings t = Some x \<longrightarrow> fc_existing x = None) \<and> (\<forall>x. tg_mcp t = Some x \<longrightarrow> fc_existing x = None))
    \<or> (ch_path c = ''CLAUDE.md'' \<and> fg_instructions (pf_fragments p)
        \<and> (\<exists>x. tg_instructions t = Some x \<and> fc_existing x = None))
    \<or> (\<exists>n \<in> set (fg_rules (pf_fragments p)). ch_path c = ''.claude/rules/'' @ n
        \<and> (\<exists>x. tg_rules t n = Some x \<and> fc_existing x = None))
    \<or> (\<exists>n \<in> set (fg_hooks (pf_fragments p)). ch_path c = ''.claude/hooks/'' @ n
        \<and> (\<exists>x. tg_hooks t n = Some x \<and> fc_existing x = None))"
  using assms(1)
proof (cases rule: plan_parts)
  case (1 st ins rules hooks)
  from assms(2) 1(5) consider "st = Some c" | "c \<in> set ins" | "c \<in> set rules" | "c \<in> set hooks"
    by (auto split: option.splits)
  then show ?thesis
  proof cases
    case s: 1
    with 1(1) assms(3) show ?thesis
      by (intro disjI1) (auto simp: plan_settings_def Let_def split: if_splits sum.splits option.splits)
  next
    case 2
    with 1(2) have i: "fg_instructions (pf_fragments p)" "plan_instructions t = Inr c" by (auto split: if_splits)
    with assms(3) show ?thesis
      by (intro disjI2 disjI1) (auto simp: plan_instructions_def split: if_splits sum.splits option.splits)
  next
    case 3
    with 1(3) assms(3) show ?thesis
      by (intro disjI2 disjI1) (auto simp: plan_files_spec file_change_def split: if_splits)
  next
    case 4
    with 1(4) assms(3) show ?thesis
      by (intro disjI2) (auto simp: plan_files_spec file_change_def split: if_splits)
  qed
qed
text \<open>A relative path below a directory, joined in one or in several steps.\<close>

definition relative :: "string \<Rightarrow> bool" where
  "relative r \<longleftrightarrow> r \<noteq> [] \<and> hd r \<noteq> slash"

lemma relative_iff: "relative r \<longleftrightarrow> r \<noteq> [] \<and> \<not> starts_with r ''/''"
  by (cases r) (auto simp: relative_def starts_with_iff)

lemma path_join_relative: "relative r \<Longrightarrow> path_join d r = (if d = [] \<or> last d = slash then d @ r else d @ slash # r)"
  by (simp add: path_join_def relative_iff)

lemma path_join_join:
  assumes "relative a" and "last a \<noteq> slash" and "relative b"
  shows "path_join (path_join d a) b = path_join d (a @ slash # b)"
proof -
  have "a \<noteq> []" using assms(1) by (simp add: relative_def)
  moreover have "relative (a @ slash # b)" using assms(1) by (auto simp: relative_def)
  ultimately show ?thesis using assms by (auto simp: path_join_relative)
qed

lemma safe_relative: "is_safe_file_name n \<Longrightarrow> relative n"
  by (cases n) (auto simp: is_safe_file_name_def relative_def)

lemma dest_of_files:
  assumes "is_safe_file_name n"
  shows "resolve_dest ws (''.claude/rules/'' @ n) = path_join (path_join (path_join ws ''.claude'') ''rules'') n"
    and "resolve_dest ws (''.claude/hooks/'' @ n) = path_join (path_join (path_join ws ''.claude'') ''hooks'') n"
  using safe_relative [OF assms]
    path_join_join [of "''.claude''" "''rules''" ws] path_join_join [of "''.claude''" "''hooks''" ws]
    path_join_join [of "''.claude/rules''" n ws] path_join_join [of "''.claude/hooks''" n ws]
  by (simp_all add: resolve_dest_def starts_with_iff relative_def)

lemma dest_of_others:
  "resolve_dest ws ''.claude/settings.json'' = path_join ws ''.claude/settings.json''"
  "resolve_dest ws ''CLAUDE.md'' = path_join ws ''CLAUDE.md''"
  by (simp_all add: resolve_dest_def starts_with_iff)

text \<open>The steps of a plan.\<close>

lemma plan_steps:
  assumes "plan_project_changes env dir p ws harness h = (Inr cs, h')"
  obtains se mc ins rules hooks main extra h1 h2 h3 h4 h5 h6 where
    "onward h h1"
    "read_fragment_pair env dir ws ''settings.json'' ''.claude/settings.json'' (fg_settings (pf_fragments p)) h1 = (Inr se, h2)"
    "read_fragment_pair env dir ws ''mcp.json'' ''.claude/settings.json'' (fg_mcp (pf_fragments p)) h2 = (Inr mc, h3)"
    "read_fragment_pair env dir ws ''CLAUDE.md'' ''CLAUDE.md'' (fg_instructions (pf_fragments p)) h3 = (Inr ins, h4)"
    "read_family env dir ws ''rules'' (fg_rules (pf_fragments p)) Map.empty h4 = (Inr rules, h5)"
    "read_family env dir ws ''hooks'' (fg_hooks (pf_fragments p)) Map.empty h5 = (Inr hooks, h6)"
    "plan_changes (pe_json env) p \<lparr>tg_settings = se, tg_mcp = mc, tg_instructions = ins, tg_rules = rules, tg_hooks = hooks\<rparr> = Inr main"
    "cs = main @ extra"
    "(extra = [] \<and> h' = h6) \<or> (\<exists>path c. harness = Some path \<and> extra = (case c of Some c \<Rightarrow> [c] | None \<Rightarrow> [])
        \<and> plan_harness_settings_change env p se mc path h6 = (Inr c, h'))"
proof -
  let ?h1 = "h @ [PIsDir ws]" and ?f = "pf_fragments p"
  have first: "onward h ?h1" by (simp add: onward_def adds_def)
  obtain se mc ins rules hooks main h2 h3 h4 h5 h6 h7 where run:
    "read_fragment_pair env dir ws ''settings.json'' ''.claude/settings.json'' (fg_settings ?f) ?h1 = (Inr se, h2)"
    "read_fragment_pair env dir ws ''mcp.json'' ''.claude/settings.json'' (fg_mcp ?f) h2 = (Inr mc, h3)"
    "read_fragment_pair env dir ws ''CLAUDE.md'' ''CLAUDE.md'' (fg_instructions ?f) h3 = (Inr ins, h4)"
    "read_family env dir ws ''rules'' (fg_rules ?f) Map.empty h4 = (Inr rules, h5)"
    "read_family env dir ws ''hooks'' (fg_hooks ?f) Map.empty h5 = (Inr hooks, h6)"
    "(planned env p \<lparr>tg_settings = se, tg_mcp = mc, tg_instructions = ins, tg_rules = rules, tg_hooks = hooks\<rparr>, h6) = (Inr main, h7)"
    and last: "(case (fg_settings ?f \<and> fg_settings_scope ?f = ScopeOfAll, harness) of
        (True, Some path) \<Rightarrow>
          andthen (plan_harness_settings_change env p se mc path h7) (\<lambda>c h.
            (Inr (main @ (case c of Some c \<Rightarrow> [c] | None \<Rightarrow> [])), h))
      | _ \<Rightarrow> (Inr main, h7)) = (Inr cs, h')"
  proof -
    have "pa_is_dir (pe_answers env) h ws" using assms
      by (auto simp: plan_project_changes_def Let_def pask_def split: bool.splits)
    with assms show thesis
      unfolding plan_project_changes_def Let_def pask_def prod.case
      by (simp only: bool.case) (elim andthen_Inr, (rule that; (assumption | (simp only: prod.case))))
  qed
  have h7: "h7 = h6" using run(6) by simp
  note fin = last [unfolded h7]
  have plan: "plan_changes (pe_json env) p \<lparr>tg_settings = se, tg_mcp = mc, tg_instructions = ins, tg_rules = rules, tg_hooks = hooks\<rparr> = Inr main"
    using run(6) by (simp add: planned_def split: sum.splits)
  show thesis
  proof (cases "\<exists>path. fg_settings ?f \<and> fg_settings_scope ?f = ScopeOfAll \<and> harness = Some path")
    case True
    then obtain path c where "harness = Some path" "plan_harness_settings_change env p se mc path h6 = (Inr c, h')"
        "cs = main @ (case c of Some c \<Rightarrow> [c] | None \<Rightarrow> [])"
      using fin by (auto simp: andthen_Inr_iff)
    with that [OF first run(1-5) plan] show thesis by blast
  next
    case False
    with fin have "cs = main @ [] \<and> h' = h6" by (auto split: bool.splits option.splits)
    with that [OF first run(1-5) plan] show thesis by blast
  qed
qed

lemma harness_told:
  assumes "plan_harness_settings_change env p se mc path h = (Inr (Some c), h')"
  shows "ch_path c = path" and "ch_kind c = ChCreate \<Longrightarrow> (se \<noteq> None) = fg_settings (pf_fragments p) \<Longrightarrow>
    (mc \<noteq> None) = fg_mcp (pf_fragments p) \<Longrightarrow> told env h h' path"
proof -
  let ?p = "p\<lparr>pf_fragments := (pf_fragments p)\<lparr>fg_instructions := False, fg_rules := [], fg_hooks := []\<rparr>\<rparr>"
  obtain e cs where e: "read_optional env path h = (Inr e, h')"
    and cs: "plan_changes (pe_json env) ?p \<lparr>tg_settings = map_option (\<lambda>c. c\<lparr>fc_existing := e\<rparr>) se,
        tg_mcp = map_option (\<lambda>c. c\<lparr>fc_existing := e\<rparr>) mc, tg_instructions = None,
        tg_rules = Map.empty, tg_hooks = Map.empty\<rparr> = Inr cs"
    and c: "cs \<noteq> []" "c = (last cs)\<lparr>ch_path := path\<rparr>"
    using assms by (auto simp: plan_harness_settings_change_def Let_def andthen_Inr_iff planned_def
        split: sum.splits if_splits)
  show "ch_path c = path" by (simp add: c)
  assume "ch_kind c = ChCreate" "(se \<noteq> None) = fg_settings (pf_fragments p)" "(mc \<noteq> None) = fg_mcp (pf_fragments p)"
  moreover have "last cs \<in> set cs" "ch_kind (last cs) = ch_kind c" using c by simp_all
  ultimately have "e = None" using plan_creates [OF cs, of "last cs"] by auto
  with e read_optional_told show "told env h h' path" by blast
qed

lemma plan_saves:
  assumes plan: "plan_project_changes env dir p ws harness h = (Inr cs, h')"
    and listed: "list_all is_safe_file_name (fg_rules (pf_fragments p) @ fg_hooks (pf_fragments p))"
    and absolute: "\<And>path. harness = Some path \<Longrightarrow> starts_with path ''/''"
    and c: "c \<in> set cs" "ch_kind c = ChCreate"
  shows "told env h h' (resolve_dest ws (ch_path c))"
  using plan
proof (cases rule: plan_steps)
  case (1 se mc ins rules hooks main extra h1 h2 h3 h4 h5 h6)
  have tail: "onward h6 h'"
    using 1(9) onward_run [OF harness_reads] by auto
  have on: "onward h1 h2" "onward h2 h3" "onward h3 h4" "onward h4 h5" "onward h5 h6"
    using 1(2-6) onward_run [OF read_pair_reads] onward_run [OF read_family_reads] by blast+
  have active: "(se \<noteq> None) = fg_settings (pf_fragments p)" "(mc \<noteq> None) = fg_mcp (pf_fragments p)"
    using pair_told(1) 1(2,3) by blast+
  have up: "onward h h2" "onward h h3" "onward h h4" "onward h h5" "onward h h6"
    using 1(1) on onward_trans by blast+
  have down: "onward h5 h'" "onward h4 h'" "onward h3 h'" "onward h2 h'"
    using tail on onward_trans by blast+
  from c(1) 1(8) consider "c \<in> set main" | "c \<in> set extra" by auto
  then show ?thesis
  proof cases
    case main: 1
    have safe: "is_safe_file_name n" if "n \<in> set (fg_rules (pf_fragments p)) \<or> n \<in> set (fg_hooks (pf_fragments p))" for n
      using listed that by (auto simp: list_all_iff)
    from plan_creates [OF 1(7) main c(2)] show ?thesis
    proof (elim disjE conjE bexE exE)
      assume path: "ch_path c = ''.claude/settings.json''"
        and s: "fg_settings (pf_fragments p)"
        and none: "\<forall>x. tg_settings \<lparr>tg_settings = se, tg_mcp = mc, tg_instructions = ins, tg_rules = rules, tg_hooks = hooks\<rparr> = Some x \<longrightarrow> fc_existing x = None"
      from active(1) s obtain x where "se = Some x" by blast
      with none have "told env h1 h2 (path_join ws ''.claude/settings.json'')" using pair_told(2) [OF 1(2)] by simp
      with path show ?thesis using told_before [OF 1(1)] told_later [OF _ down(4)] by (simp add: dest_of_others)
    next
      assume path: "ch_path c = ''.claude/settings.json''"
        and s: "fg_mcp (pf_fragments p)"
        and none: "\<forall>x. tg_mcp \<lparr>tg_settings = se, tg_mcp = mc, tg_instructions = ins, tg_rules = rules, tg_hooks = hooks\<rparr> = Some x \<longrightarrow> fc_existing x = None"
      from active(2) s obtain x where "mc = Some x" by blast
      with none have "told env h2 h3 (path_join ws ''.claude/settings.json'')" using pair_told(2) [OF 1(3)] by simp
      with path show ?thesis using told_before [OF up(1)] told_later [OF _ down(3)] by (simp add: dest_of_others)
    next
      fix x assume "ch_path c = ''CLAUDE.md''"
        "tg_instructions \<lparr>tg_settings = se, tg_mcp = mc, tg_instructions = ins, tg_rules = rules, tg_hooks = hooks\<rparr> = Some x" "fc_existing x = None"
      then show ?thesis
        using pair_told(2) [OF 1(4)] told_before [OF up(2)] told_later [OF _ down(2)] by (simp add: dest_of_others)
    next
      fix n x assume n: "n \<in> set (fg_rules (pf_fragments p))" "ch_path c = ''.claude/rules/'' @ n"
        "tg_rules \<lparr>tg_settings = se, tg_mcp = mc, tg_instructions = ins, tg_rules = rules, tg_hooks = hooks\<rparr> n = Some x" "fc_existing x = None"
      then have "told env h4 h5 (path_join (path_join (path_join ws ''.claude'') ''rules'') n)"
        using family_told [OF 1(5), of n x] by simp
      with n(2) show ?thesis
        using told_before [OF up(3)] told_later [OF _ down(1)] dest_of_files(1) [OF safe, of n ws] n(1) by metis
    next
      fix n x assume n: "n \<in> set (fg_hooks (pf_fragments p))" "ch_path c = ''.claude/hooks/'' @ n"
        "tg_hooks \<lparr>tg_settings = se, tg_mcp = mc, tg_instructions = ins, tg_rules = rules, tg_hooks = hooks\<rparr> n = Some x" "fc_existing x = None"
      then have "told env h5 h6 (path_join (path_join (path_join ws ''.claude'') ''hooks'') n)"
        using family_told [OF 1(6), of n x] by simp
      with n(2) show ?thesis
        using told_before [OF up(4)] told_later [OF _ tail] dest_of_files(2) [OF safe, of n ws] n(1) by metis
    qed
  next
    case extra: 2
    with 1(9) obtain path where path: "harness = Some path"
      "plan_harness_settings_change env p se mc path h6 = (Inr (Some c), h')"
      by (auto split: option.splits)
    with harness_told [OF path(2)] active c(2) have "told env h6 h' path" "ch_path c = path" by blast+
    with absolute [OF path(1)] told_before [OF up(5)] show ?thesis by (simp add: resolve_dest_def)
  qed
qed
section \<open>The whole apply\<close>

lemma call_in_parts:
  assumes "pre @ y # post = a @ b"
  obtains "y \<in> set a" | q where "pre = a @ q" "b = q @ y # post"
  using assms by (auto simp: append_eq_append_conv2 Cons_eq_append_conv)

definition backup_root :: "string \<Rightarrow> string \<Rightarrow> string" where
  "backup_root ws stamp = path_join (path_join ws ''.willie-bak'') stamp"

lemma stamp_digits:
  assumes "backup_timestamp env h = (stamp, h')"
  shows "list_all ascii_digit stamp \<and> stamp \<noteq> []" and "h' = h @ [PClock]"
  using assms nat_text_digits by (auto simp: backup_timestamp_def pask_def list_all_iff ascii_digit_def split: prod.splits)

text \<open>The calls of an apply that gets to write: it reads to plan, asks the time, backs up and, if that went well,
  writes.\<close>

lemma apply_calls:
  assumes Inr: "pp_target (pe_params env) v = Inr (name, ws, harness)"
    and run: "apply_to_project env v h = (r, h @ pre @ PWrite d x # post)"
  obtains dir p cs ha hb n1 stamp n2 r2 n3 where
    "existing_profile_dir env name h = (Inr dir, ha)" "read_profile_toml env dir ha = (Inr p, hb)"
    "plan_project_changes env dir p ws harness hb = (Inr cs, h @ n1)" "list_all is_read n1"
    "backup_timestamp env (h @ n1) = (stamp, (h @ n1) @ [PClock])"
    "\<forall>d x. PWrite d x \<in> set n2 \<longrightarrow> under (backup_root ws stamp) d"
    "r2 = Inr () \<longrightarrow> (\<forall>c \<in> set cs. ch_kind c \<noteq> ChCreate \<longrightarrow>
       saved (pe_answers env) ((h @ n1) @ [PClock]) n2 (resolve_dest ws (ch_path c)))"
    "\<forall>d x. PWrite d x \<in> set n3 \<longrightarrow> d \<in> (\<lambda>c. resolve_dest ws (ch_path c)) ` set cs"
    "pre @ PWrite d x # post = (n1 @ PClock # n2) @ (if r2 = (Inr () :: plugin_error + unit) then n3 else [])"
proof -
  have not_read: "\<not> adds is_read h (rr, h @ pre @ PWrite d x # post)" for rr :: "plugin_error + json"
    by (simp add: adds_def)
  define plan where "plan = andthen (existing_profile_dir env name h) (\<lambda>dir h.
      andthen (read_profile_toml env dir h) (\<lambda>p h.
      andthen (plan_project_changes env dir p ws harness h) (\<lambda>cs h. (Inr (dir, p, cs), h))))"
  have plan_reads: "adds is_read h plan" unfolding plan_def by (intro runs) simp_all
  have "apply_to_project env v h = andthen plan (\<lambda>(dir, p, cs) h.
      andthen (backup_changes env ws cs h) (\<lambda>backup h.
      andthen (write_changes env dir ws cs h) (\<lambda>_ h.
      (Inr (JObject [(''changes'', JArray (map change_json cs)), (''backup_path'', JString backup)]), h))))"
    unfolding apply_to_project_def parse_params_def plan_def Inr
    by (auto simp: andthen_def split: prod.splits sum.splits)
  with run have rest: "andthen plan (\<lambda>(dir, p, cs) h.
      andthen (backup_changes env ws cs h) (\<lambda>backup h.
      andthen (write_changes env dir ws cs h) (\<lambda>_ h.
      (Inr (JObject [(''changes'', JArray (map change_json cs)), (''backup_path'', JString backup)]), h))))
    = (r, h @ pre @ PWrite d x # post)" by simp
  show thesis
  proof (cases "fst plan")
    case err: (Inl e)
    with rest plan_reads not_read show thesis by (cases plan) (auto simp: andthen_def adds_def)
  next
    case ok: (Inr a)
    obtain dir p cs where a: "a = (dir, p, cs)" using prod_cases3 by blast
    from plan_reads ok a obtain n1 where n1: "plan = (Inr (dir, p, cs), h @ n1)" "list_all is_read n1"
      by (cases plan) (auto simp: adds_def)
    obtain ha hb where steps: "existing_profile_dir env name h = (Inr dir, ha)"
        "read_profile_toml env dir ha = (Inr p, hb)" "plan_project_changes env dir p ws harness hb = (Inr cs, h @ n1)"
      using n1(1) unfolding plan_def by (auto simp: andthen_Inr_iff)
    obtain stamp where st: "backup_timestamp env (h @ n1) = (stamp, (h @ n1) @ [PClock])"
      by (auto simp: backup_timestamp_def pask_def)
    obtain n2 r2 where bk: "backup_all env ws (backup_root ws stamp) cs ((h @ n1) @ [PClock]) = (r2, ((h @ n1) @ [PClock]) @ n2)"
        "\<forall>d x. PWrite d x \<in> set n2 \<longrightarrow> under (backup_root ws stamp) d"
        "r2 = Inr () \<longrightarrow> (\<forall>c \<in> set cs. ch_kind c \<noteq> ChCreate \<longrightarrow>
          saved (pe_answers env) ((h @ n1) @ [PClock]) n2 (resolve_dest ws (ch_path c)))"
      using backup_saves by blast
    let ?n = "n1 @ PClock # n2"
    have bc: "backup_changes env ws cs (h @ n1) = (case r2 of Inl e \<Rightarrow> Inl e | Inr u \<Rightarrow> Inr (backup_root ws stamp), h @ ?n)"
      unfolding backup_changes_def st prod.case Let_def using bk(1)
      by (cases r2) (simp_all add: backup_root_def andthen_def)
    obtain n3 r3 where wr: "write_changes env dir ws cs (h @ ?n) = (r3, (h @ ?n) @ n3)"
        "\<forall>d x. PWrite d x \<in> set n3 \<longrightarrow> d \<in> (\<lambda>c. resolve_dest ws (ch_path c)) ` set cs"
      using write_changes_writes by blast
    have calls: "pre @ PWrite d x # post = ?n @ (if r2 = Inr () then n3 else [])"
      using rest n1(1) bc wr(1) by (cases r2; cases r3) (auto simp: andthen_def)
    from that [OF steps n1(2) st bk(2,3) wr(2) calls] show thesis .
  qed
qed

section \<open>Where requests write\<close>

fun touched :: "pcall \<Rightarrow> string option" where
  "touched (PMkdirs p) = Some p"
| "touched (PWrite p x) = Some p"
| "touched (PCopyMode s d) = Some d"
| "touched (PGit repo args) = Some repo"
| "touched _ = None"

definition within :: "string \<Rightarrow> string \<Rightarrow> bool" where
  "within root p \<longleftrightarrow> (\<exists>below. path_comps p = path_comps root @ below \<and> ''..'' \<notin> set below)"

definition inside :: "string \<Rightarrow> string \<Rightarrow> bool" where
  "inside root p \<longleftrightarrow> (\<exists>below. below \<noteq> [] \<and> path_comps p = path_comps root @ below \<and> ''..'' \<notin> set below)"

lemma within_refl [simp]: "within d d"
  by (simp add: within_def)

lemma inside_within: "inside root p \<Longrightarrow> within root p"
  by (auto simp: inside_def within_def)

lemma within_trans: "within a b \<Longrightarrow> within b c \<Longrightarrow> within a c"
  by (auto simp: within_def)

lemma comps_join: "\<not> starts_with n ''/'' \<Longrightarrow> path_comps (path_join d n) = path_comps d @ path_comps n"
proof -
  assume n: "\<not> starts_with n ''/''"
  show ?thesis
  proof (cases "d = []")
    case True
    with n show ?thesis by (simp add: path_join_def path_comps_def)
  next
    case False
    show ?thesis
    proof (cases "last d = slash")
      case True
      with False have "d = butlast d @ slash # []" by (metis append_butlast_last_id)
      then have "d @ n = butlast d @ slash # n" by (metis append.assoc append_Cons append_Nil)
      then have "path_comps (d @ n) = path_comps (butlast d) @ path_comps n" by (simp only: path_comps_append)
      moreover have "path_comps d = path_comps (butlast d) @ path_comps []"
        by (subst \<open>d = butlast d @ slash # []\<close>) (simp only: path_comps_append)
      moreover have "path_comps [] = []" by (simp add: path_comps_def)
      ultimately show ?thesis using n False True by (simp add: path_join_def)
    next
      case False2: False
      with n False show ?thesis using path_comps_append [of d n] by (simp add: path_join_def)
    qed
  qed
qed

lemma comps_safe: "is_safe_file_name n \<Longrightarrow> path_comps n = [n] \<and> n \<noteq> ''..'' \<and> \<not> starts_with n ''/''"
  using safe_relative [of n] by (auto simp: is_safe_file_name_def path_comps_def split_on_no_sep relative_iff)

lemma inside_join:
  "\<not> starts_with n ''/'' \<Longrightarrow> path_comps n \<noteq> [] \<Longrightarrow> ''..'' \<notin> set (path_comps n) \<Longrightarrow> inside d (path_join d n)"
  by (auto simp: inside_def comps_join)

lemma comps_joined: "list_all component cs \<Longrightarrow> ''.'' \<notin> set cs \<Longrightarrow> path_comps (join_with ''/'' cs) = cs"
proof (induction cs rule: induct_list012)
  case (2 c)
  then show ?case by (auto simp: path_comps_def component_def split_on_no_sep)
next
  case (3 c d cs)
  then have "path_comps c = [c]" by (auto simp: path_comps_def component_def split_on_no_sep)
  with 3 path_comps_append [of c "join_with ''/'' (d # cs)"] show ?case by simp
qed (simp add: path_comps_def)

lemma comps_parent: "path_parent p = Some q \<Longrightarrow> path_comps q = butlast (path_comps p)"
proof -
  assume "path_parent p = Some q"
  then have q: "q = (if starts_with p ''/'' then ''/'' else []) @ join_with ''/'' (butlast (path_comps p))"
    by (simp add: path_parent_def split: if_splits)
  have "list_all component (butlast (path_comps p))" "''.'' \<notin> set (butlast (path_comps p))"
    using path_comps_components [of p] by (auto simp: list_all_iff path_comps_def dest: in_set_butlastD)
  then have "path_comps (join_with ''/'' (butlast (path_comps p))) = butlast (path_comps p)" by (rule comps_joined)
  moreover have "path_comps (slash # x) = path_comps x" for x
    using path_comps_append [of "[]" x] by (simp add: path_comps_def)
  ultimately show ?thesis by (simp add: q)
qed

lemma inside_parent: "inside root p \<Longrightarrow> path_parent p = Some q \<Longrightarrow> within root q"
  unfolding inside_def within_def by (auto dest!: comps_parent simp: butlast_append dest: in_set_butlastD)

text \<open>The four kinds of files of a profile, and the parts of a target.\<close>

lemma plain_names:
  "path_comps ''profile.toml'' = [''profile.toml'']" "path_comps ''settings.json'' = [''settings.json'']"
  "path_comps ''CLAUDE.md'' = [''CLAUDE.md'']" "path_comps ''mcp.json'' = [''mcp.json'']"
  "path_comps ''rules'' = [''rules'']" "path_comps ''hooks'' = [''hooks'']"
  "path_comps ''.claude/settings.json'' = [''.claude'', ''settings.json'']"
  "path_comps ''.willie-bak'' = [''.willie-bak'']" "path_comps ''harness-settings.json'' = [''harness-settings.json'']"
  by (simp_all add: path_comps_def)

lemma comps_family:
  "path_comps (''rules/'' @ n) = ''rules'' # path_comps n" "path_comps (''hooks/'' @ n) = ''hooks'' # path_comps n"
  "path_comps (''.claude/rules/'' @ n) = ''.claude'' # ''rules'' # path_comps n"
  "path_comps (''.claude/hooks/'' @ n) = ''.claude'' # ''hooks'' # path_comps n"
  using path_comps_append [of "''rules''" n] path_comps_append [of "''hooks''" n]
    path_comps_append [of "''.claude/rules''" n] path_comps_append [of "''.claude/hooks''" n]
  by (simp_all add: path_comps_def)

lemma fragment_inside:
  assumes "parse_fragment s = Some f"
  shows "inside d (path_join d (fragment_path f))"
proof (cases f)
  case (Rule n)
  then have "is_safe_file_name n" using assms by (auto simp: parse_fragment_def split: if_splits option.splits)
  from comps_safe [OF this] have "path_comps (fragment_path f) = [''rules'', n]" "n \<noteq> ''..''"
    unfolding Rule fragment_path.simps comps_family by simp_all
  then show ?thesis by (intro inside_join) (simp_all add: Rule starts_with_iff)
next
  case (Hook n)
  then have "is_safe_file_name n" using assms by (auto simp: parse_fragment_def split: if_splits option.splits)
  from comps_safe [OF this] have "path_comps (fragment_path f) = [''hooks'', n]" "n \<noteq> ''..''"
    unfolding Hook fragment_path.simps comps_family by simp_all
  then show ?thesis by (intro inside_join) (simp_all add: Hook starts_with_iff)
qed (auto intro!: inside_join simp: plain_names starts_with_iff)

lemma file_inside:
  "inside d (path_join d ''profile.toml'')" "inside d (path_join d ''settings.json'')"
  "inside d (path_join d ''CLAUDE.md'')" "inside d (path_join d ''rules'')" "inside d (path_join d ''hooks'')"
  by (rule inside_join; simp add: plain_names starts_with_iff)+

section \<open>Requests on a profile\<close>

definition own :: "string \<Rightarrow> pcall \<Rightarrow> bool" where
  "own dir c \<longleftrightarrow> (\<forall>p. touched c = Some p \<longrightarrow> within dir p)"

lemma read_own: "is_read c \<Longrightarrow> own dir c"
  by (cases c) (simp_all add: own_def)

lemma own_simps [simp]:
  "own dir (PGit dir args)" "own dir (PReadText p)" "own dir (PIsFile p)" "own dir (PExists p)"
  "own dir (PMkdirs p) \<longleftrightarrow> within dir p" "own dir (PWrite p x) \<longleftrightarrow> within dir p"
  "own dir (PCopyMode s p) \<longleftrightarrow> within dir p"
  by (simp_all add: own_def)

lemma own_toml [runs]: "adds (own dir) h (write_profile_toml env dir p h)"
  by (auto simp: write_profile_toml_def inside_within file_inside intro!: runs split: sum.split)

lemma own_parent: "inside dir p \<Longrightarrow> adds (own dir) h (mkdir_parent env p h)"
  unfolding mkdir_parent_def
  by (cases "path_parent p") (auto intro!: runs simp: inside_parent)

lemma dir_named: "profile_dir env name = Inr dir \<Longrightarrow> dir = path_join (pe_store env) name \<and> is_valid_profile_name name"
  by (auto simp: profile_dir_def Let_def split: if_splits)

lemma existing_named:
  "existing_profile_dir env name h = (Inr dir, h1) \<Longrightarrow> dir = path_join (pe_store env) name \<and> is_valid_profile_name name"
  by (auto simp: existing_profile_dir_def pask_def dest: dir_named split: sum.splits bool.splits)

text \<open>A run that touches only the directory of one profile, of a valid name.\<close>

definition own_profile :: "prof_env \<Rightarrow> pcall \<Rightarrow> bool" where
  "own_profile env c \<longleftrightarrow>
     (\<forall>p. touched c = Some p \<longrightarrow> (\<exists>name. is_valid_profile_name name \<and> within (path_join (pe_store env) name) p))"

lemma own_profile_reads [simp]:
  "own_profile env (PReadText p)" "own_profile env (PIsFile p)" "own_profile env (PExists p)" "own_profile env (PListDir p)"
  by (simp_all add: own_profile_def)

lemma own_is_profile:
  "is_valid_profile_name name \<Longrightarrow> dir = path_join (pe_store env) name \<Longrightarrow> adds (own dir) h m \<Longrightarrow> adds (own_profile env) h m"
  by (erule adds_weaken) (auto simp: own_def own_profile_def)

lemma on_profile [runs]:
  assumes "\<And>dir h1. adds (own dir) h1 (f dir h1)"
  shows "adds (own_profile env) h (andthen (existing_profile_dir env name h) f)"
proof (intro runs)
  fix a h1 assume "existing_profile_dir env name h = (Inr a, h1)"
  from existing_named [OF this] show "adds (own_profile env) h1 (f a h1)" using own_is_profile assms by blast
qed simp

lemma create_own: "adds (own_profile env) h (profile_create env v h)"
proof -
  have "adds (own dir) h (andthen (mkdirs env dir (path_join dir ''rules'') h) (\<lambda>_ h.
      andthen (mkdirs env dir (path_join dir ''hooks'') h) (\<lambda>_ h.
      andthen (write_profile_toml env dir p h) (\<lambda>_ h.
      andthen (write_file env dir (path_join dir ''settings.json'') (''{}'' @ [CHR 0x0A]) h) (\<lambda>_ h.
      andthen (write_file env dir (path_join dir ''CLAUDE.md'') [] h) (\<lambda>_ h.
      andthen (on_err git_fault (prof_init env dir h)) (\<lambda>_ h.
      andthen (on_err git_fault (commit_all env dir ''profile: scaffold'' h)) (\<lambda>_ h.
      (Inr j, h)))))))))" for dir p h and j :: json
    by (intro runs) (simp_all add: inside_within file_inside)
  note inner = this
  show ?thesis
    unfolding profile_create_def Let_def
  proof (rule adds_andthen)
    fix name h1
    show "adds (own_profile env) h1 (case profile_dir env name of
        Inl e \<Rightarrow> (Inl e, h1)
      | Inr dir \<Rightarrow>
          (case pask (PExists dir) (\<lambda>h. pa_exists (pe_answers env) h dir) h1 of
             (True, h) \<Rightarrow>
               (Inl (Coded ''profile_exists'' (''a profile named '' @ quoted name @ '' already exists'')
                  ''pick a different name, or edit the existing profile''), h)
           | (False, h) \<Rightarrow>
               andthen (mkdirs env dir (path_join dir ''rules'') h) (\<lambda>_ h.
               andthen (mkdirs env dir (path_join dir ''hooks'') h) (\<lambda>_ h.
               andthen (write_profile_toml env dir (scaffold name) h) (\<lambda>_ h.
               andthen (write_file env dir (path_join dir ''settings.json'') (''{}'' @ [CHR 0x0A]) h) (\<lambda>_ h.
               andthen (write_file env dir (path_join dir ''CLAUDE.md'') [] h) (\<lambda>_ h.
               andthen (on_err git_fault (prof_init env dir h)) (\<lambda>_ h.
               andthen (on_err git_fault (commit_all env dir ''profile: scaffold'' h)) (\<lambda>_ h.
               (Inr (summary_json (summary_of (scaffold name))), h))))))))))"
    proof (cases "profile_dir env name")
      case (Inr dir)
      from dir_named [OF this] have valid: "is_valid_profile_name name" "dir = path_join (pe_store env) name" by auto
      show ?thesis
        unfolding Inr sum.case
        by (rule own_is_profile [OF valid], rule adds_ask, simp)
           (split bool.split, intro conjI impI, rule adds_refl, rule inner)
    qed (simp add: adds_refl)
  qed (simp add: runs)
qed

lemma requests_own:
  "adds (own_profile env) h (profile_list env h)"
  "adds (own_profile env) h (profile_read_fragment env v h)"
  "adds (own_profile env) h (profile_write_fragment env v h)"
  "adds (own_profile env) h (profile_check env v h)"
  "adds (own_profile env) h (profile_set_remote env v h)"
  "adds (own_profile env) h (profile_push env v h)"
  "adds (own_profile env) h (profile_pull env v h)"
proof -
  have reads: "own_profile env c" if "is_read c" for c using that by (cases c) (simp_all add: own_profile_def)
  have "adds is_read h (list_entries env es acc h)" for es acc h
  proof (induction es arbitrary: acc h)
    case (Cons e es)
    show ?case
    proof (cases e)
      case (Inr x)
      obtain path d where x: "x = (path, d)" by fastforce
      obtain o1 h1 where t: "try_read_profile env path h = (o1, h1)" by fastforce
      have "adds is_read h (o1, h1)" using adds_reading(4) [of is_read h env path] t by simp
      then have "adds is_read h (list_entries env es acc h1)" for acc using Cons.IH by (rule adds_trans)
      with Cons.IH t show ?thesis by (simp add: Inr x split: option.split)
    qed (simp add: adds_refl)
  qed (simp add: adds_refl)
  then have "adds is_read h (profile_list env h)"
    by (auto simp: profile_list_def intro!: runs split: sum.split io_error.split)
  then show "adds (own_profile env) h (profile_list env h)" by (rule adds_weaken) (rule reads)
  show "adds (own_profile env) h (profile_check env v h)" by (rule adds_weaken [OF check_reads]) (rule reads)
  show "adds (own_profile env) h (profile_read_fragment env v h)"
    by (auto simp: profile_read_fragment_def intro!: runs split: prod.split)
  show "adds (own_profile env) h (profile_write_fragment env v h)"
    unfolding profile_write_fragment_def Let_def
    by (auto intro!: runs own_parent simp: fragment_inside inside_within fragment_of_def split: prod.split option.splits)
  show "adds (own_profile env) h (profile_set_remote env v h)" "adds (own_profile env) h (profile_push env v h)"
    by (auto simp: profile_set_remote_def profile_push_def intro!: runs split: prod.split)
  show "adds (own_profile env) h (profile_pull env v h)"
    by (auto simp: profile_pull_def intro!: runs split: prod.split)
qed
section \<open>An apply stays in the project\<close>

definition placed :: "string \<Rightarrow> string option \<Rightarrow> pcall \<Rightarrow> bool" where
  "placed ws harness c \<longleftrightarrow>
     (\<forall>p. touched c = Some p \<longrightarrow>
        within ws p \<or> (\<exists>path. harness = Some path \<and> (p = path \<or> path_parent path = Some p)))"

lemma placed_reads: "is_read c \<Longrightarrow> placed ws harness c"
  by (cases c) (simp_all add: placed_def)

text \<open>What a change may be about: a path below the workspace, or the harness settings.\<close>

definition fitting :: "string option \<Rightarrow> change \<Rightarrow> bool" where
  "fitting harness c \<longleftrightarrow>
     (\<not> starts_with (ch_path c) ''/'' \<and> path_comps (ch_path c) \<noteq> [] \<and> ''..'' \<notin> set (path_comps (ch_path c)))
     \<or> (harness = Some (ch_path c) \<and> starts_with (ch_path c) ''/'')"

lemma plan_fitting:
  assumes plan: "plan_project_changes env dir p ws harness h = (Inr cs, h')"
    and listed: "list_all is_safe_file_name (fg_rules (pf_fragments p) @ fg_hooks (pf_fragments p))"
    and absolute: "\<And>path. harness = Some path \<Longrightarrow> starts_with path ''/''"
    and c: "c \<in> set cs"
  shows "fitting harness c"
  using plan
proof (cases rule: plan_steps)
  case (1 se mc ins rules hooks main extra h1 h2 h3 h4 h5 h6)
  from c 1(8) consider "c \<in> set main" | "c \<in> set extra" by auto
  then show ?thesis
  proof cases
    case m: 1
    have fits: "fitting harness c"
      if "n \<in> set (fg_rules (pf_fragments p)) \<union> set (fg_hooks (pf_fragments p))"
        "ch_path c = ''.claude/rules/'' @ n \<or> ch_path c = ''.claude/hooks/'' @ n" for n
    proof -
      have "is_safe_file_name n" using listed that(1) by (auto simp: list_all_iff)
      note n = comps_safe [OF this]
      from that(2) show ?thesis
      proof
        assume e: "ch_path c = ''.claude/rules/'' @ n"
        have "path_comps (ch_path c) = [''.claude'', ''rules'', n]" unfolding e comps_family using n by simp
        moreover have "\<not> starts_with (ch_path c) ''/''" unfolding e by (simp add: starts_with_iff)
        ultimately show ?thesis using n by (auto simp: fitting_def)
      next
        assume e: "ch_path c = ''.claude/hooks/'' @ n"
        have "path_comps (ch_path c) = [''.claude'', ''hooks'', n]" unfolding e comps_family using n by simp
        moreover have "\<not> starts_with (ch_path c) ''/''" unfolding e by (simp add: starts_with_iff)
        ultimately show ?thesis using n by (auto simp: fitting_def)
      qed
    qed
    from plan_paths [OF 1(7) m] show ?thesis
    proof (elim disjE bexE)
      fix n assume "n \<in> set (fg_rules (pf_fragments p))" "ch_path c = ''.claude/rules/'' @ n"
      then show ?thesis using fits by blast
    next
      fix n assume "n \<in> set (fg_hooks (pf_fragments p))" "ch_path c = ''.claude/hooks/'' @ n"
      then show ?thesis using fits by blast
    qed (simp_all add: fitting_def plain_names starts_with_iff)
  next
    case 2
    with 1(9) obtain path where path: "harness = Some path"
      "plan_harness_settings_change env p se mc path h6 = (Inr (Some c), h')"
      by (auto split: option.splits)
    from harness_told(1) [OF path(2)] path(1) absolute show ?thesis by (simp add: fitting_def)
  qed
qed

lemma dest_inside:
  assumes "fitting harness c"
  shows "inside ws (resolve_dest ws (ch_path c)) \<or> harness = Some (resolve_dest ws (ch_path c))"
  using assms inside_join [of "ch_path c" ws] by (auto simp: fitting_def resolve_dest_def)

lemma placed_dest:
  assumes "inside ws d \<or> harness = Some d"
  shows "adds (placed ws harness) h (mkdir_parent env d h)" "placed ws harness (PWrite d x)" "placed ws harness (PCopyMode s d)"
proof -
  show "adds (placed ws harness) h (mkdir_parent env d h)"
    unfolding mkdir_parent_def using assms inside_parent
    by (cases "path_parent d") (auto intro!: runs simp: placed_def)
  show "placed ws harness (PWrite d x)" "placed ws harness (PCopyMode s d)"
    using assms inside_within by (auto simp: placed_def)
qed

lemma writes_placed:
  "\<forall>c \<in> set cs. fitting harness c \<Longrightarrow> adds (placed ws harness) h (write_changes env dir ws cs h)"
proof (induction cs arbitrary: h)
  case (Cons c cs)
  let ?d = "resolve_dest ws (ch_path c)"
  have d: "inside ws ?d \<or> harness = Some ?d" using Cons.prems dest_inside by simp
  have mode: "adds (placed ws harness) h ((), case strip_prefix ''.claude/hooks/'' (ch_path c) of
      Some n \<Rightarrow> h @ [PCopyMode (path_join (path_join dir ''hooks'') n) ?d] | None \<Rightarrow> h)" for h
    using placed_dest(3) [OF d] by (auto simp: adds_def split: option.split)
  show ?case
    unfolding write_changes.simps Let_def
  proof (intro adds_andthen placed_dest(1) [OF d] adds_write placed_dest(2) [OF d])
    fix h2
    show "adds (placed ws harness) h2 (write_changes env dir ws cs
        (case strip_prefix ''.claude/hooks/'' (ch_path c) of
           Some n \<Rightarrow> h2 @ [PCopyMode (path_join (path_join dir ''hooks'') n) ?d] | None \<Rightarrow> h2))"
      by (rule adds_trans [OF mode], rule Cons.IH) (use Cons.prems in simp)
  qed
qed (simp add: adds_refl)

lemma copy_inside:
  assumes "fitting harness c"
  shows "inside root (path_join root (backup_relative_path (ch_path c)))"
  using assms inside_join [of "ch_path c" root] inside_join [of "''harness-settings.json''" root]
  by (auto simp: fitting_def backup_relative_path_def plain_names starts_with_iff)

lemma inside_deep: "within a b \<Longrightarrow> inside b c \<Longrightarrow> inside a c"
  by (auto simp: within_def inside_def)

lemma backups_placed:
  assumes "within ws root" and "\<forall>c \<in> set cs. fitting harness c"
  shows "adds (placed ws harness) h (backup_all env ws root cs h)"
  using assms(2)
proof (induction cs arbitrary: h)
  case (Cons c cs)
  let ?copy = "path_join root (backup_relative_path (ch_path c))"
  have "fitting harness c" using Cons.prems by simp
  from inside_deep [OF assms(1) copy_inside [OF this]] have "inside ws ?copy" .
  then have d: "inside ws ?copy \<or> harness = Some ?copy" by blast
  show ?case
  proof (cases "ch_kind c = ChCreate")
    case True
    with Cons show ?thesis by simp
  next
    case False
    then show ?thesis
      using Cons placed_dest [OF d]
      by (auto simp: Let_def placed_reads adds_refl intro!: runs split: sum.split io_error.split)
  qed
qed (simp add: adds_refl)
lemma stamp_within:
  assumes "list_all ascii_digit stamp" "stamp \<noteq> []"
  shows "within ws (backup_root ws stamp)"
proof -
  have "c \<noteq> slash \<and> c \<noteq> CHR ''.''" if "c \<in> set stamp" for c
    using assms(1) that by (auto simp: list_all_iff ascii_digit_def)
  then have "slash \<notin> set stamp" "CHR ''.'' \<notin> set stamp" by blast+
  then have "\<not> starts_with stamp ''/''" "path_comps stamp = [stamp]" "stamp \<noteq> ''..''"
    using assms(2) by (auto simp: starts_with_iff prefix_def path_comps_def split_on_no_sep)
  then show ?thesis
    by (simp add: within_def backup_root_def comps_join plain_names starts_with_iff)
qed

lemma backup_placed:
  assumes "\<forall>c \<in> set cs. fitting harness c"
  shows "adds (placed ws harness) h (backup_changes env ws cs h)"
proof -
  obtain stamp where st: "backup_timestamp env h = (stamp, h @ [PClock])"
    by (auto simp: backup_timestamp_def pask_def)
  note digits = stamp_digits(1) [OF st]
  note root = stamp_within [OF conjunct1 [OF digits] conjunct2 [OF digits], of ws]
  have "adds (placed ws harness) h ((), h @ [PClock])" by (simp add: adds_def placed_reads)
  moreover have "adds (placed ws harness) (h @ [PClock])
      (andthen (backup_all env ws (backup_root ws stamp) cs (h @ [PClock])) (\<lambda>_ h. (Inr (backup_root ws stamp), h)))"
    by (intro adds_andthen backups_placed [OF root assms] adds_refl)
  ultimately show ?thesis
    unfolding backup_changes_def st prod.case Let_def backup_root_def [symmetric] by (rule adds_trans)
qed

lemma apply_placed:
  assumes listed: "\<And>t p. pe_toml env t = Inr p \<Longrightarrow>
      list_all is_safe_file_name (fg_rules (pf_fragments p) @ fg_hooks (pf_fragments p))"
    and absolute: "\<And>name ws path. pp_target (pe_params env) v = Inr (name, ws, Some path) \<Longrightarrow> starts_with path ''/''"
    and target: "pp_target (pe_params env) v = Inr (name, ws, harness)"
  shows "adds (placed ws harness) h (apply_to_project env v h)"
proof -
  have reads: "adds is_read h m \<Longrightarrow> adds (placed ws harness) h m" for h and m :: "'x \<times> phist"
    by (erule adds_weaken) (rule placed_reads)
  have fit: "\<forall>c \<in> set cs. fitting harness c"
    if "read_profile_toml env dir h2 = (Inr p, h3)" "plan_project_changes env dir p ws harness h3 = (Inr cs, h4)"
    for dir h2 p h3 cs h4
  proof -
    have "list_all is_safe_file_name (fg_rules (pf_fragments p) @ fg_hooks (pf_fragments p))"
      using listed that(1) by (auto simp: read_profile_toml_def read_text_file_def pask_def Let_def split: sum.splits)
    from plan_fitting [OF that(2) this absolute] target show ?thesis by auto
  qed
  have run: "apply_to_project env v h =
      andthen (existing_profile_dir env name h) (\<lambda>dir h.
      andthen (read_profile_toml env dir h) (\<lambda>p h.
      andthen (plan_project_changes env dir p ws harness h) (\<lambda>changes h.
      andthen (backup_changes env ws changes h) (\<lambda>backup h.
      andthen (write_changes env dir ws changes h) (\<lambda>_ h.
      (Inr (JObject [(''changes'', JArray (map change_json changes)), (''backup_path'', JString backup)]), h))))))"
    unfolding apply_to_project_def parse_params_def target by (simp add: andthen_def)
  have dir: "adds is_read h (existing_profile_dir env name h)" by (rule adds_dir) simp
  have toml: "adds is_read h (read_profile_toml env dir h)" for dir h by (rule adds_reading(3)) simp
  show ?thesis
    unfolding run
    by (intro adds_andthen reads [OF dir] reads [OF toml] reads [OF plan_reads] backup_placed writes_placed fit adds_refl)
qed


text \<open>Without that provision an apply writes anywhere: the names in \<open>profile.toml\<close> are not checked when they
  are read, as those in a request are.\<close>

lemma listed_name_escapes:
  "\<exists>c. plan_changes jt \<lparr>pf_name = n, pf_fragments = fragments_default\<lparr>fg_rules := [''../../../etc/profile.d/x.sh'']\<rparr>\<rparr>
        \<lparr>tg_settings = None, tg_mcp = None, tg_instructions = None,
         tg_rules = (\<lambda>_. Some \<lparr>fc_fragment = x, fc_existing = None\<rparr>), tg_hooks = Map.empty\<rparr> = Inr [c]
     \<and> resolve_dest ''/w'' (ch_path c) = ''/w/.claude/rules/../../../etc/profile.d/x.sh'' \<and> ch_after c = x"
  by (simp add: plan_changes_def plan_settings_def fragments_default_def resolve_dest_def starts_with_iff path_join_def)

section \<open>A run\<close>

definition demo_answers :: prof_answers where
  "demo_answers =
     \<lparr>pa_list = (\<lambda>h d. Inr []), pa_exists = (\<lambda>h p. False), pa_is_file = (\<lambda>h p. True), pa_is_dir = (\<lambda>h p. True),
      pa_text = (\<lambda>h p. case map_of [(''/s/house/profile.toml'', ''...''), (''/s/house/settings.json'', ''{\"b\": 2}''),
                  (''/w/.claude/settings.json'', ''{\"a\": 1}'')] p of Some t \<Rightarrow> Inr t | None \<Rightarrow> Inl (Missing ''gone'')),
      pa_bytes = (\<lambda>h p. Inr ''{\"a\": 1}''), pa_mkdirs = (\<lambda>h p. None), pa_write = (\<lambda>h p x. None),
      pa_git = (\<lambda>h r a. Inr (True, [], [])), pa_now = (\<lambda>h. (5, 7))\<rparr>"

definition demo_prof_env :: prof_env where
  "demo_prof_env =
     \<lparr>pe_answers = demo_answers,
      pe_params = \<lparr>pp_name = (\<lambda>v. Inl []), pp_fragment = (\<lambda>v. Inl []), pp_content = (\<lambda>v. Inl []),
        pp_target = (\<lambda>v. Inr (''house'', ''/w'', None)), pp_remote = (\<lambda>v. Inl [])\<rparr>,
      pe_json = demo_json,
      pe_toml = (\<lambda>t. Inr \<lparr>pf_name = ''house'', pf_fragments = fragments_default\<lparr>fg_settings := True\<rparr>\<rparr>),
      pe_toml_text = (\<lambda>p. Inr []), pe_lower = (\<lambda>t. t), pe_store = ''/s''\<rparr>"

definition demo_before :: "pcall list" where
  "demo_before =
     [PIsFile ''/s/house/profile.toml'', PReadText ''/s/house/profile.toml'', PIsDir ''/w'',
      PReadText ''/s/house/settings.json'', PReadText ''/w/.claude/settings.json'', PClock,
      PMkdirs ''/w/.willie-bak/5000000007/.claude'', PReadBytes ''/w/.claude/settings.json'',
      PWrite ''/w/.willie-bak/5000000007/.claude/settings.json'' ''{\"a\": 1}'', PMkdirs ''/w/.claude'']"

definition demo_change :: change where
  "demo_change = \<lparr>ch_path = ''.claude/settings.json'', ch_kind = ChMerge, ch_after = ''{\"a\": 1, \"b\": 2}'' @ [CHR 0x0A]\<rparr>"

lemma demo_run:
  "apply_to_project demo_prof_env JNull [] =
     (Inr (JObject [(''changes'', JArray [change_json demo_change]), (''backup_path'', JString ''/w/.willie-bak/5000000007'')]),
      [] @ demo_before @ PWrite ''/w/.claude/settings.json'' (ch_after demo_change) # [])"
  by code_simp

lemma demo_listed:
  "pe_toml demo_prof_env t = Inr p \<Longrightarrow> list_all is_safe_file_name (fg_rules (pf_fragments p) @ fg_hooks (pf_fragments p))"
  by (auto simp: demo_prof_env_def fragments_default_def)

lemma demo_absolute:
  "pp_target (pe_params demo_prof_env) v = Inr (name, ws, Some path) \<Longrightarrow> starts_with path ''/''"
  by (simp add: demo_prof_env_def)



end
