(* ===== verification/Usage.thy ===== *)
theory Usage
  imports Profiles
begin

text \<open>
  The usage plugin (\<^verbatim>\<open>crates/willie-plugins/usage/src/lib.rs\<close>, \<^verbatim>\<open>read.rs\<close>): what a harness's own log says of
  a session's tokens, and the sums per project. The files are what reading them gives; a file or a listing
  that cannot be read is no answer. Counters are 64-bit words.

  Shown: a project's total is the true sum of its sessions' tokens, held at the largest counter, and
  exactly the projects of the sessions have one; a context window is never shown fuller than full.
\<close>

section \<open>Reading a log\<close>

type_synonym u64 = "64 word"

record session_reading =
  rd_tokens :: u64
  rd_context_pct :: "nat option"

record token_counts =
  tc_input :: u64
  tc_cache_creation :: u64
  tc_cache_read :: u64
  tc_output :: u64
  tc_model :: "string option"

fun as_u64 :: "json \<Rightarrow> u64 option" where
  "as_u64 (JNumber t) = map_option of_nat (parse_u64 t)"
| "as_u64 _ = None"

fun as_bool :: "json \<Rightarrow> bool option" where
  "as_bool (JBool b) = Some b"
| "as_bool _ = None"

definition or_else :: "'a option \<Rightarrow> 'a option \<Rightarrow> 'a option" where
  "or_else a b = (case a of Some x \<Rightarrow> Some x | None \<Rightarrow> b)"

definition unwrap_or_zero :: "u64 option \<Rightarrow> u64" where
  "unwrap_or_zero r = (case r of Some n \<Rightarrow> n | None \<Rightarrow> 0)"

text \<open>What one line says, if it says anything.\<close>

definition usage_line :: "(string \<Rightarrow> json option) \<Rightarrow> string \<Rightarrow> token_counts option" where
  "usage_line parse line =
     (let line = trim_ws line in
      if line = [] then None
      else case parse line of
        None \<Rightarrow> None
      | Some record \<Rightarrow>
          if \<not> is_object record then None
          else if Option.bind (json_get record ''isSidechain'') as_bool = Some True then None
          else
            (let message = json_get record ''message'';
                 usage = or_else (json_get record ''usage'') (Option.bind message (\<lambda>m. json_get m ''usage''))
             in case usage of
                  Some (JObject u) \<Rightarrow>
                    (let field = (\<lambda>k. unwrap_or_zero (Option.bind (map_of u k) as_u64)) in
                     Some \<lparr>tc_input = field ''input_tokens'',
                       tc_cache_creation = field ''cache_creation_input_tokens'',
                       tc_cache_read = field ''cache_read_input_tokens'',
                       tc_output = field ''output_tokens'',
                       tc_model = str_at (or_else (Option.bind message (\<lambda>m. json_get m ''model''))
                         (json_get record ''model''))\<rparr>)
                | _ \<Rightarrow> None))"

definition context_window_for :: "string option \<Rightarrow> u64 option" where
  "context_window_for model =
     (case model of Some name \<Rightarrow> if starts_with name ''claude-'' then Some 200000 else None | None \<Rightarrow> None)"

definition project_session :: "(string \<Rightarrow> json option) \<Rightarrow> string \<Rightarrow> u64 option \<Rightarrow> session_reading" where
  "project_session parse tail context_window =
     (case foldl (\<lambda>newest line. or_else (usage_line parse line) newest) None (rust_lines tail) of
        None \<Rightarrow> \<lparr>rd_tokens = 0, rd_context_pct = None\<rparr>
      | Some c \<Rightarrow>
          (let side = saturating_add (saturating_add (tc_input c) (tc_cache_creation c)) (tc_cache_read c);
               window = or_else (context_window_for (tc_model c)) context_window
           in \<lparr>rd_tokens = saturating_add side (tc_output c),
               rd_context_pct =
                 (case window of
                    Some w \<Rightarrow> if 0 < w then Some (min (unat side * 100 div unat w) 100) else None
                  | None \<Rightarrow> None)\<rparr>))"

definition pick_log :: "(string \<times> nat) list \<Rightarrow> nat \<times> nat \<Rightarrow> string option" where
  "pick_log listing window =
     (case window of (start, end_) \<Rightarrow>
        map_option fst (find (\<lambda>(name, time). start \<le> time \<and> time \<le> end_) listing))"

section \<open>The files\<close>

text \<open>A directory's entries with their name, if it is text, and the seconds of their modification time; a
  file that was opened with its length, whether the seek succeeded, and its content.\<close>

record tail_answer =
  ta_len :: "nat option"
  ta_seek :: bool
  ta_content :: "string option"

record usage_reads =
  ur_entries :: "string \<Rightarrow> (string option \<times> nat option) list option"
  ur_open :: "string \<Rightarrow> tail_answer option"
  ur_parse :: "string \<Rightarrow> json option"
  ur_lossy :: "string \<Rightarrow> string"
  ur_now :: nat

definition TAIL_BYTES :: nat where "TAIL_BYTES = 64 * 1024"

definition list_jsonl :: "usage_reads \<Rightarrow> string \<Rightarrow> (string \<times> nat) list" where
  "list_jsonl ur dir =
     (case ur_entries ur dir of
        None \<Rightarrow> []
      | Some es \<Rightarrow>
          List.map_filter (\<lambda>(name, mtime). Option.bind name (\<lambda>n.
            if extension n = Some ''jsonl'' then Some (n, case mtime of Some t \<Rightarrow> t | None \<Rightarrow> 0) else None)) es)"

definition read_tail :: "usage_reads \<Rightarrow> string \<Rightarrow> nat \<Rightarrow> string" where
  "read_tail ur path max_bytes =
     (case ur_open ur path of
        None \<Rightarrow> []
      | Some f \<Rightarrow>
          (let len = (case ta_len f of Some n \<Rightarrow> n | None \<Rightarrow> 0) in
           if \<not> ta_seek f then []
           else case ta_content f of
             None \<Rightarrow> []
           | Some bytes \<Rightarrow> ur_lossy ur (drop (len - max_bytes) bytes)))"

definition resolve_harness :: "string \<Rightarrow> harness option" where
  "resolve_harness home = find (\<lambda>h. h_session_logs_dir h home \<noteq> None) Harness.registry"

definition read_session :: "usage_reads \<Rightarrow> string \<Rightarrow> string \<Rightarrow> nat \<times> nat \<Rightarrow> session_reading" where
  "read_session ur home workspace window =
     (let no_data = \<lparr>rd_tokens = 0, rd_context_pct = None\<rparr> in
      case Option.bind (resolve_harness home) (\<lambda>h. h_session_logs_dir h home) of
        None \<Rightarrow> no_data
      | Some projects_dir \<Rightarrow>
          (let logdir = path_join projects_dir (escape_workspace workspace) in
           case pick_log (list_jsonl ur logdir) window of
             None \<Rightarrow> no_data
           | Some name \<Rightarrow> project_session (ur_parse ur) (read_tail ur (path_join logdir name) TAIL_BYTES) None))"

section \<open>The snapshot\<close>

record session_param =
  sx_id :: session_id
  sx_project :: project_id
  sx_workspace :: string
  sx_window :: "nat \<times> nat option"

record session_usage =
  su_session :: session_id
  su_tokens :: u64
  su_context_pct :: "nat option"

definition session_read :: "usage_reads \<Rightarrow> string \<Rightarrow> session_param \<Rightarrow> session_reading" where
  "session_read ur home p =
     read_session ur home (sx_workspace p)
       (fst (sx_window p), case snd (sx_window p) of Some e \<Rightarrow> e | None \<Rightarrow> ur_now ur)"

fun usage_loop ::
  "usage_reads \<Rightarrow> string \<Rightarrow> session_param list \<Rightarrow> session_usage list \<Rightarrow> (project_id, u64) btree \<Rightarrow>
     session_usage list \<times> (project_id, u64) btree" where
  "usage_loop ur home [] usages totals = (usages, totals)"
| "usage_loop ur home (p # ps) usages totals =
     (let reading = session_read ur home p;
          entry = unwrap_or_zero (bt_get totals (sx_project p))
      in usage_loop ur home ps
           (usages @ [\<lparr>su_session = sx_id p, su_tokens = rd_tokens reading, su_context_pct = rd_context_pct reading\<rparr>])
           (bt_insert (sx_project p) (saturating_add entry (rd_tokens reading)) totals))"

record usage_env =
  ue_params :: "json \<Rightarrow> (string \<times> session_param list) option"
  ue_session_text :: "session_id \<Rightarrow> string"
  ue_project_text :: "project_id \<Rightarrow> string"

definition session_usage_json :: "usage_env \<Rightarrow> session_usage \<Rightarrow> json" where
  "session_usage_json ue u =
     JObject ([(''id'', JString (ue_session_text ue (su_session u))), (''tokens'', JNumber (nat_text (unat (su_tokens u))))]
       @ (case su_context_pct u of Some n \<Rightarrow> [(''context_pct'', JNumber (nat_text n))] | None \<Rightarrow> []))"

definition usage_snapshot :: "usage_env \<Rightarrow> usage_reads \<Rightarrow> json \<Rightarrow> json" where
  "usage_snapshot ue ur v =
     (case (case ue_params ue v of Some p \<Rightarrow> p | None \<Rightarrow> ([], [])) of (home, sessions) \<Rightarrow>
      case usage_loop ur home sessions [] [] of (usages, totals) \<Rightarrow>
        JObject [(''providers'', JArray []),
          (''sessions'', JArray (map (session_usage_json ue) usages)),
          (''projects'', JArray (map (\<lambda>(i, n). JObject [(''id'', JString (ue_project_text ue i)),
             (''tokens'', JNumber (nat_text (unat n)))]) totals)),
          (''fetched_at'', JString (nat_text (ur_now ur)))])"

text \<open>The plugin keeps nothing; what it reads depends on the moment, here on the host's world. Its signals on
  a session's start and exit are dropped by the host.\<close>

definition usage_plugin :: "usage_env \<Rightarrow> ('w \<Rightarrow> usage_reads) \<Rightarrow> 'w plugin" where
  "usage_plugin ue reads =
     \<lparr>pl_id = ''usage'', pl_name = ''Usage, cost and context'', pl_scope = ScopeGlobal,
      pl_on_enable = (\<lambda>w. (Returns (Inr ()), w)), pl_on_disable = (\<lambda>w. (Returns (Inr ()), w)),
      pl_handle = (\<lambda>m v w.
        (Returns (if m = ''usage.snapshot'' then Inr (usage_snapshot ue (reads w) v)
                  else Inl (BadRequest (''unknown method '' @ quoted m))), w)),
      pl_on_event = (\<lambda>ev w. (Returns (Inr ()), w))\<rparr>"

definition plugin_registry :: "prof_env \<Rightarrow> usage_env \<Rightarrow> (phist \<Rightarrow> usage_reads) \<Rightarrow> phist plugin list" where
  "plugin_registry pe ue reads = [profiles_plugin pe, usage_plugin ue reads]"

section \<open>Totals\<close>

definition held :: "nat \<Rightarrow> nat" where
  "held n = min n (2 ^ 64 - 1)"

lemma held_add: "held (held a + b) = held (a + b)"
  by (simp add: held_def)

definition spent :: "usage_reads \<Rightarrow> string \<Rightarrow> session_param list \<Rightarrow> project_id \<Rightarrow> nat" where
  "spent ur home ps i = sum_list (map (\<lambda>p. unat (rd_tokens (session_read ur home p))) (filter (\<lambda>p. sx_project p = i) ps))"

lemma usage_loop_totals:
  "bt_ok totals \<Longrightarrow> usage_loop ur home ps us totals = (us', totals') \<Longrightarrow>
   bt_ok totals' \<and>
   map_option unat (bt_get totals' i) =
     (if bt_get totals i = None \<and> i \<notin> sx_project ` set ps then None
      else Some (held (unat (unwrap_or_zero (bt_get totals i)) + spent ur home ps i)))"
proof (induction ps arbitrary: us totals)
  case Nil
  have "unat x = held (unat x)" for x :: u64
  proof -
    have "unat x < 2 ^ LENGTH(64)" by (rule unsigned_less)
    then show ?thesis by (simp add: held_def)
  qed
  with Nil show ?case by (cases "bt_get totals i") (auto simp: spent_def unwrap_or_zero_def)
next
  case (Cons p ps)
  let ?x = "rd_tokens (session_read ur home p)" and ?e = "unwrap_or_zero (bt_get totals (sx_project p))"
  let ?totals = "bt_insert (sx_project p) (saturating_add ?e ?x) totals"
  have ok: "bt_ok ?totals" using Cons.prems(1) by (rule bt_ok_insert)
  have sum: "unat (saturating_add ?e ?x) = held (unat ?e + unat ?x)"
    by (simp add: unat_saturating_add held_def)
  have ih: "bt_ok totals' \<and> map_option unat (bt_get totals' i) =
      (if bt_get ?totals i = None \<and> i \<notin> sx_project ` set ps then None
       else Some (held (unat (unwrap_or_zero (bt_get ?totals i)) + spent ur home ps i)))"
    using Cons.IH [OF ok] Cons.prems(2) by (simp add: Let_def)
  show ?case
  proof (cases "sx_project p = i")
    case True
    then have "spent ur home (p # ps) i = unat ?x + spent ur home ps i" by (simp add: spent_def)
    with ih sum True show ?thesis
      by (simp add: bt_get_insert unwrap_or_zero_def [of "Some _"] held_add add.assoc)
  next
    case False
    then have "spent ur home (p # ps) i = spent ur home ps i" by (simp add: spent_def)
    with ih False show ?thesis by (simp add: bt_get_insert)
  qed
qed

lemma usage_loop_usages:
  "usage_loop ur home ps us totals = (us', totals') \<Longrightarrow>
   us' = us @ map (\<lambda>p. \<lparr>su_session = sx_id p, su_tokens = rd_tokens (session_read ur home p),
     su_context_pct = rd_context_pct (session_read ur home p)\<rparr>) ps"
proof (induction ps arbitrary: us totals)
  case (Cons p ps)
  from Cons.prems show ?case by (simp add: Let_def) (drule Cons.IH, simp)
qed simp

lemma context_pct_bound: "rd_context_pct (session_read ur home p) = Some n \<Longrightarrow> n \<le> 100"
  by (auto simp: session_read_def read_session_def project_session_def Let_def
      split: option.splits if_splits prod.splits)

text \<open>(C38) The snapshot lists the sessions in the order they were given. A project has a total exactly when
  one of them is its session, and it is the sum of its sessions' tokens, held at the largest 64-bit counter
  instead of wrapping around. No context window is shown more than full.\<close>
theorem usage_totals:
  "case usage_loop ur home ps [] [] of (usages, totals) \<Rightarrow>
     map su_session usages = map sx_id ps
     \<and> (\<forall>i. map_option unat (bt_get totals i) =
          (if i \<in> sx_project ` set ps then Some (min (spent ur home ps i) 18446744073709551615) else None))
     \<and> bt_ok totals \<and> (\<nexists>u n. u \<in> set usages \<and> su_context_pct u = Some n \<and> 100 < n)"
proof (cases "usage_loop ur home ps [] []")
  case (Pair usages totals)
  have t: "bt_ok totals \<and> map_option unat (bt_get totals i) =
      (if i \<notin> sx_project ` set ps then None else Some (held (spent ur home ps i)))" for i
    using usage_loop_totals [OF _ Pair, of i] by (auto simp: unwrap_or_zero_def)
  have u: "usages = map (\<lambda>p. \<lparr>su_session = sx_id p, su_tokens = rd_tokens (session_read ur home p),
     su_context_pct = rd_context_pct (session_read ur home p)\<rparr>) ps"
    using usage_loop_usages [OF Pair] by simp
  have "(\<nexists>x n. x \<in> set usages \<and> su_context_pct x = Some n \<and> 100 < n)"
    using context_pct_bound by (fastforce simp: u)
  moreover have "map su_session usages = map sx_id ps" by (simp add: u comp_def)
  ultimately show ?thesis using Pair t by (auto simp: held_def)
qed

end
