(* ===== verification/Tools.thy ===== *)
theory Tools
  imports Session_Ops
begin

text \<open>
  The managed tools (\<^verbatim>\<open>crates/willied/src/tools.rs\<close>), the manifest of what the daemon installed
  (\<^verbatim>\<open>manifest.rs\<close>), the doctor's line for the harness (\<^verbatim>\<open>harness.rs\<close>) and the requests of \<open>Ops\<close>
  that reach them. The installer is a call; its work is the job of a project-less thread of the runner.

  Shown: a tool job is started only for a known tool in the right state and while no other runs; the
  manifest is written only after an installer that succeeded, with the version found then, and keeps every
  other tool's record.
\<close>

section \<open>The manifest\<close>

type_synonym manifest = "(string, tool_record) btree"

definition manifest_load :: "sess_answers \<Rightarrow> sess \<Rightarrow> manifest \<times> sess" where
  "manifest_load an = ask SLoadTools (\<lambda>h. unwrap_or (sa_tools an h) [])"

text \<open>A failed write is only logged.\<close>

definition manifest_record :: "sess_answers \<Rightarrow> string \<Rightarrow> tool_record \<Rightarrow> sess \<Rightarrow> sess" where
  "manifest_record an i rec s =
     (case manifest_load an s of (known, s) \<Rightarrow> tell (SWriteTools (bt_insert i rec known)) s)"

section \<open>The installer\<close>

definition installer_command :: "sess_env \<Rightarrow> string" where
  "installer_command env = unwrap_or (se_var env ''WILLIE_HARNESS_INSTALLER'') (h_installer claude_code)"

definition tool_detect :: "sess_env \<Rightarrow> harness \<Rightarrow> sess \<Rightarrow> string option \<times> sess" where
  "tool_detect env h s = (case detect_claude env s of (found, s) \<Rightarrow> (map_option in_version found, s))"

definition tool_find :: "string \<Rightarrow> harness option" where
  "tool_find i = find (\<lambda>h. h_id h = i) registry"

definition tool_display_name :: "string \<Rightarrow> string" where
  "tool_display_name i = (if i = ''claude-code'' then ''Claude Code'' else i)"

definition run_installer :: "sess_env \<Rightarrow> string \<Rightarrow> sess \<Rightarrow> job_outcome \<times> sess" where
  "run_installer env command s =
     (case ask (SInstall command) (\<lambda>h. sa_install (se_answers env) h command) s of (answer, s) \<Rightarrow>
        (case answer of
           Inl e \<Rightarrow> Inl (''install_failed'', e, Session.remediation_for ''install_failed'')
         | Inr (ok, out, err) \<Rightarrow>
             if ok then Inr out else Inl (''install_failed'', err, Session.remediation_for ''install_failed''), s))"

definition run_installer_and_record :: "sess_env \<Rightarrow> string \<Rightarrow> string \<Rightarrow> sess \<Rightarrow> job_outcome \<times> sess" where
  "run_installer_and_record env command i s =
     andthen (run_installer env command s) (\<lambda>log s.
     case (case tool_find i of None \<Rightarrow> (None, s) | Some h \<Rightarrow> tool_detect env h s) of
       (None, s) \<Rightarrow> (Inr log, s)
     | (Some version, s) \<Rightarrow>
         (Inr log, manifest_record (se_answers env) i
            \<lparr>tr_version = version, tr_installed_at = sa_now (se_answers env) (ss_calls s),
             tr_installer = command\<rparr> s))"

text \<open>The thread of a tool job, once it has its slot.\<close>

definition on_runner :: "(runner \<Rightarrow> runner) \<Rightarrow> sess \<Rightarrow> sess" where
  "on_runner f s = s\<lparr>ss_ops := (ss_ops s)\<lparr>op_runner := f (op_runner (ss_ops s))\<rparr>\<rparr>"

definition run_tool_job :: "sess_env \<Rightarrow> job_thread \<Rightarrow> sess \<Rightarrow> sess" where
  "run_tool_job env t s =
     (case run_installer_and_record env (installer_command env) (h_id claude_code) s of (outcome, s) \<Rightarrow>
        on_runner (\<lambda>r. set_phase (jt_id t) (Ending outcome) (cleanup t r)) s)"

section \<open>Requests\<close>

definition unknown_tool :: "string \<Rightarrow> string \<Rightarrow> op_error" where
  "unknown_tool message hint = \<lparr>oe_code = ''invalid_params'', oe_message = message, oe_remediation = hint\<rparr>"

definition submit_tool :: "job_kind \<Rightarrow> fresh \<Rightarrow> sess \<Rightarrow> (op_error + job_id) \<times> sess" where
  "submit_tool kd fr s =
     (case submit_global (fr_job fr) kd (fr_now fr) (op_runner (ss_ops s)) of (answer, r) \<Rightarrow>
        (case answer of
           Inl () \<Rightarrow> Inl (coded ''tool_busy'' ''a tool job is already running'')
         | Inr j \<Rightarrow> Inr j, on_runner (\<lambda>_. r) s))"

definition install_tool :: "sess_env \<Rightarrow> fresh \<Rightarrow> string \<Rightarrow> sess \<Rightarrow> (op_error + job_id) \<times> sess" where
  "install_tool env fr name s =
     andthen (ensure_that (name = h_id claude_code)
                (unknown_tool ''unknown harness'' ''call tool.list for the ids this build can install'') s) (\<lambda>_ s.
     case detect_claude env s of (found, s) \<Rightarrow>
     andthen (ensure_that (found = None)
                (coded ''harness_already_installed'' ''Claude Code is already installed'') s) (\<lambda>_ s.
     submit_tool JobInstallHarness fr s))"

definition update_tool :: "sess_env \<Rightarrow> fresh \<Rightarrow> string \<Rightarrow> sess \<Rightarrow> (op_error + job_id) \<times> sess" where
  "update_tool env fr i s =
     andthen (ensure_that (i = h_id claude_code)
                (unknown_tool ''unknown tool'' ''call tool.list for the ids this build manages'') s) (\<lambda>_ s.
     case detect_claude env s of (found, s) \<Rightarrow>
     andthen (ensure_that (found \<noteq> None) (coded ''tool_not_installed'' ''the tool is not installed'') s) (\<lambda>_ s.
     submit_tool JobUpdateHarness fr s))"

record tool_status =
  ts_id :: string
  ts_name :: string
  ts_installed :: bool
  ts_version :: "string option"
  ts_recorded_version :: "string option"

fun tool_statuses :: "sess_env \<Rightarrow> manifest \<Rightarrow> harness list \<Rightarrow> sess \<Rightarrow> tool_status list \<times> sess" where
  "tool_statuses env recorded [] s = ([], s)"
| "tool_statuses env recorded (h # hs) s =
     (case tool_detect env h s of (version, s) \<Rightarrow>
      case tool_statuses env recorded hs s of (rest, s) \<Rightarrow>
        (\<lparr>ts_id = h_id h, ts_name = tool_display_name (h_id h), ts_installed = version \<noteq> None,
          ts_version = version, ts_recorded_version = map_option tr_version (bt_get recorded (h_id h))\<rparr> # rest, s))"

definition list_tools :: "sess_env \<Rightarrow> sess \<Rightarrow> tool_status list \<times> sess" where
  "list_tools env s =
     (case manifest_load (se_answers env) s of (recorded, s) \<Rightarrow> tool_statuses env recorded registry s)"

datatype check_status = CheckOk | CheckWarn | CheckFail

record doctor_check =
  dc_name :: string
  dc_status :: check_status
  dc_detail :: string
  dc_remediation :: "string option"
  dc_required :: bool

definition harness_doctor_check :: "sess_env \<Rightarrow> sess \<Rightarrow> doctor_check \<times> sess" where
  "harness_doctor_check env s =
     (case detect_claude env s of (found, s) \<Rightarrow>
        (case found of
           Some f \<Rightarrow>
             \<lparr>dc_name = ''Claude Code'', dc_status = CheckOk, dc_detail = in_version f, dc_remediation = None,
              dc_required = False\<rparr>
         | None \<Rightarrow>
             \<lparr>dc_name = ''Claude Code'', dc_status = CheckFail, dc_detail = ''not installed'',
              dc_remediation =
                Some ''install it from the Dashboard, or run the official installer inside the distribution'',
              dc_required = False\<rparr>, s))"

section \<open>What the requests do\<close>

lemma detect_ops: "ss_ops (snd (detect_claude env s)) = ss_ops s"
  by (simp add: detect_claude_def ask_def)

lemma detect_state:
  "ss_watches (snd (detect_claude env s)) = ss_watches s" "ss_untitled (snd (detect_claude env s)) = ss_untitled s"
  "ss_calls (snd (detect_claude env s)) = ss_calls s @ [SDetect]"
  by (simp_all add: detect_claude_def ask_def)

lemma submit_tool_cases:
  "submit_tool kd fr s =
     (if rn_tool_busy (op_runner (ss_ops s)) then (Inl (coded ''tool_busy'' ''a tool job is already running''), s)
      else (Inr (fr_job fr), on_runner (\<lambda>r. spawn_job (fr_job fr) kd None (fr_now fr) (r\<lparr>rn_tool_busy := True\<rparr>)) s))"
  by (simp add: submit_tool_def submit_global_def on_runner_def case_unit_Unity)

lemma install_tool_cases:
  "install_tool env fr name s =
     (if name \<noteq> h_id claude_code then
        (Inl (unknown_tool ''unknown harness'' ''call tool.list for the ids this build can install''), s)
      else case detect_claude env s of (found, s1) \<Rightarrow>
        if found \<noteq> None then (Inl (coded ''harness_already_installed'' ''Claude Code is already installed''), s1)
        else submit_tool JobInstallHarness fr s1)"
  by (simp add: install_tool_def andthen_def ensure_that_def split: prod.split)

lemma update_tool_cases:
  "update_tool env fr name s =
     (if name \<noteq> h_id claude_code then
        (Inl (unknown_tool ''unknown tool'' ''call tool.list for the ids this build manages''), s)
      else case detect_claude env s of (found, s1) \<Rightarrow>
        if found = None then (Inl (coded ''tool_not_installed'' ''the tool is not installed''), s1)
        else submit_tool JobUpdateHarness fr s1)"
  by (simp add: update_tool_def andthen_def ensure_that_def split: prod.split)

text \<open>Running a tool job: it succeeds exactly when its installer does, whatever becomes of the record;
  the manifest is written at most once, only after an installer that succeeded and a detection that found
  the tool, with the version found and the command that ran, and every other tool keeps the record that was
  loaded just before.\<close>
theorem tool_job_records:
  "case run_installer_and_record env command i s of (outcome, s') \<Rightarrow>
     ss_ops s' = ss_ops s \<and>
     (\<exists>cs. ss_calls s' = ss_calls s @ SInstall command # cs \<and>
       (case sa_install (se_answers env) (ss_calls s) command of
          Inr (True, out, err) \<Rightarrow>
            outcome = Inr out \<and>
            (cs = [] \<or> cs = [SDetect] \<or>
             (\<exists>known rec. cs = [SDetect, SLoadTools, SWriteTools known] \<and> bt_get known i = Some rec
                \<and> tr_installer rec = command
                \<and> Some (tr_version rec) = map_option in_version (fst (detect_claude env (tell (SInstall command) s)))
                \<and> known = bt_insert i rec (unwrap_or (sa_tools (se_answers env)
                     (ss_calls s @ [SInstall command, SDetect])) [])))
        | r \<Rightarrow> cs = [] \<and> (\<exists>m. outcome = Inl (''install_failed'', m, Session.remediation_for ''install_failed''))))"
proof -
  obtain r s1 where run: "run_installer env command s = (r, s1)" by fastforce
  then have s1: "s1 = tell (SInstall command) s"
    and r: "r = (case sa_install (se_answers env) (ss_calls s) command of
      Inl e \<Rightarrow> Inl (''install_failed'', e, Session.remediation_for ''install_failed'')
    | Inr (ok, out, err) \<Rightarrow>
        if ok then Inr out else Inl (''install_failed'', err, Session.remediation_for ''install_failed''))"
    by (simp_all only: run_installer_def ask_def prod.case prod.inject tell_def)
  show ?thesis
  proof (cases r)
    case (Inl e)
    with run have "run_installer_and_record env command i s = (Inl e, s1)"
      by (simp add: run_installer_and_record_def andthen_def)
    with s1 r Inl show ?thesis
      by (auto simp: tell_def split: sum.splits if_splits)
  next
    case (Inr log)
    with r obtain err where answer: "sa_install (se_answers env) (ss_calls s) command = Inr (True, log, err)"
      by (auto split: sum.splits if_splits)
    obtain found s2 where det: "detect_claude env s1 = (found, s2)" by fastforce
    with detect_ops [of env s1] detect_state [of env s1] s1
    have s2: "ss_ops s2 = ss_ops s" "ss_calls s2 = ss_calls s @ [SInstall command, SDetect]"
      by (simp_all add: tell_def)
    consider "tool_find i = None" | h where "tool_find i = Some h" by fastforce
    then show ?thesis
    proof cases
      case 1
      with run Inr have "run_installer_and_record env command i s = (Inr log, s1)"
        by (simp add: run_installer_and_record_def andthen_def)
      with s1 answer show ?thesis by (simp add: tell_def)
    next
      case (2 h)
      show ?thesis
      proof (cases found)
        case None
        with 2 run Inr det have "run_installer_and_record env command i s = (Inr log, s2)"
          by (simp add: run_installer_and_record_def andthen_def tool_detect_def)
        with s2 answer show ?thesis by simp
      next
        case (Some f)
        let ?rec = "\<lparr>tr_version = in_version f, tr_installed_at = sa_now (se_answers env) (ss_calls s2),
           tr_installer = command\<rparr>"
        let ?known = "unwrap_or (sa_tools (se_answers env) (ss_calls s @ [SInstall command, SDetect])) []"
        from Some 2 run Inr det
        have "run_installer_and_record env command i s = (Inr log, manifest_record (se_answers env) i ?rec s2)"
          by (simp add: run_installer_and_record_def andthen_def tool_detect_def)
        moreover have "manifest_record (se_answers env) i ?rec s2 =
            s2\<lparr>ss_calls := ss_calls s @ [SInstall command, SDetect, SLoadTools, SWriteTools (bt_insert i ?rec ?known)]\<rparr>"
          using s2 by (simp add: manifest_record_def manifest_load_def ask_def tell_def)
        moreover have "bt_get (bt_insert i ?rec ?known) i = Some ?rec" by (simp add: bt_get_insert)
        moreover have "fst (detect_claude env (tell (SInstall command) s)) = Some f" using det Some s1 by simp
        ultimately show ?thesis using s2 answer by auto
      qed
    qed
  qed
qed

end
