(* ===== verification/Server.thy ===== *)
theory Server
  imports Tools Plugin_Host Workspace_Files Daemon_System Profile_Merge
begin

text \<open>
  The request loop (\<^verbatim>\<open>crates/willied/src/server.rs\<close>) and the handlers behind it (\<^verbatim>\<open>handlers.rs\<close>).
  A request is a method and a JSON value; what the derived decoders make of the value is a parameter, and
  a reply is kept as the value the handler serialises. What a request meets anew - identifiers, the time,
  the files of a workspace - is its moment. The server keeps the daemon's state, the plugin host, whether
  it is shutting down and the responses it has sent.

  Shown: whatever is received, the served daemon makes only steps of the daemon and calls of the host;
  every line is answered once, to the one who sent it, and the loop ends exactly when it should; what a
  plugin is told of projects and sessions is the daemon's, never the client's.
\<close>

section \<open>Messages\<close>

record rpc_request =
  rq_id :: u64
  rq_method :: string
  rq_params :: json

record rpc_error =
  re_code :: string
  re_message :: string
  re_remediation :: "string option"

datatype reply =
    RNull
  | RHello string nat "string option"
  | RHealth u32 u64 string
  | RDoctor "doctor_check list"
  | RAdded project_id job_id
  | RJobRef job_id
  | RProject project
  | RProjects "project list"
  | RTree "tree_entry list" "string option"
  | RFile string bool
  | RJobs "job list"
  | RJob job
  | RTools "tool_status list"
  | RSession session
  | RSessions "session list"
  | RExplained "explained list" capability_set
  | RPlugins "plugin_status list"
  | RPlugin plugin_status
  | RValue json
  | RSnapshot snapshot "plugin_status list"

record response =
  rs_id :: u64
  rs_answer :: "rpc_error + reply"

datatype origin = Stdio | Socket

text \<open>A socket line carries the connection its response goes to.\<close>

datatype inbound = Line string origin "nat option" | StdinClosed

datatype receiver = ToStdout | ToClient nat

datatype exit_reason = ExitEof | ExitShutdown

section \<open>Surroundings\<close>

record decoders =
  cd_request :: "string \<Rightarrow> string + rpc_request"
  cd_hello :: "json \<Rightarrow> string + nat"
  cd_add :: "json \<Rightarrow> string + string \<times> string option"
  cd_remove :: "json \<Rightarrow> string + project_id \<times> bool \<times> bool"
  cd_project :: "json \<Rightarrow> string + project_id"
  cd_relocate :: "json \<Rightarrow> string + project_id \<times> string"
  cd_rename :: "json \<Rightarrow> string + project_id \<times> string"
  cd_sandbox :: "json \<Rightarrow> string + project_id \<times> sandbox_profile"
  cd_tree :: "json \<Rightarrow> string + project_id \<times> string option"
  cd_file :: "json \<Rightarrow> string + project_id \<times> string"
  cd_job_id :: "json \<Rightarrow> string + job_id"
  cd_tool :: "json \<Rightarrow> string + string"
  cd_create :: "json \<Rightarrow> string + create_params"
  cd_session :: "json \<Rightarrow> string + session_id"
  cd_label :: "json \<Rightarrow> string + session_id \<times> string option"
  cd_explain :: "json \<Rightarrow> string + project_id"
  cd_enable :: "json \<Rightarrow> string + string \<times> project_id option"
  cd_project_text :: "string \<Rightarrow> string + project_id"

record server_env =
  sn_daemon :: daemon_env
  sn_decode :: decoders
  sn_image_version :: "string option"
  sn_lower :: "string \<Rightarrow> string"
  sn_lossy :: "string \<Rightarrow> string"
  sn_job_text :: "job_id \<Rightarrow> string"

abbreviation sn_ops :: "server_env \<Rightarrow> op_env" where "sn_ops env \<equiv> de_ops (sn_daemon env)"

abbreviation sn_sess :: "server_env \<Rightarrow> sess_env" where "sn_sess env \<equiv> de_sess (sn_daemon env)"

record moment =
  mo_fresh :: fresh
  mo_session :: session_id
  mo_pid :: u32
  mo_uptime :: u64
  mo_doctor :: "doctor_check list"
  mo_real_path :: "string \<Rightarrow> string + string"
  mo_entries :: "string \<Rightarrow> (string \<times> bool option) list option"
  mo_file :: "string \<Rightarrow> file_reads"

record 'w server =
  sv_sess :: sess
  sv_host :: "'w host"
  sv_shutting :: bool
  sv_sent :: "(receiver \<times> response) list"

definition server_new :: "sess \<Rightarrow> 'w host \<Rightarrow> 'w server" where
  "server_new s h = \<lparr>sv_sess = s, sv_host = h, sv_shutting = False, sv_sent = []\<rparr>"

type_synonym 'w handler = "'w server \<Rightarrow> (rpc_error + reply) \<times> 'w server"

section \<open>Errors\<close>

definition rpc_error_new :: "string \<Rightarrow> string \<Rightarrow> rpc_error" where
  "rpc_error_new code message = \<lparr>re_code = code, re_message = message, re_remediation = None\<rparr>"

definition with_remediation :: "rpc_error \<Rightarrow> string \<Rightarrow> rpc_error" where
  "with_remediation e hint = e\<lparr>re_remediation := Some hint\<rparr>"

definition invalid_params :: "string \<Rightarrow> rpc_error" where
  "invalid_params e = rpc_error_new ''invalid_params'' e"

definition op_rpc_error :: "op_error \<Rightarrow> rpc_error" where
  "op_rpc_error e = with_remediation (rpc_error_new (oe_code e) (oe_message e)) (oe_remediation e)"

definition capability_rpc_error :: "capability_error \<Rightarrow> rpc_error" where
  "capability_rpc_error e = op_rpc_error (cap_op_error e)"

definition ws_rpc_error :: "ws_error \<Rightarrow> rpc_error" where
  "ws_rpc_error e = with_remediation (rpc_error_new (ws_code e) (ws_message e)) (ws_remediation e)"

definition error_response :: "u64 \<Rightarrow> rpc_error \<Rightarrow> response" where
  "error_response i e = \<lparr>rs_id = i, rs_answer = Inl e\<rparr>"

section \<open>Reaching the state\<close>

text \<open>The sessions' signals to the plugins, in the order they were given.\<close>

definition notifications :: "sess_call list \<Rightarrow> core_event list" where
  "notifications cs = List.map_filter (\<lambda>c. case c of SNotify ev \<Rightarrow> Some ev | _ \<Rightarrow> None) cs"

definition deliver :: "sess \<Rightarrow> 'w server \<Rightarrow> 'w server" where
  "deliver s sv =
     sv\<lparr>sv_sess := s,
        sv_host := foldl (\<lambda>h ev. host_event ev h) (sv_host sv)
          (notifications (drop (length (ss_calls (sv_sess sv))) (ss_calls s)))\<rparr>"

definition with_sess :: "(sess \<Rightarrow> 'a \<times> sess) \<Rightarrow> ('a \<Rightarrow> rpc_error + reply) \<Rightarrow> 'w handler" where
  "with_sess f g sv = (case f (sv_sess sv) of (a, s) \<Rightarrow> (g a, deliver s sv))"

definition in_ops :: "(ops \<Rightarrow> 'a \<times> ops) \<Rightarrow> sess \<Rightarrow> 'a \<times> sess" where
  "in_ops f s = (case f (ss_ops s) of (a, x) \<Rightarrow> (a, s\<lparr>ss_ops := x\<rparr>))"

definition with_host :: "('w host \<Rightarrow> (op_error + 'a) \<times> 'w host) \<Rightarrow> ('a \<Rightarrow> reply) \<Rightarrow> 'w handler" where
  "with_host f g sv = (case f (sv_host sv) of (r, h) \<Rightarrow> (map_sum op_rpc_error g r, sv\<lparr>sv_host := h\<rparr>))"

text \<open>\<open>map_err(op_error)?\<close>, and the decoding of the parameters.\<close>

definition op_reply :: "('a \<Rightarrow> reply) \<Rightarrow> op_error + 'a \<Rightarrow> rpc_error + reply" where
  "op_reply g r = map_sum op_rpc_error g r"

definition decoded :: "string + 'p \<Rightarrow> ('p \<Rightarrow> 'w handler) \<Rightarrow> 'w handler" where
  "decoded r f sv = (case r of Inl e \<Rightarrow> (Inl (invalid_params e), sv) | Inr p \<Rightarrow> f p sv)"

definition sv_state :: "'w server \<Rightarrow> state" where
  "sv_state sv = ss_state (sv_sess sv)"

definition sv_project :: "server_env \<Rightarrow> project_id \<Rightarrow> 'w server \<Rightarrow> rpc_error + project" where
  "sv_project env i sv =
     (case bt_get (st_projects (sv_state sv)) i of
        Some p \<Rightarrow> Inr p
      | None \<Rightarrow> Inl (op_rpc_error (not_found_err (ev_id_text (sn_ops env)) i)))"

section \<open>Handlers\<close>

definition PROTOCOL_VERSION :: nat where "PROTOCOL_VERSION = 1"

definition hello :: "server_env \<Rightarrow> json \<Rightarrow> 'w handler" where
  "hello env v sv =
     (case cd_hello (sn_decode env) v of
        Inl e \<Rightarrow> (Inl (rpc_error_new ''invalid_params'' (''hello: '' @ e)), sv)
      | Inr n \<Rightarrow>
          if n \<noteq> PROTOCOL_VERSION then
            (Inl (with_remediation
               (rpc_error_new ''protocol_version_mismatch''
                  (''client speaks protocol '' @ nat_text n @ '', daemon speaks '' @ nat_text PROTOCOL_VERSION))
               ''update Willie so engine and daemon share a version''), sv)
          else (Inr (RHello (se_version (sn_sess env)) PROTOCOL_VERSION (sn_image_version env)), sv))"

definition health :: "server_env \<Rightarrow> moment \<Rightarrow> 'w handler" where
  "health env mo sv = (Inr (RHealth (mo_pid mo) (mo_uptime mo) (se_version (sn_sess env))), sv)"

definition doctor :: "server_env \<Rightarrow> moment \<Rightarrow> 'w handler" where
  "doctor env mo = with_sess (harness_doctor_check (sn_sess env)) (\<lambda>c. Inr (RDoctor (mo_doctor mo @ [c])))"

definition project_add :: "server_env \<Rightarrow> moment \<Rightarrow> json \<Rightarrow> 'w handler" where
  "project_add env mo v = decoded (cd_add (sn_decode env) v) (\<lambda>(path, name).
     with_sess (in_ops (op_add (sn_ops env) (mo_fresh mo) path name)) (op_reply (\<lambda>(i, j). RAdded i j)))"

definition project_remove :: "server_env \<Rightarrow> moment \<Rightarrow> json \<Rightarrow> 'w handler" where
  "project_remove env mo v = decoded (cd_remove (sn_decode env) v) (\<lambda>(i, del, force).
     with_sess (in_ops (op_remove (sn_ops env) (mo_fresh mo) i del force)) (op_reply RJobRef))"

definition project_sync :: "server_env \<Rightarrow> moment \<Rightarrow> json \<Rightarrow> 'w handler" where
  "project_sync env mo v = decoded (cd_project (sn_decode env) v) (\<lambda>i.
     with_sess (in_ops (op_sync (sn_ops env) (mo_fresh mo) i)) (op_reply RJobRef))"

definition project_update :: "server_env \<Rightarrow> moment \<Rightarrow> json \<Rightarrow> 'w handler" where
  "project_update env mo v = decoded (cd_project (sn_decode env) v) (\<lambda>i.
     with_sess (in_ops (op_update (sn_ops env) (mo_fresh mo) i)) (op_reply RJobRef))"

definition project_relocate :: "server_env \<Rightarrow> moment \<Rightarrow> json \<Rightarrow> 'w handler" where
  "project_relocate env mo v = decoded (cd_relocate (sn_decode env) v) (\<lambda>(i, path).
     with_sess (in_ops (op_relocate (sn_ops env) (mo_fresh mo) i path)) (op_reply RJobRef))"

definition project_rename :: "server_env \<Rightarrow> json \<Rightarrow> 'w handler" where
  "project_rename env v = decoded (cd_rename (sn_decode env) v) (\<lambda>(i, name).
     with_sess (in_ops (op_rename (sn_ops env) i name)) (op_reply RProject))"

definition project_set_sandbox :: "server_env \<Rightarrow> json \<Rightarrow> 'w handler" where
  "project_set_sandbox env v = decoded (cd_sandbox (sn_decode env) v) (\<lambda>(i, profile).
     with_sess (in_ops (op_set_sandbox (sn_ops env) i profile)) (op_reply RProject))"

definition project_list :: "'w handler" where
  "project_list sv = (Inr (RProjects (bt_values (st_projects (sv_state sv)))), sv)"

text \<open>The git flags are asked of git, and no repository is no flag.\<close>

definition tree_flags :: "answers \<Rightarrow> string \<Rightarrow> ops \<Rightarrow> ((string, string) btree \<times> string option) \<times> ops" where
  "tree_flags an workspace s =
     (case with_ctx (git_run an workspace [''status'', ''--porcelain=v1'', ''--untracked-files=all'']) s of
        (status, s) \<Rightarrow>
      case with_ctx (current_branch an workspace) s of (branch, s) \<Rightarrow>
        ((case status of Inr out \<Rightarrow> parse_porcelain out | Inl e \<Rightarrow> [],
          case branch of Inr b \<Rightarrow> Some b | Inl e \<Rightarrow> None), s))"

definition project_tree :: "server_env \<Rightarrow> moment \<Rightarrow> json \<Rightarrow> 'w handler" where
  "project_tree env mo v = decoded (cd_tree (sn_decode env) v) (\<lambda>(i, path) sv.
     case sv_project env i sv of
       Inl e \<Rightarrow> (Inl e, sv)
     | Inr p \<Rightarrow>
         (let rel = unwrap_or path [] in
          case resolve_within (mo_real_path mo) (pj_workspace p) rel of
            Inl e \<Rightarrow> (Inl (ws_rpc_error e), sv)
          | Inr dir \<Rightarrow>
              with_sess (in_ops (tree_flags (ev_answers (sn_ops env)) (pj_workspace p)))
                (\<lambda>(flags, branch). Inr (RTree (list_dir (sn_lower env) (mo_entries mo dir) flags rel) branch)) sv))"

definition project_read_file :: "server_env \<Rightarrow> moment \<Rightarrow> json \<Rightarrow> 'w handler" where
  "project_read_file env mo v = decoded (cd_file (sn_decode env) v) (\<lambda>(i, path) sv.
     (case sv_project env i sv of
        Inl e \<Rightarrow> Inl e
      | Inr p \<Rightarrow>
          (case resolve_within (mo_real_path mo) (pj_workspace p) path of
             Inl e \<Rightarrow> Inl (ws_rpc_error e)
           | Inr f \<Rightarrow>
               (case read_text (sn_lossy env) (mo_file mo f) of
                  Inl e \<Rightarrow> Inl (ws_rpc_error e)
                | Inr (content, truncated) \<Rightarrow> Inr (RFile content truncated))), sv))"

definition job_id_param :: "server_env \<Rightarrow> json \<Rightarrow> rpc_error + job_id" where
  "job_id_param env v =
     (case json_get v ''id'' of
        Some i \<Rightarrow> (case cd_job_id (sn_decode env) i of Inl e \<Rightarrow> Inl (invalid_params e) | Inr j \<Rightarrow> Inr j)
      | None \<Rightarrow> Inl (rpc_error_new ''invalid_params'' ''missing field `id`''))"

definition job_list :: "'w handler" where
  "job_list sv = (Inr (RJobs (bt_values (st_jobs (sv_state sv)))), sv)"

definition job_get :: "server_env \<Rightarrow> json \<Rightarrow> 'w handler" where
  "job_get env v sv =
     (case job_id_param env v of
        Inl e \<Rightarrow> Inl e
      | Inr j \<Rightarrow>
          (case bt_get (st_jobs (sv_state sv)) j of
             Some job \<Rightarrow> Inr (RJob job)
           | None \<Rightarrow> Inl (with_remediation
               (rpc_error_new ''job_not_found'' (''no job with id '' @ quoted (sn_job_text env j)))
               ''check the job id against state.snapshot'')), sv)"

definition job_cancel :: "server_env \<Rightarrow> json \<Rightarrow> 'w handler" where
  "job_cancel env v sv =
     (case job_id_param env v of
        Inl e \<Rightarrow> (Inl e, sv)
      | Inr j \<Rightarrow> with_sess (\<lambda>s. ((), on_runner (cancel_job j) s)) (\<lambda>_. Inr RNull) sv)"

definition tool_install :: "server_env \<Rightarrow> moment \<Rightarrow> json \<Rightarrow> 'w handler" where
  "tool_install env mo v = decoded (cd_tool (sn_decode env) v) (\<lambda>name.
     with_sess (install_tool (sn_sess env) (mo_fresh mo) name) (op_reply RJobRef))"

definition tool_list :: "server_env \<Rightarrow> 'w handler" where
  "tool_list env = with_sess (list_tools (sn_sess env)) (\<lambda>ts. Inr (RTools ts))"

definition tool_update :: "server_env \<Rightarrow> moment \<Rightarrow> json \<Rightarrow> 'w handler" where
  "tool_update env mo v = decoded (cd_tool (sn_decode env) v) (\<lambda>name.
     with_sess (update_tool (sn_sess env) (mo_fresh mo) name) (op_reply RJobRef))"

definition session_create :: "server_env \<Rightarrow> moment \<Rightarrow> json \<Rightarrow> 'w handler" where
  "session_create env mo v = decoded (cd_create (sn_decode env) v) (\<lambda>params.
     with_sess (create (sn_sess env) (mo_session mo) params) (op_reply RSession))"

definition session_stop :: "server_env \<Rightarrow> json \<Rightarrow> 'w handler" where
  "session_stop env v = decoded (cd_session (sn_decode env) v) (\<lambda>i.
     with_sess (stop_session (sn_sess env) i) (op_reply (\<lambda>_. RNull)))"

definition session_rename :: "server_env \<Rightarrow> json \<Rightarrow> 'w handler" where
  "session_rename env v = decoded (cd_label (sn_decode env) v) (\<lambda>(i, label).
     with_sess (rename_session (sn_sess env) i label) (op_reply RSession))"

definition session_list :: "server_env \<Rightarrow> 'w handler" where
  "session_list env = with_sess (list_sessions (sn_sess env)) (\<lambda>xs. Inr (RSessions xs))"

definition sandbox_explain :: "server_env \<Rightarrow> json \<Rightarrow> 'w handler" where
  "sandbox_explain env v = decoded (cd_explain (sn_decode env) v) (\<lambda>i sv.
     (case sv_project env i sv of
        Inl e \<Rightarrow> Inl e
      | Inr p \<Rightarrow>
          (case pj_sandbox_problem p of
             Some problem \<Rightarrow> Inl (op_rpc_error (from_problem problem))
           | None \<Rightarrow>
               (let defaults = claude_default_capabilities; home = se_home (sn_sess env) in
                case resolve defaults (pj_sandbox p) home of
                  Inl e \<Rightarrow> Inl (capability_rpc_error e)
                | Inr capabilities \<Rightarrow>
                    (case explain defaults (pj_sandbox p) home of
                       Inl e \<Rightarrow> Inl (capability_rpc_error e)
                     | Inr entries \<Rightarrow> Inr (RExplained entries capabilities)))), sv))"

definition plugin_list :: "'w handler" where
  "plugin_list sv = (Inr (RPlugins (host_list (sv_host sv))), sv)"

definition plugin_enable :: "server_env \<Rightarrow> json \<Rightarrow> 'w handler" where
  "plugin_enable env v = decoded (cd_enable (sn_decode env) v) (\<lambda>(i, project).
     with_host (set_enabled i project True) RPlugin)"

definition plugin_disable :: "server_env \<Rightarrow> json \<Rightarrow> 'w handler" where
  "plugin_disable env v = decoded (cd_enable (sn_decode env) v) (\<lambda>(i, project).
     with_host (set_enabled i project False) RPlugin)"

definition plugin_handle :: "string \<Rightarrow> json \<Rightarrow> 'w handler" where
  "plugin_handle m v = with_host (host_handle m v) RValue"

section \<open>What the daemon fills in\<close>

definition strip :: "string list \<Rightarrow> json \<Rightarrow> json" where
  "strip ks v = (case v of JObject m \<Rightarrow> JObject (filter (\<lambda>(k, x). k \<notin> set ks) m) | _ \<Rightarrow> v)"

definition inject :: "string \<Rightarrow> json \<Rightarrow> json \<Rightarrow> json" where
  "inject k x v = (case v of JObject m \<Rightarrow> JObject (put_member k x m) | _ \<Rightarrow> v)"

definition harness_settings_path :: "string \<Rightarrow> string" where
  "harness_settings_path home = path_join home ''.willie/agent-state/claude/dot-claude/settings.json''"

definition resolve_profile_targets :: "server_env \<Rightarrow> json \<Rightarrow> 'w server \<Rightarrow> rpc_error + json" where
  "resolve_profile_targets env v sv =
     (let v = strip [''_workspace'', ''_harness_settings''] v in
      case str_at (json_get v ''project_id'') of
        None \<Rightarrow> Inr v
      | Some raw \<Rightarrow>
          (case cd_project_text (sn_decode env) raw of
             Inl e \<Rightarrow> Inl (invalid_params e)
           | Inr i \<Rightarrow>
               (case sv_project env i sv of
                  Inl e \<Rightarrow> Inl e
                | Inr p \<Rightarrow>
                    Inr (inject ''_harness_settings'' (JString (harness_settings_path (se_home (sn_sess env))))
                      (inject ''_workspace'' (JString (pj_workspace p)) v)))))"

definition profile_handle :: "server_env \<Rightarrow> string \<Rightarrow> json \<Rightarrow> 'w handler" where
  "profile_handle env m v sv =
     (case resolve_profile_targets env v sv of Inl e \<Rightarrow> (Inl e, sv) | Inr v \<Rightarrow> plugin_handle m v sv)"

definition usage_target :: "server_env \<Rightarrow> session \<Rightarrow> json" where
  "usage_target env x =
     (let start = unwrap_or (parse_u64 (s_created_at x)) 0;
          finish = Option.bind (s_finished_at x) parse_u64
      in JObject [(''id'', JString (se_session_text (sn_sess env) (s_id x))),
           (''project_id'', JString (se_project_text (sn_sess env) (s_project_id x))),
           (''workspace'', JString (s_workspace x)),
           (''window'', JArray [JNumber (nat_text start),
              case finish of Some n \<Rightarrow> JNumber (nat_text n) | None \<Rightarrow> JNull])])"

definition enrich_usage_targets :: "server_env \<Rightarrow> json \<Rightarrow> 'w server \<Rightarrow> json" where
  "enrich_usage_targets env v sv =
     (let v = (if is_object v then v else JObject []);
          v = strip [''_sessions'', ''_home''] v;
          sessions = map (usage_target env)
            (filter (\<lambda>x. s_kind x = Agent) (bt_values (st_sessions (sv_state sv))))
      in inject ''_home'' (JString (se_home (sn_sess env))) (inject ''_sessions'' (JArray sessions) v))"

definition usage_handle :: "server_env \<Rightarrow> string \<Rightarrow> json \<Rightarrow> 'w handler" where
  "usage_handle env m v sv = plugin_handle m (enrich_usage_targets env v sv) sv"

definition snapshot_reply :: "server_env \<Rightarrow> 'w handler" where
  "snapshot_reply env sv =
     (let sv = snd (with_sess (\<lambda>s. ((), on_ops (op_refresh (sn_ops env)) s)) (\<lambda>_. Inr RNull) sv);
          sv = snd (with_sess (\<lambda>s. ((), title_untitled (sn_sess env) s)) (\<lambda>_. Inr RNull) sv)
      in (Inr (RSnapshot (state_snapshot (sv_state sv)) (host_list (sv_host sv))), sv))"

section \<open>Dispatch\<close>

text \<open>The arms of the dispatcher with a name of their own, in its order.\<close>

definition shutdown_reply :: "'w handler" where
  "shutdown_reply sv = (Inr RNull, sv\<lparr>sv_shutting := True\<rparr>)"

definition routes :: "server_env \<Rightarrow> moment \<Rightarrow> json \<Rightarrow> (string \<times> 'w handler) list" where
  "routes env mo v =
     [(''daemon.hello'', hello env v),
      (''daemon.health'', health env mo),
      (''daemon.doctor'', doctor env mo),
      (''daemon.shutdown'', shutdown_reply),
      (''project.add'', project_add env mo v),
      (''project.remove'', project_remove env mo v),
      (''project.sync_to_windows'', project_sync env mo v),
      (''project.update_from_windows'', project_update env mo v),
      (''project.relocate'', project_relocate env mo v),
      (''project.rename'', project_rename env v),
      (''project.set_sandbox'', project_set_sandbox env v),
      (''project.list'', project_list),
      (''project.tree'', project_tree env mo v),
      (''project.read_file'', project_read_file env mo v),
      (''job.list'', job_list),
      (''job.get'', job_get env v),
      (''job.cancel'', job_cancel env v),
      (''tool.install'', tool_install env mo v),
      (''tool.list'', tool_list env),
      (''tool.update'', tool_update env mo v),
      (''session.create'', session_create env mo v),
      (''session.stop'', session_stop env v),
      (''session.rename'', session_rename env v),
      (''session.list'', session_list env),
      (''sandbox.explain'', sandbox_explain env v),
      (''plugin.list'', plugin_list),
      (''plugin.enable'', plugin_enable env v),
      (''plugin.disable'', plugin_disable env v),
      (''state.snapshot'', snapshot_reply env)]"

definition unknown_method :: "string \<Rightarrow> rpc_error" where
  "unknown_method m =
     with_remediation (rpc_error_new ''method_not_found'' (''unknown method '' @ quoted m))
       ''see docs/PROTOCOL.md for the served methods''"

definition route :: "server_env \<Rightarrow> moment \<Rightarrow> string \<Rightarrow> json \<Rightarrow> 'w handler" where
  "route env mo m v sv =
     (case map_of (routes env mo v) m of
        Some h \<Rightarrow> h sv
      | None \<Rightarrow>
          if starts_with m ''usage.'' then usage_handle env m v sv
          else if starts_with m ''profile.'' then profile_handle env m v sv
          else (Inl (unknown_method m), sv))"

definition dispatch :: "server_env \<Rightarrow> moment \<Rightarrow> rpc_request \<Rightarrow> 'w server \<Rightarrow> response \<times> 'w server" where
  "dispatch env mo rq sv =
     (case route env mo (rq_method rq) (rq_params rq) sv of (r, sv) \<Rightarrow>
        (\<lparr>rs_id = rq_id rq, rs_answer = r\<rparr>, sv))"

definition not_served :: rpc_error where
  "not_served =
     with_remediation
       (rpc_error_new ''method_not_served''
          ''`daemon.shutdown` is the engine's; the daemon stops with the app'')
       ''restart the daemon from the Dashboard''"

definition dispatch_from ::
  "server_env \<Rightarrow> moment \<Rightarrow> origin \<Rightarrow> rpc_request \<Rightarrow> 'w server \<Rightarrow> response \<times> 'w server" where
  "dispatch_from env mo origin rq sv =
     (if origin = Socket \<and> rq_method rq = ''daemon.shutdown'' then (error_response (rq_id rq) not_served, sv)
      else dispatch env mo rq sv)"

section \<open>The loop\<close>

fun receiver_of :: "origin \<Rightarrow> nat option \<Rightarrow> receiver option" where
  "receiver_of Stdio c = Some ToStdout"
| "receiver_of Socket c = map_option ToClient c"

definition send :: "origin \<Rightarrow> nat option \<Rightarrow> response \<Rightarrow> 'w server \<Rightarrow> 'w server" where
  "send origin c rs sv =
     (case receiver_of origin c of Some to \<Rightarrow> sv\<lparr>sv_sent := sv_sent sv @ [(to, rs)]\<rparr> | None \<Rightarrow> sv)"

definition malformed :: "string \<Rightarrow> rpc_error" where
  "malformed e = rpc_error_new ''invalid_request'' (''not a JSON-RPC request: '' @ e)"

fun serve_one :: "server_env \<Rightarrow> moment \<Rightarrow> inbound \<Rightarrow> 'w server \<Rightarrow> exit_reason option \<times> 'w server" where
  "serve_one env mo StdinClosed sv = (Some ExitEof, sv)"
| "serve_one env mo (Line line origin c) sv =
     (if trim_ws line = [] then (None, sv)
      else
        (case (case cd_request (sn_decode env) line of
                 Inr rq \<Rightarrow> dispatch_from env mo origin rq sv
               | Inl e \<Rightarrow> (error_response 0 (malformed e), sv)) of
           (rs, sv) \<Rightarrow> (if sv_shutting sv then Some ExitShutdown else None, send origin c rs sv)))"

fun serve_inbound :: "server_env \<Rightarrow> (moment \<times> inbound) list \<Rightarrow> 'w server \<Rightarrow> exit_reason \<times> 'w server" where
  "serve_inbound env [] sv = (ExitEof, sv)"
| "serve_inbound env ((mo, msg) # ms) sv =
     (case serve_one env mo msg sv of
        (Some reason, sv) \<Rightarrow> (reason, sv)
      | (None, sv) \<Rightarrow> serve_inbound env ms sv)"

text \<open>After the loop.\<close>

definition server_shutdown :: "'w server \<Rightarrow> 'w server" where
  "server_shutdown sv = deliver (on_runner shutdown_jobs (sv_sess sv)) sv"

end
