(* ===== verification/Server_Guard.thy ===== *)
theory Server_Guard
  imports Server
begin

text \<open>
  What the request loop guarantees: it refines the daemon's steps and the host's calls, it answers every
  line once, and it decides itself what a plugin is told of projects and sessions.
\<close>

section \<open>What a message does to the daemon and to the host\<close>

definition serves :: "server_env \<Rightarrow> 'w server \<Rightarrow> 'w server \<Rightarrow> bool" where
  "serves env sv sv' \<longleftrightarrow>
     (daemon_step (sn_daemon env))\<^sup>*\<^sup>* (sv_sess sv) (sv_sess sv')
     \<and> (\<exists>calls. sv_host sv' = foldl host_step (sv_host sv) calls)"

named_theorems serving

lemma serves_refl [serving]: "serves env sv sv"
  by (simp add: serves_def exI [of _ "[]"])

lemma serves_trans: "serves env sv sv1 \<Longrightarrow> serves env sv1 sv2 \<Longrightarrow> serves env sv sv2"
proof -
  assume a: "serves env sv sv1" "serves env sv1 sv2"
  then obtain c1 c2 where "sv_host sv1 = foldl host_step (sv_host sv) c1" "sv_host sv2 = foldl host_step (sv_host sv1) c2"
    unfolding serves_def by blast
  then have "sv_host sv2 = foldl host_step (sv_host sv) (c1 @ c2)" by simp
  moreover have "(daemon_step (sn_daemon env))\<^sup>*\<^sup>* (sv_sess sv) (sv_sess sv2)"
    using a rtranclp_trans unfolding serves_def by fastforce
  ultimately show ?thesis unfolding serves_def by blast
qed

lemma serves_same:
  "sv_sess sv' = sv_sess sv \<Longrightarrow> sv_host sv' = sv_host sv \<Longrightarrow> serves env sv sv'"
  by (simp add: serves_def exI [of _ "[]"])

lemma events_are_calls: "foldl (\<lambda>h ev. host_event ev h) h evs = foldl host_step h (map CallEvent evs)"
  by (induction evs arbitrary: h) simp_all

lemma serves_deliver:
  "(daemon_step (sn_daemon env))\<^sup>*\<^sup>* (sv_sess sv) s \<Longrightarrow> serves env sv (deliver s sv)"
  unfolding serves_def deliver_def by (auto simp: events_are_calls)

lemma serves_with_sess:
  "(daemon_step (sn_daemon env))\<^sup>*\<^sup>* (sv_sess sv) (snd (f (sv_sess sv))) \<Longrightarrow>
   serves env sv (snd (with_sess f g sv))"
  by (simp add: with_sess_def serves_deliver case_prod_unfold)

lemma serves_one_step [serving]:
  "daemon_step (sn_daemon env) (sv_sess sv) (snd (f (sv_sess sv))) \<Longrightarrow>
   serves env sv (snd (with_sess f g sv))"
  by (blast intro: serves_with_sess)

lemma serves_with_host:
  "snd (f (sv_host sv)) = host_step (sv_host sv) c \<Longrightarrow> serves env sv (snd (with_host f g sv))"
  unfolding serves_def with_host_def
  by (auto split: prod.split intro: exI [of _ "[c]"])

lemma serves_decoded [serving]:
  "(\<And>p. serves env sv (snd (f p sv))) \<Longrightarrow> serves env sv (snd (decoded r f sv))"
  by (simp add: decoded_def serves_refl split: sum.split)

definition moment_fresh :: "moment \<Rightarrow> sess \<Rightarrow> bool" where
  "moment_fresh mo s \<longleftrightarrow>
     is_fresh (mo_fresh mo) (ss_ops s) \<and> bt_get (st_jobs (ss_state s)) (fr_job (mo_fresh mo)) = None
     \<and> ss_get s (mo_session mo) = None"

lemma request_step:
  assumes "is_fresh fr (ss_ops s)" and "snd (f (ss_ops s)) = serve (de_ops env) fr rq (ss_ops s)"
  shows "daemon_step env s (snd (in_ops f s))"
proof -
  from assms(2) have "snd (in_ops f s) = on_ops (serve (de_ops env) fr rq) s"
    by (simp add: in_ops_def on_ops_def case_prod_unfold)
  with daemon_step.request [OF assms(1)] show ?thesis by simp
qed

lemma projects_served [serving]:
  assumes "moment_fresh mo (sv_sess sv)"
  shows "serves env sv (snd (project_add env mo v sv))" "serves env sv (snd (project_remove env mo v sv))"
    "serves env sv (snd (project_sync env mo v sv))" "serves env sv (snd (project_update env mo v sv))"
    "serves env sv (snd (project_relocate env mo v sv))" "serves env sv (snd (project_rename env v sv))"
    "serves env sv (snd (project_set_sandbox env v sv))"
proof -
  note fresh = assms [unfolded moment_fresh_def, THEN conjunct1]
  show "serves env sv (snd (project_add env mo v sv))"
    unfolding project_add_def
    by (intro serves_decoded) (auto intro!: serves_one_step request_step [OF fresh, where rq = "RAdd _ _"])
  show "serves env sv (snd (project_remove env mo v sv))"
    unfolding project_remove_def
    by (intro serves_decoded) (auto intro!: serves_one_step request_step [OF fresh, where rq = "RRemove _ _ _"])
  show "serves env sv (snd (project_sync env mo v sv))"
    unfolding project_sync_def
    by (intro serves_decoded) (auto intro!: serves_one_step request_step [OF fresh, where rq = "RSync _"])
  show "serves env sv (snd (project_update env mo v sv))"
    unfolding project_update_def
    by (intro serves_decoded) (auto intro!: serves_one_step request_step [OF fresh, where rq = "RUpdate _"])
  show "serves env sv (snd (project_relocate env mo v sv))"
    unfolding project_relocate_def
    by (intro serves_decoded) (auto intro!: serves_one_step request_step [OF fresh, where rq = "RRelocate _ _"])
  show "serves env sv (snd (project_rename env v sv))"
    unfolding project_rename_def
    by (intro serves_decoded) (auto intro!: serves_one_step request_step [OF fresh, where rq = "RRename _ _"])
  show "serves env sv (snd (project_set_sandbox env v sv))"
    unfolding project_set_sandbox_def
    by (intro serves_decoded) (auto intro!: serves_one_step request_step [OF fresh, where rq = "RSetSandbox _ _"])
qed

text \<open>Looking around: nothing but the histories of calls has changed.\<close>

definition looked :: "sess \<Rightarrow> sess \<Rightarrow> bool" where
  "looked s s' \<longleftrightarrow> quiet (ss_ops s) (ss_ops s') \<and> ss_watches s' = ss_watches s"

lemma looked_step: "looked s s' \<Longrightarrow> daemon_step env s s'"
  unfolding looked_def by (blast intro: daemon_step.looks)

lemma looked_trans: "looked s s1 \<Longrightarrow> looked s1 s2 \<Longrightarrow> looked s s2"
  unfolding looked_def by (metis quiet_trans)

lemma looked_ask: "looked s (snd (ask c f s))" "looked s (tell c s)"
  by (simp_all add: looked_def ask_def tell_def quiet_def)

lemma looked_detect: "looked s (snd (detect_claude env s))"
  by (simp add: looked_def detect_ops detect_state quiet_def)

lemma looked_doctor: "looked s (snd (harness_doctor_check env s))"
  by (simp add: harness_doctor_check_def case_prod_unfold looked_detect)

lemma looked_statuses: "looked s (snd (tool_statuses env recorded hs s))"
proof (induction hs arbitrary: s)
  case Nil
  show ?case by (simp add: looked_def quiet_def)
next
  case (Cons h hs)
  have "looked s (snd (tool_detect env h s))"
    by (simp add: tool_detect_def case_prod_unfold looked_detect)
  with Cons.IH [of "snd (tool_detect env h s)"] show ?case
    by (simp add: case_prod_unfold) (rule looked_trans)
qed

lemma looked_tools: "looked s (snd (list_tools env s))"
  unfolding list_tools_def manifest_load_def
  by (simp add: case_prod_unfold) (rule looked_trans [OF looked_ask(1) looked_statuses])

lemma looked_ops: "quiet (ss_ops s) (snd (f (ss_ops s))) \<Longrightarrow> looked s (snd (in_ops f s))"
  by (simp add: looked_def in_ops_def case_prod_unfold)

lemma looked_tree: "looked s (snd (in_ops (tree_flags an ws) s))"
proof (rule looked_ops)
  have "quiet x (snd (with_ctx (git_run an ws args) x))" for x args
    by (rule quiet_with_ctx) (simp add: git_run_def called_def)
  then show "quiet (ss_ops s) (snd (tree_flags an ws (ss_ops s)))"
    unfolding tree_flags_def case_prod_unfold snd_conv by (rule quiet_steps)
qed

lemma submit_tool_step:
  assumes "moment_fresh mo s"
  shows "daemon_step env s (snd (submit_tool kd (mo_fresh mo) s))"
proof -
  let ?r = "op_runner (ss_ops s)" and ?i = "fr_job (mo_fresh mo)"
  have "job_step ?r (SubmitGlobal ?i kd (fr_now (mo_fresh mo)))
      (snd (submit_global ?i kd (fr_now (mo_fresh mo)) ?r))"
    using assms by (intro job_step.submit_global) (simp_all add: moment_fresh_def is_fresh_def ss_state_def)
  from daemon_step.runner [OF this] show ?thesis
    by (simp add: submit_tool_def case_prod_unfold on_runner_def on_ops_def)
qed

lemma moment_fresh_looked: "looked s s' \<Longrightarrow> moment_fresh mo s \<Longrightarrow> moment_fresh mo s'"
  by (simp add: looked_def quiet_def moment_fresh_def is_fresh_def ss_get_def ss_state_def op_projects_def)

lemma tools_step:
  assumes "moment_fresh mo s"
  shows "(daemon_step env)\<^sup>*\<^sup>* s (snd (install_tool (de_sess env) (mo_fresh mo) name s))"
    and "(daemon_step env)\<^sup>*\<^sup>* s (snd (update_tool (de_sess env) (mo_fresh mo) name s))"
proof -
  obtain found s1 where det: "detect_claude (de_sess env) s = (found, s1)" by fastforce
  then have look: "looked s s1" using looked_detect by (metis snd_conv)
  then have first: "daemon_step env s s1" by (rule looked_step)
  have then_submit: "(daemon_step env)\<^sup>*\<^sup>* s (snd (submit_tool kd (mo_fresh mo) s1))" for kd
    using first submit_tool_step [OF moment_fresh_looked [OF look assms]] by (meson rtranclp.simps)
  show "(daemon_step env)\<^sup>*\<^sup>* s (snd (install_tool (de_sess env) (mo_fresh mo) name s))"
    "(daemon_step env)\<^sup>*\<^sup>* s (snd (update_tool (de_sess env) (mo_fresh mo) name s))"
    using det first then_submit by (auto simp: install_tool_cases update_tool_cases)
qed

lemma looked_served: "looked (sv_sess sv) (snd (f (sv_sess sv))) \<Longrightarrow> serves env sv (snd (with_sess f g sv))"
  by (rule serves_one_step, rule looked_step)

lemma doctor_served [serving]: "serves env sv (snd (doctor env mo sv))"
  unfolding doctor_def by (rule looked_served, rule looked_doctor)

lemma reads_served [serving]:
  "serves env sv (snd (hello env v sv))" "serves env sv (snd (health env mo sv))"
  "serves env sv (snd (project_list sv))" "serves env sv (snd (project_read_file env mo v sv))"
  "serves env sv (snd (job_list sv))" "serves env sv (snd (job_get env v sv))"
  "serves env sv (snd (sandbox_explain env v sv))" "serves env sv (snd (plugin_list sv))"
  "serves env sv (snd (shutdown_reply sv))"
  by (auto simp: hello_def health_def project_list_def project_read_file_def job_list_def job_get_def
      sandbox_explain_def plugin_list_def shutdown_reply_def serves_refl serves_same
      intro!: serves_decoded split: sum.split)

lemma tree_served [serving]: "serves env sv (snd (project_tree env mo v sv))"
  unfolding project_tree_def
  by (rule serves_decoded) (auto simp: serves_refl Let_def intro!: looked_served looked_tree split: sum.split)

lemma cancel_served [serving]: "serves env sv (snd (job_cancel env v sv))"
proof -
  have "daemon_step (sn_daemon env) s (on_runner (cancel_job j) s)" for j s
    using daemon_step.runner [OF job_step.cancel, of s j "sn_daemon env"] by (simp add: on_runner_def on_ops_def)
  then show ?thesis
    by (auto simp: job_cancel_def serves_refl intro!: serves_one_step split: sum.split)
qed

lemma tools_served [serving]:
  "serves env sv (snd (tool_list env sv))"
  "moment_fresh mo (sv_sess sv) \<Longrightarrow> serves env sv (snd (tool_install env mo v sv))"
  "moment_fresh mo (sv_sess sv) \<Longrightarrow> serves env sv (snd (tool_update env mo v sv))"
  unfolding tool_list_def tool_install_def tool_update_def
  by (rule looked_served looked_tools serves_decoded serves_with_sess tools_step | assumption)+

lemma sessions_served [serving]:
  "moment_fresh mo (sv_sess sv) \<Longrightarrow> serves env sv (snd (session_create env mo v sv))"
  "serves env sv (snd (session_stop env v sv))" "serves env sv (snd (session_rename env v sv))"
  "serves env sv (snd (session_list env sv))"
  unfolding session_create_def session_stop_def session_rename_def session_list_def moment_fresh_def
  by (auto intro!: serves_decoded serves_one_step daemon_step.create daemon_step.stop daemon_step.rename
      daemon_step.list)

lemma plugins_served [serving]:
  "serves env sv (snd (plugin_enable env v sv))" "serves env sv (snd (plugin_disable env v sv))"
  "serves env sv (snd (plugin_handle m v sv))" "serves env sv (snd (usage_handle env m v sv))"
  "serves env sv (snd (profile_handle env m v sv))"
proof -
  show handle: "serves env sv (snd (plugin_handle m v sv))" for v
    unfolding plugin_handle_def by (rule serves_with_host [where c = "CallHandle m v"]) simp
  show "serves env sv (snd (plugin_enable env v sv))" unfolding plugin_enable_def
    by (rule serves_decoded) (auto intro: serves_with_host [where c = "CallEnable _ _"])
  show "serves env sv (snd (plugin_disable env v sv))" unfolding plugin_disable_def
    by (rule serves_decoded) (auto intro: serves_with_host [where c = "CallDisable _ _"])
  show "serves env sv (snd (usage_handle env m v sv))" by (simp add: usage_handle_def handle)
  show "serves env sv (snd (profile_handle env m v sv))"
    by (simp add: profile_handle_def handle serves_refl split: sum.split)
qed

lemma snapshot_served [serving]:
  assumes "moment_fresh mo (sv_sess sv)"
  shows "serves env sv (snd (snapshot_reply env sv))"
proof -
  let ?f = "\<lambda>s. ((), on_ops (op_refresh (sn_ops env)) s)" and ?g = "\<lambda>s. ((), title_untitled (sn_sess env) s)"
  let ?sv = "snd (with_sess ?f (\<lambda>_. Inr RNull) sv)"
  have "serves env sv ?sv"
    using assms daemon_step.request [of "mo_fresh mo" "sv_sess sv" "sn_daemon env" RRefresh]
    by (intro serves_one_step) (simp add: moment_fresh_def on_ops_def)
  moreover have "serves env ?sv (snd (with_sess ?g (\<lambda>_. Inr RNull) ?sv))"
    using daemon_step.list [of "sn_daemon env" "sv_sess ?sv"]
    by (intro serves_one_step) (simp add: list_sessions_def Let_def)
  ultimately show ?thesis
    unfolding snapshot_reply_def Let_def snd_conv by (rule serves_trans)
qed

lemma route_served:
  fixes sv :: "'w server"
  assumes "moment_fresh mo (sv_sess sv)"
  shows "serves env sv (snd (route env mo m v sv))"
proof (cases "map_of (routes env mo v :: (string \<times> 'w handler) list) m")
  case None
  then show ?thesis by (simp add: route_def serving)
next
  case (Some h)
  have "list_all (\<lambda>(k, h). serves env sv (snd (h sv))) (routes env mo v)"
    unfolding routes_def list.pred_inject prod.case using assms by (intro conjI serving) simp_all
  with map_of_SomeD [OF Some] have "serves env sv (snd (h sv))" by (auto simp: list_all_iff)
  with Some show ?thesis by (simp add: route_def)
qed

lemma dispatch_from_served:
  "moment_fresh mo (sv_sess sv) \<Longrightarrow> serves env sv (snd (dispatch_from env mo origin rq sv))"
  by (simp add: dispatch_from_def dispatch_def case_prod_unfold route_served serves_refl)

lemma serve_one_served:
  fixes sv :: "'w server"
  assumes "moment_fresh mo (sv_sess sv)"
  shows "serves env sv (snd (serve_one env mo msg sv))"
proof (cases msg)
  case (Line line origin c)
  have "serves env sv1 (send origin c rs sv1)" for rs and sv1 :: "'w server"
    by (rule serves_same) (simp_all add: send_def split: option.split)
  then have "serves env sv (send origin c rs sv1)" if "serves env sv sv1" for rs and sv1 :: "'w server"
    using that serves_trans by blast
  then show ?thesis
    using dispatch_from_served [OF assms, of env origin]
    by (simp add: Line serves_refl case_prod_unfold split: sum.split)
qed (simp add: serves_refl)

section \<open>The daemon that is served\<close>

text \<open>Messages are served one after the other; the daemon's threads take their steps between them, and
  what they tell the plugins reaches the host. The loop has no next message once it has ended.\<close>

inductive served :: "server_env \<Rightarrow> project list \<Rightarrow> 'w host \<Rightarrow> bool \<Rightarrow> 'w server \<Rightarrow> bool" for env ps h where
  start: "served env ps h False (server_new (daemon_start (sn_daemon env) ps) h)"
| message: "served env ps h False sv \<Longrightarrow> moment_fresh mo (sv_sess sv) \<Longrightarrow>
     serve_one env mo msg sv = (ending, sv') \<Longrightarrow> served env ps h (ending \<noteq> None) sv'"
| thread: "served env ps h ended sv \<Longrightarrow> daemon_step (sn_daemon env) (sv_sess sv) s \<Longrightarrow>
     served env ps h ended (deliver s sv)"
| shutdown: "served env ps h True sv \<Longrightarrow> served env ps h True (server_shutdown sv)"

lemma daemon_reach_steps: "(daemon_step env)\<^sup>*\<^sup>* s s' \<Longrightarrow> daemon_reach env ps s \<Longrightarrow> daemon_reach env ps s'"
  by (induction rule: rtranclp_induct) (auto intro: daemon_reach.step)


text \<open>A removal asked for over the socket.\<close>

definition demo_server_env :: server_env where
  "demo_server_env =
     \<lparr>sn_daemon = demo_daemon,
      sn_decode =
        \<lparr>cd_request = (\<lambda>t. Inr \<lparr>rq_id = 1, rq_method = ''project.remove'', rq_params = JString t\<rparr>),
         cd_hello = (\<lambda>v. Inr 1), cd_add = (\<lambda>v. Inr ([], None)), cd_remove = (\<lambda>v. Inr (5, True, False)),
         cd_project = (\<lambda>v. Inr 5), cd_relocate = (\<lambda>v. Inr (5, [])), cd_rename = (\<lambda>v. Inr (5, [])),
         cd_sandbox = (\<lambda>v. Inr (5, sandbox_profile_default)), cd_tree = (\<lambda>v. Inr (5, None)),
         cd_file = (\<lambda>v. Inr (5, [])), cd_job_id = (\<lambda>v. Inr 7), cd_tool = (\<lambda>v. Inr []),
         cd_create = (\<lambda>v. Inr demo_create), cd_session = (\<lambda>v. Inr 1), cd_label = (\<lambda>v. Inr (1, None)),
         cd_explain = (\<lambda>v. Inr 5), cd_enable = (\<lambda>v. Inr ([], None)), cd_project_text = (\<lambda>t. Inr 5)\<rparr>,
      sn_image_version = None, sn_lower = (\<lambda>s. s), sn_lossy = (\<lambda>s. s), sn_job_text = (\<lambda>i. ''01J'')\<rparr>"

definition demo_moment :: moment where
  "demo_moment =
     \<lparr>mo_fresh = demo_fresh, mo_session = 9, mo_pid = 1, mo_uptime = 0, mo_doctor = [],
      mo_real_path = (\<lambda>p. Inr p), mo_entries = (\<lambda>d. None), mo_file = (\<lambda>f. \<lparr>fr_is_file = Inr True, fr_bytes = Inr []\<rparr>)\<rparr>"

definition demo_served :: "unit server" where
  "demo_served =
     snd (serve_one demo_server_env demo_moment (Line ''remove'' Socket (Some 3))
       (server_new (daemon_start demo_daemon [demo_here]) demo_host))"

lemma demo_moment_fresh: "moment_fresh demo_moment (daemon_start demo_daemon [demo_here])"
  by code_simp


end
