(* ===== verification/Server_Answers.thy ===== *)
theory Server_Answers
  imports Server
begin

text \<open>
  The conversation of the request loop: what is due to whom for a sequence of lines, and what the daemon
  itself puts into the parameters of a plugin's call.
\<close>

section \<open>What handlers leave alone\<close>

definition unheard :: "'w server \<Rightarrow> 'w server \<Rightarrow> bool" where
  "unheard sv sv' \<longleftrightarrow> sv_shutting sv' = sv_shutting sv \<and> sv_sent sv' = sv_sent sv"

lemma unheard_refl [simp]: "unheard sv sv"
  by (simp add: unheard_def)

lemma unheard_trans: "unheard sv sv1 \<Longrightarrow> unheard sv1 sv2 \<Longrightarrow> unheard sv sv2"
  by (simp add: unheard_def)

lemma unheard_with [simp]: "unheard sv (snd (with_sess f g sv))" "unheard sv (snd (with_host f' g' sv))"
  by (simp_all add: unheard_def with_sess_def deliver_def with_host_def case_prod_unfold)

lemma unheard_decoded [intro]: "(\<And>p. unheard sv (snd (f p sv))) \<Longrightarrow> unheard sv (snd (decoded r f sv))"
  by (simp add: decoded_def split: sum.split)

lemma projects_unheard:
  "unheard sv (snd (project_add env mo v sv))" "unheard sv (snd (project_remove env mo v sv))"
  "unheard sv (snd (project_sync env mo v sv))" "unheard sv (snd (project_update env mo v sv))"
  "unheard sv (snd (project_relocate env mo v sv))" "unheard sv (snd (project_rename env v sv))"
  "unheard sv (snd (project_set_sandbox env v sv))" "unheard sv (snd (project_list sv))"
  "unheard sv (snd (project_tree env mo v sv))" "unheard sv (snd (project_read_file env mo v sv))"
  unfolding project_add_def project_remove_def project_sync_def project_update_def project_relocate_def
    project_rename_def project_set_sandbox_def project_list_def project_tree_def project_read_file_def
  by (auto simp: Let_def case_prod_unfold split: sum.split)

lemma others_unheard:
  "unheard sv (snd (hello env v sv))" "unheard sv (snd (health env mo sv))" "unheard sv (snd (doctor env mo sv))"
  "unheard sv (snd (job_list sv))" "unheard sv (snd (job_get env v sv))" "unheard sv (snd (job_cancel env v sv))"
  "unheard sv (snd (tool_install env mo v sv))" "unheard sv (snd (tool_list env sv))"
  "unheard sv (snd (tool_update env mo v sv))" "unheard sv (snd (session_create env mo v sv))"
  "unheard sv (snd (session_stop env v sv))" "unheard sv (snd (session_rename env v sv))"
  "unheard sv (snd (session_list env sv))" "unheard sv (snd (sandbox_explain env v sv))"
  unfolding hello_def health_def doctor_def job_list_def job_get_def job_cancel_def tool_install_def tool_list_def
    tool_update_def session_create_def session_stop_def session_rename_def session_list_def sandbox_explain_def
  by (auto simp: case_prod_unfold split: sum.split)

lemma plugins_unheard:
  "unheard sv (snd (plugin_list sv))" "unheard sv (snd (plugin_enable env v sv))"
  "unheard sv (snd (plugin_disable env v sv))" "unheard sv (snd (plugin_handle m v sv))"
  "unheard sv (snd (usage_handle env m v sv))" "unheard sv (snd (profile_handle env m v sv))"
  "unheard sv (snd (snapshot_reply env sv))"
  unfolding plugin_list_def plugin_enable_def plugin_disable_def plugin_handle_def usage_handle_def
    profile_handle_def snapshot_reply_def Let_def
  by (auto simp: case_prod_unfold split: sum.split intro: unheard_trans [OF unheard_with(1) unheard_with(1)])

section \<open>The methods that are served\<close>

definition METHODS :: "string list" where
  "METHODS =
     [''daemon.hello'', ''daemon.health'', ''daemon.doctor'', ''daemon.shutdown'', ''project.add'',
      ''project.remove'', ''project.sync_to_windows'', ''project.update_from_windows'', ''project.relocate'',
      ''project.rename'', ''project.set_sandbox'', ''project.list'', ''project.tree'', ''project.read_file'',
      ''job.list'', ''job.get'', ''job.cancel'', ''tool.install'', ''tool.list'', ''tool.update'',
      ''session.create'', ''session.stop'', ''session.rename'', ''session.list'', ''sandbox.explain'',
      ''plugin.list'', ''plugin.enable'', ''plugin.disable'', ''state.snapshot'']"

lemma routes_methods: "map fst (routes env mo v) = METHODS"
  unfolding routes_def METHODS_def list.map fst_conv ..

lemma route_none: "map_of (routes env mo v) m = None \<longleftrightarrow> m \<notin> set METHODS"
  by (simp only: map_of_eq_None_iff set_map [symmetric] routes_methods)

lemma shutdown_route: "map_of (routes env mo v) ''daemon.shutdown'' = Some shutdown_reply"
  by (simp add: routes_def)

lemma route_unheard:
  fixes sv :: "'w server"
  assumes "m \<noteq> ''daemon.shutdown''"
  shows "unheard sv (snd (route env mo m v sv))"
proof (cases "map_of (routes env mo v :: (string \<times> 'w handler) list) m")
  case None
  then show ?thesis by (simp add: route_def plugins_unheard)
next
  case (Some h)
  have "list_all (\<lambda>(k, h). h = shutdown_reply \<and> k = ''daemon.shutdown'' \<or> unheard sv (snd (h sv)))
      (routes env mo v :: (string \<times> 'w handler) list)"
    unfolding routes_def list.pred_inject prod.case
    by (intro conjI projects_unheard [THEN disjI2] others_unheard [THEN disjI2] plugins_unheard [THEN disjI2])
       simp_all
  with map_of_SomeD [OF Some] assms have "unheard sv (snd (h sv))" by (auto simp: list_all_iff)
  with Some show ?thesis by (simp add: route_def)
qed

lemma route_shutdown: "route env mo ''daemon.shutdown'' v sv = shutdown_reply sv"
  by (simp only: route_def shutdown_route option.case)

lemma route_unknown:
  fixes sv :: "'w server"
  assumes "m \<notin> set METHODS" and "\<not> starts_with m ''usage.''" and "\<not> starts_with m ''profile.''"
  shows "fst (route env mo m v sv) = Inl (unknown_method m)"
proof -
  have "map_of (routes env mo v :: (string \<times> 'w handler) list) m = None" using assms(1) unfolding route_none .
  with assms show ?thesis by (simp add: route_def)
qed

section \<open>What is due\<close>

text \<open>A response that is due: to whom, with which id, and its error where the line alone decides it.\<close>

type_synonym due = "receiver \<times> u64 \<times> string option"

definition due_code :: "origin \<Rightarrow> string + rpc_request \<Rightarrow> string option" where
  "due_code origin r =
     (case r of
        Inl e \<Rightarrow> Some ''invalid_request''
      | Inr rq \<Rightarrow>
          if origin = Socket \<and> rq_method rq = ''daemon.shutdown'' then Some ''method_not_served''
          else if rq_method rq \<notin> set METHODS \<and> \<not> starts_with (rq_method rq) ''usage.''
                  \<and> \<not> starts_with (rq_method rq) ''profile.'' then Some ''method_not_found''
          else None)"

definition ends_loop :: "origin \<Rightarrow> string + rpc_request \<Rightarrow> bool" where
  "ends_loop origin r \<longleftrightarrow> origin = Stdio \<and> (\<exists>rq. r = Inr rq \<and> rq_method rq = ''daemon.shutdown'')"

fun answers_due :: "(string \<Rightarrow> string + rpc_request) \<Rightarrow> inbound list \<Rightarrow> due list \<times> exit_reason" where
  "answers_due parse [] = ([], ExitEof)"
| "answers_due parse (StdinClosed # ms) = ([], ExitEof)"
| "answers_due parse (Line line origin c # ms) =
     (if trim_ws line = [] then answers_due parse ms
      else
        (let r = parse line;
             now = (case receiver_of origin c of
                      Some to \<Rightarrow> [(to, case r of Inr rq \<Rightarrow> rq_id rq | Inl e \<Rightarrow> 0, due_code origin r)]
                    | None \<Rightarrow> [])
         in if ends_loop origin r then (now, ExitShutdown)
            else (case answers_due parse ms of (later, reason) \<Rightarrow> (now @ later, reason))))"

definition meets :: "due \<Rightarrow> receiver \<times> response \<Rightarrow> bool" where
  "meets d sent =
     (case (d, sent) of ((to, i, code), (to', rs)) \<Rightarrow>
        to' = to \<and> rs_id rs = i
        \<and> (case code of
             None \<Rightarrow> True
           | Some k \<Rightarrow> (case rs_answer rs of Inl e \<Rightarrow> re_code e = k | Inr a \<Rightarrow> False)))"

text \<open>The response to one line.\<close>

lemma dispatch_from_due:
  assumes "\<not> sv_shutting sv"
  obtains rs sv' where "dispatch_from env mo origin rq sv = (rs, sv')" "sv_sent sv' = sv_sent sv"
    "sv_shutting sv' = ends_loop origin (Inr rq)" "rs_id rs = rq_id rq"
    "meets (to, rq_id rq, due_code origin (Inr rq)) (to, rs)"
proof -
  obtain rs sv' where run: "dispatch_from env mo origin rq sv = (rs, sv')" by fastforce
  consider (socket) "origin = Socket" "rq_method rq = ''daemon.shutdown''"
    | (stdio) "origin = Stdio" "rq_method rq = ''daemon.shutdown''"
    | (other) "rq_method rq \<noteq> ''daemon.shutdown''"
    using origin.exhaust by blast
  then show thesis
  proof cases
    case socket
    with run assms show thesis
      by (intro that [OF run])
         (auto simp: dispatch_from_def error_response_def not_served_def with_remediation_def rpc_error_new_def
           ends_loop_def meets_def due_code_def)
  next
    case stdio
    have known: "''daemon.shutdown'' \<in> set METHODS" by (simp add: METHODS_def)
    from stdio run have "rs = \<lparr>rs_id = rq_id rq, rs_answer = Inr RNull\<rparr>" "sv' = sv\<lparr>sv_shutting := True\<rparr>"
      by (simp_all add: dispatch_from_def dispatch_def route_shutdown shutdown_reply_def)
    with stdio known show thesis
      by (intro that [OF run]) (simp_all add: ends_loop_def meets_def due_code_def)
  next
    case other
    obtain r sv1 where rt: "route env mo (rq_method rq) (rq_params rq) sv = (r, sv1)" by fastforce
    with other run have rs: "rs = \<lparr>rs_id = rq_id rq, rs_answer = r\<rparr>" "sv' = sv1"
      by (auto simp: dispatch_from_def dispatch_def)
    with route_unheard [OF other, of sv env mo "rq_params rq"] rt assms
    have same: "sv_sent sv' = sv_sent sv" "\<not> sv_shutting sv'" by (auto simp: unheard_def)
    have "r = Inl (unknown_method (rq_method rq))"
      if "rq_method rq \<notin> set METHODS" "\<not> starts_with (rq_method rq) ''usage.''"
        "\<not> starts_with (rq_method rq) ''profile.''"
      using route_unknown [OF that, of env mo "rq_params rq" sv] rt by simp
    then have "meets (to, rq_id rq, due_code origin (Inr rq)) (to, rs)"
      using other rs(1)
      by (auto simp: meets_def due_code_def unknown_method_def with_remediation_def rpc_error_new_def)
    with same rs other show thesis
      by (intro that [OF run]) (auto simp: ends_loop_def)
  qed
qed

lemma serve_inbound_due:
  assumes "\<not> sv_shutting sv"
  shows "case (serve_inbound env ms sv, answers_due (cd_request (sn_decode env)) (map snd ms)) of
     ((reason, sv'), (dues, reason')) \<Rightarrow>
       reason = reason' \<and> (\<exists>news. sv_sent sv' = sv_sent sv @ news \<and> list_all2 meets dues news)
       \<and> sv_shutting sv' = (reason = ExitShutdown)"
  using assms
proof (induction ms arbitrary: sv)
  case (Cons e ms)
  obtain mo msg where e: "e = (mo, msg)" by fastforce
  let ?parse = "cd_request (sn_decode env)"
  show ?case
  proof (cases msg)
    case StdinClosed
    with e Cons.prems show ?thesis by simp
  next
    case (Line line origin c)
    show ?thesis
    proof (cases "trim_ws line = []")
      case True
      with e Line Cons.IH [OF Cons.prems] show ?thesis by simp
    next
      case False
      let ?to = "the (receiver_of origin c)" and ?r = "?parse line"
      obtain rs sv1 where one: "(case ?r of Inr rq \<Rightarrow> dispatch_from env mo origin rq sv
            | Inl e \<Rightarrow> (error_response 0 (malformed e), sv)) = (rs, sv1)"
        and sent: "sv_sent sv1 = sv_sent sv" and stop: "sv_shutting sv1 = ends_loop origin ?r"
        and fit: "meets (?to, (case ?r of Inr rq \<Rightarrow> rq_id rq | Inl e \<Rightarrow> 0), due_code origin ?r) (?to, rs)"
      proof (cases ?r)
        case (Inl e)
        with Cons.prems show thesis
          by (intro that [of "error_response 0 (malformed e)" sv])
             (simp_all add: ends_loop_def meets_def due_code_def error_response_def malformed_def rpc_error_new_def)
      next
        case (Inr rq)
        from dispatch_from_due [OF Cons.prems, of env mo origin rq ?to] obtain rs sv' where
          "dispatch_from env mo origin rq sv = (rs, sv')" "sv_sent sv' = sv_sent sv"
          "sv_shutting sv' = ends_loop origin (Inr rq)"
          "meets (?to, rq_id rq, due_code origin (Inr rq)) (?to, rs)" by blast
        with Inr show thesis by (intro that [of rs sv']) simp_all
      qed
      let ?now = "case receiver_of origin c of
          Some to \<Rightarrow> [(to, case ?r of Inr rq \<Rightarrow> rq_id rq | Inl e \<Rightarrow> 0, due_code origin ?r)] | None \<Rightarrow> []"
      let ?new = "case receiver_of origin c of Some to \<Rightarrow> [(to, rs)] | None \<Rightarrow> []"
      let ?sv = "send origin c rs sv1"
      have now: "list_all2 meets ?now ?new" using fit by (cases "receiver_of origin c") simp_all
      have sv2: "sv_sent ?sv = sv_sent sv @ ?new" "sv_shutting ?sv = ends_loop origin ?r"
        using sent stop by (simp_all add: send_def split: option.split)
      have run: "serve_one env mo msg sv = (if ends_loop origin ?r then Some ExitShutdown else None, ?sv)"
        using False one stop by (simp add: Line)
      show ?thesis
      proof (cases "ends_loop origin ?r")
        case True
        with e Line False run now sv2 show ?thesis by (simp add: Let_def del: serve_one.simps)
      next
        case go: False
        obtain reason sv3 where rest: "serve_inbound env ms ?sv = (reason, sv3)" by fastforce
        obtain later reason' where due: "answers_due ?parse (map snd ms) = (later, reason')" by fastforce
        from Cons.IH [of ?sv] sv2(2) go rest due obtain news where
          tail: "reason = reason'" "sv_sent sv3 = sv_sent ?sv @ news" "list_all2 meets later news"
            "sv_shutting sv3 = (reason = ExitShutdown)" by auto
        have "serve_inbound env (e # ms) sv = (reason, sv3)"
          using e run go rest by (simp del: serve_one.simps)
        moreover have "answers_due ?parse (map snd (e # ms)) = (?now @ later, reason')"
          using e Line False go due by (simp add: Let_def)
        moreover have "sv_sent sv3 = sv_sent sv @ (?new @ news)" using tail(2) sv2(1) by simp
        moreover have "list_all2 meets (?now @ later) (?new @ news)"
          using now tail(3) by (rule list_all2_appendI)
        ultimately show ?thesis using tail(1,4) by auto
      qed
    qed
  qed
qed simp

text \<open>(C19) Whatever lines arrive from the engine and from local clients, in whatever order: every line that
  is not blank is answered exactly once and in order, to the one who sent it and under the request's id - a
  line that is no request under the id 0 with \<open>invalid_request\<close>, an unknown method with
  \<open>method_not_found\<close>, a shutdown asked for over the socket with \<open>method_not_served\<close> - and the loop
  ends with the engine's own shutdown, answered first, or with the end of its input, and for no other
  reason.\<close>
theorem serve_inbound_answers:
  "case serve_inbound env ms (server_new s h) of (reason, sv) \<Rightarrow>
     (case answers_due (cd_request (sn_decode env)) (map snd ms) of (dues, reason') \<Rightarrow>
        reason = reason' \<and> list_all2 meets dues (sv_sent sv) \<and> sv_shutting sv = (reason = ExitShutdown))"
  using serve_inbound_due [of "server_new s h" env ms]
  by (simp add: server_new_def case_prod_unfold)

section \<open>What plugins are told\<close>

fun members_of :: "json \<Rightarrow> (string \<times> json) list" where
  "members_of (JObject m) = m"
| "members_of _ = []"

lemma members_strip: "map_of (members_of (strip ks v)) k = (if k \<in> set ks then None else map_of (members_of v) k)"
proof -
  have "map_of (filter (\<lambda>(k, x). k \<notin> set ks) m) k = (if k \<in> set ks then None else map_of m k)" for m :: "(string \<times> json) list"
    by (induction m) auto
  then show ?thesis by (cases v) (simp_all add: strip_def)
qed

lemma members_inject:
  "is_object v \<Longrightarrow> map_of (members_of (inject k x v)) = (map_of (members_of v))(k \<mapsto> x)"
  "is_object v \<Longrightarrow> is_object (inject k x v)" "is_object v \<Longrightarrow> is_object (strip ks v)"
  by (cases v; simp add: inject_def map_of_put strip_def)+

lemma json_get_members: "json_get v k = map_of (members_of v) k"
  by (cases v) simp_all

lemma resolved_members:
  "case resolve_profile_targets env (JObject m) sv of
      Inl e \<Rightarrow> True
    | Inr v \<Rightarrow>
        map_of (members_of v) =
          (case str_at (map_of m ''project_id'') of
             None \<Rightarrow> (map_of m)(''_workspace'' := None, ''_harness_settings'' := None)
           | Some raw \<Rightarrow>
               (case cd_project_text (sn_decode env) raw of
                  Inl e \<Rightarrow> Map.empty
                | Inr i \<Rightarrow>
                    (case bt_get (st_projects (sv_state sv)) i of
                       None \<Rightarrow> Map.empty
                     | Some p \<Rightarrow>
                         (map_of m)(''_workspace'' \<mapsto> JString (pj_workspace p),
                           ''_harness_settings'' \<mapsto> JString (harness_settings_path (se_home (sn_sess env)))))))"
proof -
  obtain w h i where names: "w = ''_workspace''" "h = ''_harness_settings''" "i = ''project_id''" "i \<noteq> w" "i \<noteq> h" "w \<noteq> h"
    by simp
  let ?v = "strip [w, h] (JObject m)"
  have id: "json_get ?v i = map_of m i" using names(4,5) by (simp add: json_get_members members_strip)
  have stripped: "map_of (members_of ?v) = (map_of m)(w := None, h := None)"
    by (rule ext) (simp add: members_strip)
  have filled: "map_of (members_of (inject h y (inject w x ?v))) = (map_of m)(w \<mapsto> x, h \<mapsto> y)" for x y
    using stripped by (simp add: members_inject fun_upd_twist [OF names(6)])
  show ?thesis
    unfolding resolve_profile_targets_def Let_def names(1-3) [symmetric] id sv_project_def
    by (auto simp: filled stripped split: option.split sum.split)
qed

lemma enriched_members:
  "map_of (members_of (enrich_usage_targets env v sv)) =
       (map_of (members_of v))
         (''_sessions'' \<mapsto> JArray (map (usage_target env)
            (filter (\<lambda>x. s_kind x = Agent) (bt_values (st_sessions (sv_state sv))))),
          ''_home'' \<mapsto> JString (se_home (sn_sess env)))"
proof -
  obtain a b where names: "a = ''_sessions''" "b = ''_home''" "a \<noteq> b" by simp
  let ?v = "if is_object v then v else JObject []"
  have "is_object ?v" by simp
  moreover have "members_of ?v = members_of v" by (cases v) simp_all
  moreover have "map_of (members_of (strip [a, b] u)) = (map_of (members_of u))(a := None, b := None)" for u
    by (rule ext) (simp add: members_strip)
  ultimately show ?thesis
    unfolding enrich_usage_targets_def Let_def names(1,2) [symmetric]
    by (simp add: members_inject fun_upd_twist [OF names(3)])
qed


text \<open>Parameters given by position carry no name to strip and reach the plugin as they are.\<close>

theorem positional_params_pass:
  "resolve_profile_targets env (JArray xs) sv = Inr (JArray xs)"
  by (simp add: resolve_profile_targets_def strip_def str_at_def)

end
