(* ===== verification/Store.thy ===== *)
theory Store
  imports Session_Ops
begin

text \<open>
  The files of projects (\<^verbatim>\<open>crates/willied/src/store.rs\<close>): one TOML table per project, parsed in two
  stages so that a mistyped \<open>[sandbox]\<close> table costs the sandbox and not the record, and written so that such
  a table survives until its owner replaces it. A disk is the readable text of each path; TOML and the
  derived conversions are a codec; what fails during a save is given with it.

  Shown: what is saved is what is loaded again, an unreadable table included; whatever fails, the record's
  file is the old one or the complete new one, and no other project's file changes.
\<close>

section \<open>Files\<close>

type_synonym disk = "string \<Rightarrow> string option"

type_synonym 't toml_table = "(string, 't) btree"

record 't codec =
  co_parse :: "string \<Rightarrow> 't toml_table option"
  co_print :: "'t toml_table \<Rightarrow> string + string"
  co_encode :: "project \<Rightarrow> string + 't toml_table"
  co_decode :: "'t toml_table \<Rightarrow> project option"
  co_sandbox :: "'t \<Rightarrow> string + sandbox_profile"
  co_id :: "project_id \<Rightarrow> string"

definition projects_dir :: "string \<Rightarrow> string" where
  "projects_dir state_dir = path_join state_dir ''projects''"

definition project_file :: "'t codec \<Rightarrow> string \<Rightarrow> project_id \<Rightarrow> string" where
  "project_file c state_dir i = path_join (projects_dir state_dir) (co_id c i @ ''.toml'')"

definition project_tmp :: "'t codec \<Rightarrow> string \<Rightarrow> project_id \<Rightarrow> string" where
  "project_tmp c state_dir i = path_join (projects_dir state_dir) (co_id c i @ ''.toml.tmp'')"

section \<open>Loading\<close>

definition sandbox_unreadable :: "string \<Rightarrow> sandbox_problem" where
  "sandbox_unreadable e =
     \<lparr>pb_code = ''sandbox_profile_invalid'', pb_message = ''the [sandbox] table could not be read: '' @ e,
      pb_remediation =
        ''open Sandbox'' @ map char_of [0xE2 :: nat, 0x80, 0xA6] @ '' for this project and save it to replace the table, or fix the file''\<rparr>"

definition load_record :: "'t codec \<Rightarrow> string \<Rightarrow> project option" where
  "load_record c content =
     (case co_parse c content of
        None \<Rightarrow> None
      | Some table \<Rightarrow>
          (let raw = bt_get table ''sandbox'';
               table = bt_remove ''sandbox'' table;
               problem = (case raw of
                   Some v \<Rightarrow> (case co_sandbox c v of Inr p \<Rightarrow> None | Inl e \<Rightarrow> Some (sandbox_unreadable e))
                 | None \<Rightarrow> None);
               table = (case raw of
                   Some v \<Rightarrow> if problem = None then bt_insert ''sandbox'' v table else table
                 | None \<Rightarrow> table)
           in map_option (\<lambda>p. p\<lparr>pj_sandbox_problem := problem\<rparr>) (co_decode c table)))"

definition load_projects :: "'t codec \<Rightarrow> disk \<Rightarrow> string list option \<Rightarrow> project list" where
  "load_projects c d entries =
     (case entries of
        None \<Rightarrow> []
      | Some paths \<Rightarrow>
          List.map_filter (\<lambda>path.
            if extension path \<noteq> Some ''toml'' then None else Option.bind (d path) (load_record c)) paths)"

section \<open>Saving\<close>

text \<open>What went wrong: making the directory, writing the temporary file (and what was left in it), the
  rename.\<close>

record save_faults =
  sf_dir :: "string option"
  sf_write :: "(string \<times> string option) option"
  sf_rename :: "string option"

definition record_table :: "'t codec \<Rightarrow> string option \<Rightarrow> project \<Rightarrow> string + 't toml_table" where
  "record_table c old p =
     (case co_encode c p of
        Inl e \<Rightarrow> Inl e
      | Inr doc \<Rightarrow>
          (let doc = (if pj_sandbox_problem p = None then doc
                      else case Option.bind (Option.bind old (co_parse c)) (\<lambda>t. bt_get t ''sandbox'') of
                        Some v \<Rightarrow> bt_insert ''sandbox'' v doc
                      | None \<Rightarrow> doc)
           in Inr (bt_remove ''sandbox_problem'' doc)))"

definition store_save :: "'t codec \<Rightarrow> string \<Rightarrow> save_faults \<Rightarrow> project \<Rightarrow> disk \<Rightarrow> (string + unit) \<times> disk" where
  "store_save c state_dir sf p d =
     (case sf_dir sf of
        Some e \<Rightarrow> (Inl e, d)
      | None \<Rightarrow>
          (let final = project_file c state_dir (pj_id p); tmp = project_tmp c state_dir (pj_id p) in
           case record_table c (d final) p of
             Inl e \<Rightarrow> (Inl e, d)
           | Inr doc \<Rightarrow>
               (case co_print c doc of
                  Inl e \<Rightarrow> (Inl e, d)
                | Inr content \<Rightarrow>
                    (case sf_write sf of
                       Some (e, left) \<Rightarrow> (Inl e, d(tmp := left))
                     | None \<Rightarrow>
                         (case sf_rename sf of
                            Some e \<Rightarrow> (Inl e, d(tmp \<mapsto> content))
                          | None \<Rightarrow> (Inr (), d(tmp := None, final \<mapsto> content)))))))"

definition store_delete :: "'t codec \<Rightarrow> string \<Rightarrow> (bool \<times> string) option \<Rightarrow> project_id \<Rightarrow> disk \<Rightarrow> (string + unit) \<times> disk" where
  "store_delete c state_dir fault i d =
     (case fault of
        None \<Rightarrow> (Inr (), d(project_file c state_dir i := None))
      | Some (not_found, e) \<Rightarrow> (if not_found then Inr () else Inl e, d))"

section \<open>Properties\<close>

text \<open>What a codec is relied on for: reading what it printed, and the derived conversions of a project,
  with the defaults of its two skipped fields.\<close>

definition codec_ok :: "'t codec \<Rightarrow> bool" where
  "codec_ok c \<longleftrightarrow>
     (\<forall>t x. co_print c t = Inr x \<longrightarrow> co_parse c x = Some t)
     \<and> (\<forall>p t. co_encode c p = Inr t \<longrightarrow>
          bt_ok t
          \<and> (\<exists>v. bt_get t ''sandbox'' = Some v \<and> co_sandbox c v = Inr (pj_sandbox p))
          \<and> co_decode c (bt_remove ''sandbox_problem'' t) = Some (p\<lparr>pj_sandbox_problem := None\<rparr>)
          \<and> co_decode c (bt_remove ''sandbox'' (bt_remove ''sandbox_problem'' t)) =
              Some (p\<lparr>pj_sandbox := sandbox_profile_default, pj_sandbox_problem := None\<rparr>))"

text \<open>The record in memory is the one its file would give: its table is fine, or its problem is the file's.\<close>

definition in_step :: "'t codec \<Rightarrow> string option \<Rightarrow> project \<Rightarrow> bool" where
  "in_step c old p \<longleftrightarrow>
     pj_sandbox_problem p = None
     \<or> (\<exists>v e. Option.bind (Option.bind old (co_parse c)) (\<lambda>t. bt_get t ''sandbox'') = Some v
          \<and> co_sandbox c v = Inl e \<and> pj_sandbox_problem p = Some (sandbox_unreadable e)
          \<and> pj_sandbox p = sandbox_profile_default)"

lemma bt_eqI:
  assumes "bt_ok a" and "bt_ok b" and "\<And>k. bt_get a k = bt_get b k"
  shows "a = b"
proof -
  have entries: "m = map (\<lambda>k. (k, the (bt_get m k))) (map fst m)" if "bt_ok m" for m :: "('a, 'b) btree"
  proof -
    have "map ((\<lambda>k. (k, the (bt_get m k))) \<circ> fst) m = m"
    proof (rule map_idI)
      fix e assume "e \<in> set m"
      with that show "((\<lambda>k. (k, the (bt_get m k))) \<circ> fst) e = e"
        using bt_entries_get [OF that, of "fst e" "snd e"] by (cases e) simp
    qed
    then show ?thesis by (simp only: map_map)
  qed
  have "set (map fst m) = {k. bt_get m k \<noteq> None}" for m :: "('a, 'b) btree"
    by (auto simp: bt_get_def map_of_eq_None_iff image_iff)
  with assms(3) have "set (map fst a) = set (map fst b)" by simp
  with assms(1,2) have "map fst a = map fst b"
    unfolding bt_ok_def strict_sorted_iff by (blast intro: sorted_distinct_set_unique)
  moreover have "(\<lambda>k. (k, the (bt_get a k))) = (\<lambda>k. (k, the (bt_get b k)))" using assms(3) by simp
  ultimately have "map (\<lambda>k. (k, the (bt_get a k))) (map fst a) = map (\<lambda>k. (k, the (bt_get b k))) (map fst b)"
    by (simp only:)
  then show ?thesis
    by (rule box_equals [OF _ entries [OF assms(1), symmetric] entries [OF assms(2), symmetric]])
qed

lemma saved_content:
  assumes "store_save c dir sf p d = (Inr (), d')"
  obtains doc content where "record_table c (d (project_file c dir (pj_id p))) p = Inr doc"
    "co_print c doc = Inr content"
    "d' = d(project_tmp c dir (pj_id p) := None, project_file c dir (pj_id p) \<mapsto> content)"
  using assms by (auto simp: store_save_def Let_def split: option.splits sum.splits)


text \<open>Whatever fails, and wherever a save is cut off, a record's file holds what it held or the complete new
  record, and nothing but it and its temporary file - which is never loaded - has changed.\<close>

lemma store_save_cut:
  "case store_save c dir sf p d of (r, d') \<Rightarrow>
     (d' (project_file c dir (pj_id p)) = d (project_file c dir (pj_id p))
      \<or> project_tmp c dir (pj_id p) = project_file c dir (pj_id p)
      \<or> (\<exists>doc content. r = Inr () \<and> record_table c (d (project_file c dir (pj_id p))) p = Inr doc
            \<and> co_print c doc = Inr content \<and> d' (project_file c dir (pj_id p)) = Some content))
     \<and> (\<forall>f. f \<notin> {project_file c dir (pj_id p), project_tmp c dir (pj_id p)} \<longrightarrow> d' f = d f)"
  by (auto simp: store_save_def Let_def split: option.splits sum.splits)

lemma tmp_not_file: "project_tmp c dir i \<noteq> project_file c dir j"
proof
  assume "project_tmp c dir i = project_file c dir j"
  then have "last (project_tmp c dir i) = last (project_file c dir j)" by simp
  then show False
    by (simp add: project_tmp_def project_file_def path_join_def split: if_splits)
qed

text \<open>A table that could not be read survives the save of a rename.\<close>

definition demo_codec :: "bool codec" where
  "demo_codec =
     \<lparr>co_parse = (\<lambda>x. if x = ''good'' then Some [(''sandbox'', True)] else if x = ''bad'' then Some [(''sandbox'', False)] else None),
      co_print = (\<lambda>t. if t = [(''sandbox'', True)] then Inr ''good'' else if t = [(''sandbox'', False)] then Inr ''bad'' else Inl ''unsupported''),
      co_encode = (\<lambda>p. if p\<lparr>pj_sandbox_problem := None\<rparr> = demo_project then Inr [(''sandbox'', True)] else Inl ''not the demo''),
      co_decode = (\<lambda>t. Some demo_project),
      co_sandbox = (\<lambda>v. if v then Inr sandbox_profile_default else Inl ''unknown field''),
      co_id = (\<lambda>i. ''p'')\<rparr>"

lemma demo_codec_ok: "codec_ok demo_codec"
proof -
  have "co_parse demo_codec x = Some t" if "co_print demo_codec t = Inr x" for t x
    using that by (auto simp: demo_codec_def split: if_splits)
  moreover have "bt_ok t \<and> (\<exists>v. bt_get t ''sandbox'' = Some v \<and> co_sandbox demo_codec v = Inr (pj_sandbox p))
      \<and> co_decode demo_codec (bt_remove ''sandbox_problem'' t) = Some (p\<lparr>pj_sandbox_problem := None\<rparr>)
      \<and> co_decode demo_codec (bt_remove ''sandbox'' (bt_remove ''sandbox_problem'' t)) =
          Some (p\<lparr>pj_sandbox := sandbox_profile_default, pj_sandbox_problem := None\<rparr>)"
    if enc: "co_encode demo_codec p = Inr t" for p t
  proof -
    from enc have p: "p\<lparr>pj_sandbox_problem := None\<rparr> = demo_project" and t: "t = [(''sandbox'', True)]"
      by (simp_all add: demo_codec_def split: if_splits)
    have sandbox: "pj_sandbox p = sandbox_profile_default" using p by (cases p) (simp add: demo_project_def)
    then have "p\<lparr>pj_sandbox := sandbox_profile_default, pj_sandbox_problem := None\<rparr> = demo_project"
      using p by (cases p) simp
    with p t sandbox show ?thesis by (simp add: demo_codec_def bt_ok_def bt_get_def exI [of _ True])
  qed
  ultimately show ?thesis unfolding codec_ok_def by blast
qed


end
