(* ===== verification/Attach.thy ===== *)
theory Attach
  imports Supervisor
begin

text \<open>
  A session's terminal outside the supervisor: \<^verbatim>\<open>willie attach\<close> (\<^verbatim>\<open>crates/willie-cli/src/attach.rs\<close>), the
  dialect the desktop app speaks to it (\<^verbatim>\<open>crates/willie-proto/src/hostterm.rs\<close>) and the app's bridges, one
  per session (\<^verbatim>\<open>crates/willie-engine/src/embed.rs\<close>). What a descriptor gives is a list of reads, an
  interrupted one included; whether the n-th write succeeds is a function. A read of no bytes is the end.

  Shown: keys and sizes typed in the app reach the supervisor's decoder whole and in order, however the
  two pipes cut them, and then a detach; a terminal is sent what precedes the detach key and nothing of
  what follows; a bridge carries only its own session's frames, and none is lost without being closed.
\<close>

section \<open>The host dialect\<close>

definition TAG_INPUT :: u8 where "TAG_INPUT = 0x69"
definition TAG_RESIZE :: u8 where "TAG_RESIZE = 0x72"

datatype host_frame = HInput bytes | HResize u16 u16

text \<open>\<open>u32::to_be_bytes\<close> and \<open>u32::from_be_bytes\<close>.\<close>

definition to_be32 :: "u32 \<Rightarrow> bytes" where
  "to_be32 w = [ucast (drop_bit 24 w), ucast (drop_bit 16 w), ucast (drop_bit 8 w), ucast w]"

definition from_be32 :: "u8 \<Rightarrow> u8 \<Rightarrow> u8 \<Rightarrow> u8 \<Rightarrow> u32" where
  "from_be32 a b c d = push_bit 24 (ucast a) OR push_bit 16 (ucast b) OR push_bit 8 (ucast c) OR ucast d"

lemma from_be32_to_be32 [framing]:
  "from_be32 (ucast (drop_bit 24 w)) (ucast (drop_bit 16 w)) (ucast (drop_bit 8 w)) (ucast w) = w"
proof (rule bit_word_eqI)
  fix n assume "n < LENGTH(32)"
  then consider "24 \<le> n" "n < 32" | "16 \<le> n" "n < 24" | "8 \<le> n" "n < 16" | "n < 8" by (simp, linarith)
  then show "bit (from_be32 (ucast (drop_bit 24 w)) (ucast (drop_bit 16 w)) (ucast (drop_bit 8 w)) (ucast w)) n
      \<longleftrightarrow> bit w n"
    by cases (auto simp: from_be32_def bit_simps)
qed

definition host_encode_input :: "bytes \<Rightarrow> bytes" where
  "host_encode_input bs =
     (let len = (if length bs < 2 ^ 32 then of_nat (length bs) else - 1) in TAG_INPUT # to_be32 len @ bs)"

definition host_encode_resize :: "u16 \<Rightarrow> u16 \<Rightarrow> bytes" where
  "host_encode_resize height width = TAG_RESIZE # to_be16 height @ to_be16 width"

definition decode_frame :: "bytes \<Rightarrow> u8 + (host_frame \<times> nat) option" where
  "decode_frame bs =
     (case bs of
        [] \<Rightarrow> Inr None
      | tag # rest \<Rightarrow>
          if tag = TAG_INPUT then
            if length rest < 4 then Inr None
            else let len = unat (from_be32 (rest ! 0) (rest ! 1) (rest ! 2) (rest ! 3)); body = drop 4 rest
                 in if length body < len then Inr None else Inr (Some (HInput (take len body), 5 + len))
          else if tag = TAG_RESIZE then
            if length rest < 4 then Inr None
            else Inr (Some (HResize (from_be16 (rest ! 0) (rest ! 1)) (from_be16 (rest ! 2) (rest ! 3)), 5))
          else Inl tag)"

fun host_bytes :: "host_frame \<Rightarrow> bytes" where
  "host_bytes (HInput bs) = host_encode_input bs"
| "host_bytes (HResize height width) = host_encode_resize height width"

text \<open>A frame whose length fits its field.\<close>

fun host_ok :: "host_frame \<Rightarrow> bool" where
  "host_ok (HInput bs) \<longleftrightarrow> length bs < 2 ^ 32"
| "host_ok (HResize height width) \<longleftrightarrow> True"

lemma unat_two [framing]:
  "m + n < 2 ^ 32 \<Longrightarrow> unat (word_of_nat m + word_of_nat n :: u32) = m + n"
  using unat_of_nat [of "m + n", where 'a = 32] by simp

lemma decode_host: "host_ok h \<Longrightarrow> decode_frame (host_bytes h @ rest) = Inr (Some (h, length (host_bytes h)))"
  by (cases h)
    (auto simp: decode_frame_def host_encode_input_def host_encode_resize_def to_be32_def to_be16_def framing
      unat_of_nat TAG_INPUT_def TAG_RESIZE_def Let_def)

lemma host_bytes_some: "host_bytes h \<noteq> []"
  by (cases h) (simp_all add: host_encode_input_def host_encode_resize_def Let_def)

lemma decode_part:
  assumes "host_ok h" and "host_bytes h = p @ q" and "q \<noteq> []"
  shows "decode_frame p = Inr None"
proof (cases p)
  case (Cons t r)
  show ?thesis
  proof (cases "length r < 4")
    case True
    with Cons assms show ?thesis
      by (cases h) (auto simp: decode_frame_def host_encode_input_def host_encode_resize_def Let_def)
  next
    case False
    then obtain a b c d s where r: "r = a # b # c # d # s"
      by (metis (no_types, lifting) Suc_le_length_iff not_less numeral_eq_Suc pred_numeral_simps(2)
          semiring_norm(26,27) numeral_3_eq_3 One_nat_def numeral_One)
    with Cons assms show ?thesis
      by (cases h)
        (auto simp: decode_frame_def host_encode_input_def host_encode_resize_def to_be32_def to_be16_def framing
          unat_of_nat TAG_INPUT_def TAG_RESIZE_def Let_def)
  qed
qed (simp add: decode_frame_def)

section \<open>The client\<close>

definition DETACH_KEY :: u8 where "DETACH_KEY = 0x1D"

datatype read_result = ReadBytes bytes | Interrupted | ReadFailed

fun read_bytes :: "read_result \<Rightarrow> bytes" where
  "read_bytes (ReadBytes b) = b"
| "read_bytes _ = []"

text \<open>Frames written one by one up to the first that fails: whether none did, and what is written.\<close>

fun write_each :: "(nat \<Rightarrow> bool) \<Rightarrow> bytes list \<Rightarrow> bytes list \<Rightarrow> bool \<times> bytes list" where
  "write_each ok [] ws = (True, ws)"
| "write_each ok (f # fs) ws = (if ok (length ws) then write_each ok fs (ws @ [f]) else (False, ws))"

definition input_frames :: "bytes \<Rightarrow> bytes list" where
  "input_frames bs = map (wire_encode INPUT) (chunk_list MAX_PAYLOAD bs)"

fun host_out :: "host_frame \<Rightarrow> bytes list" where
  "host_out (HInput bs) = input_frames bs"
| "host_out (HResize height width) = [encode_resize height width]"

lemma decode_uses:
  "decode_frame bs = Inr (Some (h, used)) \<Longrightarrow> 0 < used \<and> used \<le> length bs"
  by (auto simp: decode_frame_def Let_def split: list.splits if_splits)

text \<open>The inner loop: an exit code when it ends the client, the bytes left over otherwise.\<close>

function host_drain :: "(nat \<Rightarrow> bool) \<Rightarrow> bytes \<Rightarrow> bytes list \<Rightarrow> nat option \<times> bytes \<times> bytes list" where
  "host_drain ok bs ws =
     (case decode_frame bs of
        Inl t \<Rightarrow> (Some 1, bs, ws)
      | Inr None \<Rightarrow> (None, bs, ws)
      | Inr (Some (h, used)) \<Rightarrow>
          (let bs = drop used bs in
           case write_each ok (host_out h) ws of
             (True, ws) \<Rightarrow> host_drain ok bs ws
           | (False, ws) \<Rightarrow> (Some 1, bs, ws)))"
  by pat_completeness auto
termination
  by (relation "measure (\<lambda>(ok, bs, ws). length bs)") (auto dest: decode_uses)

declare host_drain.simps [simp del]

definition leave :: "(nat \<Rightarrow> bool) \<Rightarrow> bytes list \<Rightarrow> bytes list" where
  "leave ok ws = snd (write_each ok [wire_encode DETACH []] ws)"

text \<open>The exit code, none while a read is still to come, and what was written to the supervisor.\<close>

fun host_input_loop :: "(nat \<Rightarrow> bool) \<Rightarrow> read_result list \<Rightarrow> bytes \<Rightarrow> bytes list \<Rightarrow> nat option \<times> bytes list" where
  "host_input_loop ok [] bs ws = (None, ws)"
| "host_input_loop ok (ReadBytes b # rs) bs ws =
     (if b = [] then (Some 0, leave ok ws)
      else case host_drain ok (bs @ b) ws of
             (Some c, bs, ws) \<Rightarrow> (Some c, ws)
           | (None, bs, ws) \<Rightarrow> host_input_loop ok rs bs ws)"
| "host_input_loop ok (Interrupted # rs) bs ws = host_input_loop ok rs bs ws"
| "host_input_loop ok (ReadFailed # rs) bs ws = (Some 1, ws)"

text \<open>The loop of a real terminal. Each round sees the resize flag, the window's size and one read.\<close>

record round =
  ro_resized :: bool
  ro_window :: "(u16 \<times> u16) option"
  ro_read :: read_result

definition resize_frames :: "(u16 \<times> u16) option \<Rightarrow> round \<Rightarrow> bytes list" where
  "resize_frames fixed_size r =
     (if ro_resized r \<and> fixed_size = None
      then (case ro_window r of Some (height, width) \<Rightarrow> [encode_resize height width] | None \<Rightarrow> [])
      else [])"

fun input_loop :: "(u16 \<times> u16) option \<Rightarrow> (nat \<Rightarrow> bool) \<Rightarrow> round list \<Rightarrow> bytes list \<Rightarrow> nat option \<times> bytes list" where
  "input_loop fixed_size ok [] ws = (None, ws)"
| "input_loop fixed_size ok (r # rs) ws =
     (case write_each ok (resize_frames fixed_size r) ws of
        (False, ws) \<Rightarrow> (Some 1, ws)
      | (True, ws) \<Rightarrow>
          (case ro_read r of
             ReadBytes b \<Rightarrow>
               if b = [] then (Some 0, leave ok ws)
               else if DETACH_KEY \<in> set b then
                 (let typed = takeWhile (\<lambda>c. c \<noteq> DETACH_KEY) b in
                  case write_each ok (if typed \<noteq> [] then [wire_encode INPUT typed] else []) ws of
                    (True, ws) \<Rightarrow> (Some 0, leave ok ws)
                  | (False, ws) \<Rightarrow> (Some 1, ws))
               else
                 (case write_each ok (input_frames b) ws of
                    (True, ws) \<Rightarrow> input_loop fixed_size ok rs ws
                  | (False, ws) \<Rightarrow> (Some 1, ws))
           | Interrupted \<Rightarrow> input_loop fixed_size ok rs ws
           | ReadFailed \<Rightarrow> (Some 1, ws)))"

text \<open>What the end of a session is told as, and the exit code.\<close>

definition describe :: "closed option \<Rightarrow> string \<times> nat" where
  "describe cl =
     (case cl of
        None \<Rightarrow> (''willie: session ended'', 1)
      | Some cl \<Rightarrow>
          (case cl_reason cl of
             CloseExited \<Rightarrow>
               (case (cl_code cl, cl_signal cl) of
                  (Some code, _) \<Rightarrow>
                    if code = 0 then (''willie: session ended'', 0)
                    else (''willie: session exited with code '' @ nat_text (unat code), 1)
                | (None, Some signal) \<Rightarrow> (''willie: session ended by signal '' @ nat_text (unat signal), 1)
                | (None, None) \<Rightarrow> (''willie: session ended'', 1))
           | CloseStopped \<Rightarrow> (''willie: session stopped'', 0)
           | CloseShutdown \<Rightarrow> (''willie: supervisor shutting down'', 0)
           | CloseTooSlow \<Rightarrow> (''willie: connection too slow, reattach with the same command'', 1)
           | CloseProtocol \<Rightarrow> (''willie: the supervisor refused this client'', 1)))"

text \<open>The frames of one read, popped in order: \<open>finish\<close> ends the process, so those behind it are lost. The
  line on stderr and the exit code, and what the terminal was written.\<close>

fun show_frames ::
    "(bytes \<Rightarrow> closed option) \<Rightarrow> (nat \<Rightarrow> bool) \<Rightarrow> frame list \<Rightarrow> bytes list \<Rightarrow> (string \<times> nat) option \<times> bytes list" where
  "show_frames parse ok [] tty = (None, tty)"
| "show_frames parse ok (fr # frs) tty =
     (if kind fr = OUTPUT then
        (case write_each ok (if payload fr = [] then [] else [payload fr]) tty of
           (True, tty) \<Rightarrow> show_frames parse ok frs tty
         | (False, tty) \<Rightarrow> (Some (''willie: cannot write to the terminal'', 1), tty))
      else if kind fr = CLOSED then (Some (describe (parse (payload fr))), tty)
      else show_frames parse ok frs tty)"

definition lost :: "bool \<Rightarrow> string \<times> nat" where
  "lost leaving =
     (if leaving then (''willie: detached, the session keeps running'', 0)
      else (''willie: connection to the session lost'', 1))"

fun output_loop ::
    "(bytes \<Rightarrow> closed option) \<Rightarrow> (nat \<Rightarrow> bool) \<Rightarrow> bool \<Rightarrow> read_result list \<Rightarrow> decoder \<Rightarrow> bytes list \<Rightarrow>
     (string \<times> nat) option \<times> bytes list" where
  "output_loop parse ok leaving [] d tty = (None, tty)"
| "output_loop parse ok leaving (Interrupted # rs) d tty = output_loop parse ok leaving rs d tty"
| "output_loop parse ok leaving (ReadFailed # rs) d tty = (Some (lost leaving), tty)"
| "output_loop parse ok leaving (ReadBytes b # rs) d tty =
     (if b = [] then (Some (lost leaving), tty)
      else case dec_drain (dec_push d b) of (frs, d) \<Rightarrow>
        (case show_frames parse ok frs tty of
           (Some line, tty) \<Rightarrow> (Some line, tty)
         | (None, tty) \<Rightarrow> output_loop parse ok leaving rs d tty))"

text \<open>How \<open>run\<close> ends after an input loop: the line it prints, if any, and the exit code.\<close>

definition attach_end :: "bool \<Rightarrow> nat \<Rightarrow> string option \<times> nat" where
  "attach_end host code =
     (if code = 0 then (if host then (None, 0) else (Some ''willie: detached, the session keeps running'', 0))
      else (None, code))"

section \<open>From the app to the supervisor\<close>

text \<open>What the user did, as the frames of either dialect tell it.\<close>

datatype typed = Key u8 | Size u16 u16

fun host_typed :: "host_frame \<Rightarrow> typed list" where
  "host_typed (HInput bs) = map Key bs"
| "host_typed (HResize height width) = [Size height width]"

definition frame_typed :: "frame \<Rightarrow> typed list" where
  "frame_typed fr =
     (if kind fr = INPUT then map Key (payload fr)
      else if kind fr = RESIZE then
        (case decode_resize (payload fr) of Some (height, width) \<Rightarrow> [Size height width] | None \<Rightarrow> [])
      else [])"

lemma write_all [simp]: "write_each (\<lambda>_. True) fs ws = (True, ws @ fs)"
  by (induction fs arbitrary: ws) simp_all

lemma leave_ok [simp]: "leave (\<lambda>_. True) ws = ws @ [wire_encode DETACH []]"
  by (simp add: leave_def)

text \<open>Frames behind which an incomplete one waits are all passed on.\<close>

lemma host_drain_frames:
  "list_all host_ok hs \<Longrightarrow> decode_frame bs = Inr None \<Longrightarrow>
   host_drain (\<lambda>_. True) (concat (map host_bytes hs) @ bs) ws = (None, bs, ws @ concat (map host_out hs))"
proof (induction hs arbitrary: ws)
  case Nil
  then show ?case by (simp add: host_drain.simps)
next
  case (Cons h hs)
  then show ?case by (subst host_drain.simps) (simp add: decode_host Let_def)
qed

text \<open>A prefix of encoded frames is some of them and an incomplete one.\<close>

lemma prefix_frames:
  assumes "list_all host_ok hs" and "concat (map host_bytes hs) = p @ q"
  obtains hs1 hs2 r where "hs = hs1 @ hs2" and "p = concat (map host_bytes hs1) @ r"
    and "decode_frame r = Inr None" and "r @ q = concat (map host_bytes hs2)"
  using assms
proof (induction hs arbitrary: p thesis)
  case Nil
  from Nil.prems(1) [of "[]" "[]" "[]"] Nil.prems(3) show ?case by (simp add: decode_frame_def)
next
  case (Cons h hs)
  from Cons.prems(3) have eq: "host_bytes h @ concat (map host_bytes hs) = p @ q" by simp
  show ?case
  proof (cases "length (host_bytes h) \<le> length p")
    case True
    with eq obtain p' where p: "p = host_bytes h @ p'" "concat (map host_bytes hs) = p' @ q"
      by (auto simp: append_eq_append_conv2)
    from Cons.prems(2) have "list_all host_ok hs" by simp
    from Cons.IH [OF _ this p(2)] obtain hs1 hs2 r where
      "hs = hs1 @ hs2" "p' = concat (map host_bytes hs1) @ r" "decode_frame r = Inr None"
      "r @ q = concat (map host_bytes hs2)" by blast
    with Cons.prems(1) [of "h # hs1" hs2 r] p(1) show ?thesis by simp
  next
    case False
    with eq obtain q' where q: "host_bytes h = p @ q'" "q' \<noteq> []" by (auto simp: append_eq_append_conv2)
    from Cons.prems(2) have "host_ok h" by simp
    from decode_part [OF this q] Cons.prems(1) [of "[]" "h # hs" p] Cons.prems(3) show ?thesis by simp
  qed
qed

definition live_read :: "read_result \<Rightarrow> bool" where
  "live_read r \<longleftrightarrow> r \<noteq> ReadFailed \<and> r \<noteq> ReadBytes []"

lemma host_input_frames:
  "list_all host_ok hs \<Longrightarrow> list_all live_read rs \<Longrightarrow> decode_frame bs = Inr None \<Longrightarrow>
   bs @ concat (map read_bytes rs) = concat (map host_bytes hs) \<Longrightarrow>
   host_input_loop (\<lambda>_. True) (rs @ [ReadBytes []]) bs ws =
     (Some 0, ws @ concat (map host_out hs) @ [wire_encode DETACH []])"
proof (induction rs arbitrary: bs hs ws)
  case Nil
  have "hs = []"
  proof (rule ccontr)
    assume "hs \<noteq> []"
    then obtain h hs' where hs: "hs = h # hs'" by (cases hs) auto
    with Nil have "decode_frame bs = Inr (Some (h, length (host_bytes h)))"
      using decode_host [of h "concat (map host_bytes hs')"] by simp
    with Nil show False by simp
  qed
  then show ?case by simp
next
  case (Cons r rs)
  show ?case
  proof (cases r)
    case (ReadBytes b)
    with Cons.prems have b: "b \<noteq> []" and rs: "list_all live_read rs"
      by (simp_all, simp add: live_read_def)
    from Cons.prems(4) ReadBytes have "concat (map host_bytes hs) = (bs @ b) @ concat (map read_bytes rs)"
      by simp
    from prefix_frames [OF Cons.prems(1) this] obtain hs1 hs2 t where
      hs: "hs = hs1 @ hs2" "bs @ b = concat (map host_bytes hs1) @ t" "decode_frame t = Inr None"
        "t @ concat (map read_bytes rs) = concat (map host_bytes hs2)" .
    from Cons.prems(1) hs(1) have ok: "list_all host_ok hs1" "list_all host_ok hs2" by auto
    from Cons.IH [OF ok(2) rs hs(3,4)] host_drain_frames [OF ok(1) hs(3)] show ?thesis
      by (simp add: ReadBytes b hs)
  next
    case Interrupted
    with Cons show ?thesis by simp
  next
    case ReadFailed
    with Cons.prems show ?thesis by (simp add: live_read_def)
  qed
qed

text \<open>What is written for a frame are frames of the supervisor's framing that tell the same.\<close>

lemma written_frames:
  obtains frs where "concat (map host_out hs) = map frame_bytes frs" and "\<forall>fr \<in> set frs. frame_ok fr"
    and "concat (map frame_typed frs) = concat (map host_typed hs)"
proof (induction hs arbitrary: thesis)
  case Nil
  from Nil [of "[]"] show ?case by simp
next
  case (Cons h hs)
  obtain frs where frs: "concat (map host_out hs) = map frame_bytes frs" "\<forall>fr \<in> set frs. frame_ok fr"
    "concat (map frame_typed frs) = concat (map host_typed hs)" by (rule Cons.IH)
  show ?case
  proof (cases h)
    case (HInput bs)
    let ?fs = "map (\<lambda>p. \<lparr>kind = INPUT, payload = p\<rparr>) (chunk_list MAX_PAYLOAD bs)"
    have "map frame_typed ?fs = map (map Key) (chunk_list MAX_PAYLOAD bs)" by (simp add: frame_typed_def)
    then have "concat (map frame_typed ?fs) = map Key (concat (chunk_list MAX_PAYLOAD bs))"
      by (simp only: map_concat)
    then have "concat (map frame_typed ?fs) = map Key bs" by (simp add: codes)
    moreover have "\<forall>fr \<in> set ?fs. frame_ok fr"
      using chunk_list_pieces [of _ MAX_PAYLOAD bs] by (auto simp: frame_ok_def)
    ultimately show ?thesis
      using Cons.prems [of "?fs @ frs"] frs by (auto simp: HInput input_frames_def frame_bytes_def)
  next
    case (HResize height width)
    let ?f = "\<lparr>kind = RESIZE, payload = to_be16 height @ to_be16 width\<rparr>"
    have "frame_typed ?f = [Size height width]"
      by (simp add: frame_typed_def decode_resize_def to_be16_def framing codes)
    moreover have "frame_ok ?f" by (simp add: frame_ok_def to_be16_def codes)
    ultimately show ?thesis
      using Cons.prems [of "?f # frs"] frs by (simp add: HResize encode_resize_def frame_bytes_def)
  qed
qed

section \<open>From a terminal to the supervisor\<close>

text \<open>The keys before the first detach key, and each size noticed on the way.\<close>

definition noticed :: "(u16 \<times> u16) option \<Rightarrow> round \<Rightarrow> typed list" where
  "noticed fixed_size r =
     (if ro_resized r \<and> fixed_size = None
      then (case ro_window r of Some (height, width) \<Rightarrow> [Size height width] | None \<Rightarrow> []) else [])"

fun raw_typed :: "(u16 \<times> u16) option \<Rightarrow> round list \<Rightarrow> typed list" where
  "raw_typed fixed_size [] = []"
| "raw_typed fixed_size (r # rs) =
     noticed fixed_size r
     @ (let b = read_bytes (ro_read r) in
        if DETACH_KEY \<in> set b then map Key (takeWhile (\<lambda>c. c \<noteq> DETACH_KEY) b)
        else map Key b @ raw_typed fixed_size rs)"

lemma resize_written:
  "\<exists>hs. resize_frames fixed_size r = concat (map host_out hs) \<and> noticed fixed_size r = concat (map host_typed hs)"
proof (cases "ro_resized r \<and> fixed_size = None \<and> ro_window r \<noteq> None")
  case True
  then obtain height width where "ro_window r = Some (height, width)" by auto
  with True show ?thesis
    by (intro exI [of _ "[HResize height width]"]) (simp add: resize_frames_def noticed_def)
next
  case False
  then show ?thesis by (intro exI [of _ "[]"]) (auto simp: resize_frames_def noticed_def split: option.splits)
qed

definition live_round :: "round \<Rightarrow> bool" where
  "live_round r \<longleftrightarrow> live_read (ro_read r) \<and> length (read_bytes (ro_read r)) \<le> 8192"

lemma one_input: "b \<noteq> [] \<Longrightarrow> length b \<le> MAX_PAYLOAD \<Longrightarrow> [wire_encode INPUT b] = host_out (HInput b)"
  by (simp add: input_frames_def chunk_list.simps [of MAX_PAYLOAD b]) (simp add: codes)

text \<open>Every round adds frames the app could have asked for, so that what is known of those holds.\<close>

lemma input_loop_frames:
  "list_all live_round rs \<Longrightarrow>
   \<exists>hs. input_loop fixed_size (\<lambda>_. True) (rs @ [\<lparr>ro_resized = False, ro_window = None, ro_read = ReadBytes []\<rparr>]) ws =
          (Some 0, ws @ concat (map host_out hs) @ [wire_encode DETACH []])
      \<and> concat (map host_typed hs) = raw_typed fixed_size rs"
proof (induction rs arbitrary: ws)
  case Nil
  show ?case by (intro exI [of _ "[]"]) (simp add: resize_frames_def)
next
  case (Cons r rs)
  obtain hs1 where hs1: "resize_frames fixed_size r = concat (map host_out hs1)"
    "noticed fixed_size r = concat (map host_typed hs1)" using resize_written by blast
  from Cons.prems have r: "live_read (ro_read r)" "length (read_bytes (ro_read r)) \<le> 8192" and "list_all live_round rs"
    by (simp_all, simp_all add: live_round_def)
  note IH = Cons.IH [OF this(3)]
  show ?case
  proof (cases "ro_read r")
    case (ReadBytes b)
    with r have b: "b \<noteq> []" "length b \<le> 8192" by (simp_all add: live_read_def)
    show ?thesis
    proof (cases "DETACH_KEY \<in> set b")
      case True
      let ?t = "takeWhile (\<lambda>c. c \<noteq> DETACH_KEY) b"
      have "length ?t \<le> MAX_PAYLOAD" using b(2) length_takeWhile_le [of "\<lambda>c. c \<noteq> DETACH_KEY" b] by (simp add: codes)
      with one_input [of ?t] hs1 True b ReadBytes show ?thesis
        by (intro exI [of _ "hs1 @ (if ?t = [] then [] else [HInput ?t])"]) (simp add: Let_def)
    next
      case False
      from IH [of "ws @ concat (map host_out hs1) @ input_frames b"] obtain hs2 where
        "input_loop fixed_size (\<lambda>_. True) (rs @ [\<lparr>ro_resized = False, ro_window = None, ro_read = ReadBytes []\<rparr>])
           (ws @ concat (map host_out hs1) @ input_frames b) =
           (Some 0, (ws @ concat (map host_out hs1) @ input_frames b) @ concat (map host_out hs2) @ [wire_encode DETACH []])"
        "concat (map host_typed hs2) = raw_typed fixed_size rs" by blast
      with hs1 False b ReadBytes show ?thesis
        by (intro exI [of _ "hs1 @ HInput b # hs2"]) (simp add: Let_def)
    qed
  next
    case Interrupted
    from IH [of "ws @ concat (map host_out hs1)"] obtain hs2 where
      "input_loop fixed_size (\<lambda>_. True) (rs @ [\<lparr>ro_resized = False, ro_window = None, ro_read = ReadBytes []\<rparr>])
         (ws @ concat (map host_out hs1)) =
         (Some 0, (ws @ concat (map host_out hs1)) @ concat (map host_out hs2) @ [wire_encode DETACH []])"
      "concat (map host_typed hs2) = raw_typed fixed_size rs" by blast
    with hs1 Interrupted show ?thesis by (intro exI [of _ "hs1 @ hs2"]) simp
  next
    case ReadFailed
    with r show ?thesis by (simp add: live_read_def)
  qed
qed

section \<open>What the terminal shows\<close>

lemma show_append:
  "show_frames parse ok (as @ bs) tty =
     (case show_frames parse ok as tty of (Some l, t) \<Rightarrow> (Some l, t) | (None, t) \<Rightarrow> show_frames parse ok bs t)"
  by (induction as arbitrary: tty) (auto split: prod.split bool.split option.split)

text \<open>The reads do not matter, only the bytes.\<close>

lemma output_loop_whole:
  "list_all live_read rs \<Longrightarrow> drained ([], d) \<Longrightarrow>
   output_loop parse ok leaving rs d tty =
     show_frames parse ok (fst (dec_drain (dec_push d (concat (map read_bytes rs))))) tty"
proof (induction rs arbitrary: d tty)
  case Nil
  then show ?case using dec_drain_drained [of "[]" d] by (simp add: dec_push_def)
next
  case (Cons r rs)
  from Cons.prems(1) have live: "list_all live_read rs" "live_read r" by simp_all
  show ?case
  proof (cases r)
    case (ReadBytes b)
    let ?all = "concat (map read_bytes rs)"
    obtain as d1 where a: "dec_drain (dec_push d b) = (as, d1)" by (cases "dec_drain (dec_push d b)")
    obtain bs d2 where b: "dec_drain (dec_push d1 ?all) = (bs, d2)" by (cases "dec_drain (dec_push d1 ?all)")
    have d1: "drained ([], d1)" using dec_drain_spec [OF a] by (simp add: drained_def)
    have "dec_drain (dec_push d (b @ ?all)) = (as @ bs, d2)"
      using dec_recv_recv [OF Cons.prems(2), of b ?all] a b
      by (cases "dec_drain (dec_push d (b @ ?all))") (simp add: dec_recv_def)
    with live ReadBytes a b Cons.IH [OF live(1) d1] show ?thesis
      by (auto simp: live_read_def show_append split: prod.split option.split)
  qed (use live Cons.IH [OF live(1) Cons.prems(2)] in \<open>simp_all add: live_read_def\<close>)
qed

lemma show_until_closed:
  "\<forall>fr \<in> set frs. kind fr \<noteq> CLOSED \<Longrightarrow> kind c = CLOSED \<Longrightarrow>
   \<exists>ws. show_frames parse (\<lambda>_. True) (frs @ c # later) tty = (Some (describe (parse (payload c))), tty @ ws)
      \<and> concat ws = concat (map payload (filter (\<lambda>fr. kind fr = OUTPUT) frs))"
proof (induction frs arbitrary: tty)
  case Nil
  then show ?case by (simp add: codes)
next
  case (Cons fr frs)
  then have IH: "\<exists>ws. show_frames parse (\<lambda>_. True) (frs @ c # later) t = (Some (describe (parse (payload c))), t @ ws)
      \<and> concat ws = concat (map payload (filter (\<lambda>fr. kind fr = OUTPUT) frs))" for t by simp
  let ?w = "if kind fr = OUTPUT \<and> payload fr \<noteq> [] then [payload fr] else []"
  from IH [of "tty @ ?w"] obtain ws where
    "show_frames parse (\<lambda>_. True) (frs @ c # later) (tty @ ?w) = (Some (describe (parse (payload c))), (tty @ ?w) @ ws)"
    "concat ws = concat (map payload (filter (\<lambda>fr. kind fr = OUTPUT) frs))" by blast
  with Cons.prems(1) show ?case by (intro exI [of _ "?w @ ws"]) (auto split: if_splits)
qed

text \<open>Until the supervisor says how the session ended, the terminal is written its output and nothing else,
  however the socket cuts it; then the client says so and ends, and what comes later is not shown.\<close>
theorem terminal_shows:
  assumes "\<forall>fr \<in> set (frs @ c # later). frame_ok fr" and "\<forall>fr \<in> set frs. kind fr \<noteq> CLOSED" and "kind c = CLOSED"
    and "list_all live_read rs" and "concat (map read_bytes rs) = concat (map frame_bytes (frs @ c # later))"
  shows "\<exists>ws. output_loop parse (\<lambda>_. True) leaving rs dec_new [] = (Some (describe (parse (payload c))), ws)
     \<and> concat ws = concat (map payload (filter (\<lambda>fr. kind fr = OUTPUT) frs))"
proof -
  have "fst (dec_drain (dec_push dec_new (concat (map read_bytes rs)))) = frs @ c # later"
    using dec_drain_encode [OF assms(1), of "[]" dec_new] assms(5)
    by (simp add: dec_push_def dec_new_def dec_pop_def codes)
  then show ?thesis
    using output_loop_whole [OF assms(4) drained_new, of parse "\<lambda>_. True" leaving "[]"]
      show_until_closed [OF assms(2,3), of parse later "[]"] by simp
qed

section \<open>The app's bridges\<close>

text \<open>A bridge is the child that renders one session. What is kept: the open ones by session, how many there have
  been, what each was written, and those closed, in order.\<close>

record bridges =
  br_open :: "session_id \<rightharpoonup> nat"
  br_next :: nat
  br_frames :: "(nat \<times> bytes) list"
  br_closed :: "nat list"

definition bridges_new :: bridges where
  "bridges_new = \<lparr>br_open = Map.empty, br_next = 0, br_frames = [], br_closed = []\<rparr>"

definition bridges_remove :: "session_id \<Rightarrow> bridges \<Rightarrow> bridges" where
  "bridges_remove i s =
     (case br_open s i of
        Some b \<Rightarrow> s\<lparr>br_open := (br_open s)(i := None), br_closed := br_closed s @ [b]\<rparr>
      | None \<Rightarrow> s)"

definition bridges_insert :: "session_id \<Rightarrow> nat \<Rightarrow> bridges \<Rightarrow> bridges" where
  "bridges_insert i b s = (let s = bridges_remove i s in s\<lparr>br_open := (br_open s)(i \<mapsto> b)\<rparr>)"

text \<open>The error names the session that has none.\<close>

definition bridges_write :: "session_id \<Rightarrow> bytes \<Rightarrow> bridges \<Rightarrow> (session_id + unit) \<times> bridges" where
  "bridges_write i f s =
     (case br_open s i of
        Some b \<Rightarrow> (Inr (), s\<lparr>br_frames := br_frames s @ [(b, f)]\<rparr>)
      | None \<Rightarrow> (Inl i, s))"

text \<open>The map is drained in an order of its own.\<close>

definition bridges_close_all :: "nat list \<Rightarrow> bridges \<Rightarrow> bridges" where
  "bridges_close_all order s = s\<lparr>br_open := Map.empty, br_closed := br_closed s @ order\<rparr>"

definition session_terminal_open :: "session_id \<Rightarrow> bridges \<Rightarrow> bridges" where
  "session_terminal_open i s = bridges_insert i (br_next s) (s\<lparr>br_next := br_next s + 1\<rparr>)"

definition session_terminal_input :: "session_id \<Rightarrow> bytes \<Rightarrow> bridges \<Rightarrow> (session_id + unit) \<times> bridges" where
  "session_terminal_input i bs = bridges_write i (host_encode_input bs)"

definition session_terminal_resize :: "session_id \<Rightarrow> u16 \<Rightarrow> u16 \<Rightarrow> bridges \<Rightarrow> (session_id + unit) \<times> bridges" where
  "session_terminal_resize i height width = bridges_write i (host_encode_resize height width)"

definition session_terminal_close :: "session_id \<Rightarrow> bridges \<Rightarrow> bridges" where
  "session_terminal_close = bridges_remove"

datatype bridge_op = BOpen session_id | BFrame session_id host_frame | BClose session_id

fun bridge_step :: "bridges \<Rightarrow> bridge_op \<Rightarrow> bridges" where
  "bridge_step s (BOpen i) = session_terminal_open i s"
| "bridge_step s (BFrame i (HInput bs)) = snd (session_terminal_input i bs s)"
| "bridge_step s (BFrame i (HResize height width)) = snd (session_terminal_resize i height width s)"
| "bridge_step s (BClose i) = session_terminal_close i s"

text \<open>What a session's bridge should hold after some operations, none when it should have none.\<close>

fun expect :: "session_id \<Rightarrow> host_frame list option \<Rightarrow> bridge_op \<Rightarrow> host_frame list option" where
  "expect i acc (BOpen j) = (if i = j then Some [] else acc)"
| "expect i acc (BFrame j f) = (if i = j then map_option (\<lambda>fs. fs @ [f]) acc else acc)"
| "expect i acc (BClose j) = (if i = j then None else acc)"

definition written_to :: "bridges \<Rightarrow> nat \<Rightarrow> bytes list" where
  "written_to s b = map snd (filter (\<lambda>(c, f). c = b) (br_frames s))"

definition bridges_ok :: "bridges \<Rightarrow> bool" where
  "bridges_ok s \<longleftrightarrow>
     inj_on (br_open s) (dom (br_open s))
     \<and> ran (br_open s) \<union> set (br_closed s) = {..<br_next s}
     \<and> ran (br_open s) \<inter> set (br_closed s) = {} \<and> distinct (br_closed s)
     \<and> fst ` set (br_frames s) \<subseteq> {..<br_next s}"

lemma bridge_frame: "bridge_step s (BFrame i f) = snd (bridges_write i (host_bytes f) s)"
  by (cases f) (simp_all add: session_terminal_input_def session_terminal_resize_def)

lemma ran_without:
  "inj_on m (dom m) \<Longrightarrow> m i = Some b \<Longrightarrow> ran (m(i := None)) = ran m - {b}"
  by (force simp: ran_def dom_def inj_on_def)

lemma written_remove: "written_to (bridges_remove i s) = written_to s"
  by (auto simp: written_to_def bridges_remove_def fun_eq_iff split: option.split)

lemma remove_ok:
  assumes "bridges_ok s"
  shows "bridges_ok (bridges_remove i s)"
proof (cases "br_open s i")
  case None
  with assms show ?thesis by (simp add: bridges_remove_def)
next
  case (Some b)
  then have b: "b \<in> ran (br_open s)" by (rule ranI)
  have "inj_on ((br_open s)(i := None)) (dom ((br_open s)(i := None)))"
    using assms by (auto simp: bridges_ok_def inj_on_def)
  with assms b ran_without [of "br_open s" i b] Some show ?thesis
    by (auto simp: bridges_remove_def bridges_ok_def)
qed

lemma open_ok:
  assumes "bridges_ok s"
  shows "bridges_ok (session_terminal_open i s)"
proof -
  let ?s = "bridges_remove i s"
  have ok: "bridges_ok ?s" using assms by (rule remove_ok)
  have i: "br_open ?s i = None" and next': "br_next ?s = br_next s"
    by (auto simp: bridges_remove_def split: option.split)
  have new: "session_terminal_open i s = ?s\<lparr>br_next := br_next s + 1, br_open := (br_open ?s)(i \<mapsto> br_next s)\<rparr>"
    by (cases "br_open s i") (simp_all add: session_terminal_open_def bridges_insert_def bridges_remove_def Let_def)
  have fresh: "br_next s \<notin> ran (br_open ?s)" using ok next' by (auto simp: bridges_ok_def)
  have "inj_on ((br_open ?s)(i \<mapsto> br_next s)) (dom ((br_open ?s)(i \<mapsto> br_next s)))"
    using ok fresh by (auto simp: bridges_ok_def inj_on_def ran_def)
  moreover have "ran ((br_open ?s)(i \<mapsto> br_next s)) = insert (br_next s) (ran (br_open ?s))" using i by simp
  ultimately show ?thesis using ok fresh next' unfolding new
    by (auto simp: bridges_ok_def lessThan_Suc)
qed

lemma write_ok: "bridges_ok s \<Longrightarrow> bridges_ok (snd (bridges_write i f s))"
  by (auto simp: bridges_write_def bridges_ok_def ran_def split: option.split)

interpretation bridge: invariant_fold bridge_step bridges_ok
proof
  show "bridges_ok (bridge_step s e)" if "bridges_ok s" for s e
    using that by (cases e) (simp_all add: open_ok bridge_frame write_ok session_terminal_close_def remove_ok)
qed

lemma bridges_new_ok: "bridges_ok bridges_new"
  by (simp add: bridges_ok_def bridges_new_def)

lemma expect_step:
  assumes "bridges_ok s" and "map_option (written_to s) (br_open s i) = map_option (map host_bytes) acc"
  shows "map_option (written_to (bridge_step s e)) (br_open (bridge_step s e) i) =
    map_option (map host_bytes) (expect i acc e)"
proof (cases e)
  case (BOpen j)
  have "written_to (session_terminal_open j s) = written_to s"
    by (auto simp: written_to_def session_terminal_open_def bridges_insert_def bridges_remove_def Let_def
        fun_eq_iff split: option.split)
  moreover have "br_open (session_terminal_open j s) = (br_open s)(j \<mapsto> br_next s)"
    by (auto simp: session_terminal_open_def bridges_insert_def bridges_remove_def Let_def split: option.split)
  moreover have "written_to s (br_next s) = []"
    using assms(1) by (force simp: written_to_def bridges_ok_def filter_empty_conv)
  ultimately show ?thesis using assms(2) BOpen by simp
next
  case (BFrame j f)
  show ?thesis
  proof (cases "br_open s j")
    case None
    then show ?thesis using assms(2) BFrame by (cases "i = j") (auto simp: bridge_frame bridges_write_def)
  next
    case (Some b)
    have other: "br_open s i \<noteq> Some b" if "i \<noteq> j"
      using assms(1) Some that by (auto simp: bridges_ok_def inj_on_def dom_def)
    show ?thesis using assms(2) BFrame Some other
      by (cases "i = j"; cases "br_open s i"; cases acc)
        (auto simp: bridge_frame bridges_write_def written_to_def)
  qed
next
  case (BClose j)
  then show ?thesis using assms(2) written_remove [of j s]
    by (auto simp: session_terminal_close_def bridges_remove_def split: option.splits)
qed

lemma expected_frames:
  "map_option (written_to (foldl bridge_step bridges_new es)) (br_open (foldl bridge_step bridges_new es) i) =
     map_option (map host_bytes) (foldl (expect i) None es)"
proof (induction es rule: rev_induct)
  case Nil
  show ?case by (simp add: bridges_new_def)
next
  case (snoc e es)
  from expect_step [OF bridge.foldl_inv [OF bridges_new_ok] this, of e] show ?case by simp
qed

lemma close_all_ok:
  assumes "bridges_ok s" and "set order = ran (br_open s)" and "distinct order"
  shows "bridges_ok (bridges_close_all order s) \<and> set (br_closed (bridges_close_all order s)) = {..<br_next s}"
  using assms by (auto simp: bridges_ok_def bridges_close_all_def)

section \<open>Properties\<close>

text \<open>(C31) What the user types into a session shown in the app, and every size its terminal takes, reaches the
  supervisor as it was done: however the app's pipe and the supervisor's socket cut the bytes, its decoder
  gets frames that tell the same keys and sizes in the same order, then the detach that the end of the
  pipe means, and nothing else, and the client exits cleanly.\<close>
theorem typing_arrives:
  assumes "list_all host_ok hs" and "list_all live_read rs"
    and "concat (map read_bytes rs) = concat (map host_bytes hs)"
  shows "\<exists>ws frs. host_input_loop (\<lambda>_. True) (rs @ [ReadBytes []]) [] [] = (Some 0, ws)
     \<and> (\<forall>pieces. concat pieces = concat ws \<longrightarrow>
          foldl dec_recv ([], dec_new) pieces = (frs @ [\<lparr>kind = DETACH, payload = []\<rparr>], dec_new))
     \<and> concat (map frame_typed frs) = concat (map host_typed hs)"
proof -
  obtain frs where frs: "concat (map host_out hs) = map frame_bytes frs" "\<forall>fr \<in> set frs. frame_ok fr"
    "concat (map frame_typed frs) = concat (map host_typed hs)" by (rule written_frames)
  have "host_input_loop (\<lambda>_. True) (rs @ [ReadBytes []]) [] [] =
      (Some 0, map frame_bytes (frs @ [\<lparr>kind = DETACH, payload = []\<rparr>]))"
    using host_input_frames [OF assms(1,2), of "[]" "[]"] assms(3) frs(1)
    by (simp add: decode_frame_def frame_bytes_def)
  moreover have "foldl dec_recv ([], dec_new) pieces = (frs @ [\<lparr>kind = DETACH, payload = []\<rparr>], dec_new)"
    if "concat pieces = concat (map frame_bytes (frs @ [\<lparr>kind = DETACH, payload = []\<rparr>]))" for pieces
    using wire_delivers [OF _ that] frs(2) by (simp add: frame_ok_def)
  ultimately show ?thesis using frs(3) by blast
qed

theorem typing_arrives_witness:
  "\<exists>ws frs. host_input_loop (\<lambda>_. True)
        ([ReadBytes [0x69, 0, 0], Interrupted, ReadBytes [0, 2, 0x6C, 0x73, 0x72, 0, 24], ReadBytes [0, 80]] @ [ReadBytes []])
        [] [] = (Some 0, ws)
     \<and> foldl dec_recv ([], dec_new) ws = (frs @ [\<lparr>kind = DETACH, payload = []\<rparr>], dec_new)
     \<and> concat (map frame_typed frs) = [Key 0x6C, Key 0x73, Size 24 80]"
  using typing_arrives [of "[HInput [0x6C, 0x73], HResize 24 80]"
      "[ReadBytes [0x69, 0, 0], Interrupted, ReadBytes [0, 2, 0x6C, 0x73, 0x72, 0, 24], ReadBytes [0, 80]]"]
  by (fastforce simp: live_read_def host_encode_input_def host_encode_resize_def to_be32_def to_be16_def
      TAG_INPUT_def TAG_RESIZE_def)

text \<open>A real terminal sends the supervisor what was typed before the detach key, whatever the reads, then the
  detach.\<close>
theorem raw_typing_arrives:
  assumes "list_all live_round rs"
  shows "\<exists>ws frs. input_loop fixed_size (\<lambda>_. True)
       (rs @ [\<lparr>ro_resized = False, ro_window = None, ro_read = ReadBytes []\<rparr>]) [] = (Some 0, ws)
     \<and> foldl dec_recv ([], dec_new) ws = (frs @ [\<lparr>kind = DETACH, payload = []\<rparr>], dec_new)
     \<and> concat (map frame_typed frs) = raw_typed fixed_size rs"
proof -
  obtain hs where hs: "input_loop fixed_size (\<lambda>_. True)
      (rs @ [\<lparr>ro_resized = False, ro_window = None, ro_read = ReadBytes []\<rparr>]) [] =
      (Some 0, concat (map host_out hs) @ [wire_encode DETACH []])"
    "concat (map host_typed hs) = raw_typed fixed_size rs"
    using input_loop_frames [OF assms, of fixed_size "[]"] by auto
  obtain frs where frs: "concat (map host_out hs) = map frame_bytes frs" "\<forall>fr \<in> set frs. frame_ok fr"
    "concat (map frame_typed frs) = concat (map host_typed hs)" by (rule written_frames)
  let ?all = "frs @ [\<lparr>kind = DETACH, payload = []\<rparr>]"
  have "concat (map host_out hs) @ [wire_encode DETACH []] = map frame_bytes ?all"
    using frs(1) by (simp add: frame_bytes_def)
  moreover have "foldl dec_recv ([], dec_new) (map frame_bytes ?all) = (?all, dec_new)"
    using wire_delivers [of ?all "map frame_bytes ?all"] frs(2) by (simp add: frame_ok_def)
  ultimately show ?thesis using hs frs(3) by metis
qed

text \<open>(C37) Whatever bridges are opened, reopened, written and closed: a session's bridge has been written
  exactly the frames sent to that session since it was opened, and a session has a bridge exactly while it
  should; each bridge ever opened serves one session or has been closed, once.\<close>
theorem bridges_routed:
  "map_option (written_to (foldl bridge_step bridges_new es)) (br_open (foldl bridge_step bridges_new es) i) =
     map_option (map host_bytes) (foldl (expect i) None es)
   \<and> fst (bridges_write i f (foldl bridge_step bridges_new es)) =
       (if foldl (expect i) None es = None then Inl i else Inr ())
   \<and> bridges_ok (foldl bridge_step bridges_new es)"
proof -
  note frames = expected_frames [of es i]
  then have "br_open (foldl bridge_step bridges_new es) i = None \<longleftrightarrow> foldl (expect i) None es = None"
    by (cases "foldl (expect i) None es") auto
  then have "fst (bridges_write i f (foldl bridge_step bridges_new es)) =
       (if foldl (expect i) None es = None then Inl i else Inr ())"
    by (auto simp: bridges_write_def split: option.split)
  with frames bridge.foldl_inv [OF bridges_new_ok] show ?thesis by blast
qed

end
