(* ===== verification/Engine_Rpc.thy ===== *)
theory Engine_Rpc
  imports Server
begin

text \<open>
  The engine's JSON-RPC client (\<^verbatim>\<open>crates/willie-engine/src/rpc.rs\<close>). One thread reads the daemon's lines; a
  call registers, sends and waits, at most one at a time because it holds the client. A step is what one of
  the two does under one lock: the reader takes a waiter out of the inbox in one step and hands it its
  response in another. Reading a line as a response or as a notification is a parameter.

  Shown: a call that returns a response returns the first one with its id that was read after it had
  registered; it reports a closed daemon only if the lines have ended without one; and once they have ended
  nobody is left waiting.
\<close>

section \<open>Lines\<close>

record wire_response =
  wr_id :: u64
  wr_result :: "json option"
  wr_error :: "rpc_error option"

definition into_result :: "wire_response \<Rightarrow> rpc_error + json" where
  "into_result r =
     (case wr_error r of
        Some e \<Rightarrow> Inl e
      | None \<Rightarrow> Inr (case wr_result r of Some v \<Rightarrow> v | None \<Rightarrow> JNull))"

record 'n line_text =
  lt_response :: "string \<Rightarrow> wire_response option"
  lt_notification :: "string \<Rightarrow> 'n option"

definition STRAY_LINES :: nat where "STRAY_LINES = 8"

definition remember_stray :: "string \<Rightarrow> string list \<Rightarrow> string list" where
  "remember_stray line buf =
     (let t = trim_ws line in
      if t = [] then buf
      else (if length buf = STRAY_LINES then tl buf else buf) @ [t])"

section \<open>The client\<close>

text \<open>The call in progress: its id, its channel, how many lines had been read when it registered, what has landed in its
  channel, and whether its wait has timed out.\<close>

record rpc_call =
  ca_id :: u64
  ca_chan :: nat
  ca_method :: string
  ca_from :: nat
  ca_mail :: "wire_response option"
  ca_late :: bool

datatype call_end = Answered wire_response | TimedOut | Closed

record 'n rpc_client =
  rc_open :: bool
  rc_next :: u64
  rc_waiters :: "u64 \<rightharpoonup> nat"
  rc_chans :: nat
  rc_closed :: bool
  rc_hand :: "(nat \<times> wire_response) option"
  rc_stray :: "string list"
  rc_subs :: "(nat \<times> bool \<times> 'n list) list"
  rc_call :: "rpc_call option"
  rc_read :: "string list"

definition client_new :: "'n rpc_client" where
  "client_new =
     \<lparr>rc_open = True, rc_next = 1, rc_waiters = Map.empty, rc_chans = 0, rc_closed = False, rc_hand = None, rc_stray = [],
      rc_subs = [], rc_call = None, rc_read = []\<rparr>"

definition fan_out :: "'n \<Rightarrow> (nat \<times> bool \<times> 'n list) list \<Rightarrow> (nat \<times> bool \<times> 'n list) list" where
  "fan_out n subs = map (\<lambda>(i, alive, q). (i, alive, q @ [n])) (filter (\<lambda>(i, alive, q). alive) subs)"

text \<open>What the reader does with one line.\<close>

definition read_line :: "'n line_text \<Rightarrow> string \<Rightarrow> 'n rpc_client \<Rightarrow> 'n rpc_client" where
  "read_line lt line c =
     (let c = c\<lparr>rc_read := rc_read c @ [line]\<rparr> in
      case lt_response lt line of
        Some r \<Rightarrow>
          (case rc_waiters c (wr_id r) of
             Some ch \<Rightarrow> c\<lparr>rc_waiters := (rc_waiters c)(wr_id r := None), rc_hand := Some (ch, r)\<rparr>
           | None \<Rightarrow> c)
      | None \<Rightarrow>
          (case lt_notification lt line of
             Some n \<Rightarrow> c\<lparr>rc_subs := fan_out n (rc_subs c)\<rparr>
           | None \<Rightarrow> c\<lparr>rc_stray := remember_stray line (rc_stray c)\<rparr>))"

text \<open>The start of a call: the error it returns at once, or the call it becomes. Whether the write of its
  line succeeds does not matter to what follows.\<close>

definition begin_call :: "string \<Rightarrow> 'n rpc_client \<Rightarrow> call_end option \<times> 'n rpc_client" where
  "begin_call m c =
     (let i = rc_next c; c = c\<lparr>rc_next := i + 1\<rparr> in
      if \<not> rc_open c then (Some Closed, c)
      else if rc_closed c then (Some Closed, c)
      else (None, c\<lparr>rc_waiters := (rc_waiters c)(i \<mapsto> rc_chans c), rc_chans := rc_chans c + 1,
                    rc_call := Some \<lparr>ca_id = i, ca_chan = rc_chans c, ca_method = m, ca_from = length (rc_read c), ca_mail = None,
                                     ca_late = False\<rparr>\<rparr>))"

datatype rpc_event =
    BeginCall string
  | ReadLine string
  | HandOver
  | LinesEnd
  | WaitOver
  | EndCall call_end
  | Subscribe nat
  | LoseSubscriber nat
  | CloseInput

inductive rpc_step :: "'n line_text \<Rightarrow> 'n rpc_client \<Rightarrow> rpc_event \<Rightarrow> 'n rpc_client \<Rightarrow> bool" for lt where
  call: "rc_call c = None \<Longrightarrow> rpc_step lt c (BeginCall m) (snd (begin_call m c))"
| read: "\<not> rc_closed c \<Longrightarrow> rc_hand c = None \<Longrightarrow> rpc_step lt c (ReadLine line) (read_line lt line c)"
| hand_over: "rc_hand c = Some (ch, r) \<Longrightarrow>
     rpc_step lt c HandOver
       (c\<lparr>rc_hand := None,
          rc_call := map_option (\<lambda>k. if ca_chan k = ch then k\<lparr>ca_mail := Some r\<rparr> else k) (rc_call c)\<rparr>)"
| lines_end: "\<not> rc_closed c \<Longrightarrow> rc_hand c = None \<Longrightarrow>
     rpc_step lt c LinesEnd (c\<lparr>rc_closed := True, rc_waiters := Map.empty\<rparr>)"
| answered: "rc_call c = Some k \<Longrightarrow> \<not> ca_late k \<Longrightarrow> ca_mail k = Some r \<Longrightarrow>
     rpc_step lt c (EndCall (Answered r)) (c\<lparr>rc_call := None\<rparr>)"
| wait_over: "rc_call c = Some k \<Longrightarrow> \<not> ca_late k \<Longrightarrow> ca_mail k = None \<Longrightarrow>
     rpc_step lt c WaitOver (c\<lparr>rc_call := Some (k\<lparr>ca_late := True\<rparr>)\<rparr>)"
| timed_out: "rc_call c = Some k \<Longrightarrow> ca_late k \<Longrightarrow>
     rpc_step lt c (EndCall TimedOut) (c\<lparr>rc_call := None, rc_waiters := (rc_waiters c)(ca_id k := None)\<rparr>)"
| disconnected: "rc_call c = Some k \<Longrightarrow> \<not> ca_late k \<Longrightarrow> ca_mail k = None \<Longrightarrow> ca_chan k \<notin> ran (rc_waiters c) \<Longrightarrow>
     map_option fst (rc_hand c) \<noteq> Some (ca_chan k) \<Longrightarrow>
     rpc_step lt c (EndCall Closed) (c\<lparr>rc_call := None\<rparr>)"
| subscribe: "i \<notin> fst ` set (rc_subs c) \<Longrightarrow>
     rpc_step lt c (Subscribe i) (c\<lparr>rc_subs := rc_subs c @ [(i, True, [])]\<rparr>)"
| lose: "rpc_step lt c (LoseSubscriber i)
     (c\<lparr>rc_subs := map (\<lambda>(j, alive, q). (j, alive \<and> j \<noteq> i, q)) (rc_subs c)\<rparr>)"
| close: "rc_call c = None \<Longrightarrow> rpc_step lt c CloseInput (c\<lparr>rc_open := False\<rparr>)"

inductive_cases end_callE: "rpc_step lt c (EndCall out) c'"

inductive rpc_reach :: "'n line_text \<Rightarrow> 'n rpc_client \<Rightarrow> bool" for lt where
  start: "rpc_reach lt client_new"
| step: "rpc_reach lt c \<Longrightarrow> rpc_step lt c e c' \<Longrightarrow> rpc_reach lt c'"

section \<open>The invariant\<close>

text \<open>The responses with a call's id among the lines read since it registered.\<close>

definition replies_since :: "'n line_text \<Rightarrow> nat \<Rightarrow> u64 \<Rightarrow> string list \<Rightarrow> wire_response list" where
  "replies_since lt n i lines =
     filter (\<lambda>r. wr_id r = i) (List.map_filter (lt_response lt) (drop n lines))"

text \<open>Where the first of them is: nowhere yet, in the reader's hand, or in the channel.\<close>

definition call_ok :: "'n line_text \<Rightarrow> 'n rpc_client \<Rightarrow> rpc_call \<Rightarrow> bool" where
  "call_ok lt c k \<longleftrightarrow>
     ca_from k \<le> length (rc_read c) \<and> ca_chan k < rc_chans c
     \<and> (rc_waiters c = Map.empty \<or> rc_waiters c = [ca_id k \<mapsto> ca_chan k])
     \<and> (case replies_since lt (ca_from k) (ca_id k) (rc_read c) of
          [] \<Rightarrow> ca_mail k = None \<and> map_option fst (rc_hand c) \<noteq> Some (ca_chan k)
                \<and> (rc_waiters c \<noteq> Map.empty \<or> rc_closed c)
        | r # rs \<Rightarrow> rc_waiters c = Map.empty
                \<and> (ca_mail k = Some r \<and> map_option fst (rc_hand c) \<noteq> Some (ca_chan k)
                   \<or> ca_mail k = None \<and> rc_hand c = Some (ca_chan k, r)))"

definition client_ok :: "'n line_text \<Rightarrow> 'n rpc_client \<Rightarrow> bool" where
  "client_ok lt c \<longleftrightarrow>
     (rc_closed c \<longrightarrow> rc_waiters c = Map.empty \<and> rc_hand c = None)
     \<and> length (rc_stray c) \<le> STRAY_LINES
     \<and> (\<forall>ch r. rc_hand c = Some (ch, r) \<longrightarrow> ch < rc_chans c)
     \<and> (case rc_call c of None \<Rightarrow> rc_waiters c = Map.empty | Some k \<Rightarrow> call_ok lt c k)"

lemma replies_same [simp]:
  "replies_since lt (length xs) i xs = []"
  by (simp add: replies_since_def map_filter_def)

lemma replies_snoc:
  "n \<le> length xs \<Longrightarrow> replies_since lt n i (xs @ [x]) =
     replies_since lt n i xs @ (case lt_response lt x of Some r \<Rightarrow> if wr_id r = i then [r] else [] | None \<Rightarrow> [])"
  by (simp add: replies_since_def map_filter_def split: option.split)

lemma remember_bounded: "length buf \<le> STRAY_LINES \<Longrightarrow> length (remember_stray line buf) \<le> STRAY_LINES"
  by (auto simp: remember_stray_def Let_def STRAY_LINES_def)

lemma client_ok_read:
  assumes ok: "client_ok lt c" and hand: "rc_hand c = None" and open': "\<not> rc_closed c"
  shows "client_ok lt (read_line lt line c)"
proof (cases "lt_response lt line")
  case None
  then show ?thesis using ok hand remember_bounded
    by (auto simp: client_ok_def call_ok_def read_line_def Let_def replies_snoc split: option.splits list.splits)
next
  case (Some r)
  show ?thesis
  proof (cases "rc_call c")
    case None
    with Some ok hand show ?thesis by (auto simp: client_ok_def read_line_def Let_def)
  next
    case call: (Some k)
    let ?rs = "replies_since lt (ca_from k) (ca_id k) (rc_read c)"
    from ok call have k: "call_ok lt c k" by (simp add: client_ok_def)
    show ?thesis
    proof (cases ?rs)
      case Nil
      with k open' have w: "rc_waiters c = [ca_id k \<mapsto> ca_chan k]" "ca_mail k = None" by (auto simp: call_ok_def)
      with Some call ok hand k Nil show ?thesis
        by (cases "wr_id r = ca_id k") (auto simp: client_ok_def call_ok_def read_line_def Let_def replies_snoc)
    next
      case (Cons r' rs)
      with k have "rc_waiters c = Map.empty" by (simp add: call_ok_def)
      with Some call ok hand k Cons show ?thesis
        by (auto simp: client_ok_def call_ok_def read_line_def Let_def replies_snoc)
    qed
  qed
qed

lemma client_ok_step: "rpc_step lt c e c' \<Longrightarrow> client_ok lt c \<Longrightarrow> client_ok lt c'"
proof (induction rule: rpc_step.induct)
  case (call c m)
  then show ?case by (auto simp: client_ok_def call_ok_def begin_call_def Let_def)
next
  case (read c line)
  then show ?case by (intro client_ok_read)
next
  case (hand_over c ch r)
  then show ?case
    by (auto simp: client_ok_def call_ok_def split: option.splits list.splits)
next
  case (lines_end c)
  then show ?case by (auto simp: client_ok_def call_ok_def split: option.splits list.splits)
next
  case (timed_out c k)
  then show ?case by (auto simp: client_ok_def call_ok_def)
next
  case (disconnected c k)
  then show ?case by (auto simp: client_ok_def call_ok_def split: list.splits)
next
  case (answered c k r)
  then show ?case by (auto simp: client_ok_def call_ok_def split: list.splits)
next
  case (wait_over c k)
  then show ?case by (auto simp: client_ok_def call_ok_def split: list.splits)
qed (auto simp: client_ok_def call_ok_def split: option.splits list.splits)

lemma client_ok_reach: "rpc_reach lt c \<Longrightarrow> client_ok lt c"
proof (induction rule: rpc_reach.induct)
  case start
  show ?case by (simp add: client_ok_def client_new_def)
qed (rule client_ok_step)

text \<open>Every end of a call by what it leaves behind and by what it says of the lines.\<close>

lemma ended_call:
  assumes "rpc_reach lt c" and "rc_call c = Some k" and "rpc_step lt c (EndCall out) c'"
  shows "rc_call c' = None \<and> rc_waiters c' = Map.empty
     \<and> (case out of
          Answered r \<Rightarrow> \<exists>rs. replies_since lt (ca_from k) (ca_id k) (rc_read c) = r # rs
        | Closed \<Rightarrow> rc_closed c \<and> replies_since lt (ca_from k) (ca_id k) (rc_read c) = []
        | TimedOut \<Rightarrow> ca_late k)"
proof -
  have k: "call_ok lt c k" using client_ok_reach [OF assms(1)] assms(2) by (simp add: client_ok_def)
  then have empty: "rc_waiters c = Map.empty" if "ca_chan k \<notin> ran (rc_waiters c)"
    using that by (auto simp: call_ok_def)
  have cleared: "(rc_waiters c)(ca_id k := None) = Map.empty" using k by (auto simp: call_ok_def)
  show ?thesis
  proof (cases rule: end_callE [OF assms(3)])
    case (1 j r)
    with k assms(2) show ?thesis by (auto simp: call_ok_def split: list.splits)
  next
    case (2 j)
    with cleared assms(2) show ?thesis by simp
  next
    case (3 j)
    with k assms(2) empty show ?thesis by (auto simp: call_ok_def split: list.splits)
  qed
qed

lemma closed_call_ends:
  assumes "rpc_reach lt c" and "rc_call c = Some k" and "rc_closed c"
  shows "\<exists>out c'. rpc_step lt c (EndCall out) c'"
proof -
  from client_ok_reach [OF assms(1)] assms(3)
  have over: "rc_hand c = None" "rc_waiters c = Map.empty" by (simp_all add: client_ok_def)
  consider "ca_late k" | "\<not> ca_late k" "ca_mail k = None" | r where "\<not> ca_late k" "ca_mail k = Some r"
    by (cases "ca_mail k") auto
  then show ?thesis
  proof cases
    case 1
    with rpc_step.timed_out [OF assms(2)] show ?thesis by blast
  next
    case 2
    with rpc_step.disconnected [OF assms(2)] over show ?thesis by fastforce
  next
    case 3
    with rpc_step.answered [OF assms(2)] show ?thesis by blast
  qed
qed

section \<open>Properties\<close>

text \<open>(C32) However the daemon's lines and the engine's calls interleave, timeouts and late replies included: a
  call that returns a response returns the first one carrying its id that was read after it had
  registered, and a call that reports the daemon gone was sent none and the lines have ended. Whatever the
  end, no waiter is left behind, and once the lines have ended a call that still waits can end at once:
  nobody hangs on a daemon that is gone.\<close>
theorem call_gets_its_reply:
  assumes "rpc_reach lt c" and "rc_call c = Some k"
  shows "(\<forall>out c'. rpc_step lt c (EndCall out) c' \<longrightarrow>
       rc_call c' = None \<and> rc_waiters c' = Map.empty
       \<and> (case out of
            Answered r \<Rightarrow> \<exists>rs. replies_since lt (ca_from k) (ca_id k) (rc_read c) = r # rs
          | Closed \<Rightarrow> rc_closed c \<and> replies_since lt (ca_from k) (ca_id k) (rc_read c) = []
          | TimedOut \<Rightarrow> ca_late k))
     \<and> (rc_closed c \<longrightarrow> (\<exists>out c'. rpc_step lt c (EndCall out) c'))"
proof (intro conjI allI impI)
  fix out c' assume "rpc_step lt c (EndCall out) c'"
  from ended_call [OF assms this]
  show "rc_call c' = None" "rc_waiters c' = Map.empty"
    "case out of
        Answered r \<Rightarrow> \<exists>rs. replies_since lt (ca_from k) (ca_id k) (rc_read c) = r # rs
      | Closed \<Rightarrow> rc_closed c \<and> replies_since lt (ca_from k) (ca_id k) (rc_read c) = []
      | TimedOut \<Rightarrow> ca_late k"
    by auto
qed (rule closed_call_ends [OF assms])

text \<open>A call whose reply is read between two other lines.\<close>

definition demo_lines :: "string line_text" where
  "demo_lines =
     \<lparr>lt_response = (\<lambda>l. if l = ''r'' then Some \<lparr>wr_id = 1, wr_result = None, wr_error = None\<rparr> else None),
      lt_notification = (\<lambda>l. if l = ''n'' then Some l else None)\<rparr>"

definition demo_client :: "string rpc_client" where
  "demo_client =
     \<lparr>rc_open = True, rc_next = 2, rc_waiters = Map.empty, rc_chans = 1, rc_closed = False, rc_hand = None,
      rc_stray = [''boot''], rc_subs = [],
      rc_call = Some \<lparr>ca_id = 1, ca_chan = 0, ca_method = ''daemon.hello'', ca_from = 1,
        ca_mail = Some \<lparr>wr_id = 1, wr_result = None, wr_error = None\<rparr>, ca_late = False\<rparr>,
      rc_read = [''boot'', ''r'']\<rparr>"

lemma demo_client_reach: "rpc_reach demo_lines demo_client"
proof -
  let ?r = "\<lparr>wr_id = 1, wr_result = None, wr_error = None\<rparr>"
  let ?c1 = "client_new\<lparr>rc_read := [''boot''], rc_stray := [''boot'']\<rparr>"
  let ?c2 = "?c1\<lparr>rc_next := 2, rc_waiters := [1 \<mapsto> 0], rc_chans := 1,
      rc_call := Some \<lparr>ca_id = 1, ca_chan = 0, ca_method = ''daemon.hello'', ca_from = 1, ca_mail = None, ca_late = False\<rparr>\<rparr>"
  let ?c3 = "?c2\<lparr>rc_read := [''boot'', ''r''], rc_waiters := Map.empty, rc_hand := Some (0, ?r)\<rparr>"
  have "rpc_step demo_lines client_new (ReadLine ''boot'') (read_line demo_lines ''boot'' client_new)"
    by (rule rpc_step.read) (simp_all add: client_new_def)
  moreover have "read_line demo_lines ''boot'' client_new = ?c1"
    by (simp add: read_line_def client_new_def demo_lines_def remember_stray_def STRAY_LINES_def) (code_simp)?
  ultimately have 1: "rpc_reach demo_lines ?c1" using rpc_reach.start rpc_reach.step by metis
  have "rpc_step demo_lines ?c1 (BeginCall ''daemon.hello'') (snd (begin_call ''daemon.hello'' ?c1))"
    by (rule rpc_step.call) (simp add: client_new_def)
  moreover have "snd (begin_call ''daemon.hello'' ?c1) = ?c2" by (simp add: begin_call_def client_new_def)
  ultimately have 2: "rpc_reach demo_lines ?c2" using 1 rpc_reach.step by metis
  have "rpc_step demo_lines ?c2 (ReadLine ''r'') (read_line demo_lines ''r'' ?c2)"
    by (rule rpc_step.read) (simp_all add: client_new_def)
  moreover have "read_line demo_lines ''r'' ?c2 = ?c3"
    by (simp add: read_line_def client_new_def demo_lines_def)
  ultimately have 3: "rpc_reach demo_lines ?c3" using 2 rpc_reach.step by metis
  have "rpc_step demo_lines ?c3 HandOver demo_client"
    using rpc_step.hand_over [of ?c3 0 ?r demo_lines] by (simp add: client_new_def demo_client_def)
  with 3 show ?thesis by (rule rpc_reach.step)
qed

theorem call_gets_its_reply_witness:
  "(\<exists>c'. rpc_step demo_lines demo_client (EndCall (Answered \<lparr>wr_id = 1, wr_result = None, wr_error = None\<rparr>)) c')
   \<and> (\<exists>rs. replies_since demo_lines 1 1 (rc_read demo_client) = \<lparr>wr_id = 1, wr_result = None, wr_error = None\<rparr> # rs)"
proof -
  let ?r = "\<lparr>wr_id = 1, wr_result = None, wr_error = None\<rparr>"
  obtain k where k: "rc_call demo_client = Some k" "ca_from k = 1" "ca_id k = 1" "ca_mail k = Some ?r" "\<not> ca_late k"
    by (simp add: demo_client_def)
  from rpc_step.answered [OF k(1,5,4)]
  have step: "rpc_step demo_lines demo_client (EndCall (Answered ?r)) (demo_client\<lparr>rc_call := None\<rparr>)" .
  with call_gets_its_reply [OF demo_client_reach k(1)] k(2,3) show ?thesis by fastforce
qed

end
