(* ===== verification/Engine_Wsl.thy ===== *)
theory Engine_Wsl
  imports Server Profiles
begin

text \<open>
  The engine's Windows side (\<^verbatim>\<open>crates/willie-engine/src\<close>): the text \<^verbatim>\<open>wsl.exe\<close> prints (\<^verbatim>\<open>text.rs\<close>), its command
  lines and answers (\<^verbatim>\<open>wsl.rs\<close>, \<^verbatim>\<open>terminal.rs\<close>, \<^verbatim>\<open>embed.rs\<close>), the typed errors with their codes and remedies
  (\<^verbatim>\<open>error.rs\<close>), the distribution (\<^verbatim>\<open>distro.rs\<close>), the prerequisites, the git identity and \<^verbatim>\<open>engine.toml\<close>
  (\<^verbatim>\<open>prereqs.rs\<close>, \<^verbatim>\<open>identity.rs\<close>, \<^verbatim>\<open>config.rs\<close>). \<^verbatim>\<open>wsl.exe\<close>, the files and SHA-256 are parameters: a call gives
  an answer and the machine it leaves, and each call is recorded. An i/o error is its text.

  Shown: what \<^verbatim>\<open>wsl.exe\<close> prints in UTF-16 with a byte order mark is read as printed; an install touches
  nothing unless the image is valid, and then makes a prefix of one fixed sequence of calls, all of them on
  Willie's own distribution.
\<close>

section \<open>Text\<close>

text \<open>\<open>String::from_utf16_lossy\<close> in code points, and their UTF-8.\<close>

fun utf16_points :: "u16 list \<Rightarrow> nat list" where
  "utf16_points [] = []"
| "utf16_points (u # us) =
     (if unat u < 0xD800 \<or> 0xE000 \<le> unat u then unat u # utf16_points us
      else case us of
             [] \<Rightarrow> [0xFFFD]
           | v # vs \<Rightarrow>
               if unat u < 0xDC00 \<and> 0xDC00 \<le> unat v \<and> unat v < 0xE000
               then (0x10000 + (unat u - 0xD800) * 0x400 + (unat v - 0xDC00)) # utf16_points vs
               else 0xFFFD # utf16_points us)"

definition utf8_point :: "nat \<Rightarrow> string" where
  "utf8_point p = map char_of
     (if p < 0x80 then [p]
      else if p < 0x800 then [0xC0 + p div 0x40, 0x80 + p mod 0x40]
      else if p < 0x10000 then [0xE0 + p div 0x1000, 0x80 + p div 0x40 mod 0x40, 0x80 + p mod 0x40]
      else [0xF0 + p div 0x40000, 0x80 + p div 0x1000 mod 0x40, 0x80 + p div 0x40 mod 0x40, 0x80 + p mod 0x40])"

text \<open>The bytes at odd places; the little-endian units, an odd byte at the end left out.\<close>

fun odd_bytes :: "bytes \<Rightarrow> bytes" where
  "odd_bytes (a # b # bs) = b # odd_bytes bs"
| "odd_bytes _ = []"

fun le_units :: "bytes \<Rightarrow> u16 list" where
  "le_units (a # b # bs) = from_be16 b a # le_units bs"
| "le_units _ = []"

definition looks_utf16 :: "bytes \<Rightarrow> bool" where
  "looks_utf16 bs \<longleftrightarrow>
     take 2 bs = [0xFF, 0xFE]
     \<or> 4 \<le> length bs \<and> length bs div 4 < length (filter (\<lambda>b. b = 0) (odd_bytes bs))"

definition decode_wsl_output :: "(bytes \<Rightarrow> string) \<Rightarrow> bytes \<Rightarrow> string" where
  "decode_wsl_output utf8_lossy bs =
     (if \<not> looks_utf16 bs then utf8_lossy bs
      else concat (map utf8_point (dropWhile (\<lambda>p. p = 0xFEFF) (utf16_points (le_units bs)))))"

section \<open>Errors\<close>

datatype wsl_error =
    NotInstalled string
  | CommandFailed string "int option" string
  | Unparseable string string
  | WslIo string

datatype engine_error =
    EWsl wsl_error
  | ERpc rpc_error
  | ETimeout string
  | ETransport string
  | EDaemonExited "int option" string
  | EProtocol string
  | EVersionMismatch string string
  | EImageInvalid string string
  | EImageNotFound
  | EDaemonNotRunning
  | EDistroNotRegistered
  | EPathNotFound string
  | EConfigWrite string string
  | ETerminalLaunch string string
  | EEmbeddedTerminal string
  | EEmbeddedTerminalNotOpen string
  | EMethodNotServed string

definition LOGON_TYPE_NOT_GRANTED :: string where "LOGON_TYPE_NOT_GRANTED = ''0x80070569''"
definition SERVICE_LOGON_RIGHT_CODE :: string where "SERVICE_LOGON_RIGHT_CODE = ''service_logon_right_missing''"

definition SERVICE_LOGON_REMEDIATION :: string where
  "SERVICE_LOGON_REMEDIATION =
     ''this account cannot create the WSL 2 VM: an administrator must '' @
     ''grant \"Log on as a service\" to NT VIRTUAL MACHINE'' @ [CHR 0x5C] @ ''Virtual '' @
     ''Machines (S-1-5-83-0); then sign in again''"

fun wsl_code :: "wsl_error \<Rightarrow> string" where
  "wsl_code (NotInstalled e) = ''wsl_not_installed''"
| "wsl_code (CommandFailed args code stderr) =
     (if contains stderr LOGON_TYPE_NOT_GRANTED then SERVICE_LOGON_RIGHT_CODE else ''wsl_command_failed'')"
| "wsl_code (Unparseable what text') = ''wsl_unparseable_output''"
| "wsl_code (WslIo e) = ''wsl_io''"

fun engine_code :: "engine_error \<Rightarrow> string" where
  "engine_code (EWsl e) = wsl_code e"
| "engine_code (ERpc e) = ''daemon_error''"
| "engine_code (ETimeout m) = ''daemon_timeout''"
| "engine_code (ETransport e) = ''daemon_transport''"
| "engine_code (EDaemonExited code detail) =
     (if contains detail LOGON_TYPE_NOT_GRANTED then SERVICE_LOGON_RIGHT_CODE else ''daemon_exited'')"
| "engine_code (EProtocol e) = ''protocol_violation''"
| "engine_code (EVersionMismatch e d) = ''version_mismatch''"
| "engine_code (EImageInvalid p reason) = ''image_invalid''"
| "engine_code EImageNotFound = ''image_not_found''"
| "engine_code EDaemonNotRunning = ''daemon_not_running''"
| "engine_code EDistroNotRegistered = ''distro_not_registered''"
| "engine_code (EPathNotFound p) = ''path_not_found''"
| "engine_code (EConfigWrite p e) = ''config_write_failed''"
| "engine_code (ETerminalLaunch e hint) = ''terminal_launch_failed''"
| "engine_code (EEmbeddedTerminal e) = ''embedded_terminal_failed''"
| "engine_code (EEmbeddedTerminalNotOpen i) = ''embedded_terminal_not_open''"
| "engine_code (EMethodNotServed m) = ''method_not_served''"

definition quoted :: "string \<Rightarrow> string" where "quoted s = ''`'' @ s @ ''`''"

text \<open>\<open>{code:?}\<close> of an optional number.\<close>

definition debug_code :: "int option \<Rightarrow> string" where
  "debug_code code = (case code of Some n \<Rightarrow> ''Some('' @ int_text n @ '')'' | None \<Rightarrow> ''None'')"

fun wsl_message :: "wsl_error \<Rightarrow> string" where
  "wsl_message (NotInstalled e) = ''wsl.exe is not installed or not on PATH''"
| "wsl_message (CommandFailed args code stderr) =
     quoted (''wsl.exe '' @ args) @ '' failed with '' @ debug_code code @ '': '' @ stderr"
| "wsl_message (Unparseable what text') = ''cannot parse '' @ what @ '' from '' @ quoted text'"
| "wsl_message (WslIo e) = ''i/o error talking to wsl.exe: '' @ e"

definition daemon_exited_message :: "int option \<Rightarrow> string \<Rightarrow> string" where
  "daemon_exited_message code detail =
     (let c = (case code of Some n \<Rightarrow> int_text n | None \<Rightarrow> ''unknown'')
      in ''daemon exited with code '' @ c @ (if trim_ws detail = [] then '' (no output)'' else '': '' @ detail))"

fun engine_message :: "engine_error \<Rightarrow> string" where
  "engine_message (EWsl e) = wsl_message e"
| "engine_message (ERpc e) = ''daemon returned '' @ quoted (re_code e) @ '': '' @ re_message e"
| "engine_message (ETimeout m) = ''no reply to '' @ quoted m @ '' within the timeout''"
| "engine_message (ETransport e) = ''transport failure: '' @ e"
| "engine_message (EDaemonExited code detail) = daemon_exited_message code detail"
| "engine_message (EProtocol e) = ''protocol violation: '' @ e"
| "engine_message (EVersionMismatch e d) = ''engine '' @ e @ '' and daemon '' @ d @ '' are different Willie versions''"
| "engine_message (EImageInvalid p reason) = ''distribution image '' @ p @ '' is invalid: '' @ reason"
| "engine_message EImageNotFound = ''no distribution image next to the app''"
| "engine_message EDaemonNotRunning = ''the daemon is not running''"
| "engine_message EDistroNotRegistered = ''the `willie` distribution is not registered''"
| "engine_message (EPathNotFound p) = ''path '' @ quoted p @ '' does not exist''"
| "engine_message (EConfigWrite p e) = ''cannot write '' @ p @ '': '' @ e"
| "engine_message (ETerminalLaunch e hint) = ''terminal launch failed: '' @ e"
| "engine_message (EEmbeddedTerminal e) = ''embedded terminal failed: '' @ e"
| "engine_message (EEmbeddedTerminalNotOpen i) = ''no embedded terminal is open for session '' @ i"
| "engine_message (EMethodNotServed m) = quoted m @ '' is not a plugin method''"

fun wsl_remediation :: "wsl_error \<Rightarrow> string" where
  "wsl_remediation (NotInstalled e) = ''enable WSL 2.4.4 or newer (administrator) and retry''"
| "wsl_remediation (CommandFailed args code stderr) =
     ''`wsl.exe` refused the command; run it in PowerShell to see '' @
     ''the same message, then click Run doctor again''"
| "wsl_remediation (Unparseable what text') =
     ''unexpected output from `wsl.exe`: run `wsl --version` in '' @
     ''PowerShell, update WSL if it is old, then click Run doctor''"
| "wsl_remediation (WslIo e) =
     ''the pipe to `wsl.exe` broke; click Run doctor (it restarts '' @ ''the daemon)''"

definition daemon_exited_remediation :: "string \<Rightarrow> string" where
  "daemon_exited_remediation detail =
     (if contains detail LOGON_TYPE_NOT_GRANTED then SERVICE_LOGON_REMEDIATION
      else if contains detail ''WSL_E_DISTRO_NOT_FOUND''
      then ''the `willie` distribution is not registered: click Install '' @ ''distribution''
      else ''click Run doctor again (it restarts the daemon); if it repeats, '' @
           ''click Install distribution to reinstall it'')"

fun remediation :: "engine_error \<Rightarrow> string" where
  "remediation (EWsl e) =
     (case e of
        CommandFailed args code stderr \<Rightarrow>
          if contains stderr LOGON_TYPE_NOT_GRANTED then SERVICE_LOGON_REMEDIATION
          else if starts_with args ''--import''
          then ''the previous distribution was removed before this '' @
               ''import failed; the image is still on disk '' @ map char_of [0xE2, 0x80, 0x94 :: nat] @ '' retry '' @ ''Install''
          else wsl_remediation e
      | _ \<Rightarrow> wsl_remediation e)"
| "remediation (ERpc e) =
     (case re_remediation e of
        Some r \<Rightarrow> r
      | None \<Rightarrow> ''the daemon rejected the request; the message names the '' @
                ''cause '' @ map char_of [0xE2, 0x80, 0x94 :: nat] @ '' click Run doctor to retry'')"
| "remediation (ETimeout m) = ''click Run doctor (it restarts the daemon)''"
| "remediation (ETransport e) = ''click Run doctor (it restarts the daemon)''"
| "remediation (EDaemonExited code detail) = daemon_exited_remediation detail"
| "remediation (EProtocol e) =
     ''click Run doctor (it restarts the daemon); if it repeats, '' @ ''click Install distribution''"
| "remediation (EVersionMismatch e d) =
     ''click Install distribution: it reinstalls the '' @ ''distribution with binaries matching this app''"
| "remediation (EImageInvalid p reason) =
     ''rebuild the image with `just distro-build`, then click '' @ ''Install distribution again''"
| "remediation EImageNotFound = ''reinstall Willie; in development run `just distro-build`''"
| "remediation EDaemonNotRunning = ''click Run doctor (it starts the daemon)''"
| "remediation EDistroNotRegistered = ''click Install distribution''"
| "remediation (EPathNotFound p) = ''pick a folder that exists on this machine''"
| "remediation (EConfigWrite p e) =
     ''check that Willie can write to '' @ ''%LOCALAPPDATA%'' @ [CHR 0x5C] @ ''Willie'' @ [CHR 0x5C] @ ''data''"
| "remediation (ETerminalLaunch e hint) = ''open a terminal and run: '' @ hint"
| "remediation (EEmbeddedTerminal e) =
     ''open the session in a '' @ ''Windows Terminal tab instead (Open session), or click '' @ ''Run doctor''"
| "remediation (EEmbeddedTerminalNotOpen i) =
     ''the tab lost its terminal: close it and open the '' @ ''session again''"
| "remediation (EMethodNotServed m) = ''the app calls plugin methods, not daemon methods''"

record problem =
  pb_code :: string
  pb_message :: string
  pb_remediation :: string

definition problem_of :: "engine_error \<Rightarrow> problem" where
  "problem_of e = \<lparr>pb_code = engine_code e, pb_message = engine_message e, pb_remediation = remediation e\<rparr>"

section \<open>Command lines\<close>

definition DISTRO_NAME :: string where "DISTRO_NAME = ''willie''"
definition DAEMON_USER :: string where "DAEMON_USER = ''willie''"
definition DAEMON_PATH :: string where "DAEMON_PATH = ''/opt/willie/bin/willied''"
definition WILLIE_BIN :: string where "WILLIE_BIN = ''/opt/willie/bin/willie''"

record wsl_exec =
  wx_distro :: string
  wx_user :: "string option"
  wx_program :: string
  wx_args :: "string list"

definition to_args :: "wsl_exec \<Rightarrow> string list" where
  "to_args x =
     [''-d'', wx_distro x] @ (case wx_user x of Some u \<Rightarrow> [''--user'', u] | None \<Rightarrow> [])
     @ [''--exec'', wx_program x] @ wx_args x"

definition daemon_stdio :: wsl_exec where
  "daemon_stdio =
     \<lparr>wx_distro = DISTRO_NAME, wx_user = Some DAEMON_USER, wx_program = DAEMON_PATH, wx_args = [''--stdio'']\<rparr>"

definition attach_argv :: "string \<Rightarrow> string list" where
  "attach_argv i = [''-d'', DISTRO_NAME, ''--user'', ''willie'', ''--exec'', WILLIE_BIN, ''attach'', i]"

definition attach_host_argv :: "string \<Rightarrow> string list" where
  "attach_host_argv i = [''-d'', DISTRO_NAME, ''--user'', ''willie'', ''--exec'', WILLIE_BIN, ''attach'', i, ''--host'']"

definition wt_argv :: "string \<Rightarrow> string \<Rightarrow> string list" where
  "wt_argv i title = [''-w'', ''0'', ''new-tab'', ''--title'', title, ''--'', ''wsl.exe''] @ attach_argv i"

definition attach_hint :: "string \<Rightarrow> string" where
  "attach_hint i = ''wsl -d '' @ DISTRO_NAME @ '' --user willie -- '' @ WILLIE_BIN @ '' attach '' @ i"

text \<open>Opening a tab: where \<^verbatim>\<open>wt.exe\<close> is, and whether starting a program with its arguments fails.\<close>

definition open_tab :: "string option \<Rightarrow> (string \<Rightarrow> string list \<Rightarrow> string option) \<Rightarrow> string \<Rightarrow> string \<Rightarrow> string + unit" where
  "open_tab wt spawn i title =
     (if (case wt of Some w \<Rightarrow> spawn w (wt_argv i title) = None | None \<Rightarrow> False) then Inr ()
      else case spawn ''wsl.exe'' (attach_argv i) of
             None \<Rightarrow> Inr ()
           | Some e \<Rightarrow> Inl (''could not open a terminal for the session: '' @ e))"

section \<open>Versions\<close>

type_synonym wsl_ver = "u32 \<times> u32 \<times> u32 \<times> u32"

definition MINIMUM :: wsl_ver where "MINIMUM = (2, 4, 4, 0)"

text \<open>The derived order is that of the tuple.\<close>

fun at_least :: "u32 list \<Rightarrow> u32 list \<Rightarrow> bool" where
  "at_least (a # as) (b # bs) \<longleftrightarrow> b < a \<or> a = b \<and> at_least as bs"
| "at_least _ bs \<longleftrightarrow> bs = []"

definition meets_minimum :: "wsl_ver \<Rightarrow> bool" where
  "meets_minimum v = (let t = (\<lambda>(a, b, c, d). [a, b, c, d]) in at_least (t v) (t MINIMUM))"

definition parse_u32 :: "string \<Rightarrow> u32 option" where
  "parse_u32 s =
     Option.bind (parse_digits (case s of c # r \<Rightarrow> if c = CHR ''+'' then r else s | [] \<Rightarrow> []))
       (\<lambda>n. if n < 2 ^ 32 then Some (of_nat n) else None)"

definition version_of :: "string \<Rightarrow> wsl_error + wsl_ver" where
  "version_of s =
     (let parts = map parse_u32 (split_on (CHR ''.'') (trim_ws s));
          at = (\<lambda>i. if i < length parts then parts ! i else None)
      in case (at 0, at 1, at 2) of
           (Some a, Some b, Some c) \<Rightarrow> Inr (a, b, c, (case at 3 of Some d \<Rightarrow> d | None \<Rightarrow> 0))
         | _ \<Rightarrow> Inl (Unparseable ''version'' s))"

definition parse_report :: "string \<Rightarrow> wsl_error + wsl_ver" where
  "parse_report report =
     (let line = (case find (\<lambda>l. trim_ws l \<noteq> []) (rust_lines report) of Some l \<Rightarrow> l | None \<Rightarrow> []);
          good = List.map_filter (\<lambda>t. case version_of t of Inr v \<Rightarrow> Some v | Inl _ \<Rightarrow> None) (rev (split_ws [] line))
      in case good of v # _ \<Rightarrow> Inr v | [] \<Rightarrow> Inl (Unparseable ''wsl --version'' line))"

definition is_no_distributions :: "string \<Rightarrow> bool" where
  "is_no_distributions t = contains t ''WSL_E_DEFAULT_DISTRO_NOT_FOUND''"

definition parse_name_list :: "string \<Rightarrow> string list" where
  "parse_name_list t =
     filter (\<lambda>l. l \<noteq> [])
       (map (\<lambda>l. trim_ws (trim_start (\<lambda>c. c = CHR ''*'') (trim_ws l))) (rust_lines t))"

section \<open>Running wsl.exe\<close>

datatype wsl_outcome = NoProgram string | RunFailed string | Ran "int option" bytes bytes

datatype removal = Removed | Absent | RemoveFailed string

record image_files =
  im_len :: "nat option"
  im_sidecar :: "string option"
  im_bytes :: "bytes option"

record 'w machine =
  mc_wsl :: "string list \<Rightarrow> 'w \<Rightarrow> wsl_outcome \<times> 'w"
  mc_create_dir :: "string \<Rightarrow> 'w \<Rightarrow> string option \<times> 'w"
  mc_remove :: "string \<Rightarrow> 'w \<Rightarrow> removal \<times> 'w"
  mc_image :: "string \<Rightarrow> 'w \<Rightarrow> image_files"
  mc_sha256 :: "bytes \<Rightarrow> string"
  mc_utf8 :: "bytes \<Rightarrow> string"
  mc_local_app_data :: "string option"

datatype host_act = RunWsl "string list" | CreateDir string | RemoveFile string

record 'w windows =
  wi_world :: 'w
  wi_acts :: "host_act list"

definition wsl_run :: "'w machine \<Rightarrow> string list \<Rightarrow> 'w windows \<Rightarrow> (wsl_error + string) \<times> 'w windows" where
  "wsl_run mc args s =
     (let (out, w) = mc_wsl mc args (wi_world s);
          r = (case out of
                 NoProgram e \<Rightarrow> Inl (NotInstalled e)
               | RunFailed e \<Rightarrow> Inl (WslIo e)
               | Ran code out err \<Rightarrow>
                   (let stdout = decode_wsl_output (mc_utf8 mc) out in
                    if code = Some 0 then Inr stdout
                    else let stderr = decode_wsl_output (mc_utf8 mc) err in
                         Inl (CommandFailed (join_with '' '' args) code
                                (trim_ws (if trim_ws stderr = [] then stdout else stderr)))))
      in (r, \<lparr>wi_world = w, wi_acts = wi_acts s @ [RunWsl args]\<rparr>))"

definition wsl_version :: "'w machine \<Rightarrow> 'w windows \<Rightarrow> (wsl_error + wsl_ver) \<times> 'w windows" where
  "wsl_version mc s =
     (case wsl_run mc [''--version''] s of (Inl e, s) \<Rightarrow> (Inl e, s) | (Inr t, s) \<Rightarrow> (parse_report t, s))"

definition wsl_names :: "'w machine \<Rightarrow> string list \<Rightarrow> 'w windows \<Rightarrow> (wsl_error + string list) \<times> 'w windows" where
  "wsl_names mc args s =
     (case wsl_run mc args s of
        (Inr t, s) \<Rightarrow> (Inr (parse_name_list t), s)
      | (Inl (CommandFailed a code stderr), s) \<Rightarrow>
          (if is_no_distributions stderr then (Inr [], s) else (Inl (CommandFailed a code stderr), s))
      | (Inl e, s) \<Rightarrow> (Inl e, s))"

definition LIST_ARGS :: "string list" where "LIST_ARGS = [''--list'', ''--quiet'']"
definition RUNNING_ARGS :: "string list" where "RUNNING_ARGS = [''--list'', ''--running'', ''--quiet'']"

definition import_args :: "string \<Rightarrow> string \<Rightarrow> string \<Rightarrow> string list" where
  "import_args name location tar = [''--import'', name, location, tar, ''--version'', ''2'']"

definition unregister_args :: "string \<Rightarrow> string list" where "unregister_args name = [''--unregister'', name]"
definition terminate_args :: "string \<Rightarrow> string list" where "terminate_args name = [''--terminate'', name]"

section \<open>The distribution\<close>

definition eq_ignore_ascii_case :: "string \<Rightarrow> string \<Rightarrow> bool" where
  "eq_ignore_ascii_case a b \<longleftrightarrow> map to_ascii_lower a = map to_ascii_lower b"

text \<open>\<open>Path::join\<close> of a name without separators, on Windows.\<close>

definition win_join :: "string \<Rightarrow> string \<Rightarrow> string" where
  "win_join d x = (if d = [] \<or> last d = CHR 0x5C \<or> last d = CHR ''/'' then d @ x else d @ [CHR 0x5C] @ x)"

definition data_dir :: "'w machine \<Rightarrow> string option" where
  "data_dir mc = map_option (\<lambda>b. win_join (win_join b ''Willie'') ''data'') (mc_local_app_data mc)"

definition install_dir :: "'w machine \<Rightarrow> string option" where
  "install_dir mc = map_option (\<lambda>d. win_join d ''distro'') (data_dir mc)"

definition validate_image :: "'w machine \<Rightarrow> string \<Rightarrow> 'w windows \<Rightarrow> engine_error + unit" where
  "validate_image mc img s =
     (let f = mc_image mc img (wi_world s); invalid = EImageInvalid img in
      case im_len f of
        None \<Rightarrow> Inl (invalid ''missing'')
      | Some n \<Rightarrow>
          if n = 0 then Inl (invalid ''empty'')
          else case Option.bind (im_sidecar f) (\<lambda>t. case split_ws [] t of h # _ \<Rightarrow> Some h | [] \<Rightarrow> None) of
                 None \<Rightarrow> Inr ()
               | Some expected \<Rightarrow>
                   (case im_bytes f of
                      None \<Rightarrow> Inl (invalid ''unreadable'')
                    | Some b \<Rightarrow>
                        if eq_ignore_ascii_case expected (mc_sha256 mc b) then Inr ()
                        else Inl (invalid ''sha256 mismatch'')))"

definition remove_orphaned_disk :: "'w machine \<Rightarrow> string \<Rightarrow> 'w windows \<Rightarrow> (string + unit) \<times> 'w windows" where
  "remove_orphaned_disk mc dir s =
     (let disk = win_join dir ''ext4.vhdx'';
          (r, w) = mc_remove mc disk (wi_world s)
      in (case r of
            RemoveFailed e \<Rightarrow> Inl (''cannot remove the orphaned disk '' @ disk @ '': '' @ e)
          | _ \<Rightarrow> Inr (),
          \<lparr>wi_world = w, wi_acts = wi_acts s @ [RemoveFile disk]\<rparr>))"

record distro_state =
  ds_registered :: bool
  ds_running :: bool
  ds_install_dir :: string

definition named_willie :: "string list \<Rightarrow> bool" where
  "named_willie ns = list_ex (\<lambda>d. eq_ignore_ascii_case d DISTRO_NAME) ns"

definition distro_status :: "'w machine \<Rightarrow> 'w windows \<Rightarrow> (wsl_error + distro_state) \<times> 'w windows" where
  "distro_status mc s =
     andthen (wsl_names mc LIST_ARGS s) (\<lambda>ns s.
       (let registered = named_willie ns;
            dir = (case install_dir mc of Some d \<Rightarrow> d | None \<Rightarrow> [])
        in if \<not> registered then (Inr \<lparr>ds_registered = False, ds_running = False, ds_install_dir = dir\<rparr>, s)
           else andthen (wsl_names mc RUNNING_ARGS s) (\<lambda>rs s.
             (Inr \<lparr>ds_registered = True, ds_running = named_willie rs, ds_install_dir = dir\<rparr>, s))))"

definition uninstall :: "'w machine \<Rightarrow> 'w windows \<Rightarrow> (wsl_error + unit) \<times> 'w windows" where
  "uninstall mc s =
     andthen (wsl_names mc LIST_ARGS s) (\<lambda>ns s.
       if named_willie ns
       then (let s = snd (wsl_run mc (terminate_args DISTRO_NAME) s) in
             andthen (wsl_run mc (unregister_args DISTRO_NAME) s) (\<lambda>_ s. (Inr (), s)))
       else (Inr (), s))"

text \<open>An error of a step as an engine error.\<close>

definition lift :: "('e \<Rightarrow> engine_error) \<Rightarrow> ('e + 'a) \<times> 's \<Rightarrow> (engine_error + 'a) \<times> 's" where
  "lift f p = (map_sum f id (fst p), snd p)"

definition create_dir_all :: "'w machine \<Rightarrow> string \<Rightarrow> 'w windows \<Rightarrow> (wsl_error + unit) \<times> 'w windows" where
  "create_dir_all mc dir s =
     (let (r, w) = mc_create_dir mc dir (wi_world s)
      in (case r of Some e \<Rightarrow> Inl (WslIo e) | None \<Rightarrow> Inr (), \<lparr>wi_world = w, wi_acts = wi_acts s @ [CreateDir dir]\<rparr>))"

definition install :: "'w machine \<Rightarrow> string \<Rightarrow> 'w windows \<Rightarrow> (engine_error + unit) \<times> 'w windows" where
  "install mc img s =
     (case validate_image mc img s of
        Inl e \<Rightarrow> (Inl e, s)
      | Inr _ \<Rightarrow>
          (case install_dir mc of
             None \<Rightarrow> (Inl (EWsl (Unparseable ''LOCALAPPDATA'' [])), s)
           | Some dir \<Rightarrow>
               andthen (lift EWsl (create_dir_all mc dir s)) (\<lambda>_ s.
               andthen (lift EWsl (uninstall mc s)) (\<lambda>_ s.
               andthen (lift (\<lambda>e. EWsl (WslIo e)) (remove_orphaned_disk mc dir s)) (\<lambda>_ s.
               andthen (lift EWsl (wsl_run mc (import_args DISTRO_NAME dir img) s)) (\<lambda>_ s. (Inr (), s)))))))"

definition locate_image :: "(string \<Rightarrow> bool) \<Rightarrow> string list \<Rightarrow> string option" where
  "locate_image is_file candidates = find is_file candidates"

section \<open>Prerequisites, identity and settings\<close>

record wsl_state =
  ws_installed :: bool
  ws_version :: "string option"
  ws_meets_minimum :: bool
  ws_minimum :: string

definition u32_text :: "u32 \<Rightarrow> string" where "u32_text w = nat_text (unat w)"

definition render :: "wsl_ver \<Rightarrow> string" where
  "render v = (case v of (a, b, c, d) \<Rightarrow> join_with ''.'' [u32_text a, u32_text b, u32_text c, u32_text d])"

definition status_from :: "wsl_error + wsl_ver \<Rightarrow> string \<Rightarrow> wsl_state" where
  "status_from r minimum =
     (case r of
        Inr v \<Rightarrow> \<lparr>ws_installed = True, ws_version = Some (render v), ws_meets_minimum = meets_minimum v, ws_minimum = minimum\<rparr>
      | Inl (NotInstalled e) \<Rightarrow> \<lparr>ws_installed = False, ws_version = None, ws_meets_minimum = False, ws_minimum = minimum\<rparr>
      | Inl _ \<Rightarrow> \<lparr>ws_installed = True, ws_version = None, ws_meets_minimum = False, ws_minimum = minimum\<rparr>)"

definition wsl_status :: "'w machine \<Rightarrow> 'w windows \<Rightarrow> wsl_state \<times> 'w windows" where
  "wsl_status mc s =
     (let minimum = (case MINIMUM of (a, b, c, d) \<Rightarrow> join_with ''.'' [u32_text a, u32_text b, u32_text c]);
          (r, s) = wsl_version mc s
      in (status_from r minimum, s))"

definition parse_identity :: "string option \<Rightarrow> string option \<Rightarrow> (string \<times> string) option" where
  "parse_identity name email =
     (let given = (\<lambda>v. case map_option trim_ws v of Some t \<Rightarrow> if t = [] then None else Some t | None \<Rightarrow> None) in
      case (given name, given email) of (Some n, Some e) \<Rightarrow> Some (n, e) | _ \<Rightarrow> None)"

text \<open>\<^verbatim>\<open>engine.toml\<close>: its text is parsed, and written back whole.\<close>

record engine_config =
  ec_roots :: "string list"
  ec_current_project :: "project_id option"

definition config_default :: engine_config where
  "config_default = \<lparr>ec_roots = [], ec_current_project = None\<rparr>"

definition config_load :: "(string \<Rightarrow> engine_config option) \<Rightarrow> string option \<Rightarrow> engine_config" where
  "config_load parse file = (case Option.bind file parse of Some c \<Rightarrow> c | None \<Rightarrow> config_default)"

definition set_projects_roots :: "(string \<Rightarrow> engine_config option) \<Rightarrow> string list \<Rightarrow> string option \<Rightarrow> engine_config" where
  "set_projects_roots parse roots file = (config_load parse file)\<lparr>ec_roots := roots\<rparr>"

definition set_ui_prefs :: "(string \<Rightarrow> engine_config option) \<Rightarrow> project_id option \<Rightarrow> string option \<Rightarrow> engine_config" where
  "set_ui_prefs parse ui file = (config_load parse file)\<lparr>ec_current_project := ui\<rparr>"

section \<open>What is printed is what is read\<close>

text \<open>UTF-16LE, as a Windows program writes it.\<close>

definition scalar :: "nat \<Rightarrow> bool" where
  "scalar p \<longleftrightarrow> p < 0xD800 \<or> 0xE000 \<le> p \<and> p < 0x110000"

definition utf16_units :: "nat \<Rightarrow> u16 list" where
  "utf16_units p =
     (if p < 0x10000 then [of_nat p]
      else [of_nat (0xD800 + (p - 0x10000) div 0x400), of_nat (0xDC00 + (p - 0x10000) mod 0x400)])"

definition le_bytes :: "u16 list \<Rightarrow> bytes" where
  "le_bytes us = concat (map (\<lambda>u. [ucast u, ucast (drop_bit 8 u)]) us)"

lemma le_units_bytes [simp]: "le_units (le_bytes us) = us"
  by (induction us) (simp_all add: le_bytes_def framing)

lemma le_bytes_length [simp]: "length (le_bytes us) = 2 * length us"
  by (induction us) (simp_all add: le_bytes_def)

lemma odd_le_bytes: "odd_bytes (le_bytes us) = map (\<lambda>u. ucast (drop_bit 8 u)) us"
  by (induction us) (simp_all add: le_bytes_def)

lemma points_units:
  assumes "scalar p"
  shows "utf16_points (utf16_units p @ us) = p # utf16_points us"
proof (cases "p < 0x10000")
  case True
  with assms show ?thesis by (auto simp: utf16_units_def scalar_def unat_of_nat)
next
  case False
  let ?hi = "0xD800 + (p - 0x10000) div 0x400" and ?lo = "0xDC00 + (p - 0x10000) mod 0x400"
  from False assms have hi: "?hi < 0xDC00" by (auto simp: scalar_def)
  have lo: "?lo < 0xE000" by simp
  have "unat (of_nat ?hi :: u16) = ?hi" "unat (of_nat ?lo :: u16) = ?lo"
    using hi lo by (simp_all only: unat_of_nat, simp_all)
  moreover have "0x10000 + (?hi - 0xD800) * 0x400 + (?lo - 0xDC00) = p"
    using False by (simp add: mult.commute)
  ultimately show ?thesis using False hi lo
    by (simp add: utf16_units_def del: of_nat_add)
qed

lemma points_text:
  "list_all scalar ps \<Longrightarrow> utf16_points (concat (map utf16_units ps)) = ps"
  by (induction ps) (simp_all add: points_units)

section \<open>An install\<close>

text \<open>The calls of an install that goes through, by whether a \<^verbatim>\<open>willie\<close> was registered.\<close>

definition removal_calls :: "bool \<Rightarrow> host_act list" where
  "removal_calls there =
     (if there then [RunWsl (terminate_args DISTRO_NAME), RunWsl (unregister_args DISTRO_NAME)] else [])"

definition install_calls :: "'w machine \<Rightarrow> string \<Rightarrow> string \<Rightarrow> bool \<Rightarrow> host_act list" where
  "install_calls mc dir img there =
     [CreateDir dir, RunWsl LIST_ARGS]
     @ removal_calls there
     @ [RemoveFile (win_join dir ''ext4.vhdx''), RunWsl (import_args DISTRO_NAME dir img)]"

text \<open>A step that leaves the calls made so far and adds some.\<close>

lemma run_acts: "wsl_run mc args s = (r, s') \<Longrightarrow> wi_acts s' = wi_acts s @ [RunWsl args]"
  by (auto simp: wsl_run_def Let_def split: prod.splits)

lemma names_acts: "wsl_names mc args s = (r, s') \<Longrightarrow> wi_acts s' = wi_acts s @ [RunWsl args]"
  by (auto simp: wsl_names_def dest: run_acts split: prod.splits sum.splits wsl_error.splits if_splits)

lemma create_acts: "create_dir_all mc dir s = (r, s') \<Longrightarrow> wi_acts s' = wi_acts s @ [CreateDir dir]"
  by (auto simp: create_dir_all_def Let_def split: prod.splits)

lemma orphan_acts:
  "remove_orphaned_disk mc dir s = (r, s') \<Longrightarrow> wi_acts s' = wi_acts s @ [RemoveFile (win_join dir ''ext4.vhdx'')]"
  by (auto simp: remove_orphaned_disk_def Let_def split: prod.splits)

lemma uninstall_acts:
  assumes "uninstall mc s = (r, s')"
  shows "\<exists>b cs. wi_acts s' = wi_acts s @ RunWsl LIST_ARGS # cs
     \<and> prefix cs (removal_calls b) \<and> (r = Inr () \<longrightarrow> cs = removal_calls b)"
proof -
  obtain r1 s1 where l: "wsl_names mc LIST_ARGS s = (r1, s1)" by (cases "wsl_names mc LIST_ARGS s")
  obtain r2 s2 where t: "wsl_run mc (terminate_args DISTRO_NAME) s1 = (r2, s2)"
    by (cases "wsl_run mc (terminate_args DISTRO_NAME) s1")
  obtain r3 s3 where u: "wsl_run mc (unregister_args DISTRO_NAME) s2 = (r3, s3)"
    by (cases "wsl_run mc (unregister_args DISTRO_NAME) s2")
  show ?thesis
  proof (cases "\<exists>ns. r1 = Inr ns \<and> named_willie ns")
    case True
    with assms l t u have "s' = s3" by (auto simp: uninstall_def andthen_def split: sum.splits)
    then show ?thesis using names_acts [OF l] run_acts [OF t] run_acts [OF u]
      by (intro exI [of _ True] exI [of _ "removal_calls True"]) (simp add: removal_calls_def)
  next
    case False
    with assms l have "s' = s1" by (auto simp: uninstall_def andthen_def split: sum.splits if_splits)
    then show ?thesis using names_acts [OF l]
      by (intro exI [of _ False] exI [of _ "[]"]) (simp add: removal_calls_def)
  qed
qed

lemma install_calls_made:
  assumes "install mc img s = (r, s')" and "validate_image mc img s = Inr ()" and "install_dir mc = Some dir"
  shows "\<exists>cs b. wi_acts s' = wi_acts s @ cs \<and> prefix cs (install_calls mc dir img b)
     \<and> (r = Inr () \<longrightarrow> cs = install_calls mc dir img b)"
proof -
  obtain r1 s1 where c: "create_dir_all mc dir s = (r1, s1)" by (cases "create_dir_all mc dir s")
  note acts1 = create_acts [OF c]
  obtain r2 s2 where u: "uninstall mc s1 = (r2, s2)" by (cases "uninstall mc s1")
  obtain b cs where acts2: "wi_acts s2 = wi_acts s1 @ RunWsl LIST_ARGS # cs"
    and cs: "prefix cs (removal_calls b)" "r2 = Inr () \<longrightarrow> cs = removal_calls b"
    using uninstall_acts [OF u] by blast
  obtain r3 s3 where d: "remove_orphaned_disk mc dir s2 = (r3, s3)" by (cases "remove_orphaned_disk mc dir s2")
  note acts3 = orphan_acts [OF d]
  obtain r4 s4 where i: "wsl_run mc (import_args DISTRO_NAME dir img) s3 = (r4, s4)"
    by (cases "wsl_run mc (import_args DISTRO_NAME dir img) s3")
  note acts4 = run_acts [OF i]
  note run = assms c u d i
  show ?thesis
  proof (cases r1)
    case (Inl e)
    with run have "s' = s1" "r \<noteq> Inr ()" by (auto simp: install_def andthen_def lift_def)
    with acts1 show ?thesis by (intro exI [of _ "[CreateDir dir]"] exI [of _ b]) (simp add: install_calls_def)
  next
    case r1: (Inr _)
    show ?thesis
    proof (cases r2)
      case (Inl e)
      with run r1 have "s' = s2" "r \<noteq> Inr ()" by (auto simp: install_def andthen_def lift_def)
      with acts1 acts2 cs(1) show ?thesis
        by (intro exI [of _ "CreateDir dir # RunWsl LIST_ARGS # cs"] exI [of _ b]) (auto simp: install_calls_def)
    next
      case r2: (Inr _)
      then have cs: "cs = removal_calls b" using cs(2) by simp
      show ?thesis
      proof (cases r3)
        case (Inl e)
        with run r1 r2 have "s' = s3" "r \<noteq> Inr ()" by (auto simp: install_def andthen_def lift_def)
        with acts1 acts2 acts3 cs show ?thesis
          by (intro exI [of _ "CreateDir dir # RunWsl LIST_ARGS # cs @ [RemoveFile (win_join dir ''ext4.vhdx'')]"] exI [of _ b])
            (auto simp: install_calls_def)
      next
        case (Inr _)
        with run r1 r2 have "s' = s4" by (auto simp: install_def andthen_def lift_def split: sum.splits)
        with acts1 acts2 acts3 acts4 cs show ?thesis
          by (intro exI [of _ "install_calls mc dir img b"] exI [of _ b]) (auto simp: install_calls_def)
      qed
    qed
  qed
qed


text \<open>A machine without distributions on which everything works.\<close>

definition demo_machine :: "unit machine" where
  "demo_machine =
     \<lparr>mc_wsl = (\<lambda>args w. (Ran (Some 0) [] [], w)), mc_create_dir = (\<lambda>d w. (None, w)), mc_remove = (\<lambda>f w. (Absent, w)),
      mc_image = (\<lambda>f w. \<lparr>im_len = Some 1, im_sidecar = None, im_bytes = Some [0]\<rparr>), mc_sha256 = (\<lambda>b. []),
      mc_utf8 = (\<lambda>b. []), mc_local_app_data = Some ''L''\<rparr>"

lemma demo_wsl_run: "wsl_run demo_machine args s = (Inr [], \<lparr>wi_world = (), wi_acts = wi_acts s @ [RunWsl args]\<rparr>)"
  by (simp add: wsl_run_def demo_machine_def decode_wsl_output_def looks_utf16_def)

lemma demo_wsl_names: "wsl_names demo_machine args s = (Inr [], \<lparr>wi_world = (), wi_acts = wi_acts s @ [RunWsl args]\<rparr>)"
  by (simp add: wsl_names_def demo_wsl_run parse_name_list_def rust_lines_def)


section \<open>What is recognised\<close>

lemma high_byte_zero: "unat (u :: u16) < 256 \<longleftrightarrow> ucast (drop_bit 8 u) = (0 :: u8)"
proof -
  have "unat (drop_bit 8 u) = drop_bit 8 (unat u)" by (rule unat_drop_bit_eq)
  then have "unat (drop_bit 8 u) = unat u div 256" by (simp only: drop_bit_eq_div) simp
  moreover have "unat u < 65536" using unsigned_less [of u, where 'a = nat] by simp
  ultimately have "unat (ucast (drop_bit 8 u) :: u8) = unat u div 256"
    by (simp add: unsigned_ucast_eq unsigned_take_bit_eq take_bit_eq_mod)
  then show ?thesis by (metis div_eq_0_iff unat_eq_zero zero_neq_numeral)
qed

text \<open>Only the mark itself looks like one.\<close>

lemma mark_first:
  assumes "list_all scalar ps" and "take 1 ps \<noteq> [0xFEFF]"
  shows "take 2 (le_bytes (concat (map utf16_units ps))) \<noteq> [0xFF, 0xFE]"
proof (cases ps)
  case (Cons p qs)
  with assms have p: "scalar p" "p \<noteq> 0xFEFF" by auto
  obtain u us where u: "utf16_units p = u # us" by (cases "p < 0x10000") (auto simp: utf16_units_def)
  have "unat u \<noteq> 0xFEFF"
  proof (cases "p < 0x10000")
    case True
    with p u show ?thesis by (auto simp: utf16_units_def unat_of_nat)
  next
    case False
    with p have "0xD800 + (p - 0x10000) div 0x400 < (0xDC00 :: nat)" by (auto simp: scalar_def)
    moreover from False u have "u = of_nat (0xD800 + (p - 0x10000) div 0x400)" by (simp add: utf16_units_def del: of_nat_add)
    ultimately have "unat u < 0xDC00" by (simp only: unat_of_nat) simp
    then show ?thesis by simp
  qed
  moreover have "take 2 (le_bytes (concat (map utf16_units ps))) = [ucast u, ucast (drop_bit 8 u)]"
    by (simp add: Cons u le_bytes_def)
  moreover have "unat u = 0xFEFF" if "[ucast u, ucast (drop_bit 8 u)] = [0xFF, 0xFE :: u8]"
  proof -
    from that have "from_be16 (ucast (drop_bit 8 u)) (ucast u) = from_be16 0xFE 0xFF" by simp
    then have "u = from_be16 0xFE 0xFF" by (simp add: framing)
    then show ?thesis by (simp add: from_be16_def)
  qed
  ultimately show ?thesis by metis
qed (simp add: le_bytes_def)

text \<open>Text that \<^verbatim>\<open>wsl.exe\<close> prints in UTF-16 is read as printed, surrogate pairs included, when it starts with the
  byte order mark or when more than half of its units are below U+0100. Otherwise it is taken for UTF-8:
  without the mark, text in another script is not recognised.\<close>
theorem printed_is_read:
  assumes "list_all scalar ps" and "take 1 ps \<noteq> [0xFEFF]"
  shows "decode_wsl_output utf8 (0xFF # 0xFE # le_bytes (concat (map utf16_units ps))) = concat (map utf8_point ps)
     \<and> (let us = concat (map utf16_units ps) in
        decode_wsl_output utf8 (le_bytes us) =
          (if 2 \<le> length us \<and> length us div 2 < length (filter (\<lambda>u. unat u < 256) us)
           then concat (map utf8_point ps) else utf8 (le_bytes us)))"
proof -
  let ?us = "concat (map utf16_units ps)"
  have drop: "dropWhile (\<lambda>p. p = 0xFEFF) ps = ps" using assms(2) by (cases ps) auto
  have mark: "utf16_points (le_units (0xFF # 0xFE # le_bytes ?us)) = 0xFEFF # ps"
    using points_text [OF assms(1)] by (simp add: from_be16_def)
  have "unat u < 256 \<longleftrightarrow> ucast (drop_bit 8 u) = (0 :: u8)" for u :: u16 by (rule high_byte_zero)
  then have zeros: "length (filter (\<lambda>b. b = 0) (odd_bytes (le_bytes us))) = length (filter (\<lambda>u. unat u < 256) us)" for us
    by (induction us) (simp_all add: le_bytes_def)
  have "looks_utf16 (le_bytes ?us) \<longleftrightarrow>
      2 \<le> length ?us \<and> length ?us div 2 < length (filter (\<lambda>u. unat u < 256) ?us)"
    using zeros [of ?us] mark_first [OF assms] by (auto simp: looks_utf16_def)
  with drop mark points_text [OF assms(1)] show ?thesis
    by (auto simp: decode_wsl_output_def looks_utf16_def Let_def)
qed

text \<open>A version in English with the mark; four letters without it; four of another script without it.\<close>

theorem printed_is_read_witness:
  "decode_wsl_output (\<lambda>b. ''?'') (0xFF # 0xFE # le_bytes (concat (map utf16_units [0x57, 0xE3, 0x1F600]))) =
     concat (map utf8_point [0x57, 0xE3, 0x1F600])
   \<and> decode_wsl_output (\<lambda>b. ''?'') (le_bytes (concat (map utf16_units [0x57, 0x53, 0x4C, 0x20]))) =
       concat (map utf8_point [0x57, 0x53, 0x4C, 0x20])
   \<and> decode_wsl_output (\<lambda>b. ''?'') (le_bytes (concat (map utf16_units [0x41D, 0x435, 0x442, 0x20]))) = ''?''"
  using printed_is_read [of "[0x57, 0xE3, 0x1F600]" "\<lambda>b. ''?''"]
    printed_is_read [of "[0x57, 0x53, 0x4C, 0x20]" "\<lambda>b. ''?''"]
    printed_is_read [of "[0x41D, 0x435, 0x442, 0x20]" "\<lambda>b. ''?''"]
  by (simp add: scalar_def utf16_units_def Let_def)

end
