(* ===== verification/Engine.thy ===== *)
theory Engine
  imports Engine_Wsl Engine_Rpc
begin

text \<open>
  The engine the desktop app talks to (\<^verbatim>\<open>crates/willie-engine/src/engine.rs\<close>) and the supervisor of the
  daemon's process inside it (\<^verbatim>\<open>daemon.rs\<close>). Everything done to a process is recorded; what the machine
  answers is a function of that record, so that it can change from one moment to the next. What a call
  brings back is an error or a value, as the client (\<open>Engine_Rpc\<close>) ends it.

  Shown: after any operations the supervisor says running exactly when it holds a process, and every
  other process it ever started is dead and reaped, with one exception the code has; an error reply never
  costs a running daemon; a plugin call of the webview reaches nothing but plugin methods.
\<close>

section \<open>Processes and calls\<close>

datatype daemon_state = DStopped | DRunning string "string option" | DFailed string string

fun is_running :: "daemon_state \<Rightarrow> bool" where
  "is_running (DRunning v i) = True"
| "is_running _ = False"

datatype proc_act =
    Spawn nat
  | Leak nat
  | Kill nat
  | Reap nat
  | Poll nat "int option"
  | Send nat string
  | CloseStdin nat

text \<open>A child whose stderr thread could not be started is dropped by the function that spawned it: it runs on.\<close>

datatype spawn_outcome = Spawned | SpawnedLoose string | NotSpawned wsl_error

record sup_env =
  se_spawn :: "proc_act list \<Rightarrow> spawn_outcome"
  se_transport :: "proc_act list \<Rightarrow> string option"
  se_hello :: "proc_act list \<Rightarrow> engine_error + (string \<times> string option)"
  se_call :: "proc_act list \<Rightarrow> string \<Rightarrow> json \<Rightarrow> engine_error + json"
  se_exit :: "proc_act list \<Rightarrow> int option"
  se_stderr :: "proc_act list \<Rightarrow> string"
  se_stray :: "proc_act list \<Rightarrow> string"
  se_polls :: "proc_act list \<Rightarrow> nat"
  se_version :: string

record sup =
  sv_live :: "nat option"
  sv_daemon :: daemon_state
  sv_spawned :: nat
  sv_acts :: "proc_act list"

definition sup_new :: sup where
  "sup_new = \<lparr>sv_live = None, sv_daemon = DStopped, sv_spawned = 0, sv_acts = []\<rparr>"

definition act :: "proc_act \<Rightarrow> sup \<Rightarrow> sup" where
  "act a s = s\<lparr>sv_acts := sv_acts s @ [a]\<rparr>"

definition CLOSED_STDOUT :: string where "CLOSED_STDOUT = ''daemon closed its stdout''"

text \<open>What \<open>call\<close> makes of the end of its wait.\<close>

definition call_value :: "(json \<Rightarrow> string + 'r) \<Rightarrow> string \<Rightarrow> call_end \<Rightarrow> engine_error + 'r" where
  "call_value from_value m out =
     (case out of
        Answered r \<Rightarrow>
          (case into_result r of
             Inl e \<Rightarrow> Inl (ERpc e)
           | Inr v \<Rightarrow>
               (case from_value v of
                  Inl e \<Rightarrow> Inl (EProtocol (''bad '' @ quoted m @ '' result: '' @ e))
                | Inr x \<Rightarrow> Inr x))
      | TimedOut \<Rightarrow> Inl (ETimeout m)
      | Closed \<Rightarrow> Inl (EProtocol CLOSED_STDOUT))"

section \<open>The supervisor\<close>

definition try_wait :: "sup_env \<Rightarrow> nat \<Rightarrow> sup \<Rightarrow> int option \<times> sup" where
  "try_wait env p s = (let r = se_exit env (sv_acts s) in (r, act (Poll p r) s))"

lemma try_wait_eq: "try_wait env p s = (se_exit env (sv_acts s), act (Poll p (se_exit env (sv_acts s))) s)"
  by (simp add: try_wait_def Let_def)

definition kill_and_wait :: "nat \<Rightarrow> sup \<Rightarrow> sup" where
  "kill_and_wait p s = act (Reap p) (act (Kill p) s)"

text \<open>Polling until the child has exited or the deadline: whether it has.\<close>

fun wait_exit :: "sup_env \<Rightarrow> nat \<Rightarrow> nat \<Rightarrow> sup \<Rightarrow> bool \<times> sup" where
  "wait_exit env p 0 s = (False, s)"
| "wait_exit env p (Suc n) s =
     (case try_wait env p s of (Some c, s) \<Rightarrow> (True, s) | (None, s) \<Rightarrow> wait_exit env p n s)"

definition sup_record :: "engine_error \<Rightarrow> sup \<Rightarrow> sup" where
  "sup_record e s =
     (let s = (case sv_live s of Some p \<Rightarrow> kill_and_wait p (s\<lparr>sv_live := None\<rparr>) | None \<Rightarrow> s)
      in s\<lparr>sv_daemon := DFailed (engine_code e) (engine_message e)\<rparr>)"

definition sup_state :: "sup_env \<Rightarrow> sup \<Rightarrow> daemon_state \<times> sup" where
  "sup_state env s =
     (let s = (case sv_live s of
                 Some p \<Rightarrow>
                   (case try_wait env p s of
                      (Some c, s) \<Rightarrow> sup_record (EDaemonExited (Some c) (se_stderr env (sv_acts s))) s
                    | (None, s) \<Rightarrow> s)
               | None \<Rightarrow> s)
      in (sv_daemon s, s))"

definition client_call :: "sup_env \<Rightarrow> nat \<Rightarrow> string \<Rightarrow> json \<Rightarrow> sup \<Rightarrow> (engine_error + json) \<times> sup" where
  "client_call env p m params s = (se_call env (sv_acts s) m params, act (Send p m) s)"

definition sup_stop :: "sup_env \<Rightarrow> sup \<Rightarrow> sup" where
  "sup_stop env s =
     (let s = (case sv_live s of
                 None \<Rightarrow> s
               | Some p \<Rightarrow>
                   (let s = snd (client_call env p ''daemon.shutdown'' (JObject []) (s\<lparr>sv_live := None\<rparr>));
                        s = act (CloseStdin p) s;
                        (exited, s) = wait_exit env p (se_polls env (sv_acts s)) s
                    in if exited then s else kill_and_wait p s))
      in s\<lparr>sv_daemon := DStopped\<rparr>)"

text \<open>A start that failed with the child still at hand.\<close>

definition give_up :: "nat \<Rightarrow> engine_error \<Rightarrow> sup \<Rightarrow> (engine_error + 'a) \<times> sup" where
  "give_up p e s = (Inl e, sup_record e (kill_and_wait p s))"

definition hello_failure :: "sup_env \<Rightarrow> nat \<Rightarrow> engine_error \<Rightarrow> sup \<Rightarrow> engine_error \<times> sup" where
  "hello_failure env p err s =
     (let s = snd (wait_exit env p (se_polls env (sv_acts s)) s) in
      case try_wait env p s of
        (Some code, s) \<Rightarrow>
          (let stderr = se_stderr env (sv_acts s)
           in (EDaemonExited (Some code) (if trim_ws stderr = [] then se_stray env (sv_acts s) else stderr), s))
      | (None, s) \<Rightarrow> (err, s))"

definition sup_start :: "sup_env \<Rightarrow> sup \<Rightarrow> (engine_error + (string \<times> string option)) \<times> sup" where
  "sup_start env s =
     (let s = sup_stop env s; p = sv_spawned s in
      case se_spawn env (sv_acts s) of
        NotSpawned e \<Rightarrow> (Inl (EWsl e), sup_record (EWsl e) s)
      | SpawnedLoose e \<Rightarrow>
          (let s = act (Leak p) (act (Spawn p) (s\<lparr>sv_spawned := p + 1\<rparr>))
           in (Inl (EWsl (WslIo e)), sup_record (EWsl (WslIo e)) s))
      | Spawned \<Rightarrow>
          (let s = act (Spawn p) (s\<lparr>sv_spawned := p + 1\<rparr>) in
           case se_transport env (sv_acts s) of
             Some e \<Rightarrow> give_up p (EWsl (WslIo e)) s
           | None \<Rightarrow>
               (let r = se_hello env (sv_acts s); s = act (Send p ''daemon.hello'') s in
                case r of
                  Inl err \<Rightarrow> (case hello_failure env p err s of (e, s) \<Rightarrow> give_up p e s)
                | Inr (version, img) \<Rightarrow>
                    if version \<noteq> se_version env
                    then give_up p (EVersionMismatch (se_version env) version) (act (CloseStdin p) s)
                    else (Inr (version, img), s\<lparr>sv_daemon := DRunning version img, sv_live := Some p\<rparr>))))"

text \<open>A call on the live client; an error that is no reply of the daemon ends it.\<close>

definition live_call :: "sup_env \<Rightarrow> string \<Rightarrow> json \<Rightarrow> sup \<Rightarrow> (engine_error + json) \<times> sup" where
  "live_call env m params s =
     (case sv_live s of
        None \<Rightarrow> (Inl EDaemonNotRunning, s)
      | Some p \<Rightarrow>
          (case client_call env p m params s of
             (Inl e, s) \<Rightarrow> (Inl e, if (\<exists>r. e = ERpc r) then s else sup_record e s)
           | (Inr v, s) \<Rightarrow> (Inr v, s)))"

definition sup_health :: "sup_env \<Rightarrow> sup \<Rightarrow> (engine_error + json) \<times> sup" where
  "sup_health env = live_call env ''daemon.health'' (JObject [])"

definition sup_doctor :: "sup_env \<Rightarrow> sup \<Rightarrow> (engine_error + json) \<times> sup" where
  "sup_doctor env = live_call env ''daemon.doctor'' (JObject [])"

definition sup_call :: "sup_env \<Rightarrow> string \<Rightarrow> json \<Rightarrow> sup \<Rightarrow> (engine_error + json) \<times> sup" where
  "sup_call env m params s =
     (case sup_state env s of (d, s) \<Rightarrow>
        if is_running d then live_call env m params s
        else andthen (sup_start env s) (\<lambda>_ s. live_call env m params s))"

section \<open>The facade\<close>

record 'w engine =
  en_images :: "string list"
  en_sup :: sup
  en_doctor :: "json option"
  en_win :: "'w windows"

definition engine_new :: "string list \<Rightarrow> 'w \<Rightarrow> 'w engine" where
  "engine_new images w = \<lparr>en_images = images, en_sup = sup_new, en_doctor = None, en_win = \<lparr>wi_world = w, wi_acts = []\<rparr>\<rparr>"

definition on_sup :: "(sup \<Rightarrow> 'a \<times> sup) \<Rightarrow> 'w engine \<Rightarrow> 'a \<times> 'w engine" where
  "on_sup f e = (case f (en_sup e) of (r, s) \<Rightarrow> (r, e\<lparr>en_sup := s\<rparr>))"

definition on_win :: "('w windows \<Rightarrow> 'a \<times> 'w windows) \<Rightarrow> 'w engine \<Rightarrow> 'a \<times> 'w engine" where
  "on_win f e = (case f (en_win e) of (r, w) \<Rightarrow> (r, e\<lparr>en_win := w\<rparr>))"

definition ensure_distro_registered :: "'w machine \<Rightarrow> 'w engine \<Rightarrow> (engine_error + unit) \<times> 'w engine" where
  "ensure_distro_registered mc e =
     andthen (lift EWsl (on_win (distro_status mc) e))
       (\<lambda>st e. (if ds_registered st then Inr () else Inl EDistroNotRegistered, e))"

definition daemon_state :: "sup_env \<Rightarrow> 'w engine \<Rightarrow> daemon_state \<times> 'w engine" where
  "daemon_state env = on_sup (sup_state env)"

definition install_distro ::
    "sup_env \<Rightarrow> 'w machine \<Rightarrow> (string \<Rightarrow> bool) \<Rightarrow> 'w engine \<Rightarrow> (engine_error + unit) \<times> 'w engine" where
  "install_distro env mc is_file e =
     (case locate_image is_file (en_images e) of
        None \<Rightarrow> (Inl EImageNotFound, e)
      | Some img \<Rightarrow>
          (let e = e\<lparr>en_sup := sup_stop env (en_sup e)\<rparr> in
           andthen (on_win (install mc img) e) (\<lambda>_ e. (Inr (), e\<lparr>en_doctor := None\<rparr>))))"

definition start_daemon :: "sup_env \<Rightarrow> 'w machine \<Rightarrow> 'w engine \<Rightarrow> (engine_error + unit) \<times> 'w engine" where
  "start_daemon env mc e =
     andthen (ensure_distro_registered mc e) (\<lambda>_ e.
     andthen (on_sup (sup_start env) e) (\<lambda>_ e. (Inr (), e)))"

definition stop_daemon :: "sup_env \<Rightarrow> 'w engine \<Rightarrow> (engine_error + unit) \<times> 'w engine" where
  "stop_daemon env e = (Inr (), e\<lparr>en_sup := sup_stop env (en_sup e)\<rparr>)"

definition run_doctor :: "sup_env \<Rightarrow> 'w machine \<Rightarrow> 'w engine \<Rightarrow> (engine_error + json) \<times> 'w engine" where
  "run_doctor env mc e =
     (case daemon_state env e of (d, e) \<Rightarrow>
        andthen (if is_running d then (Inr (), e) else start_daemon env mc e) (\<lambda>_ e.
        andthen
          (case on_sup (sup_doctor env) e of
             (Inl err, e) \<Rightarrow>
               (if (\<exists>r. err = ERpc r) then (Inl err, e)
                else andthen (start_daemon env mc e) (\<lambda>_ e. on_sup (sup_doctor env) e))
           | (Inr report, e) \<Rightarrow> (Inr report, e))
          (\<lambda>report e. (Inr report, e\<lparr>en_doctor := Some report\<rparr>))))"

definition daemon_call ::
    "sup_env \<Rightarrow> 'w machine \<Rightarrow> string \<Rightarrow> json \<Rightarrow> 'w engine \<Rightarrow> (engine_error + json) \<times> 'w engine" where
  "daemon_call env mc m params e =
     (case daemon_state env e of (d, e) \<Rightarrow>
        andthen (if is_running d then (Inr (), e) else ensure_distro_registered mc e) (\<lambda>_ e.
        on_sup (sup_call env m params) e))"

definition PLUGIN_METHOD_PREFIX :: string where "PLUGIN_METHOD_PREFIX = ''profile.''"

definition plugin_call ::
    "sup_env \<Rightarrow> 'w machine \<Rightarrow> string \<Rightarrow> json \<Rightarrow> 'w engine \<Rightarrow> (engine_error + json) \<times> 'w engine" where
  "plugin_call env mc m params e =
     (if \<not> starts_with m PLUGIN_METHOD_PREFIX then (Inl (EMethodNotServed m), e)
      else daemon_call env mc m params e)"

text \<open>Only that the folder is there is checked on this side.\<close>

definition engine_project_add ::
    "sup_env \<Rightarrow> 'w machine \<Rightarrow> (string \<Rightarrow> bool) \<Rightarrow> (string \<Rightarrow> string option \<Rightarrow> json) \<Rightarrow> string \<Rightarrow> string option \<Rightarrow>
     'w engine \<Rightarrow> (engine_error + json) \<times> 'w engine" where
  "engine_project_add env mc is_dir encode path name e =
     (if \<not> is_dir path then (Inl (EPathNotFound path), e)
      else daemon_call env mc ''project.add'' (encode path name) e)"

text \<open>A session and its tab: the id in what was created, the title of its project in a list, opening a tab.\<close>

definition session_open_impl ::
    "sup_env \<Rightarrow> 'w machine \<Rightarrow> (json \<Rightarrow> string) \<Rightarrow> (json \<Rightarrow> string option) \<Rightarrow> (string \<Rightarrow> string \<Rightarrow> string + unit) \<Rightarrow> json \<Rightarrow>
     'w engine \<Rightarrow> (engine_error + (json \<times> problem option)) \<times> 'w engine" where
  "session_open_impl env mc created_id title_in tab params e =
     andthen (daemon_call env mc ''session.create'' params e) (\<lambda>created e.
       (let i = created_id created;
            (r, e) = daemon_call env mc ''project.list'' (JObject []) e;
            title = (case r of Inl _ \<Rightarrow> i | Inr l \<Rightarrow> (case title_in l of Some t \<Rightarrow> t | None \<Rightarrow> i));
            problem = (case tab i title of
                         Inr _ \<Rightarrow> None
                       | Inl err \<Rightarrow> Some (problem_of (ETerminalLaunch err (attach_hint i))))
        in (Inr (created, problem), e)))"

section \<open>What a process comes to\<close>

definition dead :: "sup \<Rightarrow> nat set" where
  "dead s = {p. Reap p \<in> set (sv_acts s) \<or> (\<exists>c. Poll p (Some c) \<in> set (sv_acts s))}"

definition leaked :: "sup \<Rightarrow> nat set" where
  "leaked s = {p. Leak p \<in> set (sv_acts s)}"

text \<open>Every process started is among some given ones, or dead, or leaked.\<close>

definition accounted :: "nat set \<Rightarrow> sup \<Rightarrow> bool" where
  "accounted H s \<longleftrightarrow> {..<sv_spawned s} = H \<union> dead s \<union> leaked s"

definition sup_ok :: "sup \<Rightarrow> bool" where
  "sup_ok s \<longleftrightarrow>
     is_running (sv_daemon s) = (sv_live s \<noteq> None)
     \<and> accounted (set_option (sv_live s)) s \<and> set_option (sv_live s) \<inter> (dead s \<union> leaked s) = {}"

lemma act_fields [simp]:
  "sv_live (act a s) = sv_live s" "sv_daemon (act a s) = sv_daemon s" "sv_spawned (act a s) = sv_spawned s"
  "sv_acts (act a s) = sv_acts s @ [a]"
  by (simp_all add: act_def)

lemma dead_act [simp]:
  "dead (act a s) = dead s \<union> (case a of Reap p \<Rightarrow> {p} | Poll p (Some c) \<Rightarrow> {p} | _ \<Rightarrow> {})"
  by (auto simp: dead_def split: proc_act.split option.split)

lemma leaked_act [simp]: "leaked (act a s) = leaked s \<union> (case a of Leak p \<Rightarrow> {p} | _ \<Rightarrow> {})"
  by (auto simp: leaked_def split: proc_act.split)

lemma only_acts [simp]:
  "dead (s\<lparr>sv_live := l\<rparr>) = dead s" "leaked (s\<lparr>sv_live := l\<rparr>) = leaked s"
  "dead (s\<lparr>sv_daemon := d\<rparr>) = dead s" "leaked (s\<lparr>sv_daemon := d\<rparr>) = leaked s"
  "dead (s\<lparr>sv_spawned := n\<rparr>) = dead s" "leaked (s\<lparr>sv_spawned := n\<rparr>) = leaked s"
  by (simp_all add: dead_def leaked_def)

lemma kill_and_wait_fields [simp]:
  "sv_live (kill_and_wait p s) = sv_live s" "sv_daemon (kill_and_wait p s) = sv_daemon s"
  "sv_spawned (kill_and_wait p s) = sv_spawned s" "dead (kill_and_wait p s) = insert p (dead s)"
  "leaked (kill_and_wait p s) = leaked s"
  by (auto simp: kill_and_wait_def)

text \<open>Processes that die leave the given ones.\<close>

lemma accounted_step:
  "accounted H s \<Longrightarrow> sv_spawned s' = sv_spawned s \<Longrightarrow> dead s' = D \<union> dead s \<Longrightarrow> leaked s' = leaked s \<Longrightarrow>
     D \<subseteq> H \<Longrightarrow> H' \<subseteq> H \<Longrightarrow> H \<subseteq> H' \<union> D \<Longrightarrow> accounted H' s'"
proof -
  assume "accounted H s" and "sv_spawned s' = sv_spawned s" and "dead s' = D \<union> dead s" and "leaked s' = leaked s"
    and D: "D \<subseteq> H" "H' \<subseteq> H" "H \<subseteq> H' \<union> D"
  then have "{..<sv_spawned s'} = H \<union> dead s \<union> leaked s" "dead s' = D \<union> dead s" "leaked s' = leaked s"
    by (simp_all add: accounted_def)
  moreover have "H \<union> dead s \<union> leaked s = H' \<union> (D \<union> dead s) \<union> leaked s" using D by blast
  ultimately show ?thesis unfolding accounted_def by (simp only:)
qed

lemma wait_exit_dead:
  "wait_exit env p n s = (b, s') \<Longrightarrow>
     sv_live s' = sv_live s \<and> sv_spawned s' = sv_spawned s \<and> leaked s' = leaked s
     \<and> dead s' = (if b then {p} else {}) \<union> dead s"
proof (induction n arbitrary: s)
  case (Suc n)
  show ?case
  proof (cases "se_exit env (sv_acts s)")
    case None
    then have "wait_exit env p (Suc n) s = wait_exit env p n (act (Poll p None) s)" by (simp add: try_wait_eq)
    with Suc.prems Suc.IH [of "act (Poll p None) s"] show ?thesis by simp
  next
    case (Some c)
    with Suc.prems show ?thesis by (auto simp: try_wait_eq)
  qed
qed simp

lemma record_ok: "accounted (set_option (sv_live s)) s \<Longrightarrow> sup_ok (sup_record e s)"
proof (cases "sv_live s")
  case None
  assume "accounted (set_option (sv_live s)) s"
  with None show ?thesis by (simp add: sup_record_def sup_ok_def accounted_def)
next
  case (Some p)
  assume "accounted (set_option (sv_live s)) s"
  then have "accounted {} (kill_and_wait p (s\<lparr>sv_live := None\<rparr>))"
    by (rule accounted_step [where D = "{p}"]) (simp_all add: Some)
  with Some show ?thesis by (simp add: sup_record_def sup_ok_def accounted_def)
qed

lemma give_up_ok:
  assumes "accounted {p} s" and "sv_live s = None"
  shows "sup_ok (snd (give_up p e s))"
proof -
  have "accounted {} (kill_and_wait p s)" using assms(1) by (rule accounted_step [where D = "{p}"]) simp_all
  then show ?thesis unfolding give_up_def snd_conv by (intro record_ok) (simp add: assms(2))
qed

lemma stop_ok:
  assumes "sup_ok s"
  shows "sup_ok (sup_stop env s) \<and> sv_live (sup_stop env s) = None"
proof (cases "sv_live s")
  case None
  with assms show ?thesis by (simp add: sup_stop_def Let_def sup_ok_def accounted_def)
next
  case (Some p)
  let ?s = "act (CloseStdin p) (act (Send p ''daemon.shutdown'') (s\<lparr>sv_live := None\<rparr>))"
  obtain b s' where st: "wait_exit env p (se_polls env (sv_acts ?s)) ?s = (b, s')"
    by (cases "wait_exit env p (se_polls env (sv_acts ?s)) ?s")
  let ?u = "if b then s' else kill_and_wait p s'"
  have stop: "sup_stop env s = ?u\<lparr>sv_daemon := DStopped\<rparr>"
    using Some st by (cases b) (simp_all add: sup_stop_def client_call_def)
  from assms Some have "accounted {p} s" by (simp add: sup_ok_def)
  then have "accounted {} ?u" by (rule accounted_step [where D = "{p}"]) (use wait_exit_dead [OF st] in auto)
  moreover have "sv_live ?u = None" using wait_exit_dead [OF st] by simp
  ultimately show ?thesis unfolding stop by (simp add: sup_ok_def accounted_def)
qed

lemma hello_failure_accounted:
  assumes "hello_failure env p err s = (e, s')" and "accounted {p} s" and "sv_live s = None"
  shows "accounted {p} s' \<and> sv_live s' = None"
proof -
  obtain b s1 where st: "wait_exit env p (se_polls env (sv_acts s)) s = (b, s1)"
    by (cases "wait_exit env p (se_polls env (sv_acts s)) s")
  let ?r = "se_exit env (sv_acts s1)"
  have s': "s' = act (Poll p ?r) s1"
    using assms(1) st by (cases ?r) (simp_all add: hello_failure_def try_wait_eq Let_def)
  have "accounted {p} s1" using assms(2)
    by (rule accounted_step [where D = "if b then {p} else {}"]) (use wait_exit_dead [OF st] in auto)
  then have "accounted {p} s'" unfolding s'
    by (rule accounted_step [where D = "if ?r = None then {} else {p}"]) (auto split: option.split)
  with wait_exit_dead [OF st] assms(3) s' show ?thesis by simp
qed

lemma start_ok:
  assumes "sup_ok s"
  shows "sup_ok (snd (sup_start env s)) \<and> (\<forall>v. fst (sup_start env s) = Inr v \<longrightarrow> is_running (sv_daemon (snd (sup_start env s))))"
proof -
  let ?s = "sup_stop env s" and ?p = "sv_spawned (sup_stop env s)"
  have ok: "sup_ok ?s" "sv_live ?s = None" using stop_ok [OF assms] by blast+
  then have acc: "{..<?p} = dead ?s \<union> leaked ?s" by (simp add: sup_ok_def accounted_def)
  let ?s1 = "act (Spawn ?p) (?s\<lparr>sv_spawned := ?p + 1\<rparr>)"
  have acc1: "accounted {?p} ?s1" and new: "?p \<notin> dead ?s1 \<union> leaked ?s1" and none: "sv_live ?s1 = None"
    using acc ok(2) by (auto simp: accounted_def lessThan_Suc)
  let ?s2 = "act (Send ?p ''daemon.hello'') ?s1"
  have acc2: "accounted {?p} ?s2" using acc1 by (simp add: accounted_def)
  show ?thesis
  proof (cases "se_spawn env (sv_acts ?s)")
    case (NotSpawned e)
    have "sup_ok (sup_record (EWsl e) ?s)" using ok by (intro record_ok) (simp add: sup_ok_def)
    with NotSpawned show ?thesis by (simp add: sup_start_def Let_def)
  next
    case (SpawnedLoose e)
    have "accounted (set_option (sv_live (act (Leak ?p) ?s1))) (act (Leak ?p) ?s1)"
      using acc1 none by (auto simp: accounted_def)
    from record_ok [OF this, of "EWsl (WslIo e)"] SpawnedLoose show ?thesis by (simp add: sup_start_def Let_def)
  next
    case Spawned
    show ?thesis
    proof (cases "se_transport env (sv_acts ?s1)")
      case (Some e)
      with Spawned give_up_ok [OF acc1 none, of "EWsl (WslIo e)"] show ?thesis
        by (simp add: sup_start_def Let_def give_up_def)
    next
      case None
      show ?thesis
      proof (cases "se_hello env (sv_acts ?s1)")
        case (Inl err)
        obtain e s3 where h: "hello_failure env ?p err ?s2 = (e, s3)" by (cases "hello_failure env ?p err ?s2")
        have "accounted {?p} s3" "sv_live s3 = None" using hello_failure_accounted [OF h acc2] none by simp_all
        from give_up_ok [OF this, of e] h Inl None Spawned show ?thesis
          by (simp add: sup_start_def Let_def give_up_def)
      next
        case (Inr vi)
        obtain v i where vi: "vi = (v, i)" by (cases vi)
        show ?thesis
        proof (cases "v = se_version env")
          case True
          have "sup_ok (?s2\<lparr>sv_daemon := DRunning v i, sv_live := Some ?p\<rparr>)"
            using acc2 new by (simp add: sup_ok_def accounted_def)
          with True vi Inr None Spawned show ?thesis by (simp add: sup_start_def Let_def)
        next
          case False
          have "accounted {?p} (act (CloseStdin ?p) ?s2)" using acc2 by (simp add: accounted_def)
          from give_up_ok [OF this, of "EVersionMismatch (se_version env) v"] none False vi Inr None Spawned
          show ?thesis by (simp add: sup_start_def Let_def give_up_def)
        qed
      qed
    qed
  qed
qed

lemma state_fields:
  "sup_state env s = (d, s') \<Longrightarrow> sup_ok s \<Longrightarrow>
     sup_ok s' \<and> d = sv_daemon s' \<and> (is_running d \<longrightarrow> sv_live s' = sv_live s \<and> sv_daemon s' = sv_daemon s)"
proof (cases "sv_live s")
  case None
  assume "sup_state env s = (d, s')" "sup_ok s"
  with None show ?thesis by (auto simp: sup_state_def Let_def)
next
  case (Some p)
  assume st: "sup_state env s = (d, s')" and ok: "sup_ok s"
  show ?thesis
  proof (cases "se_exit env (sv_acts s)")
    case None
    then have "s' = act (Poll p None) s" "d = sv_daemon s" using st Some by (auto simp: sup_state_def try_wait_eq)
    moreover have "sup_ok (act (Poll p None) s)" using ok by (simp add: sup_ok_def accounted_def)
    ultimately show ?thesis by simp
  next
    case exit: (Some c)
    let ?s = "act (Poll p (Some c)) s"
    have "accounted {p} s" using ok Some by (simp add: sup_ok_def)
    then have "accounted (set_option (sv_live ?s)) ?s"
      by (rule accounted_step [where D = "{p}"]) (simp_all add: Some)
    note done' = record_ok [OF this, of "EDaemonExited (Some c) (se_stderr env (sv_acts ?s))"]
    have "s' = sup_record (EDaemonExited (Some c) (se_stderr env (sv_acts ?s))) ?s" "d = sv_daemon s'"
      using st Some exit by (auto simp: sup_state_def try_wait_eq Let_def)
    with done' show ?thesis by (auto simp: sup_record_def Let_def)
  qed
qed

lemma live_call_ok:
  assumes "sup_ok s"
  shows "sup_ok (snd (live_call env m params s))"
proof (cases "sv_live s")
  case None
  with assms show ?thesis by (simp add: live_call_def)
next
  case (Some p)
  let ?s = "act (Send p m) s"
  have ok: "sup_ok ?s" using assms by (simp add: sup_ok_def accounted_def)
  then have "sup_ok (sup_record e ?s)" for e by (intro record_ok) (simp add: sup_ok_def)
  with ok Some show ?thesis by (auto simp: live_call_def client_call_def split: sum.split)
qed

lemma call_ok:
  assumes "sup_ok s"
  shows "sup_ok (snd (sup_call env m params s))"
proof -
  obtain d s1 where st: "sup_state env s = (d, s1)" by (cases "sup_state env s")
  from state_fields [OF st assms] have ok1: "sup_ok s1" by blast
  obtain r s2 where start: "sup_start env s1 = (r, s2)" by (cases "sup_start env s1")
  from start_ok [OF ok1, of env] start have "sup_ok s2" by simp
  with ok1 st start live_call_ok show ?thesis
    by (auto simp: sup_call_def andthen_def split: sum.split)
qed

section \<open>What the supervisor does, whatever is asked of it\<close>

datatype sup_op = OpStart | OpStop | OpState | OpHealth | OpDoctor | OpCall string json

fun sup_step :: "sup \<Rightarrow> sup_env \<times> sup_op \<Rightarrow> sup" where
  "sup_step s (env, OpStart) = snd (sup_start env s)"
| "sup_step s (env, OpStop) = sup_stop env s"
| "sup_step s (env, OpState) = snd (sup_state env s)"
| "sup_step s (env, OpHealth) = snd (sup_health env s)"
| "sup_step s (env, OpDoctor) = snd (sup_doctor env s)"
| "sup_step s (env, OpCall m params) = snd (sup_call env m params s)"

interpretation supervising: invariant_fold sup_step sup_ok
proof
  fix s and e :: "sup_env \<times> sup_op" assume ok: "sup_ok s"
  obtain env op' where e: "e = (env, op')" by (cases e)
  have "sup_ok (snd (sup_state env s))"
    using state_fields [of env s "fst (sup_state env s)" "snd (sup_state env s)"] ok by simp
  then show "sup_ok (sup_step s e)" unfolding e
    using start_ok [OF ok] stop_ok [OF ok] live_call_ok [OF ok] call_ok [OF ok]
    by (cases op') (simp_all add: sup_health_def sup_doctor_def)
qed

lemma sup_new_ok: "sup_ok sup_new"
  by (simp add: sup_ok_def sup_new_def accounted_def dead_def leaked_def)

section \<open>What is sent\<close>

text \<open>What is done between two states, by the methods sent and the number of processes started.\<close>

fun is_spawn :: "proc_act \<Rightarrow> bool" where
  "is_spawn (Spawn p) = True"
| "is_spawn _ = False"

definition sends :: "proc_act list \<Rightarrow> string set" where
  "sends as = {m. \<exists>p. Send p m \<in> set as}"

definition does :: "string set \<Rightarrow> nat \<Rightarrow> sup \<Rightarrow> sup \<Rightarrow> bool" where
  "does M n s s' \<longleftrightarrow>
     (\<exists>as. sv_acts s' = sv_acts s @ as \<and> sends as \<subseteq> M \<and> length (filter is_spawn as) \<le> n)"

lemma does_refl: "does M n s s"
  by (auto simp: does_def sends_def)

lemma does_trans: "does M n s t \<Longrightarrow> does M' n' t u \<Longrightarrow> does (M \<union> M') (n + n') s u"
  unfolding does_def sends_def by (elim exE conjE, rule exI, auto) blast+

lemma does_weaken: "does M n s s' \<Longrightarrow> M \<subseteq> M' \<Longrightarrow> n \<le> n' \<Longrightarrow> does M' n' s s'"
  unfolding does_def by (meson order_trans)

lemma does_act:
  "does (case a of Send p m \<Rightarrow> {m} | _ \<Rightarrow> {}) (if is_spawn a then 1 else 0) s (act a s)"
  by (cases a) (auto simp: does_def sends_def)

lemma does_daemon [simp]:
  "does M n (s\<lparr>sv_daemon := d\<rparr>) s' = does M n s s'" "does M n s (s'\<lparr>sv_daemon := d\<rparr>) = does M n s s'"
  "does M n (s\<lparr>sv_live := l\<rparr>) s' = does M n s s'" "does M n s (s'\<lparr>sv_live := l\<rparr>) = does M n s s'"
  "does M n (s\<lparr>sv_spawned := k\<rparr>) s' = does M n s s'"
  by (simp_all add: does_def)

lemma does_kill: "does {} 0 s (kill_and_wait p s)"
  by (auto simp: kill_and_wait_def does_def sends_def)

lemma does_wait_exit: "wait_exit env p n s = (b, s') \<Longrightarrow> does {} 0 s s'"
proof (induction env p n s arbitrary: b s' rule: wait_exit.induct)
  case (2 env p n s)
  have poll: "does {} 0 s (act (Poll p r) s)" for r using does_act [of "Poll p r" s] by simp
  show ?case
  proof (cases "se_exit env (sv_acts s)")
    case None
    with 2 poll [of None] show ?thesis using does_trans by (fastforce simp: try_wait_eq Let_def)
  next
    case (Some c)
    with 2 poll [of "Some c"] show ?thesis by (auto simp: try_wait_eq Let_def)
  qed
qed (simp add: does_refl)

lemma does_record: "does {} 0 s (sup_record e s)"
proof (cases "sv_live s")
  case (Some p)
  have "does {} 0 s (kill_and_wait p (s\<lparr>sv_live := None\<rparr>))" using does_kill [of "s\<lparr>sv_live := None\<rparr>" p] by simp
  with Some show ?thesis by (simp add: sup_record_def)
qed (simp add: sup_record_def does_refl)

lemma does_state: "does {} 0 s (snd (sup_state env s))"
proof (cases "sv_live s")
  case (Some p)
  have "does {} 0 s (act (Poll p r) s)" for r using does_act [of "Poll p r" s] by simp
  with does_trans [OF this does_record] Some show ?thesis
    by (auto simp: sup_state_def Let_def try_wait_eq split: option.split)
qed (simp add: sup_state_def does_refl)

lemma does_give_up: "does {} 0 s (sup_record e (kill_and_wait p s))"
  using does_trans [OF does_kill does_record] by simp

lemma does_hello_failure: "hello_failure env p err s = (e, s') \<Longrightarrow> does {} 0 s s'"
proof -
  assume h: "hello_failure env p err s = (e, s')"
  obtain b s1 where st: "wait_exit env p (se_polls env (sv_acts s)) s = (b, s1)"
    by (cases "wait_exit env p (se_polls env (sv_acts s)) s")
  have "does {} 0 s1 (act (Poll p r) s1)" for r using does_act [of "Poll p r" s1] by simp
  from does_trans [OF does_wait_exit [OF st] this] h st show ?thesis
    by (cases "se_exit env (sv_acts s1)") (auto simp: hello_failure_def Let_def try_wait_eq)
qed

text \<open>A start that finds no process says hello at most, to one process.\<close>

lemma does_start:
  assumes "sv_live s = None"
  shows "does {''daemon.hello''} 1 s (snd (sup_start env s))"
proof -
  let ?s = "s\<lparr>sv_daemon := DStopped\<rparr>" and ?p = "sv_spawned s"
  have stop: "sup_stop env s = ?s" using assms by (simp add: sup_stop_def Let_def)
  let ?s1 = "act (Spawn ?p) (?s\<lparr>sv_spawned := ?p + 1\<rparr>)" and ?h = "''daemon.hello''"
  have s1: "does {} 1 s ?s1" using does_act [of "Spawn ?p" "?s\<lparr>sv_spawned := ?p + 1\<rparr>"] by simp
  let ?s2 = "act (Send ?p ?h) ?s1"
  have s2: "does {?h} 1 s ?s2" using does_trans [OF s1 does_act [of "Send ?p ?h" ?s1]] by simp
  have later: "does {?h} 1 s u" if "does {} 0 t u" "does {?h} 1 s t" for t u
    using does_trans [OF that(2,1)] by simp
  have s1': "does {?h} 1 s ?s1" using s1 by (rule does_weaken) simp_all
  show ?thesis
  proof (cases "se_spawn env (sv_acts s)")
    case (NotSpawned e)
    have "does {?h} 1 s (sup_record (EWsl e) ?s)"
      using does_record [of ?s "EWsl e"] by (auto intro: does_weaken)
    with NotSpawned show ?thesis by (simp add: sup_start_def stop Let_def give_up_def)
  next
    case (SpawnedLoose e)
    have "does {} 0 ?s1 (act (Leak ?p) ?s1)" using does_act [of "Leak ?p" ?s1] by simp
    from later [OF does_record later [OF this s1']] SpawnedLoose show ?thesis
      by (simp add: sup_start_def stop Let_def give_up_def)
  next
    case Spawned
    show ?thesis
    proof (cases "se_transport env (sv_acts ?s1)")
      case (Some e)
      with Spawned later [OF does_give_up s1'] show ?thesis by (simp add: sup_start_def stop Let_def give_up_def)
    next
      case None
      show ?thesis
      proof (cases "se_hello env (sv_acts ?s1)")
        case (Inl err)
        obtain e s3 where h: "hello_failure env ?p err ?s2 = (e, s3)" by (cases "hello_failure env ?p err ?s2")
        from later [OF does_give_up later [OF does_hello_failure [OF h] s2]] h Inl None Spawned
        show ?thesis by (simp add: sup_start_def stop Let_def give_up_def)
      next
        case (Inr vi)
        obtain v i where vi: "vi = (v, i)" by (cases vi)
        have "does {} 0 ?s2 (act (CloseStdin ?p) ?s2)" using does_act [of "CloseStdin ?p" ?s2] by simp
        from later [OF does_give_up later [OF this s2]] s2 Inr vi None Spawned
        show ?thesis by (simp add: sup_start_def stop Let_def give_up_def)
      qed
    qed
  qed
qed

lemma does_live_call: "does {m} 0 s (snd (live_call env m params s))"
proof (cases "sv_live s")
  case (Some p)
  have s: "does {m} 0 s (act (Send p m) s)" using does_act [of "Send p m" s] by simp
  with does_trans [OF s does_record] Some show ?thesis
    by (auto simp: live_call_def client_call_def split: sum.split)
qed (simp add: live_call_def does_refl)

lemma does_call:
  assumes "sup_ok s"
  shows "does {''daemon.hello'', m} 1 s (snd (sup_call env m params s))"
proof -
  obtain d s1 where st: "sup_state env s = (d, s1)" by (cases "sup_state env s")
  have s1: "does {} 0 s s1" using does_state [of s env] st by simp
  obtain r s2 where start: "sup_start env s1 = (r, s2)" by (cases "sup_start env s1")
  show ?thesis
  proof (cases "is_running d")
    case True
    have "does {''daemon.hello'', m} 1 s (snd (live_call env m params s1))"
      using does_trans [OF s1 does_live_call] by (rule does_weaken) simp_all
    with True st show ?thesis by (simp add: sup_call_def)
  next
    case False
    with state_fields [OF st assms] have "sv_live s1 = None" by (simp add: sup_ok_def)
    from does_trans [OF s1 does_start [OF this, of env]] start
    have s2: "does {''daemon.hello''} 1 s s2" by simp
    have "does {''daemon.hello'', m} 1 s (snd (live_call env m params s2))"
      using does_trans [OF s2 does_live_call] by (rule does_weaken) simp_all
    moreover have "does {''daemon.hello'', m} 1 s s2" using s2 by (rule does_weaken) simp_all
    ultimately show ?thesis using False st start by (cases r) (simp_all add: sup_call_def andthen_def)
  qed
qed

lemma call_keeps:
  "case live_call env m params s of
     (Inr v, s') \<Rightarrow> sv_live s' = sv_live s \<and> sv_daemon s' = sv_daemon s
   | (Inl (ERpc err), s') \<Rightarrow> sv_live s' = sv_live s \<and> sv_daemon s' = sv_daemon s
   | (Inl err, s') \<Rightarrow> sv_live s' = None"
proof (cases "sv_live s")
  case None
  then show ?thesis by (simp add: live_call_def)
next
  case (Some p)
  have "sv_live (sup_record err (act (Send p m) s)) = None" for err
    using Some by (simp add: sup_record_def Let_def)
  with Some show ?thesis
    by (auto simp: live_call_def client_call_def split: sum.split engine_error.split)
qed

text \<open>Before a call the engine asks \<^verbatim>\<open>wsl.exe\<close> for lists, and nothing else of the machine.\<close>

definition lists :: "'w windows \<Rightarrow> 'w windows \<Rightarrow> bool" where
  "lists w w' \<longleftrightarrow> (\<exists>cs. wi_acts w' = wi_acts w @ cs \<and> set cs \<subseteq> {RunWsl LIST_ARGS, RunWsl RUNNING_ARGS})"

lemma lists_refl: "lists w w"
  by (auto simp: lists_def)

lemma status_lists: "lists w (snd (distro_status mc w))"
proof -
  obtain r1 w1 where l: "wsl_names mc LIST_ARGS w = (r1, w1)" by (cases "wsl_names mc LIST_ARGS w")
  obtain r2 w2 where n: "wsl_names mc RUNNING_ARGS w1 = (r2, w2)" by (cases "wsl_names mc RUNNING_ARGS w1")
  from names_acts [OF l] names_acts [OF n] l n show ?thesis
    by (auto simp: distro_status_def andthen_def lists_def Let_def split: sum.split)
qed

lemma ensure_lists:
  "ensure_distro_registered mc e = (r, e') \<Longrightarrow>
     en_sup e' = en_sup e \<and> en_doctor e' = en_doctor e \<and> lists (en_win e) (en_win e')"
  using status_lists [of "en_win e" mc]
  by (auto simp: ensure_distro_registered_def lift_def on_win_def andthen_def split: prod.splits sum.splits)

lemma daemon_call_does:
  assumes "daemon_call env mc m params e = (r, e')" and "sup_ok (en_sup e)"
  shows "does {''daemon.hello'', m} 1 (en_sup e) (en_sup e') \<and> lists (en_win e) (en_win e')"
proof -
  obtain d s1 where st: "sup_state env (en_sup e) = (d, s1)" by (cases "sup_state env (en_sup e)")
  have s1: "does {} 0 (en_sup e) s1" using does_state [of "en_sup e" env] st by simp
  from state_fields [OF st assms(2)] have ok1: "sup_ok s1" by blast
  let ?e1 = "e\<lparr>en_sup := s1\<rparr>"
  obtain r2 e2 where en: "ensure_distro_registered mc ?e1 = (r2, e2)" by (cases "ensure_distro_registered mc ?e1")
  note e2 = ensure_lists [OF en]
  have call: "does {''daemon.hello'', m} 1 (en_sup e) (snd (sup_call env m params s1))"
    using does_trans [OF s1 does_call [OF ok1]] by simp
  have "does {''daemon.hello'', m} 1 (en_sup e) s1" using s1 by (rule does_weaken) simp_all
  with call assms(1) st en e2 show ?thesis
    by (auto simp: daemon_call_def daemon_state_def on_sup_def andthen_def lists_refl split: prod.splits sum.splits if_splits)
qed

lemma start_daemon_does:
  assumes "start_daemon env mc e = (r, e')" and "sup_ok (en_sup e)" and "sv_live (en_sup e) = None"
  shows "does {''daemon.hello''} 1 (en_sup e) (en_sup e')" and "sup_ok (en_sup e')" and "en_doctor e' = en_doctor e"
proof -
  obtain r2 e2 where en: "ensure_distro_registered mc e = (r2, e2)" by (cases "ensure_distro_registered mc e")
  note e2 = ensure_lists [OF en]
  obtain r3 s3 where st: "sup_start env (en_sup e) = (r3, s3)" by (cases "sup_start env (en_sup e)")
  have s3: "does {''daemon.hello''} 1 (en_sup e) s3" "sup_ok s3"
    using does_start [OF assms(3), of env] start_ok [OF assms(2), of env] st by simp_all
  have "(en_sup e', en_doctor e') = (s3, en_doctor e) \<or> (en_sup e', en_doctor e') = (en_sup e, en_doctor e)"
    using assms(1) en e2 st by (cases r2; cases r3) (auto simp: start_daemon_def andthen_def on_sup_def)
  with s3 assms(2) show "does {''daemon.hello''} 1 (en_sup e) (en_sup e')" "sup_ok (en_sup e')" "en_doctor e' = en_doctor e"
    by (auto simp: does_refl)
qed

text \<open>The engine before it asks, and what asking does.\<close>

lemma doctor_ready:
  assumes "sup_state env (en_sup e) = (d, s1)"
    and "(if is_running d then (Inr (), e\<lparr>en_sup := s1\<rparr>) else start_daemon env mc (e\<lparr>en_sup := s1\<rparr>)) = (r2, e2)"
    and "sup_ok (en_sup e)"
  shows "does {''daemon.hello''} 1 (en_sup e) (en_sup e2)" and "sup_ok (en_sup e2)" and "en_doctor e2 = en_doctor e"
proof -
  have s1: "does {} 0 (en_sup e) s1" using does_state [of "en_sup e" env] assms(1) by simp
  from state_fields [OF assms(1,3)] have ok1: "sup_ok s1" and d: "d = sv_daemon s1" by blast+
  have "does {''daemon.hello''} 1 (en_sup e) (en_sup e2) \<and> sup_ok (en_sup e2) \<and> en_doctor e2 = en_doctor e"
  proof (cases "is_running d")
    case True
    have "does {''daemon.hello''} 1 (en_sup e) s1" using s1 by (rule does_weaken) simp_all
    with True assms(2) ok1 show ?thesis by auto
  next
    case False
    with ok1 d have "sv_live s1 = None" by (simp add: sup_ok_def)
    with start_daemon_does [of env mc "e\<lparr>en_sup := s1\<rparr>" r2 e2] False assms(2) ok1 s1 show ?thesis
      using does_trans [OF s1, of "{''daemon.hello''}" 1 "en_sup e2"] by simp
  qed
  then show "does {''daemon.hello''} 1 (en_sup e) (en_sup e2)" "sup_ok (en_sup e2)" "en_doctor e2 = en_doctor e" by blast+
qed

lemma doctor_asked:
  assumes "on_sup (sup_doctor env) e = (r, e')" and "sup_ok (en_sup e)"
  shows "does {''daemon.doctor''} 0 (en_sup e) (en_sup e')" and "sup_ok (en_sup e')" and "en_doctor e' = en_doctor e"
    and "(\<exists>err. r = Inl err \<and> (\<nexists>x. err = ERpc x)) \<longrightarrow> sv_live (en_sup e') = None"
    and "(\<exists>v. r = Inr v) \<longrightarrow> is_running (sv_daemon (en_sup e'))"
proof -
  obtain s' where lc: "live_call env ''daemon.doctor'' (JObject []) (en_sup e) = (r, s')" and e': "e' = e\<lparr>en_sup := s'\<rparr>"
    using assms(1) by (auto simp: on_sup_def sup_doctor_def split: prod.splits)
  show "does {''daemon.doctor''} 0 (en_sup e) (en_sup e')" "sup_ok (en_sup e')" "en_doctor e' = en_doctor e"
    using does_live_call [of "''daemon.doctor''" "en_sup e" env "JObject []"] live_call_ok [OF assms(2), of env "''daemon.doctor''" "JObject []"] lc e'
    by simp_all
  from call_keeps [where env = env and m = "''daemon.doctor''" and params = "JObject []" and s = "en_sup e"] lc e'
  show "(\<exists>err. r = Inl err \<and> (\<nexists>x. err = ERpc x)) \<longrightarrow> sv_live (en_sup e') = None"
    by (auto split: engine_error.splits)
  have "\<not> (\<exists>v. r = Inr v)" if "sv_live (en_sup e) = None" using lc that by (auto simp: live_call_def)
  with call_keeps [where env = env and m = "''daemon.doctor''" and params = "JObject []" and s = "en_sup e"] lc e' assms(2)
  show "(\<exists>v. r = Inr v) \<longrightarrow> is_running (sv_daemon (en_sup e'))"
    by (auto simp: sup_ok_def)
qed

section \<open>Properties\<close>

text \<open>(C20) Whatever is asked of the supervisor in whatever order, and whatever the machine answers: it says running
  exactly while it holds a process, and every other process it ever started has been seen to exit or was
  killed and waited for - but for one kind, the child whose stderr thread could not be started, which is
  dropped alive. A call that the daemon answers, be it with an error, keeps the daemon; any other failed
  call leaves none held.\<close>
theorem supervised:
  "let s = foldl sup_step sup_new es in
     is_running (sv_daemon s) = (sv_live s \<noteq> None)
     \<and> {..<sv_spawned s} = set_option (sv_live s) \<union> dead s \<union> leaked s
     \<and> set_option (sv_live s) \<inter> (dead s \<union> leaked s) = {}
     \<and> (case live_call env m params s of
          (Inr v, s') \<Rightarrow> sv_live s' = sv_live s \<and> sv_daemon s' = sv_daemon s
        | (Inl (ERpc err), s') \<Rightarrow> sv_live s' = sv_live s \<and> sv_daemon s' = sv_daemon s
        | (Inl err, s') \<Rightarrow> sv_live s' = None)"
proof -
  let ?s = "foldl sup_step sup_new es"
  have "sup_ok ?s" by (rule supervising.foldl_inv [OF sup_new_ok])
  moreover have "case live_call env m params ?s of
          (Inr v, s') \<Rightarrow> sv_live s' = sv_live ?s \<and> sv_daemon s' = sv_daemon ?s
        | (Inl (ERpc err), s') \<Rightarrow> sv_live s' = sv_live ?s \<and> sv_daemon s' = sv_daemon ?s
        | (Inl err, s') \<Rightarrow> sv_live s' = None"
    by (rule call_keeps)
  ultimately show ?thesis unfolding sup_ok_def accounted_def Let_def by blast
qed

text \<open>(C24) The one call the webview may word itself reaches no method of the daemon outside \<^verbatim>\<open>profile.\<close>: with any
  other name nothing happens at all; with one of those the daemon is sent it and at most the hello of a
  start, and \<^verbatim>\<open>wsl.exe\<close> is only asked to list.\<close>
theorem plugin_call_confined:
  assumes "plugin_call env mc m params e = (r, e')" and "sup_ok (en_sup e)"
  shows "if starts_with m ''profile.''
     then (\<exists>as. sv_acts (en_sup e') = sv_acts (en_sup e) @ as \<and> sends as \<subseteq> {''daemon.hello'', m})
       \<and> (\<exists>cs. wi_acts (en_win e') = wi_acts (en_win e) @ cs \<and> set cs \<subseteq> {RunWsl LIST_ARGS, RunWsl RUNNING_ARGS})
     else e' = e \<and> r = Inl (EMethodNotServed m)"
proof (cases "starts_with m ''profile.''")
  case True
  with assms(1) have call: "daemon_call env mc m params e = (r, e')" by (simp add: plugin_call_def PLUGIN_METHOD_PREFIX_def)
  from daemon_call_does [OF call assms(2)] True show ?thesis by (auto simp: does_def lists_def)
next
  case False
  with assms(1) show ?thesis by (simp add: plugin_call_def PLUGIN_METHOD_PREFIX_def)
qed

text \<open>A machine on which the daemon starts and answers everything.\<close>

definition demo_env :: sup_env where
  "demo_env =
     \<lparr>se_spawn = (\<lambda>as. Spawned), se_transport = (\<lambda>as. None), se_hello = (\<lambda>as. Inr (''1'', None)),
      se_call = (\<lambda>as m params. Inr JNull), se_exit = (\<lambda>as. None), se_stderr = (\<lambda>as. []), se_stray = (\<lambda>as. []),
      se_polls = (\<lambda>as. 1), se_version = ''1''\<rparr>"

theorem plugin_call_confined_witness:
  "(\<exists>as. sv_acts (en_sup (snd (plugin_call demo_env demo_machine ''profile.list'' JNull (engine_new [] ())))) = as
      \<and> sends as \<subseteq> {''daemon.hello'', ''profile.list''})
   \<and> plugin_call demo_env demo_machine ''daemon.shutdown'' JNull (engine_new [] ()) =
       (Inl (EMethodNotServed ''daemon.shutdown''), engine_new [] ())"
proof -
  let ?e = "engine_new [] ()"
  have ok: "sup_ok (en_sup ?e)" by (simp add: engine_new_def sup_new_ok)
  have acts: "sv_acts (en_sup ?e) = []" by (simp add: engine_new_def sup_new_def)
  note confined = plugin_call_confined [where env = demo_env and mc = demo_machine and params = JNull and e = ?e, OF prod.collapse [symmetric] ok]
  have "starts_with ''profile.list'' ''profile.''" "\<not> starts_with ''daemon.shutdown'' ''profile.''"
    by (simp_all add: starts_with_def)
  with confined [of "''profile.list''"] confined [of "''daemon.shutdown''"] acts show ?thesis
    by (metis append_Nil prod.collapse)
qed

text \<open>Running the doctor starts the daemon at most twice - once because it was not running, once because it did not
  answer - and says nothing to it but hello and doctor; a report means a running daemon, and is kept.\<close>
theorem doctor_restarts_once:
  assumes "run_doctor env mc e = (r, e')" and "sup_ok (en_sup e)"
  shows "does {''daemon.hello'', ''daemon.doctor''} 2 (en_sup e) (en_sup e')
     \<and> (case r of Inr report \<Rightarrow> is_running (sv_daemon (en_sup e')) \<and> en_doctor e' = Some report
        | Inl _ \<Rightarrow> en_doctor e' = en_doctor e)"
proof -
  let ?M = "{''daemon.hello'', ''daemon.doctor''}"
  obtain d s1 where st: "sup_state env (en_sup e) = (d, s1)" by (cases "sup_state env (en_sup e)")
  let ?e1 = "e\<lparr>en_sup := s1\<rparr>"
  obtain r2 e2 where pre: "(if is_running d then (Inr (), ?e1) else start_daemon env mc ?e1) = (r2, e2)"
    by (cases "if is_running d then (Inr (), ?e1) else start_daemon env mc ?e1")
  note p = doctor_ready [OF st pre assms(2)]
  obtain r3 e3 where q: "on_sup (sup_doctor env) e2 = (r3, e3)" by (cases "on_sup (sup_doctor env) e2")
  note first = doctor_asked [OF q p(2)]
  have d3: "does ?M 1 (en_sup e) (en_sup e3)" using does_trans [OF p(1) first(1)] by (simp add: insert_commute)
  obtain r4 e4 where again: "start_daemon env mc e3 = (r4, e4)" by (cases "start_daemon env mc e3")
  obtain r5 e5 where q5: "on_sup (sup_doctor env) e4 = (r5, e5)" by (cases "on_sup (sup_doctor env) e4")
  consider (pre) x where "r2 = Inl x" | (ok) v where "r2 = Inr ()" "r3 = Inr v" | (rpc) x where "r2 = Inr ()" "r3 = Inl (ERpc x)"
    | (dead) err where "r2 = Inr ()" "r3 = Inl err" "\<nexists>x. err = ERpc x"
    by (cases r2; cases r3) auto
  then show ?thesis
  proof cases
    case pre
    with assms(1) st \<open>(if is_running d then _ else _) = _\<close> p show ?thesis
      by (auto simp: run_doctor_def daemon_state_def on_sup_def andthen_def intro: does_weaken)
  next
    case ok
    with assms(1) st pre q first d3 p(3) show ?thesis
      by (auto simp: run_doctor_def daemon_state_def on_sup_def [of "sup_state env"] andthen_def intro: does_weaken)
  next
    case rpc
    with assms(1) st pre q first d3 p(3) show ?thesis
      by (auto simp: run_doctor_def daemon_state_def on_sup_def [of "sup_state env"] andthen_def intro: does_weaken)
  next
    case dead
    have gone: "sv_live (en_sup e3) = None" using first(4) dead by blast
    note s4 = start_daemon_does [OF again first(2) gone]
    have d4: "does ?M 2 (en_sup e) (en_sup e4)" using does_trans [OF d3 s4(1)] by (simp add: numeral_2_eq_2)
    note second = doctor_asked [OF q5 s4(2)]
    have d5: "does ?M 2 (en_sup e) (en_sup e5)" using does_trans [OF d4 second(1)] by (rule does_weaken) auto
    show ?thesis
    proof (cases r4)
      case (Inl x)
      with assms(1) st pre q again dead d4 s4 first p(3) show ?thesis
        by (auto simp: run_doctor_def daemon_state_def on_sup_def [of "sup_state env"] andthen_def)
    next
      case (Inr u)
      with assms(1) st pre q again q5 dead d5 s4 second first p(3) show ?thesis
        by (cases r5) (auto simp: run_doctor_def daemon_state_def on_sup_def [of "sup_state env"] andthen_def)
    qed
  qed
qed

end
