(* ===== verification/Spec2Isabelle.thy ===== *)
theory Spec2Isabelle
  imports Prelude Btree_Map Vt_Filter Wire Screen Tally Policy Session Ids Harness Seccomp Sandbox_Plan Sess_Sandbox Startup Supervisor_Log Daemon_State Jobs Text Project_Ids Project_Jobs Project_Ops Project_System Control Session_Title Session_Ops Session_Guard Daemon_System Plugin_Host Workspace_Files Profile_Merge Profiles Profile_Guard Usage Tools Server Server_Guard Server_Answers Store Attach Engine_Rpc Engine_Wsl Engine
begin

text \<open>
  A verification library for Willie, a control plane that runs coding agents inside a sandboxed WSL
  distribution. It models the Rust sources; paths below are under \<^verbatim>\<open>src/\<close>.

  \<^bold>\<open>The program.\<close> A daemon, \<^verbatim>\<open>willied\<close>, serves JSON requests over its standard input and a socket. It
  keeps a mirror of projects, jobs and sessions and streams every change of it to its clients; it clones
  and syncs projects in jobs, and starts one supervisor per session. A supervisor, \<^verbatim>\<open>willie-sess\<close>, builds
  the sandbox of its session (a mount namespace through a helper, Landlock rules, a syscall filter), owns
  the terminal, filters what the agent writes to it, serves the attached clients over a framed socket and
  keeps the session's log. The daemon watches each supervisor over a control connection and folds its log
  into the mirror. Plugins run inside the daemon behind a panic boundary. On Windows an engine installs the
  distribution, speaks to the daemon through \<^verbatim>\<open>wsl.exe\<close> and renders sessions through \<^verbatim>\<open>willie attach\<close>.

  \<^bold>\<open>The session's side.\<close>
  \<^item> \<open>Vt_Filter\<close> (\<^verbatim>\<open>crates/willie-sess/src/vt_filter.rs\<close>): the byte automaton \<open>feed\<close>, equal to a policy
    stated on whole escape sequences, whatever the cuts.
  \<^item> \<open>Wire\<close>, \<open>Screen\<close>, \<open>Tally\<close> (\<^verbatim>\<open>willie-linux/src/wire.rs\<close>, \<^verbatim>\<open>willie-sess/src/screen.rs\<close>, \<^verbatim>\<open>tally.rs\<close>): frames
    and their decoder, the replay ring and the alternate-screen tracker, the coalescing of denials.
  \<^item> \<open>Policy\<close>, \<open>Session\<close>, \<open>Ids\<close> (\<^verbatim>\<open>crates/willie-core/src/\<close>): capabilities and the guard on extra paths; the
    session record and the fold of its log; typed identifiers.
  \<^item> \<open>Harness\<close> (\<^verbatim>\<open>crates/willie-harness/src/lib.rs\<close>): what an agent can do and how it is launched.
  \<^item> \<open>Seccomp\<close>, \<open>Sandbox_Plan\<close> (\<^verbatim>\<open>willie-linux/src/sandbox/\<close>): the filter program with the interpreter it is
    proved against; the plan of mounts, the helper's words and the Landlock rules as readings of it.
  \<^item> \<open>Sess_Sandbox\<close>, \<open>Startup\<close> (\<^verbatim>\<open>willie-sess/src/sandbox/\<close>, \<^verbatim>\<open>main.rs\<close>): applying the boundary on both sides
    of the namespace, and the start of a supervisor with each of its refusals.
  \<^item> \<open>Supervisor\<close>, \<open>Supervisor_Inv\<close>, \<open>Supervisor_Log\<close> (\<^verbatim>\<open>willie-sess/src/server.rs\<close>, \<^verbatim>\<open>events.rs\<close>): the
    clients' queues, the output pump, the end of a session and the stop ladder as steps of the threads;
    invariants by rule induction, and what the log says in every state that can be reached.

  \<^bold>\<open>The daemon's side\<close> (\<^verbatim>\<open>crates/willied/src/\<close>).
  \<^item> \<open>Daemon_State\<close> (\<^verbatim>\<open>state.rs\<close>, \<^verbatim>\<open>outbound.rs\<close>): the mirror, each mutation with the event it queues.
  \<^item> \<open>Jobs\<close> (\<^verbatim>\<open>jobs.rs\<close>): the runner as steps of threads, three slots, one job per project, cancellation.
  \<^item> \<open>Project_Ids\<close>, \<open>Project_Jobs\<close>, \<open>Project_Ops\<close> (\<^verbatim>\<open>projects.rs\<close>, \<^verbatim>\<open>git.rs\<close>): names and paths, the five jobs
    over an oracle for git that knows every call before, and the requests; \<open>Project_System\<close> composes them.
  \<^item> \<open>Control\<close> (\<^verbatim>\<open>control.rs\<close>), \<open>Session_Title\<close> (\<^verbatim>\<open>session_title.rs\<close>), \<open>Session_Ops\<close> (\<^verbatim>\<open>sessions.rs\<close>,
    \<^verbatim>\<open>identity.rs\<close>, \<^verbatim>\<open>harness.rs\<close>, \<^verbatim>\<open>shell.rs\<close>, \<^verbatim>\<open>session_store.rs\<close>): the session requests, the scan and the
    threads that watch supervisors; \<open>Session_Guard\<close> shows what each request leaves behind.
  \<^item> \<open>Daemon_System\<close>: requests, job threads and watchers as one step relation over one state.
  \<^item> \<open>Plugin_Host\<close> (\<^verbatim>\<open>plugins.rs\<close>, \<^verbatim>\<open>willie-plugin-api\<close>): enablement and the panic boundary, over any plugins.
  \<^item> \<open>Workspace_Files\<close> (\<^verbatim>\<open>workspace.rs\<close>): the one place where a client's path becomes one of the file system.
  \<^item> \<open>Store\<close> (\<^verbatim>\<open>store.rs\<close>): the record of a project on disk, loaded in two stages and saved through a temporary
    file; \<open>Tools\<close> (\<^verbatim>\<open>tools.rs\<close>, \<^verbatim>\<open>manifest.rs\<close>, \<^verbatim>\<open>harness.rs\<close>): installing and updating agents.
  \<^item> \<open>Server\<close> (\<^verbatim>\<open>server.rs\<close>, \<^verbatim>\<open>handlers.rs\<close>): dispatch, every handler and the loop over both origins.
    \<open>Server_Guard\<close> shows that serving is made of the steps the other theories know, \<open>Server_Answers\<close> that
    every line is answered as it should and what plugins are told.
  \<^item> \<open>Profile_Merge\<close>, \<open>Profiles\<close> (\<^verbatim>\<open>crates/willie-plugins/profiles\<close>): merging a profile into an agent's
    files, and the requests of the plugin over an oracle for files and git; \<open>Profile_Guard\<close> shows what an
    apply writes, and that everything it replaces is saved first. \<open>Usage\<close> (\<^verbatim>\<open>willie-plugins/usage\<close>): the token
    counts read from the logs.

  \<^bold>\<open>The client's side.\<close>
  \<^item> \<open>Attach\<close> (\<^verbatim>\<open>willie-cli/src/attach.rs\<close>, \<^verbatim>\<open>willie-proto/src/hostterm.rs\<close>, \<^verbatim>\<open>willie-engine/src/embed.rs\<close>): the
    loops of a terminal client, the dialect of the app and its bridges; composed with \<open>Wire\<close>.
  \<^item> \<open>Engine_Rpc\<close> (\<^verbatim>\<open>willie-engine/src/rpc.rs\<close>): the client of the daemon as steps of its two threads.
  \<^item> \<open>Engine_Wsl\<close> (\<^verbatim>\<open>text.rs\<close>, \<^verbatim>\<open>wsl.rs\<close>, \<^verbatim>\<open>error.rs\<close>, \<^verbatim>\<open>distro.rs\<close> and others): what \<^verbatim>\<open>wsl.exe\<close> prints, the errors
    and their remedies, installing and removing the distribution.
  \<^item> \<open>Engine\<close> (\<^verbatim>\<open>daemon.rs\<close>, \<^verbatim>\<open>engine.rs\<close>, \<^verbatim>\<open>process.rs\<close>): the supervisor of the daemon's process over a
    record of everything done to processes, and the facade of the app.

  \<^bold>\<open>How code is rendered.\<close> A struct is a record, an enum a datatype, a function a definition of the same
  name (with a suffix or a prefix where HOL has the name already). Machine integers are words where their
  width matters; strings are UTF-8 bytes as characters. Fallible code returns a sum, its error on the
  left, and \<open>andthen\<close> is the \<open>?\<close> operator over an explicit state. What is outside the repository (git, the
  file system, processes, the clock, JSON and TOML, Unicode tables) is a function argument. Where a call
  changes the outside world its answer may depend on the list of all calls made so far, which the state
  keeps; so no theorem assumes that the world stands still. Threads are step relations in which the
  atomic steps are what the code does under one lock.

  \<^bold>\<open>Shared material.\<close> \<open>Prelude\<close> has the strings, the words, the machine-independent loops and the locales
  \<open>chunked\<close> (a consumer that is fed in pieces; interpreted for the terminal filter, the decoder, the replay
  ring and the screen tracker) and \<open>invariant_fold\<close> (interpreted among others for the app's bridges); \<open>Btree_Map\<close> the ordered map; \<open>Text\<close> characters
  and trimming. The locale \<open>mirror_property\<close> of \<open>Project_Jobs\<close> carries a property of the mirror through
  every job, and is interpreted for the invariants of \<open>Project_System\<close> and \<open>Daemon_System\<close>.

  \<^bold>\<open>Bounds and termination.\<close> All definitions are total. Loops over data are recursions with a measure; the
  loops of the code that may run forever are steps of relations, and where the code promises that they
  end (the stop ladder, the jobs after a shutdown) that is a theorem about well-founded moves. The search
  for a free slug needs one more try than there are taken ones and is shown to find a name with that.
  No definition uses fuel.

  \<^bold>\<open>Not modelled.\<close> Inside modelled parts: the sockets and descriptor passing below a step; the waiting times;
  interleavings inside one step (a request of the daemon is one step, though a watcher may act on another
  session while it waits for its supervisor). Left out as wholes: the PTY, signals, detaching and the
  doctor's probes (system calls); the start of the daemon's threads and sockets; the desktop shell, the
  argument parsing of the command line and the build tasks (glue, input and output); the engine's
  discovery of checkouts; types that are only serialised.
\<close>

end
